(* ===== verification/Prelude.thy ===== *)
theory Prelude
  imports Main "HOL-Library.AList" "HOL-Library.Word"
begin

text \<open>
  Shared ground of the development: the exceptions the program raises, Python's
  "state change or exception" evaluation as a state-passing function, the loops
  the components use, and facts on lists and association lists.

  A Python method that may raise is a function from its object's state to a result
  (\<open>Inl\<close> the exception, \<open>Inr\<close> the value) and the state it leaves behind. The state
  survives an exception, as it does in Python: what was mutated before a
  \<open>raise\<close> stays mutated.

  A Python \<open>dict\<close> or \<open>OrderedDict\<close> is an association list in insertion order:
  \<open>AList.update\<close> overwrites in place and appends a new key at the end, \<open>AList.delete\<close>
  removes a key, \<open>map_of\<close> looks one up.
\<close>

named_theorems py_simps \<open>unfolding of the state-and-exception combinators\<close>

section \<open>Exceptions\<close>

text \<open>
  \<open>UndecodableFile\<close> is the \<open>UnicodeDecodeError\<close> of a file that was read as text, with the bytes that
  exception carries in its \<open>object\<close>; where no one looks at them the plain constructor stands for it.
\<close>

datatype exn =
    ValueError string
  | StructError string
  | UnicodeDecodeError
  | UndecodableFile "8 word list"
  | UnicodeEncodeError
  | IndexError
  | OverflowError
  | AttributeError
  | KeyError
  | TypeError
  | AssertionError
  | RuntimeError string
  | MalformedTransaction string
  | MalformedBlock string
  | AuthenticationFailed string
  | CatchUpFailed string
  | ReorgDetected string
  | RpcError int
  | RpcTransportError string
  | ScanQueueFull
  | ScanFailed string "int option"
  | UnknownRow "int list"
  | NotArmable int
  | BadTransition int
  | NotActivatable int
  | PurgeIncomplete "int option"
  | OperationalError int
  | IntegrityError
  | InvalidStateError
  | RecursionError
  | OSError
  | SystemExit string
  | MissingCredentials string "nat list"
  | MissingConfig string "nat list"

text \<open>
  Subclass tests, as the \<open>except\<close> clauses of the program use them.
  \<open>MalformedTransaction\<close>, \<open>MalformedBlock\<close>, \<open>AuthenticationFailed\<close> and the
  Unicode errors are subclasses of \<open>ValueError\<close>; \<open>struct.error\<close> is not.
\<close>

fun is_value_error :: "exn \<Rightarrow> bool" where
  "is_value_error (ValueError _) = True"
| "is_value_error (MalformedTransaction _) = True"
| "is_value_error (MalformedBlock _) = True"
| "is_value_error (AuthenticationFailed _) = True"
| "is_value_error UnicodeDecodeError = True"
| "is_value_error (UndecodableFile _) = True"
| "is_value_error UnicodeEncodeError = True"
| "is_value_error _ = False"

section \<open>State and exceptions\<close>

type_synonym ('s, 'a) py = "'s \<Rightarrow> (exn + 'a) \<times> 's"

definition ret :: "'a \<Rightarrow> ('s, 'a) py" where
  "ret x = (\<lambda>s. (Inr x, s))"

definition throw :: "exn \<Rightarrow> ('s, 'a) py" where
  "throw e = (\<lambda>s. (Inl e, s))"

definition bind :: "('s, 'a) py \<Rightarrow> ('a \<Rightarrow> ('s, 'b) py) \<Rightarrow> ('s, 'b) py" where
  "bind m f = (\<lambda>s. case m s of (Inl e, t) \<Rightarrow> (Inl e, t) | (Inr x, t) \<Rightarrow> f x t)"

definition gets :: "('s \<Rightarrow> 'a) \<Rightarrow> ('s, 'a) py" where
  "gets f = (\<lambda>s. (Inr (f s), s))"

definition modify :: "('s \<Rightarrow> 's) \<Rightarrow> ('s, unit) py" where
  "modify f = (\<lambda>s. (Inr (), f s))"

definition lift_exn :: "exn + 'a \<Rightarrow> ('s, 'a) py" where
  "lift_exn r = (\<lambda>s. (r, s))"

definition check :: "bool \<Rightarrow> exn \<Rightarrow> ('s, unit) py" where
  "check ok e = (if ok then ret () else throw e)"

lemmas [py_simps] = ret_def throw_def bind_def gets_def modify_def lift_exn_def check_def

text \<open>\<open>for x in xs: body x\<close>, collecting what the body produces.\<close>

fun for_collect :: "('a \<Rightarrow> ('s, 'b) py) \<Rightarrow> 'a list \<Rightarrow> ('s, 'b list) py" where
  "for_collect f [] = ret []"
| "for_collect f (x # xs) = bind (f x) (\<lambda>y. bind (for_collect f xs) (\<lambda>ys. ret (y # ys)))"

definition for_each :: "('a \<Rightarrow> ('s, unit) py) \<Rightarrow> 'a list \<Rightarrow> ('s, unit) py" where
  "for_each f xs = bind (for_collect f xs) (\<lambda>_. ret ())"

lemma bind_ret [simp]: "bind (ret x) f = f x"
  by (simp add: bind_def ret_def)

lemma bind_throw [simp]: "bind (throw e) f = throw e"
  by (simp add: bind_def throw_def)

lemma bind_ret_right [simp]: "bind m ret = m"
  by (auto simp: bind_def ret_def fun_eq_iff split: sum.splits prod.splits)

lemma bind_bind: "bind (bind m f) g = bind m (\<lambda>x. bind (f x) g)"
  by (auto simp: bind_def fun_eq_iff split: sum.splits prod.splits)

lemma bind_run: "m s = (Inr x, t) \<Longrightarrow> bind m f s = f x t"
  by (simp add: bind_def)

lemma bind_run_err: "m s = (Inl e, t) \<Longrightarrow> bind m f s = (Inl e, t)"
  by (simp add: bind_def)

text \<open>A sequence returns when its parts do, and raises when one of them does.\<close>

lemma bind_returns_iff:
  "bind m f s = (Inr y, u) \<longleftrightarrow> (\<exists>x t. m s = (Inr x, t) \<and> f x t = (Inr y, u))"
  by (auto simp: bind_def split: sum.splits prod.splits)

lemma bind_raises_iff:
  "bind m f s = (Inl e, u) \<longleftrightarrow>
     m s = (Inl e, u) \<or> (\<exists>x t. m s = (Inr x, t) \<and> f x t = (Inl e, u))"
  by (auto simp: bind_def split: sum.splits prod.splits)

lemma bind_returnsE:
  assumes "bind m f s = (Inr y, u)"
  obtains x t where "m s = (Inr x, t)" and "f x t = (Inr y, u)"
  using assms by (auto simp: bind_returns_iff)

lemma ret_returns_iff [simp]: "ret x s = (r, t) \<longleftrightarrow> r = Inr x \<and> t = s"
  by (auto simp: ret_def)

lemma throw_iff [simp]: "throw e s = (r, t) \<longleftrightarrow> r = Inl e \<and> t = s"
  by (auto simp: throw_def)

lemma gets_iff [simp]: "gets f s = (r, t) \<longleftrightarrow> r = Inr (f s) \<and> t = s"
  by (auto simp: gets_def)

lemma check_iff [simp]:
  "check ok e s = (r, t) \<longleftrightarrow> r = (if ok then Inr () else Inl e) \<and> t = s"
  by (auto simp: check_def)

lemma bind_check [simp]:
  "bind (check ok e) f = (if ok then f () else throw e)"
  by (simp add: check_def)

lemma for_collect_append:
  "for_collect f (xs @ ys) =
     bind (for_collect f xs) (\<lambda>as. bind (for_collect f ys) (\<lambda>bs. ret (as @ bs)))"
  by (induction xs) (simp_all add: bind_bind)

lemma for_each_Nil [simp]: "for_each f [] = ret ()"
  by (simp add: for_each_def)

lemma for_each_Cons: "for_each f (x # xs) = bind (f x) (\<lambda>_. for_each f xs)"
  by (simp add: for_each_def bind_bind)

lemma for_each_append: "for_each f (xs @ ys) = bind (for_each f xs) (\<lambda>_. for_each f ys)"
  by (induction xs) (simp_all add: for_each_Cons bind_bind)

text \<open>A loop whose body always returns is a fold of the body's effect.\<close>

lemma for_each_total:
  assumes "\<And>x s. x \<in> set xs \<Longrightarrow> f x s = (Inr (), g x s)"
  shows "for_each f xs s = (Inr (), fold g xs s)"
  using assms
  by (induction xs arbitrary: s) (simp_all add: for_each_Cons bind_run ret_def)

lemma for_each_invariant:
  assumes "for_each f xs s = (r, t)" and "P s"
    and "\<And>x s r t. x \<in> set xs \<Longrightarrow> P s \<Longrightarrow> f x s = (r, t) \<Longrightarrow> P t"
  shows "P t"
  using assms
proof (induction xs arbitrary: s)
  case Nil
  then show ?case by simp
next
  case (Cons x xs)
  obtain r1 t1 where f: "f x s = (r1, t1)" by fastforce
  with Cons.prems have "P t1" by auto
  show ?case
  proof (cases r1)
    case (Inl e)
    with f Cons.prems(1) \<open>P t1\<close> show ?thesis by (simp add: for_each_Cons bind_def)
  next
    case (Inr u)
    with f Cons.prems(1) have "for_each f xs t1 = (r, t)"
      by (simp add: for_each_Cons bind_def)
    from this \<open>P t1\<close> Cons.prems(3) show ?thesis by (rule Cons.IH) auto
  qed
qed

section \<open>Two runs that agree on a view of the state\<close>

text \<open>
  \<open>sim v R m n\<close>: from states that agree on the view \<open>v\<close>, \<open>m\<close> and \<open>n\<close> raise the same
  exception or return values related by \<open>R\<close>, and leave states that agree on \<open>v\<close>. With it
  a component shows which part of its state an operation can depend on.
\<close>

definition same_outcome :: "('a \<Rightarrow> 'b \<Rightarrow> bool) \<Rightarrow> exn + 'a \<Rightarrow> exn + 'b \<Rightarrow> bool" where
  "same_outcome R r q = (case (r, q) of (Inl e, Inl e') \<Rightarrow> e = e' | (Inr x, Inr y) \<Rightarrow> R x y | _ \<Rightarrow> False)"

abbreviation any :: "'a \<Rightarrow> 'b \<Rightarrow> bool" where
  "any \<equiv> \<lambda>_ _. True"

lemma same_outcome_simps [simp]:
  "same_outcome R (Inl e) (Inl e') \<longleftrightarrow> e = e'" "same_outcome R (Inr x) (Inr y) \<longleftrightarrow> R x y"
  "\<not> same_outcome R (Inl e) (Inr y)" "\<not> same_outcome R (Inr x) (Inl e)"
  by (simp_all add: same_outcome_def)

lemma same_outcome_any: "same_outcome any r r"
  by (cases r) auto

definition sim :: "('s \<Rightarrow> 'v) \<Rightarrow> ('a \<Rightarrow> 'b \<Rightarrow> bool) \<Rightarrow> ('s, 'a) py \<Rightarrow> ('s, 'b) py \<Rightarrow> bool" where
  "sim v R m n \<longleftrightarrow> (\<forall>s t. v s = v t \<longrightarrow>
     v (snd (m s)) = v (snd (n t)) \<and> same_outcome R (fst (m s)) (fst (n t)))"

lemma simD:
  "sim v R m n \<Longrightarrow> v s = v t \<Longrightarrow> v (snd (m s)) = v (snd (n t))"
  "sim v R m n \<Longrightarrow> v s = v t \<Longrightarrow> same_outcome R (fst (m s)) (fst (n t))"
  by (simp_all add: sim_def)

lemma sim_bind:
  assumes "sim v R m n" and "\<And>x y. R x y \<Longrightarrow> sim v S (k x) (l y)"
  shows "sim v S (bind m k) (bind n l)"
  unfolding sim_def
proof (intro allI impI)
  fix s t assume "v s = v t"
  obtain r s' q t' where mn: "m s = (r, s')" "n t = (q, t')" by fastforce
  with simD [OF assms(1) \<open>v s = v t\<close>] have a: "v s' = v t'" "same_outcome R r q" by simp_all
  show "v (snd (bind m k s)) = v (snd (bind n l t)) \<and>
    same_outcome S (fst (bind m k s)) (fst (bind n l t))"
  proof (cases r)
    case (Inl e)
    with a mn show ?thesis by (cases q) (auto simp: bind_def)
  next
    case (Inr x)
    with a mn obtain y where "q = Inr y" "R x y" by (cases q) auto
    with assms(2) [of x y] a(1) mn Inr show ?thesis by (simp add: bind_def sim_def)
  qed
qed

lemma sim_ret: "R x y \<Longrightarrow> sim v R (ret x) (ret y)"
  by (simp add: sim_def ret_def)

lemma sim_throw: "sim v R (throw e) (throw e)"
  by (simp add: sim_def throw_def)

lemma sim_modify: "(\<And>s t. v s = v t \<Longrightarrow> v (p s) = v (q t)) \<Longrightarrow> sim v any (modify p) (modify q)"
  by (simp add: sim_def modify_def)

lemma sim_collect: "(\<And>x. sim v any (f x) (f x)) \<Longrightarrow> sim v any (for_collect f xs) (for_collect f xs)"
proof (induction xs)
  case Nil
  show ?case by (simp add: sim_ret)
next
  case (Cons x xs)
  show ?case unfolding for_collect.simps
    by (rule sim_bind [OF Cons.prems], rule sim_bind [OF Cons.IH [OF Cons.prems]], rule sim_ret, simp)
qed

lemma sim_for_each: "(\<And>x. sim v any (f x) (f x)) \<Longrightarrow> sim v any (for_each f xs) (for_each f xs)"
  unfolding for_each_def by (rule sim_bind [OF sim_collect]) (simp_all add: sim_ret)

section \<open>Results without state\<close>

definition rbind :: "exn + 'a \<Rightarrow> ('a \<Rightarrow> exn + 'b) \<Rightarrow> exn + 'b" where
  "rbind r f = (case r of Inl e \<Rightarrow> Inl e | Inr x \<Rightarrow> f x)"

lemma rbind_simps [simp]:
  "rbind (Inl e) f = Inl e" "rbind (Inr x) f = f x"
  by (simp_all add: rbind_def)

lemma rbind_Inr_iff: "rbind r f = Inr y \<longleftrightarrow> (\<exists>x. r = Inr x \<and> f x = Inr y)"
  by (cases r) auto

lemma rbind_Inl_iff: "rbind r f = Inl e \<longleftrightarrow> r = Inl e \<or> (\<exists>x. r = Inr x \<and> f x = Inl e)"
  by (cases r) auto

text \<open>A result that raises nothing but \<open>ValueError\<close> and its subclasses.\<close>

definition value_errors :: "exn + 'a \<Rightarrow> bool" where
  "value_errors r \<longleftrightarrow> (\<forall>e. r = Inl e \<longrightarrow> is_value_error e)"

lemma value_errors_simps [simp]:
  "value_errors (Inr x)" "value_errors (Inl e) = is_value_error e"
  "value_errors (if b then r else r') \<longleftrightarrow> (b \<longrightarrow> value_errors r) \<and> (\<not> b \<longrightarrow> value_errors r')"
  by (auto simp: value_errors_def)

lemma value_errors_rbind:
  "value_errors r \<Longrightarrow> (\<And>x. r = Inr x \<Longrightarrow> value_errors (f x)) \<Longrightarrow> value_errors (rbind r f)"
  by (cases r) simp_all

lemma value_errors_ret [simp]: "value_errors (rbind r (\<lambda>x. Inr (g x))) = value_errors r"
  by (cases r) (auto simp: value_errors_def)

section \<open>Lists\<close>

text \<open>\<open>if x not in xs: xs.append(x)\<close>\<close>

definition append_new :: "'a \<Rightarrow> 'a list \<Rightarrow> 'a list" where
  "append_new x xs = (if x \<in> set xs then xs else xs @ [x])"

lemma set_append_new [simp]: "set (append_new x xs) = insert x (set xs)"
  by (auto simp: append_new_def)

lemma distinct_append_new [simp]: "distinct (append_new x xs) \<longleftrightarrow> distinct xs"
  by (auto simp: append_new_def)

lemma append_new_not_Nil [simp]: "append_new x xs \<noteq> []"
  by (auto simp: append_new_def)

lemma set_fold_append_new [simp]: "set (fold append_new ys xs) = set xs \<union> set ys"
  by (induction ys arbitrary: xs) auto

lemma distinct_fold_append_new [simp]: "distinct (fold append_new ys xs) \<longleftrightarrow> distinct xs"
  by (induction ys arbitrary: xs) auto

lemma fold_append_new_Nil_iff [simp]: "fold append_new ys xs = [] \<longleftrightarrow> xs = [] \<and> ys = []"
  by (metis set_empty set_fold_append_new Un_empty)

section \<open>Association lists\<close>

abbreviation dict_ok :: "('k \<times> 'v) list \<Rightarrow> bool" where
  "dict_ok d \<equiv> distinct (map fst d)"

definition dict_get :: "('k \<times> 'v) list \<Rightarrow> 'k \<Rightarrow> 'v \<Rightarrow> 'v" where
  "dict_get d k dflt = (case map_of d k of None \<Rightarrow> dflt | Some v \<Rightarrow> v)"

lemma dict_get_update: "dict_get (AList.update k v d) k' x = (if k' = k then v else dict_get d k' x)"
  by (simp add: dict_get_def update_conv')

lemma dict_get_delete: "dict_get (AList.delete k d) k' x = (if k' = k then x else dict_get d k' x)"
  by (simp add: dict_get_def delete_conv')

lemma length_update_le: "length (AList.update k v d) \<le> Suc (length d)"
  by (induction d) auto

lemma length_update:
  "length (AList.update k v d) = (if k \<in> fst ` set d then length d else Suc (length d))"
  by (induction d) auto

lemma length_delete_less: "k \<in> fst ` set d \<Longrightarrow> length (AList.delete k d) < length d"
  by (induction d) (auto simp: AList.delete_eq le_imp_less_Suc)

lemma update_append_new:
  "k \<notin> fst ` set d \<Longrightarrow> AList.update k v d = d @ [(k, v)]"
  by (induction d) auto

section \<open>Decimal numbers in messages\<close>

fun nat_str :: "nat \<Rightarrow> string" where
  "nat_str n = (if n < 10 then [''0123456789'' ! n]
                else nat_str (n div 10) @ [''0123456789'' ! (n mod 10)])"

declare nat_str.simps [simp del]

definition int_str :: "int \<Rightarrow> string" where
  "int_str i = (if i < 0 then ''-'' @ nat_str (nat (- i)) else nat_str (nat i))"

end
