(* ===== verification/Bytes.thy ===== *)
theory Bytes
  imports Prelude "HOL-Library.Word"
begin

text \<open>
  Python's \<open>bytes\<close> and the standard-library conversions the program uses on them:
  little- and big-endian integers (\<open>int.from_bytes\<close>, \<open>int.to_bytes\<close>, \<open>struct.pack\<close>
  and \<open>struct.unpack\<close>), slices, and the hexadecimal text form (\<open>bytes.hex\<close>,
  \<open>bytes.fromhex\<close>). A byte is an \<open>8 word\<close>, an integer is a Python \<open>int\<close>.
\<close>

unbundle bit_operations_syntax

type_synonym byte = "8 word"
type_synonym bytes = "8 word list"

named_theorems byte_simps \<open>lengths, bounds and conversions of byte strings\<close>

definition zeros :: "nat \<Rightarrow> bytes" where
  "zeros n = replicate n 0"

definition ascii :: "string \<Rightarrow> bytes" where
  "ascii s = map (\<lambda>c. word_of_nat (of_char c)) s"

lemma length_zeros [simp]: "length (zeros n) = n"
  by (simp add: zeros_def)

lemma length_ascii [simp]: "length (ascii s) = length s"
  by (simp add: ascii_def)

section \<open>Integers as bytes\<close>

fun le_int :: "bytes \<Rightarrow> int" where
  "le_int [] = 0"
| "le_int (b # bs) = uint b + 256 * le_int bs"

fun to_le :: "nat \<Rightarrow> int \<Rightarrow> bytes" where
  "to_le 0 v = []"
| "to_le (Suc k) v = word_of_int v # to_le k (v div 256)"

definition be_int :: "bytes \<Rightarrow> int" where
  "be_int bs = le_int (rev bs)"

definition to_be :: "nat \<Rightarrow> int \<Rightarrow> bytes" where
  "to_be k v = rev (to_le k v)"

lemma length_to_le [simp]: "length (to_le k v) = k"
  by (induction k arbitrary: v) auto

lemma length_to_be [simp]: "length (to_be k v) = k"
  by (simp add: to_be_def)

lemma le_int_nonneg [simp]: "0 \<le> le_int bs"
  by (induction bs) auto

lemma uint_byte_less: "uint (b :: byte) < 256"
  using uint_lt2p [of b] by simp

lemma le_int_less: "le_int bs < 256 ^ length bs"
proof (induction bs)
  case Nil
  then show ?case by simp
next
  case (Cons b bs)
  then have "256 * le_int bs \<le> 256 * (256 ^ length bs - 1)" by simp
  with uint_byte_less [of b] show ?case by simp
qed

lemma uint_byte_of_int [simp]: "uint (word_of_int v :: byte) = v mod 256"
  by (simp add: uint_word_of_int)

lemma le_int_to_le [simp]: "le_int (to_le k v) = v mod 256 ^ k"
proof (induction k arbitrary: v)
  case 0
  then show ?case by simp
next
  case (Suc k)
  have "le_int (to_le (Suc k) v) = v mod 256 + 256 * (v div 256 mod 256 ^ k)"
    using Suc by simp
  also have "\<dots> = v mod (256 * 256 ^ k)"
    by (simp add: zmod_zmult2_eq)
  finally show ?case by simp
qed

lemma to_le_le_int [simp]: "to_le (length bs) (le_int bs) = bs"
proof (induction bs)
  case Nil
  then show ?case by simp
next
  case (Cons b bs)
  have "(uint b + 256 * le_int bs) div 256 = le_int bs"
    using uint_byte_less [of b] by simp
  moreover have "(word_of_int (uint b + 256 * le_int bs) :: byte) = b"
  proof -
    have "uint (word_of_int (uint b + 256 * le_int bs) :: byte) = uint b"
      using uint_byte_less [of b] by (simp only: uint_byte_of_int) simp
    then show ?thesis by (simp only: word_uint_eq_iff)
  qed
  ultimately show ?case using Cons by simp
qed

lemma le_int_inject: "length as = length bs \<Longrightarrow> le_int as = le_int bs \<Longrightarrow> as = bs"
  by (metis to_le_le_int)

lemma to_le_inject:
  "0 \<le> v \<Longrightarrow> v < 256 ^ k \<Longrightarrow> 0 \<le> w \<Longrightarrow> w < 256 ^ k \<Longrightarrow> to_le k v = to_le k w \<Longrightarrow> v = w"
  by (metis le_int_to_le mod_pos_pos_trivial)

lemma le_int_append: "le_int (as @ bs) = le_int as + 256 ^ length as * le_int bs"
  by (induction as) (simp_all add: algebra_simps)

lemma le_int_zeros [simp]: "le_int (zeros n) = 0"
  by (induction n) (simp_all add: zeros_def)

lemma be_int_to_be [simp]: "be_int (to_be k v) = v mod 256 ^ k"
  by (simp add: be_int_def to_be_def)

lemma be_int_nonneg [simp]: "0 \<le> be_int bs"
  by (simp add: be_int_def)

lemma be_int_less: "be_int bs < 256 ^ length bs"
  using le_int_less [of "rev bs"] by (simp add: be_int_def)

text \<open>\<open>struct.pack\<close> with a little-endian unsigned field of \<open>k\<close> bytes: out of range raises.\<close>

definition pack_le :: "nat \<Rightarrow> int \<Rightarrow> exn + bytes" where
  "pack_le k v = (if 0 \<le> v \<and> v < 256 ^ k then Inr (to_le k v)
                  else Inl (StructError ''argument out of range''))"

text \<open>\<open>struct.unpack_from\<close>: \<open>k\<close> bytes at an offset, raising when they are not all there.\<close>

definition unpack_from :: "nat \<Rightarrow> bytes \<Rightarrow> nat \<Rightarrow> exn + int" where
  "unpack_from k buf off =
     (if off + k \<le> length buf then Inr (le_int (take k (drop off buf)))
      else Inl (StructError ''unpack_from requires a larger buffer''))"

section \<open>Slices\<close>

text \<open>\<open>xs[i:j]\<close> for \<open>0 \<le> i\<close> and \<open>0 \<le> j\<close>; Python clamps both ends.\<close>

definition slice :: "nat \<Rightarrow> nat \<Rightarrow> 'a list \<Rightarrow> 'a list" where
  "slice i j xs = take (j - i) (drop i xs)"

lemma length_slice [simp]: "length (slice i j xs) = min (j - i) (length xs - i)"
  by (simp add: slice_def)

lemma slice_append_exact:
  "length pre = i \<Longrightarrow> j = i + length mid \<Longrightarrow> slice i j (pre @ mid @ post) = mid"
  by (simp add: slice_def)

lemma slice_concat:
  assumes "i \<le> j" and "j \<le> k"
  shows "slice i j xs @ slice j k xs = slice i k xs"
proof -
  have "take ((j - i) + (k - j)) (drop i xs) = take (j - i) (drop i xs) @ take (k - j) (drop j xs)"
    using assms by (simp only: take_add drop_drop) simp
  with assms show ?thesis by (simp add: slice_def)
qed

text \<open>The pieces a loop over \<open>range(0, len(xs), n)\<close> sees: all full but perhaps the last.\<close>

function chunks :: "nat \<Rightarrow> 'a list \<Rightarrow> 'a list list" where
  "chunks n xs = (if n = 0 \<or> xs = [] then [] else take n xs # chunks n (drop n xs))"
  by pat_completeness auto
termination
  by (relation "measure (\<lambda>(n, xs). length xs)") auto

declare chunks.simps [simp del]

lemma chunks_Nil [simp]: "chunks n [] = []"
  by (simp add: chunks.simps)

lemma chunks_step: "0 < n \<Longrightarrow> xs \<noteq> [] \<Longrightarrow> chunks n xs = take n xs # chunks n (drop n xs)"
  by (simp add: chunks.simps [of n xs])

lemma concat_chunks [simp]: "0 < n \<Longrightarrow> concat (chunks n xs) = xs"
  by (induction n xs rule: chunks.induct) (subst chunks.simps, simp)

lemma chunks_append: "0 < n \<Longrightarrow> length xs = n \<Longrightarrow> chunks n (xs @ ys) = xs # chunks n ys"
  by (subst chunks_step) auto

section \<open>Hexadecimal text\<close>

definition hex_digits :: string where
  "hex_digits = ''0123456789abcdef''"

definition hex_char :: "nat \<Rightarrow> char" where
  "hex_char n = hex_digits ! n"

fun hex :: "bytes \<Rightarrow> string" where
  "hex [] = []"
| "hex (b # bs) = hex_char (unat b div 16) # hex_char (unat b mod 16) # hex bs"

definition is_space :: "char \<Rightarrow> bool" where
  "is_space c \<longleftrightarrow> (let n = (of_char c :: nat) in n = 32 \<or> (9 \<le> n \<and> n \<le> 13))"

definition hex_value :: "char \<Rightarrow> nat option" where
  "hex_value c = (let n = (of_char c :: nat) in
     if 48 \<le> n \<and> n \<le> 57 then Some (n - 48)
     else if 97 \<le> n \<and> n \<le> 102 then Some (n - 87)
     else if 65 \<le> n \<and> n \<le> 70 then Some (n - 55)
     else None)"

text \<open>
  \<open>bytes.fromhex\<close>: white space is skipped between bytes, never inside one; upper and
  lower case digits are accepted; anything else is a \<open>ValueError\<close>.
\<close>

fun fromhex :: "string \<Rightarrow> exn + bytes" where
  "fromhex [] = Inr []"
| "fromhex (c # cs) =
     (if is_space c then fromhex cs
      else case cs of
        [] \<Rightarrow> Inl (ValueError ''non-hexadecimal number found in fromhex() arg'')
      | d # rest \<Rightarrow>
          (case (hex_value c, hex_value d) of
             (Some hi, Some lo) \<Rightarrow>
               rbind (fromhex rest) (\<lambda>bs. Inr (word_of_nat (16 * hi + lo) # bs))
           | _ \<Rightarrow> Inl (ValueError ''non-hexadecimal number found in fromhex() arg'')))"

lemma hex_value_table: "\<forall>n \<in> set [0..<16]. hex_value (hex_char n) = Some n"
  by code_simp

lemma hex_value_hex_char [simp]: "n < 16 \<Longrightarrow> hex_value (hex_char n) = Some n"
  using hex_value_table by simp

lemma not_space_hex_char [simp]: "n < 16 \<Longrightarrow> \<not> is_space (hex_char n)"
  using hex_value_hex_char [of n]
  by (auto simp: hex_value_def is_space_def Let_def split: if_splits)

lemma unat_byte_less: "unat (b :: byte) < 256"
  using unsigned_less [of b] by simp

lemma fromhex_hex [simp]: "fromhex (hex bs) = Inr bs"
proof (induction bs)
  case Nil
  then show ?case by simp
next
  case (Cons b bs)
  have "unat b div 16 < 16" using unat_byte_less [of b] by simp
  moreover have "(word_of_nat (16 * (unat b div 16) + unat b mod 16) :: byte) = b"
    by simp
  ultimately show ?case using Cons by simp
qed

lemma length_hex [simp]: "length (hex bs) = 2 * length bs"
  by (induction bs) auto

lemma hex_inject: "hex as = hex bs \<Longrightarrow> as = bs"
  by (metis fromhex_hex sum.inject(2))

lemma fromhex_is_value_error: "fromhex s = Inl e \<Longrightarrow> is_value_error e"
  by (induction s rule: fromhex.induct)
     (auto split: if_splits list.splits option.splits prod.splits simp: rbind_Inl_iff)

end
