(* ===== verification/Keys.thy ===== *)
theory Keys
  imports Sha256
begin

text \<open>
  \<open>match/keys.py\<close>: the HKDF that derives the two subkeys, and the keyed hashes the
  matching loop compares. The lemmas show that HKDF computes RFC 5869 for every length
  it accepts, that an outpoint's serialisation loses nothing, that the two domain tags
  keep scripts and outpoints apart under one key, and that the display form of a txid
  converts both ways.
\<close>

section \<open>Constants\<close>

definition HASH_LEN :: nat where
  "HASH_LEN = 32"

definition INFO_MATCH :: bytes where
  "INFO_MATCH = ascii ''coldwatch/match/v1''"

definition INFO_STORE :: bytes where
  "INFO_STORE = ascii ''coldwatch/store/v1''"

definition TAG_SPK :: bytes where
  "TAG_SPK = ascii ''spk''"

definition TAG_OUTPOINT :: bytes where
  "TAG_OUTPOINT = ascii ''outpoint''"

definition MIN_MASTER_BYTES :: nat where
  "MIN_MASTER_BYTES = 16"

record subkeys =
  sk_match :: bytes
  sk_store :: bytes

section \<open>HKDF\<close>

text \<open>\<open>bytes([counter])\<close>: a counter beyond a byte would raise.\<close>

definition byte_of :: "int \<Rightarrow> exn + bytes" where
  "byte_of v = (if 0 \<le> v \<and> v < 256 then Inr [word_of_int v]
                else Inl (ValueError ''bytes must be in range(0, 256)''))"

function hkdf_expand :: "bytes \<Rightarrow> bytes \<Rightarrow> nat \<Rightarrow> bytes \<Rightarrow> bytes \<Rightarrow> nat \<Rightarrow> exn + bytes" where
  "hkdf_expand prk info len out block counter =
     (if length out < len then
        case byte_of (int counter) of
          Inl e \<Rightarrow> Inl e
        | Inr c \<Rightarrow>
            (let block' = hmac_sha256 prk (block @ info @ c)
             in hkdf_expand prk info len (out @ block') block' (counter + 1))
      else Inr (take len out))"
  by pat_completeness auto
termination
  by (relation "measure (\<lambda>(prk, info, len, out, block, counter). len - length out)") auto

declare hkdf_expand.simps [simp del]

definition hkdf :: "bytes \<Rightarrow> bytes \<Rightarrow> bytes \<Rightarrow> int \<Rightarrow> exn + bytes" where
  "hkdf ikm info salt len =
     (if len < 1 \<or> len > 255 * int HASH_LEN
      then Inl (ValueError ''length out of range for HKDF-SHA256'')
      else let prk = hmac_sha256 (if salt = [] then zeros HASH_LEN else salt) ikm
           in hkdf_expand prk info (nat len) [] [] 1)"

definition derive_subkeys :: "bytes \<Rightarrow> exn + subkeys" where
  "derive_subkeys master =
     (if length master < MIN_MASTER_BYTES then Inl (ValueError ''master secret too short'')
      else rbind (hkdf master INFO_MATCH [] (int HASH_LEN)) (\<lambda>m.
           rbind (hkdf master INFO_STORE [] (int HASH_LEN)) (\<lambda>st.
           Inr \<lparr>sk_match = m, sk_store = st\<rparr>)))"

section \<open>Keyed hashes\<close>

definition tagged_message :: "bytes \<Rightarrow> bytes \<Rightarrow> bytes" where
  "tagged_message tag payload = tag @ [0] @ payload"

definition tagged :: "bytes \<Rightarrow> bytes \<Rightarrow> bytes \<Rightarrow> bytes" where
  "tagged key tag payload = hmac_sha256 key (tagged_message tag payload)"

definition spk_hmac :: "bytes \<Rightarrow> bytes \<Rightarrow> bytes" where
  "spk_hmac k_match spk = tagged k_match TAG_SPK spk"

definition canonical_outpoint :: "bytes \<Rightarrow> int \<Rightarrow> exn + bytes" where
  "canonical_outpoint txid vout =
     (if length txid \<noteq> 32 then Inl (ValueError ''txid must be 32 bytes'')
      else if \<not> (0 \<le> vout \<and> vout \<le> 4294967295) then Inl (ValueError ''vout out of range'')
      else rbind (pack_le 4 vout) (\<lambda>v. Inr (txid @ v)))"

definition outpoint_hmac :: "bytes \<Rightarrow> bytes \<Rightarrow> int \<Rightarrow> exn + bytes" where
  "outpoint_hmac k_match txid vout =
     rbind (canonical_outpoint txid vout) (\<lambda>op. Inr (tagged k_match TAG_OUTPOINT op))"

section \<open>Display order\<close>

definition txid_from_display :: "string \<Rightarrow> exn + bytes" where
  "txid_from_display display_hex =
     rbind (fromhex display_hex) (\<lambda>raw.
       if length raw \<noteq> 32 then Inl (ValueError ''txid must be 32 bytes'') else Inr (rev raw))"

definition txid_to_display :: "bytes \<Rightarrow> exn + string" where
  "txid_to_display txid =
     (if length txid \<noteq> 32 then Inl (ValueError ''txid must be 32 bytes'')
      else Inr (hex (rev txid)))"

section \<open>HKDF computes RFC 5869\<close>

text \<open>The blocks \<open>T(1), T(2), \<dots>\<close> of the expand step, as the RFC defines them.\<close>

fun hkdf_block :: "bytes \<Rightarrow> bytes \<Rightarrow> nat \<Rightarrow> bytes" where
  "hkdf_block prk info 0 = []"
| "hkdf_block prk info (Suc n) =
     hmac_sha256 prk (hkdf_block prk info n @ info @ [word_of_nat (Suc n)])"

definition hkdf_stream :: "bytes \<Rightarrow> bytes \<Rightarrow> nat \<Rightarrow> bytes" where
  "hkdf_stream prk info n = concat (map (hkdf_block prk info) [1..<Suc n])"

lemma length_hkdf_stream [simp]: "length (hkdf_stream prk info n) = 32 * n"
  by (induction n) (simp_all add: hkdf_stream_def)

lemma hkdf_stream_Suc:
  "hkdf_stream prk info (Suc n) = hkdf_stream prk info n @ hkdf_block prk info (Suc n)"
  by (simp add: hkdf_stream_def)

text \<open>
  The loop from its \<open>n\<close>-th iteration on: whatever is still missing fits in the counter's
  range, so it ends with the first \<open>len\<close> bytes of the stream.
\<close>

lemma hkdf_expand_from:
  assumes "len \<le> 255 * 32" and "n \<le> 255"
  shows "\<exists>m \<ge> n. len \<le> 32 * m \<and>
    hkdf_expand prk info len (hkdf_stream prk info n) (hkdf_block prk info n) (Suc n) =
      Inr (take len (hkdf_stream prk info m))"
  using assms
proof (induction "256 - n" arbitrary: n rule: less_induct)
  case less
  show ?case
  proof (cases "32 * n < len")
    case True
    with less.prems have "n < 255" by simp
    then have c: "byte_of (int (Suc n)) = Inr [word_of_nat (Suc n)]"
      by (simp add: byte_of_def)
    from \<open>n < 255\<close> have "256 - Suc n < 256 - n" and "Suc n \<le> 255" by simp_all
    from less.hyps [OF this(1) less.prems(1) this(2)] obtain m where "m \<ge> Suc n" and
      m: "len \<le> 32 * m" "hkdf_expand prk info len (hkdf_stream prk info (Suc n))
        (hkdf_block prk info (Suc n)) (Suc (Suc n)) = Inr (take len (hkdf_stream prk info m))"
      by blast
    from True c m(2) have "hkdf_expand prk info len (hkdf_stream prk info n)
        (hkdf_block prk info n) (Suc n) = Inr (take len (hkdf_stream prk info m))"
      by (subst hkdf_expand.simps) (simp add: Let_def hkdf_stream_Suc del: of_nat_Suc)
    with \<open>m \<ge> Suc n\<close> m(1) show ?thesis by (meson Suc_leD)
  next
    case False
    then have "hkdf_expand prk info len (hkdf_stream prk info n) (hkdf_block prk info n) (Suc n) =
        Inr (take len (hkdf_stream prk info n))"
      by (subst hkdf_expand.simps) simp
    with False show ?thesis by (intro exI [of _ n]) simp
  qed
qed

lemma take_hkdf_stream:
  "n \<le> m \<Longrightarrow> len \<le> 32 * n \<Longrightarrow> take len (hkdf_stream prk info m) = take len (hkdf_stream prk info n)"
proof (induction m)
  case 0
  then show ?case by simp
next
  case (Suc m)
  then show ?case by (cases "n = Suc m") (simp_all add: hkdf_stream_Suc)
qed

lemma hkdf_expand_stream:
  assumes "len \<le> 255 * 32"
  shows "hkdf_expand prk info len [] [] (Suc 0) = Inr (take len (hkdf_stream prk info 255))"
proof -
  obtain m where m: "len \<le> 32 * m" and
    e: "hkdf_expand prk info len [] [] (Suc 0) = Inr (take len (hkdf_stream prk info m))"
    using hkdf_expand_from [OF assms, of 0 prk info] by (auto simp: hkdf_stream_def)
  have "take len (hkdf_stream prk info m) = take len (hkdf_stream prk info 255)"
  proof (cases "m \<le> 255")
    case True
    from take_hkdf_stream [OF this m] show ?thesis by simp
  next
    case False
    then have "255 \<le> m" by simp
    moreover from assms have "len \<le> 32 * 255" by simp
    ultimately show ?thesis by (rule take_hkdf_stream)
  qed
  with e show ?thesis by (simp only:)
qed

lemma hkdf_returns:
  assumes "1 \<le> len" and "len \<le> 8160"
  shows "hkdf ikm info salt len =
    Inr (take (nat len) (hkdf_stream
      (hmac_sha256 (if salt = [] then zeros 32 else salt) ikm) info 255))"
  using assms by (simp add: hkdf_def HASH_LEN_def Let_def hkdf_expand_stream)

lemma derive_subkeys_returns:
  assumes "16 \<le> length master"
  obtains sk where "derive_subkeys master = Inr sk"
    and "length (sk_match sk) = 32" and "length (sk_store sk) = 32"
proof -
  have "length (take 32 (hkdf_stream prk info 255)) = 32" for prk info
    by simp
  with assms that show thesis
    by (simp add: derive_subkeys_def MIN_MASTER_BYTES_def HASH_LEN_def hkdf_returns)
qed

section \<open>Keyed hashes: total on well-formed outpoints\<close>

definition wf_outpoint :: "bytes \<Rightarrow> int \<Rightarrow> bool" where
  "wf_outpoint txid vout \<longleftrightarrow> length txid = 32 \<and> 0 \<le> vout \<and> vout < 4294967296"

definition op_key :: "bytes \<Rightarrow> bytes \<Rightarrow> int \<Rightarrow> bytes" where
  "op_key k txid vout = tagged k TAG_OUTPOINT (txid @ to_le 4 vout)"

lemma canonical_outpoint_wf: "wf_outpoint txid vout \<Longrightarrow> canonical_outpoint txid vout = Inr (txid @ to_le 4 vout)"
  by (simp add: canonical_outpoint_def wf_outpoint_def pack_le_def)

lemma outpoint_hmac_wf [simp]: "wf_outpoint txid vout \<Longrightarrow> outpoint_hmac k txid vout = Inr (op_key k txid vout)"
  by (simp add: outpoint_hmac_def canonical_outpoint_wf op_key_def)

lemma canonical_outpoint_Inr_iff:
  "canonical_outpoint txid vout = Inr b \<longleftrightarrow> wf_outpoint txid vout \<and> b = txid @ to_le 4 vout"
  by (auto simp: canonical_outpoint_def wf_outpoint_def pack_le_def)

lemma outpoint_hmac_raises:
  "outpoint_hmac k txid vout = Inl e \<Longrightarrow> \<not> wf_outpoint txid vout \<and> is_value_error e"
  by (auto simp: outpoint_hmac_def canonical_outpoint_def wf_outpoint_def pack_le_def
      split: if_splits)

lemma length_spk_hmac [simp]: "length (spk_hmac k spk) = 32"
  by (simp add: spk_hmac_def tagged_def)

section \<open>Properties\<close>

text \<open>
  C36: \<open>hkdf\<close> computes RFC 5869 for every key, info and salt. For a length from 1 to
  255 * 32 it returns that many bytes of the stream \<open>T(1), T(2), \<dots>\<close> under the extracted
  key, an absent salt being 32 zero bytes; any other length is a \<open>ValueError\<close>.
\<close>

theorem hkdf_rfc5869:
  "hkdf ikm info salt len =
     (if 1 \<le> len \<and> len \<le> 8160
      then Inr (take (nat len) (hkdf_stream
             (hmac_sha256 (if salt = [] then zeros 32 else salt) ikm) info 255))
      else Inl (ValueError ''length out of range for HKDF-SHA256''))"
  using hkdf_returns [of len ikm info salt] by (auto simp: hkdf_def HASH_LEN_def)

lemma tag_bytes:
  "TAG_SPK = [115, 112, 107]" "TAG_OUTPOINT = [111, 117, 116, 112, 111, 105, 110, 116]"
  by (simp_all add: TAG_SPK_def TAG_OUTPOINT_def ascii_def of_char_def)

text \<open>
  The messages under the matching key cannot be confused. A script is never hashed as
  the message of an outpoint, two scripts are never hashed as the same message, and
  neither are two outpoints: every coin and every script has an input of its own.
\<close>

theorem hash_inputs_separate:
  assumes "canonical_outpoint txid vout = Inr a" and "canonical_outpoint txid' vout' = Inr b"
  shows "tagged_message TAG_SPK spk \<noteq> tagged_message TAG_OUTPOINT a
    \<and> (tagged_message TAG_SPK spk = tagged_message TAG_SPK spk' \<longleftrightarrow> spk = spk')
    \<and> (tagged_message TAG_OUTPOINT a = tagged_message TAG_OUTPOINT b \<longleftrightarrow> txid = txid' \<and> vout = vout')"
proof -
  from assms have w: "wf_outpoint txid vout" "wf_outpoint txid' vout'"
    and ab: "a = txid @ to_le 4 vout" "b = txid' @ to_le 4 vout'"
    by (auto simp: canonical_outpoint_Inr_iff)
  have "le_int (to_le 4 v) = v" if "0 \<le> v" "v < 4294967296" for v
    using that by simp
  then have "a = b \<longleftrightarrow> txid = txid' \<and> vout = vout'"
    using w by (metis ab append_eq_append_conv wf_outpoint_def)
  then show ?thesis by (auto simp: tagged_message_def tag_bytes)
qed

lemma hash_inputs_separate_witness:
  "tagged_message TAG_SPK [1] \<noteq> tagged_message TAG_OUTPOINT (zeros 32 @ to_le 4 7)"
proof -
  have c: "canonical_outpoint (zeros 32) 7 = Inr (zeros 32 @ to_le 4 7)"
    by (simp add: canonical_outpoint_Inr_iff wf_outpoint_def)
  show ?thesis using hash_inputs_separate [OF c c] by blast
qed

text \<open>What \<open>txid_to_display\<close> prints, \<open>txid_from_display\<close> reads back.\<close>

theorem txid_display_roundtrip:
  assumes "length txid = 32"
  shows "rbind (txid_to_display txid) txid_from_display = Inr txid"
  using assms by (simp add: txid_to_display_def txid_from_display_def)

lemma txid_display_roundtrip_witness: "rbind (txid_to_display (zeros 32)) txid_from_display = Inr (zeros 32)"
  by (rule txid_display_roundtrip) simp

end
