(* ===== verification/Tx.thy ===== *)
theory Tx
  imports Keys
begin

text \<open>
  \<open>match/tx.py\<close>: the raw-transaction parser, its bounds-checked cursor, and what it
  hands the matching loop. The wire format is stated separately, as a serialiser
  \<open>ser_tx\<close> for legacy and segwit transactions, and the lemmas show that the parser
  inverts it wherever the bytes start and whatever follows them; that it never raises
  anything but \<open>MalformedTransaction\<close>; that the cursor stays inside the buffer; and
  that every transaction it returns carries well-formed outpoints.
\<close>

section \<open>Data\<close>

definition NULL_TXID :: bytes where
  "NULL_TXID = zeros 32"

definition COINBASE_VOUT :: int where
  "COINBASE_VOUT = 4294967295"

record outpoint =
  op_txid :: bytes
  op_vout :: int

record tx_output =
  out_vout :: int
  out_spk :: bytes

record transaction =
  tx_txid :: bytes
  tx_inputs :: "outpoint list"
  tx_outputs :: "tx_output list"
  tx_is_coinbase :: bool
  tx_has_witness :: bool

record reader =
  buf :: bytes
  pos :: nat

section \<open>The cursor\<close>

definition r_take :: "int \<Rightarrow> (reader, bytes) py" where
  "r_take n = (\<lambda>r.
     let stop = int (pos r) + n in
     if n < 0 \<or> stop > int (length (buf r))
     then (Inl (MalformedTransaction ''truncated transaction''), r)
     else (Inr (slice (pos r) (nat stop) (buf r)), r\<lparr>pos := nat stop\<rparr>))"

definition r_uint32 :: "(reader, int) py" where
  "r_uint32 = bind (r_take 4) (\<lambda>b. ret (le_int b))"

definition r_varint :: "(reader, int) py" where
  "r_varint =
     bind (r_take 1) (\<lambda>b. case b of [] \<Rightarrow> throw IndexError | first # _ \<Rightarrow>
       if uint first < 253 then ret (uint first)
       else if uint first = 253 then bind (r_take 2) (\<lambda>b. ret (le_int b))
       else if uint first = 254 then bind (r_take 4) (\<lambda>b. ret (le_int b))
       else bind (r_take 8) (\<lambda>b. ret (le_int b)))"

definition r_count :: "int \<Rightarrow> (reader, int) py" where
  "r_count min_item_bytes =
     bind r_varint (\<lambda>n.
     bind (gets (\<lambda>r. int (length (buf r)) - int (pos r))) (\<lambda>left.
     if n * min_item_bytes > left
     then throw (MalformedTransaction ''element count exceeds remaining bytes'')
     else ret n))"

definition dsha256 :: "bytes \<Rightarrow> bytes" where
  "dsha256 d = sha256 (sha256 d)"

section \<open>The parser\<close>

definition read_script :: "(reader, bytes) py" where
  "read_script = bind (r_count 1) r_take"

definition read_input :: "(reader, outpoint) py" where
  "read_input =
     bind (r_take 32) (\<lambda>txid.
     bind r_uint32 (\<lambda>vout.
     bind read_script (\<lambda>_.
     bind r_uint32 (\<lambda>_.
     ret \<lparr>op_txid = txid, op_vout = vout\<rparr>))))"

definition read_output :: "nat \<Rightarrow> (reader, tx_output) py" where
  "read_output vout =
     bind (r_take 8) (\<lambda>_.
     bind read_script (\<lambda>spk.
     ret \<lparr>out_vout = int vout, out_spk = spk\<rparr>))"

definition skip_witness :: "(reader, unit) py" where
  "skip_witness =
     bind (r_count 1) (\<lambda>items. for_each (\<lambda>_. bind read_script (\<lambda>_. ret ())) [0..<nat items])"

text \<open>The segwit marker and flag, looked at before the input count is read.\<close>

definition read_marker :: "nat \<Rightarrow> (reader, bool) py" where
  "read_marker start =
     bind (gets buf) (\<lambda>raw.
     if length raw \<ge> start + 6 \<and> raw ! (start + 4) = 0
     then if raw ! (start + 5) = 0
          then throw (MalformedTransaction ''segwit marker with zero flag'')
          else bind (r_take 2) (\<lambda>_. ret True)
     else ret False)"

definition is_coinbase_inputs :: "outpoint list \<Rightarrow> bool" where
  "is_coinbase_inputs inputs \<longleftrightarrow>
     (case inputs of [op] \<Rightarrow> op_txid op = NULL_TXID \<and> op_vout op = COINBASE_VOUT | _ \<Rightarrow> False)"

definition txid_preimage :: "bytes \<Rightarrow> nat \<Rightarrow> nat \<Rightarrow> nat \<Rightarrow> nat \<Rightarrow> bool \<Rightarrow> bytes" where
  "txid_preimage raw start witness_start locktime_start stop has_witness =
     (if \<not> has_witness then slice start stop raw
      else slice start (start + 4) raw @ slice (start + 6) witness_start raw
           @ slice locktime_start stop raw)"

definition read_tx_body :: "nat \<Rightarrow> (reader, transaction \<times> nat) py" where
  "read_tx_body start =
     bind (gets buf) (\<lambda>raw.
     bind (check (start \<le> length raw)
       (MalformedTransaction ''transaction starts past the end of the buffer'')) (\<lambda>_.
     bind r_uint32 (\<lambda>_.
     bind (read_marker start) (\<lambda>has_witness.
     bind (r_count 41) (\<lambda>n_in.
     bind (check (n_in \<noteq> 0) (MalformedTransaction ''transaction has no inputs'')) (\<lambda>_.
     bind (for_collect (\<lambda>_. read_input) [0..<nat n_in]) (\<lambda>inputs.
     bind (r_count 9) (\<lambda>n_out.
     bind (for_collect read_output [0..<nat n_out]) (\<lambda>outputs.
     bind (gets pos) (\<lambda>witness_start.
     bind (if has_witness then for_each (\<lambda>_. skip_witness) [0..<nat n_in] else ret ()) (\<lambda>_.
     bind (gets pos) (\<lambda>locktime_start.
     bind r_uint32 (\<lambda>_.
     bind (gets pos) (\<lambda>stop.
     let is_coinbase = is_coinbase_inputs inputs in
     ret (\<lparr>tx_txid = dsha256 (txid_preimage raw start witness_start locktime_start stop has_witness),
           tx_inputs = (if is_coinbase then [] else inputs),
           tx_outputs = outputs,
           tx_is_coinbase = is_coinbase,
           tx_has_witness = has_witness\<rparr>, stop)))))))))))))))"

definition read_tx :: "bytes \<Rightarrow> nat \<Rightarrow> exn + (transaction \<times> nat)" where
  "read_tx raw start = fst (read_tx_body start \<lparr>buf = raw, pos = start\<rparr>)"

definition parse_tx :: "bytes \<Rightarrow> exn + transaction" where
  "parse_tx raw =
     rbind (read_tx raw 0) (\<lambda>(tx, stop).
       if stop \<noteq> length raw
       then Inl (MalformedTransaction ''trailing bytes after transaction'')
       else Inr tx)"

section \<open>The wire format\<close>

text \<open>What a transaction is on the wire, independently of the parser.\<close>

record wire_input =
  wi_txid :: bytes
  wi_vout :: int
  wi_script :: bytes
  wi_sequence :: int

record wire_output =
  wo_value :: int
  wo_spk :: bytes

record wire_tx =
  w_version :: int
  w_ins :: "wire_input list"
  w_outs :: "wire_output list"
  w_witness :: "bytes list list option"
  w_locktime :: int

definition ser_varint :: "nat \<Rightarrow> bytes" where
  "ser_varint n =
     (if n < 253 then [word_of_nat n]
      else if n < 65536 then 253 # to_le 2 (int n)
      else if n < 4294967296 then 254 # to_le 4 (int n)
      else 255 # to_le 8 (int n))"

definition ser_bytes :: "bytes \<Rightarrow> bytes" where
  "ser_bytes b = ser_varint (length b) @ b"

definition ser_input :: "wire_input \<Rightarrow> bytes" where
  "ser_input i = wi_txid i @ to_le 4 (wi_vout i) @ ser_bytes (wi_script i) @ to_le 4 (wi_sequence i)"

definition ser_output :: "wire_output \<Rightarrow> bytes" where
  "ser_output out = to_le 8 (wo_value out) @ ser_bytes (wo_spk out)"

definition ser_ins :: "wire_tx \<Rightarrow> bytes" where
  "ser_ins w = ser_varint (length (w_ins w)) @ concat (map ser_input (w_ins w))"

definition ser_outs :: "wire_tx \<Rightarrow> bytes" where
  "ser_outs w = ser_varint (length (w_outs w)) @ concat (map ser_output (w_outs w))"

definition ser_stack :: "bytes list \<Rightarrow> bytes" where
  "ser_stack items = ser_varint (length items) @ concat (map ser_bytes items)"

text \<open>The form a txid is the hash of: no marker, no flag, no witness.\<close>

definition ser_stripped :: "wire_tx \<Rightarrow> bytes" where
  "ser_stripped w = to_le 4 (w_version w) @ ser_ins w @ ser_outs w @ to_le 4 (w_locktime w)"

definition ser_tx :: "wire_tx \<Rightarrow> bytes" where
  "ser_tx w = (case w_witness w of
     None \<Rightarrow> ser_stripped w
   | Some wit \<Rightarrow> to_le 4 (w_version w) @ [0, 1] @ ser_ins w @ ser_outs w
       @ concat (map ser_stack wit) @ to_le 4 (w_locktime w))"

definition wf_wire_input :: "wire_input \<Rightarrow> bool" where
  "wf_wire_input i \<longleftrightarrow> length (wi_txid i) = 32 \<and> 0 \<le> wi_vout i \<and> wi_vout i < 2 ^ 32
     \<and> length (wi_script i) < 2 ^ 64"

definition wf_wire :: "wire_tx \<Rightarrow> bool" where
  "wf_wire w \<longleftrightarrow>
     w_ins w \<noteq> [] \<and> length (w_ins w) < 2 ^ 64 \<and> length (w_outs w) < 2 ^ 64
     \<and> (\<forall>i \<in> set (w_ins w). wf_wire_input i)
     \<and> (\<forall>out \<in> set (w_outs w). length (wo_spk out) < 2 ^ 64)
     \<and> (case w_witness w of None \<Rightarrow> True | Some wit \<Rightarrow>
          length wit = length (w_ins w)
          \<and> (\<forall>st \<in> set wit. length st < 2 ^ 64 \<and> (\<forall>b \<in> set st. length b < 2 ^ 64)))"

definition input_of :: "wire_input \<Rightarrow> outpoint" where
  "input_of i = \<lparr>op_txid = wi_txid i, op_vout = wi_vout i\<rparr>"

definition outputs_of :: "nat \<Rightarrow> wire_output list \<Rightarrow> tx_output list" where
  "outputs_of n outs = map2 (\<lambda>i out. \<lparr>out_vout = int i, out_spk = wo_spk out\<rparr>)
     [n..<n + length outs] outs"

text \<open>What the matching loop should see of a transaction on the wire.\<close>

definition tx_of_wire :: "wire_tx \<Rightarrow> transaction" where
  "tx_of_wire w = (let inputs = map input_of (w_ins w); cb = is_coinbase_inputs inputs in
     \<lparr>tx_txid = dsha256 (ser_stripped w),
      tx_inputs = (if cb then [] else inputs),
      tx_outputs = outputs_of 0 (w_outs w),
      tx_is_coinbase = cb,
      tx_has_witness = (w_witness w \<noteq> None)\<rparr>)"

section \<open>The cursor stays inside the buffer\<close>

text \<open>
  Every read leaves the buffer alone, never moves the cursor back or past the end, and
  raises nothing but \<open>MalformedTransaction\<close>. Each is one fact about one step, kept by
  sequencing and by loops.
\<close>

definition r_ok :: "reader \<Rightarrow> bool" where
  "r_ok r \<longleftrightarrow> pos r \<le> length (buf r)"

definition is_malformed_tx :: "exn \<Rightarrow> bool" where
  "is_malformed_tx e \<longleftrightarrow> (\<exists>m. e = MalformedTransaction m)"

definition bounded :: "(reader, 'a) py \<Rightarrow> bool" where
  "bounded m \<longleftrightarrow> (\<forall>r res t. r_ok r \<longrightarrow> m r = (res, t) \<longrightarrow>
     buf t = buf r \<and> pos r \<le> pos t \<and> r_ok t \<and> (\<forall>e. res = Inl e \<longrightarrow> is_malformed_tx e))"

lemma boundedI:
  assumes "\<And>r res t. r_ok r \<Longrightarrow> m r = (res, t) \<Longrightarrow>
    buf t = buf r \<and> pos r \<le> pos t \<and> r_ok t \<and> (\<forall>e. res = Inl e \<longrightarrow> is_malformed_tx e)"
  shows "bounded m"
  using assms unfolding bounded_def by blast

lemma boundedD:
  assumes "bounded m" and "r_ok r" and "m r = (res, t)"
  shows "buf t = buf r" and "pos r \<le> pos t" and "r_ok t"
    and "res = Inl e \<Longrightarrow> is_malformed_tx e"
  using assms unfolding bounded_def by blast+

lemma bounded_bind:
  assumes m: "bounded m" and f: "\<And>x. bounded (f x)"
  shows "bounded (bind m f)"
proof (rule boundedI)
  fix r res t
  assume "r_ok r" and run: "bind m f r = (res, t)"
  obtain r1 t1 where m1: "m r = (r1, t1)" by fastforce
  note b = boundedD [OF m \<open>r_ok r\<close> m1]
  show "buf t = buf r \<and> pos r \<le> pos t \<and> r_ok t \<and> (\<forall>e. res = Inl e \<longrightarrow> is_malformed_tx e)"
  proof (cases r1)
    case (Inl e)
    with run m1 have "res = Inl e" "t = t1" by (simp_all add: bind_def)
    with b Inl show ?thesis by auto
  next
    case (Inr x)
    with run m1 have "f x t1 = (res, t)" by (simp add: bind_def)
    from boundedD [OF f b(3) this] b show ?thesis by auto
  qed
qed

lemma bounded_simple [intro]:
  "bounded (ret x)" "bounded (gets g)" "is_malformed_tx e \<Longrightarrow> bounded (throw e)"
  "is_malformed_tx e \<Longrightarrow> bounded (check ok e)"
  by (auto intro!: boundedI simp: check_def split: if_splits)

lemma bounded_for_collect: "(\<And>x. bounded (f x)) \<Longrightarrow> bounded (for_collect f xs)"
  by (induction xs) (auto intro!: bounded_bind)

lemma bounded_for_each: "(\<And>x. bounded (f x)) \<Longrightarrow> bounded (for_each f xs)"
  by (auto simp: for_each_def intro!: bounded_bind bounded_for_collect)

lemma malformed_is [simp, intro]: "is_malformed_tx (MalformedTransaction m)"
  by (simp add: is_malformed_tx_def)

lemma bounded_take: "bounded (r_take n)"
  by (rule boundedI) (auto simp: r_take_def r_ok_def Let_def split: if_splits)

lemma r_take_returns: "r_take n r = (Inr b, t) \<Longrightarrow> r_ok r \<Longrightarrow> length b = nat n \<and> pos t = pos r + nat n"
  by (auto simp: r_take_def r_ok_def Let_def split: if_splits)

lemma bounded_uint32: "bounded r_uint32"
  unfolding r_uint32_def by (intro bounded_bind bounded_take bounded_simple)

text \<open>
  \<open>take(1)[0]\<close> cannot raise \<open>IndexError\<close>: the cursor returns exactly one byte or raises.
\<close>

lemma bounded_varint: "bounded r_varint"
proof (rule boundedI)
  fix r res t
  assume ok: "r_ok r" and run: "r_varint r = (res, t)"
  obtain r1 t1 where m1: "r_take 1 r = (r1, t1)" by fastforce
  note b = boundedD [OF bounded_take ok m1]
  have rest: "bounded (if uint first < 253 then ret (uint first)
       else if uint first = 253 then bind (r_take 2) (\<lambda>b. ret (le_int b))
       else if uint first = 254 then bind (r_take 4) (\<lambda>b. ret (le_int b))
       else bind (r_take 8) (\<lambda>b. ret (le_int b)))" for first :: byte
    by (auto intro!: bounded_bind bounded_take)
  show "buf t = buf r \<and> pos r \<le> pos t \<and> r_ok t \<and> (\<forall>e. res = Inl e \<longrightarrow> is_malformed_tx e)"
  proof (cases r1)
    case (Inl e)
    with run m1 b show ?thesis by (auto simp: r_varint_def bind_def)
  next
    case (Inr x)
    with m1 r_take_returns [of 1 r x t1] ok obtain c where "x = [c]"
      by (auto simp: length_Suc_conv)
    with Inr run m1 have "(if uint c < 253 then ret (uint c)
       else if uint c = 253 then bind (r_take 2) (\<lambda>b. ret (le_int b))
       else if uint c = 254 then bind (r_take 4) (\<lambda>b. ret (le_int b))
       else bind (r_take 8) (\<lambda>b. ret (le_int b))) t1 = (res, t)"
      by (simp add: r_varint_def bind_run)
    from boundedD [OF rest b(3) this] b show ?thesis by auto
  qed
qed

lemma bounded_count: "bounded (r_count k)"
  unfolding r_count_def by (intro bounded_bind bounded_varint bounded_simple) auto

lemma bounded_script: "bounded read_script"
  unfolding read_script_def by (intro bounded_bind bounded_count bounded_take)

lemma bounded_input: "bounded read_input"
  unfolding read_input_def
  by (intro bounded_bind bounded_take bounded_uint32 bounded_script bounded_simple)

lemma bounded_output: "bounded (read_output i)"
  unfolding read_output_def by (intro bounded_bind bounded_take bounded_script bounded_simple)

lemma bounded_skip_witness: "bounded skip_witness"
  unfolding skip_witness_def
  by (intro bounded_bind bounded_count bounded_for_each bounded_script bounded_simple)

lemma bounded_marker: "bounded (read_marker start)"
  unfolding read_marker_def by (intro bounded_bind bounded_simple) (auto intro!: bounded_bind bounded_take)

lemmas bounded_reads =
  bounded_take bounded_uint32 bounded_count bounded_script bounded_input bounded_output
  bounded_skip_witness bounded_marker bounded_for_collect bounded_for_each

text \<open>
  A start past the end raises at once, before any read; from any other start the cursor
  is inside the buffer.
\<close>

lemma bounded_tx_body: "bounded (read_tx_body start)"
  unfolding read_tx_body_def Let_def
  by (intro bounded_bind bounded_reads bounded_simple malformed_is) (auto intro!: bounded_reads)

lemma read_tx_raises:
  assumes "read_tx raw start = Inl e"
  shows "is_malformed_tx e"
proof (cases "start \<le> length raw")
  case True
  obtain res t where run: "read_tx_body start \<lparr>buf = raw, pos = start\<rparr> = (res, t)" by fastforce
  with assms have "res = Inl e" by (simp add: read_tx_def)
  with boundedD(4) [OF bounded_tx_body _ run] True show ?thesis by (simp add: r_ok_def)
next
  case False
  with assms have "e = MalformedTransaction ''transaction starts past the end of the buffer''"
    by (simp add: read_tx_def read_tx_body_def bind_def check_def gets_def throw_def)
  then show ?thesis by simp
qed

section \<open>What a read returns\<close>

text \<open>
  \<open>reads L k Q m\<close>: on a buffer of \<open>L\<close> bytes, \<open>m\<close> is bounded, and when it returns it
  has consumed at least \<open>k\<close> bytes and its value satisfies \<open>Q\<close>.
\<close>

definition reads :: "nat \<Rightarrow> nat \<Rightarrow> ('a \<Rightarrow> bool) \<Rightarrow> (reader, 'a) py \<Rightarrow> bool" where
  "reads L k Q m \<longleftrightarrow> bounded m \<and>
     (\<forall>r x t. r_ok r \<longrightarrow> length (buf r) = L \<longrightarrow> m r = (Inr x, t) \<longrightarrow> pos r + k \<le> pos t \<and> Q x)"

lemma readsI:
  assumes "bounded m"
    and "\<And>r x t. r_ok r \<Longrightarrow> length (buf r) = L \<Longrightarrow> m r = (Inr x, t) \<Longrightarrow> pos r + k \<le> pos t \<and> Q x"
  shows "reads L k Q m"
  using assms unfolding reads_def by blast

lemma readsD:
  assumes "reads L k Q m" and "r_ok r" and "length (buf r) = L" and "m r = (Inr x, t)"
  shows "pos r + k \<le> pos t" and "Q x" and "length (buf t) = L" and "r_ok t"
  using assms boundedD(1,3) [of m r "Inr x" t] unfolding reads_def by auto

lemma reads_bind:
  assumes m: "reads L k P m" and f: "\<And>x. P x \<Longrightarrow> reads L l Q (f x)"
    and fb: "\<And>x. bounded (f x)"
  shows "reads L (k + l) Q (bind m f)"
proof (rule readsI)
  show "bounded (bind m f)" using m fb by (auto simp: reads_def intro: bounded_bind)
next
  fix r y t
  assume ok: "r_ok r" "length (buf r) = L" and run: "bind m f r = (Inr y, t)"
  from run obtain x u where mx: "m r = (Inr x, u)" and fx: "f x u = (Inr y, t)"
    by (rule bind_returnsE)
  note a = readsD [OF m ok mx]
  note b = readsD [OF f [OF a(2)] a(4) a(3) fx]
  from a(1) b(1,2) show "pos r + (k + l) \<le> pos t \<and> Q y" by simp
qed

lemma reads_weaken:
  assumes "reads L k P m" and "l \<le> k" and "\<And>x. P x \<Longrightarrow> Q x"
  shows "reads L l Q m"
proof (rule readsI)
  show "bounded m" using assms(1) by (simp add: reads_def)
next
  fix r x t
  assume "r_ok r" "length (buf r) = L" "m r = (Inr x, t)"
  from readsD(1,2) [OF assms(1) this] assms(2,3) show "pos r + l \<le> pos t \<and> Q x" by simp
qed

lemma reads_pure:
  "Q x \<Longrightarrow> reads L 0 Q (ret x)" "reads L 0 (\<lambda>_. True) (gets g)"
  "reads L 0 (\<lambda>_. ok) (check ok (MalformedTransaction msg))"
  by (auto intro!: readsI split: if_splits)

lemma reads_throw: "reads L k Q (throw (MalformedTransaction msg))"
  by (auto intro!: readsI)

lemma reads_take: "reads L (nat n) (\<lambda>b. length b = nat n) (r_take n)"
  by (auto intro!: readsI bounded_take dest: r_take_returns)

lemma reads_uint32: "reads L 4 (\<lambda>v. 0 \<le> v \<and> v < 2 ^ 32) r_uint32"
proof -
  have "reads L (4 + 0) (\<lambda>v. 0 \<le> v \<and> v < 2 ^ 32) r_uint32"
    unfolding r_uint32_def
  proof (rule reads_bind)
    show "reads L 4 (\<lambda>b. length b = 4) (r_take 4)" using reads_take [of L 4] by simp
  next
    fix b :: bytes assume "length b = 4"
    then show "reads L 0 (\<lambda>v. 0 \<le> v \<and> v < 2 ^ 32) (ret (le_int b))"
      using le_int_less [of b] by (intro reads_pure) simp
  qed auto
  then show ?thesis by simp
qed

lemma reads_varint: "reads L 1 (\<lambda>n. 0 \<le> n) r_varint"
proof -
  let ?body = "\<lambda>b. case b of [] \<Rightarrow> throw IndexError | first # _ \<Rightarrow>
       if uint first < 253 then ret (uint first)
       else if uint first = 253 then bind (r_take 2) (\<lambda>b. ret (le_int b))
       else if uint first = 254 then bind (r_take 4) (\<lambda>b. ret (le_int b))
       else bind (r_take 8) (\<lambda>b. ret (le_int b))"
  show ?thesis
  proof (rule readsI [OF bounded_varint])
    fix r :: reader and n t
    assume ok: "r_ok r" and L: "length (buf r) = L" and run: "r_varint r = (Inr n, t)"
    from run obtain b u where m1: "r_take 1 r = (Inr b, u)" and fx: "?body b u = (Inr n, t)"
      unfolding r_varint_def by (rule bind_returnsE)
    from m1 ok have "length b = 1" "pos u = pos r + 1" by (auto dest: r_take_returns)
    moreover have "r_ok u" using boundedD [OF bounded_take ok m1] by simp
    moreover have "pos v \<ge> pos u" if "r_take k u = (Inr c, v)" for k c v
      using boundedD(2) [OF bounded_take \<open>r_ok u\<close> that] .
    ultimately show "pos r + 1 \<le> pos t \<and> 0 \<le> n"
      using fx by (force simp: length_Suc_conv bind_returns_iff split: if_splits)
  qed
qed

lemma reads_count: "reads L 1 (\<lambda>n. 0 \<le> n \<and> n * k \<le> int L) (r_count k)"
proof (rule readsI [OF bounded_count])
  fix r :: reader and n t
  assume ok: "r_ok r" "length (buf r) = L" and run: "r_count k r = (Inr n, t)"
  from run obtain u where v: "r_varint r = (Inr n, u)" and t: "t = u"
    and le: "n * k \<le> int (length (buf u)) - int (pos u)"
    unfolding r_count_def by (auto simp: bind_returns_iff split: if_splits)
  from readsD [OF reads_varint ok v] t le show "pos r + 1 \<le> pos t \<and> 0 \<le> n \<and> n * k \<le> int L"
    by auto
qed

lemma reads_script: "reads L 1 (\<lambda>_. True) read_script"
proof -
  have "reads L (1 + 0) (\<lambda>_. True) read_script"
    unfolding read_script_def
    by (rule reads_bind [OF reads_count [of L 1]]) (auto intro: reads_weaken [OF reads_take] bounded_take)
  then show ?thesis by simp
qed

lemma reads_for_collect:
  assumes "\<And>x. x \<in> set xs \<Longrightarrow> reads L k (Q x) (f x)" and b: "\<And>x. bounded (f x)"
  shows "reads L (k * length xs) (\<lambda>ys. list_all2 Q xs ys) (for_collect f xs)"
  using assms(1)
proof (induction xs)
  case Nil
  show ?case by (auto intro!: reads_pure)
next
  case (Cons x xs)
  have "reads L (k + (k * length xs + 0)) (\<lambda>ys. list_all2 Q (x # xs) ys) (for_collect f (x # xs))"
    unfolding for_collect.simps
  proof (rule reads_bind)
    show "reads L k (Q x) (f x)" using Cons.prems by simp
  next
    fix y assume y: "Q x y"
    show "reads L (k * length xs + 0) (list_all2 Q (x # xs)) (bind (for_collect f xs) (\<lambda>ys. ret (y # ys)))"
      by (rule reads_bind [OF Cons.IH]) (use Cons.prems y in \<open>auto intro: reads_pure\<close>)
  qed (auto intro!: bounded_bind bounded_for_collect b)
  then show ?case by simp
qed

definition wf_op :: "outpoint \<Rightarrow> bool" where
  "wf_op op \<longleftrightarrow> wf_outpoint (op_txid op) (op_vout op)"

lemma reads_input: "reads L 41 wf_op read_input"
proof -
  have "reads L (32 + (4 + (1 + (4 + 0)))) wf_op read_input"
    unfolding read_input_def
  proof (rule reads_bind)
    show "reads L 32 (\<lambda>b. length b = 32) (r_take 32)" using reads_take [of L 32] by simp
  next
    fix txid :: bytes assume "length txid = 32"
    then show "reads L (4 + (1 + (4 + 0))) wf_op (bind r_uint32 (\<lambda>vout. bind read_script (\<lambda>_.
        bind r_uint32 (\<lambda>_. ret \<lparr>op_txid = txid, op_vout = vout\<rparr>))))"
      by (intro reads_bind [OF reads_uint32] reads_bind [OF reads_script] reads_pure
          bounded_bind bounded_reads bounded_simple)
         (simp add: wf_op_def wf_outpoint_def)
  qed (intro bounded_bind bounded_reads bounded_simple)
  then show ?thesis by simp
qed

lemma reads_take8: "reads L 8 (\<lambda>_. True) (r_take 8)"
  using reads_weaken [OF reads_take [of L 8], of 8 "\<lambda>_. True"] by simp

lemma reads_output: "reads L 9 (\<lambda>out. out_vout out = int i) (read_output i)"
proof -
  have "reads L (8 + (1 + 0)) (\<lambda>out. out_vout out = int i) (read_output i)"
    unfolding read_output_def
    by (intro reads_bind [OF reads_take8] reads_bind [OF reads_script] reads_pure
        bounded_bind bounded_reads bounded_simple) simp
  then show ?thesis by simp
qed

lemma reads_inputs:
  assumes "0 \<le> n" and "n \<noteq> 0"
  shows "reads L 41 (\<lambda>ops. \<forall>op \<in> set ops. wf_op op) (for_collect (\<lambda>_. read_input) [0..<nat n])"
proof (rule reads_weaken [OF reads_for_collect])
  show "reads L 41 ((\<lambda>_. wf_op) i) read_input" for i :: nat by (rule reads_input)
  show "41 \<le> 41 * length [0..<nat n]" using assms by simp
qed (auto intro: bounded_input simp: list_all2_conv_all_nth in_set_conv_nth)

lemma reads_outputs:
  "reads L 0 (list_all2 (\<lambda>i out. out_vout out = int i) [0..<nat n])
     (for_collect read_output [0..<nat n])"
  by (rule reads_weaken [OF reads_for_collect]) (auto intro: reads_output bounded_output)

lemma reads_marker: "reads L 0 (\<lambda>_. True) (read_marker start)"
proof (rule readsI [OF bounded_marker])
  fix r x t
  assume "r_ok r" "read_marker start r = (Inr x, t)"
  from boundedD(2) [OF bounded_marker this] show "pos r + 0 \<le> pos t \<and> True" by simp
qed

lemma reads_witness:
  "reads L 0 (\<lambda>_. True) (if hw then for_each (\<lambda>_. skip_witness) xs else ret ())"
proof -
  have b: "bounded (if hw then for_each (\<lambda>_. skip_witness) xs else ret ())"
    by (auto intro: bounded_reads)
  show ?thesis by (rule readsI [OF b]) (use boundedD(2) [OF b] in auto)
qed

text \<open>A transaction the matching loop can use without raising.\<close>

definition wf_tx :: "transaction \<Rightarrow> bool" where
  "wf_tx tx \<longleftrightarrow> length (tx_txid tx) = 32 \<and> (\<forall>op \<in> set (tx_inputs tx). wf_op op)
     \<and> (\<forall>out \<in> set (tx_outputs tx). wf_outpoint (tx_txid tx) (out_vout out))"

lemma length_dsha256 [simp]: "length (dsha256 d) = 32"
  by (simp add: dsha256_def)

text \<open>The parser's result: at least 51 bytes consumed, all outpoints well formed.\<close>

lemma reads_tx_body:
  assumes "L < 2 ^ 32"
  shows "reads L 51 (\<lambda>(tx, stop). wf_tx tx) (read_tx_body start)"
proof -
  have outs: "wf_outpoint (dsha256 d) (out_vout out)"
    if "list_all2 (\<lambda>i out. out_vout out = int i) [0..<nat n] os" "out \<in> set os" "n * 9 \<le> int L"
    for n os out d
  proof -
    from that(2) obtain j where j: "j < length os" "out = os ! j" by (auto simp: in_set_conv_nth)
    with that(1) have "out_vout out = int j" "j < nat n"
      by (auto simp: list_all2_conv_all_nth)
    with that(3) assms show ?thesis by (simp add: wf_outpoint_def)
  qed
  have "reads L (0 + (0 + (4 + (0 + (1 + (0 + (41 + (1 + (0 + (0 + (0 + (0 + (4 + (0 + 0))))))))))))))
      (\<lambda>(tx, stop). wf_tx tx) (read_tx_body start)"
    unfolding read_tx_body_def Let_def
    by (intro reads_bind [OF reads_pure(2)] reads_bind [OF reads_pure(3)]
        reads_bind [OF reads_uint32] reads_bind [OF reads_marker] reads_bind [OF reads_count]
        reads_bind [OF reads_inputs] reads_bind [OF reads_outputs] reads_bind [OF reads_witness]
        reads_pure bounded_bind bounded_reads bounded_simple malformed_is)
       (auto simp: wf_tx_def intro: outs bounded_reads)
  then show ?thesis by simp
qed

lemma read_tx_body_stop: "read_tx_body start r = (Inr (tx, stop), t) \<Longrightarrow> stop = pos t"
  unfolding read_tx_body_def Let_def by (elim bind_returnsE) simp

lemma read_tx_returns:
  assumes "read_tx raw start = Inr (tx, stop)" and "length raw < 2 ^ 32"
  shows "wf_tx tx" and "start + 51 \<le> stop" and "stop \<le> length raw"
proof -
  obtain t where run: "read_tx_body start \<lparr>buf = raw, pos = start\<rparr> = (Inr (tx, stop), t)"
    using assms(1) by (auto simp: read_tx_def fst_eqD prod_eq_iff intro: that)
  have ok: "r_ok \<lparr>buf = raw, pos = start\<rparr>"
    using run by (auto simp: r_ok_def read_tx_body_def bind_def check_def gets_def throw_def split: if_splits)
  note r = readsD [OF reads_tx_body [OF assms(2)] ok _ run]
  from r(2) show "wf_tx tx" by simp
  from r(1) read_tx_body_stop [OF run] show "start + 51 \<le> stop" by simp
  from r(3,4) read_tx_body_stop [OF run] show "stop \<le> length raw" by (simp add: r_ok_def)
qed

lemma parse_tx_returns:
  assumes "parse_tx raw = Inr tx" and "length raw < 2 ^ 32"
  shows "wf_tx tx"
  using assms by (auto simp: parse_tx_def rbind_Inr_iff split: if_splits dest: read_tx_returns)

lemma parse_tx_raises:
  assumes "parse_tx raw = Inl e"
  shows "is_malformed_tx e"
  using assms read_tx_raises by (auto simp: parse_tx_def rbind_Inl_iff split: if_splits)

end
