(* ===== verification/Tx_Roundtrip.thy ===== *)
theory Tx_Roundtrip
  imports Tx
begin

text \<open>
  The parser inverts the wire format. A read that consumes exactly the bytes \<open>a\<close> and
  returns \<open>x\<close>, whatever follows, is \<open>parses a x\<close>; the facts about single reads compose
  along the structure of the parser, and end in the round trip for whole transactions.
\<close>

definition rests :: "reader \<Rightarrow> bytes \<Rightarrow> bool" where
  "rests r s \<longleftrightarrow> r_ok r \<and> drop (pos r) (buf r) = s"

definition advance :: "nat \<Rightarrow> reader \<Rightarrow> reader" where
  "advance n r = r\<lparr>pos := pos r + n\<rparr>"

definition parses :: "(reader, 'a) py \<Rightarrow> bytes \<Rightarrow> 'a \<Rightarrow> bool" where
  "parses m a x \<longleftrightarrow> (\<forall>r s. rests r (a @ s) \<longrightarrow> m r = (Inr x, advance (length a) r))"

lemma advance_simps [simp]:
  "pos (advance n r) = pos r + n" "buf (advance n r) = buf r"
  "advance 0 r = r" "advance m (advance n r) = advance (n + m) r"
  by (simp_all add: advance_def)

lemma rests_length: "rests r s \<Longrightarrow> length (buf r) = pos r + length s"
  by (auto simp: rests_def r_ok_def)

lemma rests_advance:
  assumes "rests r (a @ s)"
  shows "rests (advance (length a) r) s"
proof -
  from assms have "drop (length a) (drop (pos r) (buf r)) = s" by (simp add: rests_def)
  with rests_length [OF assms] show ?thesis by (simp add: rests_def r_ok_def add.commute)
qed

lemma parsesI:
  assumes "\<And>r s. rests r (a @ s) \<Longrightarrow> m r = (Inr x, advance (length a) r)"
  shows "parses m a x"
  using assms by (simp add: parses_def)

lemma parsesD: "parses m a x \<Longrightarrow> rests r (a @ s) \<Longrightarrow> m r = (Inr x, advance (length a) r)"
  unfolding parses_def by blast

lemma parses_ret: "parses (ret x) [] x"
  by (auto intro!: parsesI)

lemma parses_bind:
  assumes "parses m a x" and "parses (f x) b y"
  shows "parses (bind m f) (a @ b) y"
proof (rule parsesI)
  fix r s assume "rests r ((a @ b) @ s)"
  then have r: "rests r (a @ (b @ s))" by simp
  from parsesD [OF assms(1) r] parsesD [OF assms(2) rests_advance [OF r]]
  show "bind m f r = (Inr y, advance (length (a @ b)) r)" by (simp add: bind_run)
qed

lemma parses_bind_ret: "parses m a x \<Longrightarrow> parses (bind m (\<lambda>x. ret (g x))) a (g x)"
  using parses_bind [OF _ parses_ret] by fastforce

lemma parses_for_collect:
  assumes "list_all2 (\<lambda>x (a, y). parses (f x) a y) xs ays"
  shows "parses (for_collect f xs) (concat (map fst ays)) (map snd ays)"
  using assms
proof (induction xs ays rule: list_all2_induct)
  case Nil
  show ?case by (simp add: parses_ret)
next
  case (Cons x xs ay ays)
  obtain a y where ay: "ay = (a, y)" by fastforce
  from Cons ay show ?case
    by (auto intro!: parses_bind [where x = y] parses_bind_ret)
qed

lemma parses_take: "n = int (length a) \<Longrightarrow> parses (r_take n) a a"
proof (rule parsesI)
  fix r s assume n: "n = int (length a)" and r: "rests r (a @ s)"
  from rests_length [OF r] r n show "r_take n r = (Inr a, advance (length a) r)"
    by (auto simp: r_take_def Let_def slice_def advance_def rests_def nat_add_distrib)
qed

lemma parses_uint32: "0 \<le> v \<Longrightarrow> v < 2 ^ 32 \<Longrightarrow> parses r_uint32 (to_le 4 v) v"
  unfolding r_uint32_def
  using parses_bind_ret [OF parses_take [of 4 "to_le 4 v"], of le_int] by simp

lemma uint32_skips: "parses r_uint32 (to_le 4 v) (v mod 2 ^ 32)"
  unfolding r_uint32_def
  using parses_bind_ret [OF parses_take [of 4 "to_le 4 v"], of le_int] by simp

lemma uint_word_byte: "uint (word_of_nat n :: byte) = int n mod 256"
  by (simp add: unsigned_of_nat take_bit_eq_mod zmod_int)

lemma parses_varint:
  assumes "n < 2 ^ 64"
  shows "parses r_varint (ser_varint n) (int n)"
proof -
  have one: "parses (r_take 1) [b] [b]" for b by (rule parses_take) simp
  have more: "parses (bind (r_take (int k)) (\<lambda>b. ret (le_int b))) (to_le k (int n)) (int n)"
    if "int n < 256 ^ k" for k
    using that parses_bind_ret [OF parses_take [of "int k" "to_le k (int n)"], of le_int] by simp
  consider "n < 253" | "253 \<le> n" "n < 65536" | "65536 \<le> n" "n < 4294967296" | "4294967296 \<le> n"
    by linarith
  then show ?thesis
  proof cases
    case 1
    then show ?thesis
      unfolding r_varint_def ser_varint_def
      using parses_bind [OF one [of "word_of_nat n"], of _ "[]" "int n"]
      by (simp add: uint_word_byte parses_ret)
  next
    case 2
    then show ?thesis
      unfolding r_varint_def ser_varint_def
      using parses_bind [OF one [of 253], of _ "to_le 2 (int n)" "int n"] more [of 2] by simp
  next
    case 3
    then show ?thesis
      unfolding r_varint_def ser_varint_def
      using parses_bind [OF one [of 254], of _ "to_le 4 (int n)" "int n"] more [of 4] by simp
  next
    case 4
    then show ?thesis
      unfolding r_varint_def ser_varint_def
      using parses_bind [OF one [of 255], of _ "to_le 8 (int n)" "int n"] more [of 8] assms by simp
  qed
qed

text \<open>A count is accepted when what follows is long enough for that many elements.\<close>

lemma count_reads:
  assumes "n < 2 ^ 64" and r: "rests r (ser_varint n @ s)" and "int n * k \<le> int (length s)"
  shows "r_count k r = (Inr (int n), advance (length (ser_varint n)) r)"
proof -
  from parsesD [OF parses_varint [OF assms(1)] r] rests_length [OF rests_advance [OF r]] assms(3)
  show ?thesis by (simp add: r_count_def bind_run gets_def)
qed

lemma parses_count:
  assumes "n < 2 ^ 64" and "parses (f (int n)) b y" and "int n * k \<le> int (length b)"
  shows "parses (bind (r_count k) f) (ser_varint n @ b) y"
proof (rule parsesI)
  fix r s assume "rests r ((ser_varint n @ b) @ s)"
  then have r: "rests r (ser_varint n @ (b @ s))" by simp
  from assms(3) have "int n * k \<le> int (length (b @ s))" by simp
  from count_reads [OF assms(1) r this] parsesD [OF assms(2) rests_advance [OF r]]
  show "bind (r_count k) f r = (Inr y, advance (length (ser_varint n @ b)) r)"
    by (simp add: bind_run)
qed

lemma parses_script: "length b < 2 ^ 64 \<Longrightarrow> parses read_script (ser_bytes b) b"
  unfolding read_script_def ser_bytes_def by (rule parses_count) (auto intro: parses_take)

lemma parses_input: "wf_wire_input i \<Longrightarrow> parses read_input (ser_input i) (input_of i)"
proof -
  assume i: "wf_wire_input i"
  have "parses read_input (wi_txid i @ to_le 4 (wi_vout i) @ ser_bytes (wi_script i) @
      to_le 4 (wi_sequence i) @ []) (input_of i)"
    unfolding read_input_def input_of_def
    by (rule parses_bind [OF parses_take parses_bind [OF parses_uint32
          parses_bind [OF parses_script parses_bind [OF uint32_skips parses_ret]]]])
       (use i in \<open>auto simp: wf_wire_input_def\<close>)
  then show ?thesis by (simp add: ser_input_def)
qed

lemma parses_output:
  "length (wo_spk out) < 2 ^ 64 \<Longrightarrow>
     parses (read_output i) (ser_output out) \<lparr>out_vout = int i, out_spk = wo_spk out\<rparr>"
proof -
  assume out: "length (wo_spk out) < 2 ^ 64"
  have "parses (read_output i) (to_le 8 (wo_value out) @ ser_bytes (wo_spk out) @ [])
      \<lparr>out_vout = int i, out_spk = wo_spk out\<rparr>"
    unfolding read_output_def
    by (rule parses_bind [OF parses_take parses_bind [OF parses_script parses_ret]])
       (use out in simp_all)
  then show ?thesis by (simp add: ser_output_def)
qed

lemma for_each_skips:
  assumes "list_all2 (\<lambda>x a. \<exists>y. parses (f x) a y) xs as"
  shows "parses (for_each (\<lambda>x. bind (f x) (\<lambda>_. ret ())) xs) (concat as) ()"
  using assms
proof (induction xs as rule: list_all2_induct)
  case Nil
  show ?case by (simp add: parses_ret)
next
  case (Cons x xs a as)
  then obtain y where "parses (f x) a y" by blast
  with Cons.IH show ?case
    by (auto simp: for_each_Cons bind_bind intro!: parses_bind [where x = y])
qed

lemma length_ser_varint: "1 \<le> length (ser_varint n)"
  by (simp add: ser_varint_def)

lemma length_concat_ge:
  "(\<And>x. x \<in> set xs \<Longrightarrow> k \<le> length (f x)) \<Longrightarrow> length xs * k \<le> length (concat (map f xs))"
  by (induction xs) (auto simp: add_mono)

lemma parses_skip_witness:
  assumes "length st < 2 ^ 64" and "\<And>b. b \<in> set st \<Longrightarrow> length b < 2 ^ 64"
  shows "parses skip_witness (ser_stack st) ()"
  unfolding skip_witness_def ser_stack_def
proof (rule parses_count [OF assms(1)])
  have "list_all2 (\<lambda>_ a. \<exists>y. parses read_script a y) [0..<length st] (map ser_bytes st)"
    using assms(2) by (auto simp: list_all2_conv_all_nth intro!: exI parses_script)
  from for_each_skips [OF this]
  show "parses (for_each (\<lambda>_. bind read_script (\<lambda>_. ret ())) [0..<nat (int (length st))])
      (concat (map ser_bytes st)) ()" by simp
  have "length st * 1 \<le> length (concat (map ser_bytes st))"
    by (rule length_concat_ge) (use length_ser_varint in \<open>auto simp: ser_bytes_def intro: trans_le_add1\<close>)
  then show "int (length st) * 1 \<le> int (length (concat (map ser_bytes st)))" by simp
qed

lemma parses_witness:
  assumes "\<And>st. st \<in> set wit \<Longrightarrow> length st < 2 ^ 64 \<and> (\<forall>b \<in> set st. length b < 2 ^ 64)"
    and "length xs = length wit"
  shows "parses (for_each (\<lambda>_. skip_witness) xs) (concat (map ser_stack wit)) ()"
  using assms
proof (induction wit arbitrary: xs)
  case Nil
  then show ?case by (simp add: parses_ret)
next
  case (Cons st wit)
  then obtain x xs' where xs: "xs = x # xs'" by (cases xs) auto
  have "parses skip_witness (ser_stack st) ()"
    using Cons.prems(1) by (intro parses_skip_witness) auto
  moreover have "parses (for_each (\<lambda>_. skip_witness) xs') (concat (map ser_stack wit)) ()"
    using Cons.prems xs by (intro Cons.IH) auto
  ultimately show ?case by (simp add: xs for_each_Cons parses_bind)
qed

lemma parses_inputs:
  assumes "\<forall>i \<in> set ins. wf_wire_input i"
  shows "parses (for_collect (\<lambda>_. read_input) [0..<length ins]) (concat (map ser_input ins)) (map input_of ins)"
proof -
  have "list_all2 (\<lambda>_ (a, y). parses read_input a y) [0..<length ins] (map (\<lambda>i. (ser_input i, input_of i)) ins)"
    using assms by (auto simp: list_all2_conv_all_nth intro: parses_input)
  from parses_for_collect [OF this] show ?thesis by (simp add: comp_def)
qed

lemma parses_outputs:
  assumes "\<forall>out \<in> set outs. length (wo_spk out) < 2 ^ 64"
  shows "parses (for_collect read_output [0..<length outs]) (concat (map ser_output outs)) (outputs_of 0 outs)"
proof -
  let ?ays = "map2 (\<lambda>i out. (ser_output out, \<lparr>out_vout = int i, out_spk = wo_spk out\<rparr>)) [0..<length outs] outs"
  have "list_all2 (\<lambda>i (a, y). parses (read_output i) a y) [0..<length outs] ?ays"
    using assms by (auto simp: list_all2_conv_all_nth intro: parses_output)
  moreover have "map fst ?ays = map ser_output outs" "map snd ?ays = outputs_of 0 outs"
    unfolding outputs_of_def by (rule nth_equalityI; simp)+
  ultimately show ?thesis using parses_for_collect [of _ _ ?ays] by simp
qed

section \<open>Whole transactions\<close>

text \<open>The straight-line part of the parser, run step by step.\<close>

lemma read_tx_body_run:
  assumes "r_ok r" and "pos r = start"
    and "r_uint32 r = (Inr v, r1)"
    and "read_marker start r1 = (Inr hw, r2)"
    and "r_count 41 r2 = (Inr n_in, r3)" and "n_in \<noteq> 0"
    and "for_collect (\<lambda>_. read_input) [0..<nat n_in] r3 = (Inr inputs, r4)"
    and "r_count 9 r4 = (Inr n_out, r5)"
    and "for_collect read_output [0..<nat n_out] r5 = (Inr outputs, r6)"
    and "(if hw then for_each (\<lambda>_. skip_witness) [0..<nat n_in] else ret ()) r6 = (Inr (), r7)"
    and "r_uint32 r7 = (Inr lt, r8)"
  shows "read_tx_body start r =
    (Inr (\<lparr>tx_txid = dsha256 (txid_preimage (buf r) start (pos r6) (pos r7) (pos r8) hw),
       tx_inputs = (if is_coinbase_inputs inputs then [] else inputs),
       tx_outputs = outputs, tx_is_coinbase = is_coinbase_inputs inputs, tx_has_witness = hw\<rparr>,
      pos r8), r8)"
proof -
  have "start \<le> length (buf r)" using assms(1,2) by (simp add: r_ok_def)
  with assms(3-) show ?thesis
    unfolding read_tx_body_def Let_def bind_def gets_def check_def ret_def by simp
qed

lemma rests_slice:
  assumes "rests r (a @ b @ s)" and "i = pos r + length a" and "j = i + length b"
  shows "slice i j (buf r) = b"
proof -
  from assms(1) have "drop (length a) (drop (pos r) (buf r)) = b @ s" by (simp add: rests_def)
  with assms(2,3) show ?thesis by (simp add: slice_def add.commute)
qed

lemma rests_nth: "rests r (a @ x # s) \<Longrightarrow> buf r ! (pos r + length a) = x"
proof -
  assume r: "rests r (a @ x # s)"
  then have "drop (pos r) (buf r) ! length a = x" by (simp add: rests_def)
  with r show ?thesis using nth_drop [of "pos r" "buf r" "length a"]
    by (auto simp: rests_def r_ok_def)
qed

lemma hd_ser_varint: "0 < n \<Longrightarrow> n < 2 ^ 64 \<Longrightarrow> \<exists>b s. ser_varint n = b # s \<and> b \<noteq> 0"
proof (cases "n < 253")
  case True
  assume "0 < n"
  with True have "uint (word_of_nat n :: byte) \<noteq> 0" by (simp only: uint_word_byte) simp
  then have "(word_of_nat n :: byte) \<noteq> 0" by auto
  with True show ?thesis by (simp add: ser_varint_def)
qed (simp add: ser_varint_def)

lemma ser_ins_length: "\<forall>i \<in> set (w_ins w). wf_wire_input i \<Longrightarrow>
    length (w_ins w) * 41 \<le> length (concat (map ser_input (w_ins w)))"
proof (rule length_concat_ge)
  fix i assume "\<forall>i \<in> set (w_ins w). wf_wire_input i" "i \<in> set (w_ins w)"
  then show "41 \<le> length (ser_input i)"
    using length_ser_varint [of "length (wi_script i)"]
    by (auto simp: ser_input_def ser_bytes_def wf_wire_input_def)
qed

lemma ser_outs_length: "length (w_outs w) * 9 \<le> length (concat (map ser_output (w_outs w)))"
proof (rule length_concat_ge)
  fix out assume "out \<in> set (w_outs w)"
  show "9 \<le> length (ser_output out)"
    using length_ser_varint [of "length (wo_spk out)"] by (simp add: ser_output_def ser_bytes_def)
qed

text \<open>The marker test: a legacy transaction has a non-zero byte there, a segwit one 0 and 1.\<close>

lemma marker_legacy:
  assumes "rests r (ser_ins w @ s)" and "wf_wire w" and "pos r = start + 4"
  shows "read_marker start r = (Inr False, r)"
proof -
  from assms(2) obtain b t where b: "ser_varint (length (w_ins w)) = b # t" "b \<noteq> 0"
    using hd_ser_varint [of "length (w_ins w)"] by (auto simp: wf_wire_def)
  with assms(1) have "rests r ([] @ b # (t @ concat (map ser_input (w_ins w)) @ s))"
    by (simp add: ser_ins_def)
  from rests_nth [OF this] b(2) assms(3) show ?thesis
    by (simp add: read_marker_def bind_def gets_def add.commute)
qed

lemma marker_segwit:
  assumes "rests r ([0, 1] @ s)" and "pos r = start + 4"
  shows "read_marker start r = (Inr True, advance 2 r)"
proof -
  have len: "start + 6 \<le> length (buf r)" using rests_length [OF assms(1)] assms(2) by simp
  have "buf r ! (start + 4) = 0" using rests_nth [of r "[]" 0 "1 # s"] assms by (simp add: add.commute)
  moreover have "buf r ! (start + 5) = 1" using rests_nth [of r "[0]" 1 s] assms by (simp add: add.commute)
  moreover have "r_take 2 r = (Inr [0, 1], advance 2 r)"
    using parsesD [OF parses_take [of 2 "[0, 1]"] assms(1)] by simp
  ultimately show ?thesis using len
    by (simp add: read_marker_def bind_def gets_def add.commute)
qed

text \<open>From the input section on, both forms are read alike.\<close>

lemma parse_sections:
  assumes "wf_wire w" and r: "rests r (ser_ins w @ ser_outs w @ s)"
  obtains r4 r5 r6 where
    "r_count 41 r = (Inr (int (length (w_ins w))), r4)"
    and "for_collect (\<lambda>_. read_input) [0..<length (w_ins w)] r4 = (Inr (map input_of (w_ins w)), r5)"
    and "r_count 9 r5 = (Inr (int (length (w_outs w))), r6)"
    and "for_collect read_output [0..<length (w_outs w)] r6 =
      (Inr (outputs_of 0 (w_outs w)), advance (length (ser_ins w @ ser_outs w)) r)"
    and "rests (advance (length (ser_ins w @ ser_outs w)) r) s"
proof -
  let ?ci = "ser_varint (length (w_ins w))" and ?co = "ser_varint (length (w_outs w))"
  let ?ins = "concat (map ser_input (w_ins w))" and ?outs = "concat (map ser_output (w_outs w))"
  have wf: "length (w_ins w) < 2 ^ 64" "length (w_outs w) < 2 ^ 64"
    "\<forall>i \<in> set (w_ins w). wf_wire_input i"
    "\<forall>out \<in> set (w_outs w). length (wo_spk out) < 2 ^ 64"
    using assms(1) by (auto simp: wf_wire_def)
  define r4 where "r4 = advance (length ?ci) r"
  define r5 where "r5 = advance (length ?ins) r4"
  define r6 where "r6 = advance (length ?co) r5"
  from r have r0: "rests r (?ci @ (?ins @ ?co @ ?outs @ s))" by (simp add: ser_ins_def ser_outs_def)
  have r4: "rests r4 (?ins @ (?co @ ?outs @ s))" unfolding r4_def by (rule rests_advance [OF r0])
  have r5: "rests r5 (?co @ (?outs @ s))" unfolding r5_def by (rule rests_advance [OF r4])
  have r6: "rests r6 (?outs @ s)" unfolding r6_def by (rule rests_advance [OF r5])
  have end_: "advance (length (ser_ins w @ ser_outs w)) r = advance (length ?outs) r6"
    by (simp add: r4_def r5_def r6_def ser_ins_def ser_outs_def add.assoc)
  show thesis
  proof (rule that)
    show "r_count 41 r = (Inr (int (length (w_ins w))), r4)"
      unfolding r4_def using ser_ins_length [OF wf(3)] by (intro count_reads [OF wf(1) r0]) simp
    show "for_collect (\<lambda>_. read_input) [0..<length (w_ins w)] r4 = (Inr (map input_of (w_ins w)), r5)"
      unfolding r5_def by (rule parsesD [OF parses_inputs [OF wf(3)] r4])
    show "r_count 9 r5 = (Inr (int (length (w_outs w))), r6)"
      unfolding r6_def using ser_outs_length [of w] by (intro count_reads [OF wf(2) r5]) simp
    show "for_collect read_output [0..<length (w_outs w)] r6 =
        (Inr (outputs_of 0 (w_outs w)), advance (length (ser_ins w @ ser_outs w)) r)"
      unfolding end_ by (rule parsesD [OF parses_outputs [OF wf(4)] r6])
    show "rests (advance (length (ser_ins w @ ser_outs w)) r) s"
      unfolding end_ by (rule rests_advance [OF r6])
  qed
qed

lemma read_legacy:
  assumes "wf_wire w" and "w_witness w = None" and r: "rests r (ser_tx w @ s)"
  shows "read_tx_body (pos r) r =
    (Inr (tx_of_wire w, pos r + length (ser_tx w)), advance (length (ser_tx w)) r)"
proof -
  have st: "ser_tx w = to_le 4 (w_version w) @ (ser_ins w @ ser_outs w) @ to_le 4 (w_locktime w)"
    using assms(2) by (simp add: ser_tx_def ser_stripped_def)
  from r have r0: "rests r (to_le 4 (w_version w) @ (ser_ins w @ ser_outs w @ to_le 4 (w_locktime w) @ s))"
    by (simp add: st)
  have h1: "r_uint32 r = (Inr (w_version w mod 2 ^ 32), advance 4 r)"
    using parsesD [OF uint32_skips r0] by simp
  have r1: "rests (advance 4 r) (ser_ins w @ ser_outs w @ (to_le 4 (w_locktime w) @ s))"
    using rests_advance [OF r0] by simp
  have h2: "read_marker (pos r) (advance 4 r) = (Inr False, advance 4 r)"
    using marker_legacy [OF r1 assms(1)] by simp
  obtain r4 r5 r6 where h:
    "r_count 41 (advance 4 r) = (Inr (int (length (w_ins w))), r4)"
    "for_collect (\<lambda>_. read_input) [0..<length (w_ins w)] r4 = (Inr (map input_of (w_ins w)), r5)"
    "r_count 9 r5 = (Inr (int (length (w_outs w))), r6)"
    "for_collect read_output [0..<length (w_outs w)] r6 =
      (Inr (outputs_of 0 (w_outs w)), advance (length (ser_ins w @ ser_outs w)) (advance 4 r))"
    and r7: "rests (advance (length (ser_ins w @ ser_outs w)) (advance 4 r)) (to_le 4 (w_locktime w) @ s)"
    by (rule parse_sections [OF assms(1) r1])
  have h8: "r_uint32 (advance (length (ser_ins w @ ser_outs w)) (advance 4 r)) =
      (Inr (w_locktime w mod 2 ^ 32), advance 4 (advance (length (ser_ins w @ ser_outs w)) (advance 4 r)))"
    using parsesD [OF uint32_skips r7] by simp
  have n0: "int (length (w_ins w)) \<noteq> 0" using assms(1) by (simp add: wf_wire_def)
  have pre: "slice (pos r) (pos r + length (ser_tx w)) (buf r) = ser_stripped w"
    using rests_slice [of r "[]" "ser_tx w" s] r assms(2) by (simp add: ser_tx_def)
  have len: "length (ser_tx w) = 4 + length (ser_ins w @ ser_outs w) + 4" by (simp add: st)
  from r have "r_ok r" by (simp add: rests_def)
  from read_tx_body_run [OF this refl h1 h2 h(1) n0 _ h(3) _ _ h8, of _ _ _ ] h(2,4) pre assms(2) len
  show ?thesis
    by (simp add: txid_preimage_def tx_of_wire_def Let_def ret_def add.assoc add.commute add.left_commute)
qed

lemma read_segwit:
  assumes wf: "wf_wire w" and wit: "w_witness w = Some wit" and r: "rests r (ser_tx w @ s)"
  shows "read_tx_body (pos r) r =
    (Inr (tx_of_wire w, pos r + length (ser_tx w)), advance (length (ser_tx w)) r)"
proof -
  let ?io = "ser_ins w @ ser_outs w" and ?wit = "concat (map ser_stack wit)"
  let ?v = "to_le 4 (w_version w)" and ?lt = "to_le 4 (w_locktime w)"
  have st: "ser_tx w = ?v @ [0, 1] @ ?io @ ?wit @ ?lt" using wit by (simp add: ser_tx_def)
  from r have r0: "rests r (?v @ ([0, 1] @ ?io @ ?wit @ ?lt @ s))" by (simp add: st)
  have h1: "r_uint32 r = (Inr (w_version w mod 2 ^ 32), advance 4 r)"
    using parsesD [OF uint32_skips r0] by simp
  have r1: "rests (advance 4 r) ([0, 1] @ (?io @ ?wit @ ?lt @ s))"
    using rests_advance [OF r0] by simp
  have h2: "read_marker (pos r) (advance 4 r) = (Inr True, advance 6 r)"
    using marker_segwit [OF r1, of "pos r"] by simp
  have r2: "rests (advance 6 r) (ser_ins w @ ser_outs w @ (?wit @ ?lt @ s))"
    using rests_advance [OF r1] by simp
  obtain r4 r5 r6 where h:
    "r_count 41 (advance 6 r) = (Inr (int (length (w_ins w))), r4)"
    "for_collect (\<lambda>_. read_input) [0..<length (w_ins w)] r4 = (Inr (map input_of (w_ins w)), r5)"
    "r_count 9 r5 = (Inr (int (length (w_outs w))), r6)"
    "for_collect read_output [0..<length (w_outs w)] r6 =
      (Inr (outputs_of 0 (w_outs w)), advance (length ?io) (advance 6 r))"
    and r7: "rests (advance (length ?io) (advance 6 r)) (?wit @ ?lt @ s)"
    by (rule parse_sections [OF wf r2])
  define r6' where "r6' = advance (length ?io) (advance 6 r)"
  define r7' where "r7' = advance (length ?wit) r6'"
  have "parses (for_each (\<lambda>_. skip_witness) [0..<length (w_ins w)]) ?wit ()"
    using wf wit by (intro parses_witness) (auto simp: wf_wire_def)
  from parsesD [OF this r7] have h7: "(if True then for_each (\<lambda>_. skip_witness)
      [0..<nat (int (length (w_ins w)))] else ret ()) r6' = (Inr (), r7')"
    by (simp add: r6'_def r7'_def)
  have r8: "rests r7' (?lt @ s)" using rests_advance [OF r7] by (simp add: r6'_def r7'_def)
  have h8: "r_uint32 r7' = (Inr (w_locktime w mod 2 ^ 32), advance 4 r7')"
    using parsesD [OF uint32_skips r8] by simp
  have n0: "int (length (w_ins w)) \<noteq> 0" using wf by (simp add: wf_wire_def)
  have p: "pos r6' = pos r + 6 + length ?io" "pos r7' = pos r + 6 + length ?io + length ?wit"
    by (simp_all add: r6'_def r7'_def)
  have s1: "slice (pos r) (pos r + 4) (buf r) = ?v"
    using rests_slice [of r "[]" ?v] r0 by simp
  have s2: "slice (pos r + 6) (pos r6') (buf r) = ?io"
    using rests_slice [of "advance 6 r" "[]" ?io] r2 by (simp add: p)
  have s3: "slice (pos r7') (pos r7' + 4) (buf r) = ?lt"
    using rests_slice [of r7' "[]" ?lt] r8 by (simp add: r7'_def r6'_def)
  have pre: "txid_preimage (buf r) (pos r) (pos r6') (pos r7') (pos r7' + 4) True = ser_stripped w"
    by (simp add: txid_preimage_def s1 s2 s3 ser_stripped_def)
  have len: "length (ser_tx w) = 10 + length ?io + length ?wit" by (simp add: st)
  have fin: "advance 4 r7' = advance (length (ser_tx w)) r"
    "pos r7' + 4 = pos r + length (ser_tx w)"
    by (simp_all add: r7'_def r6'_def len)
  from r have "r_ok r" by (simp add: rests_def)
  moreover have "for_collect (\<lambda>_. read_input) [0..<nat (int (length (w_ins w)))] r4 =
      (Inr (map input_of (w_ins w)), r5)" using h(2) by simp
  moreover have "for_collect read_output [0..<nat (int (length (w_outs w)))] r6 =
      (Inr (outputs_of 0 (w_outs w)), r6')" using h(4) by (simp add: r6'_def)
  ultimately have "read_tx_body (pos r) r = (Inr
      (\<lparr>tx_txid = dsha256 (txid_preimage (buf r) (pos r) (pos r6') (pos r7') (pos (advance 4 r7')) True),
       tx_inputs = (if is_coinbase_inputs (map input_of (w_ins w)) then [] else map input_of (w_ins w)),
       tx_outputs = outputs_of 0 (w_outs w),
       tx_is_coinbase = is_coinbase_inputs (map input_of (w_ins w)), tx_has_witness = True\<rparr>,
      pos (advance 4 r7')), advance 4 r7')"
    by (intro read_tx_body_run [OF _ refl h1 h2 h(1) n0 _ h(3) _ h7 h8])
  with pre fin wit show ?thesis by (simp add: tx_of_wire_def Let_def)
qed

lemma read_body_roundtrip:
  assumes "wf_wire w" and "rests r (ser_tx w @ s)"
  shows "read_tx_body (pos r) r =
    (Inr (tx_of_wire w, pos r + length (ser_tx w)), advance (length (ser_tx w)) r)"
  using assms read_legacy read_segwit by (cases "w_witness w") blast+

lemma read_tx_ser:
  assumes "wf_wire w"
  shows "read_tx (pre @ ser_tx w @ post) (length pre) = Inr (tx_of_wire w, length pre + length (ser_tx w))"
proof -
  let ?r = "\<lparr>buf = pre @ ser_tx w @ post, pos = length pre\<rparr>"
  have "rests ?r (ser_tx w @ post)" by (simp add: rests_def r_ok_def)
  from read_body_roundtrip [OF assms this] show ?thesis by (simp add: read_tx_def)
qed

section \<open>Properties\<close>

text \<open>One input, one output, as a legacy and as a segwit transaction.\<close>

definition ex_wire :: wire_tx where
  "ex_wire = \<lparr>w_version = 2,
     w_ins = [\<lparr>wi_txid = replicate 32 7, wi_vout = 1, wi_script = [], wi_sequence = 4294967295\<rparr>],
     w_outs = [\<lparr>wo_value = 5000, wo_spk = [0, 20]\<rparr>], w_witness = None, w_locktime = 0\<rparr>"

lemma ex_wire_wf: "wf_wire ex_wire" "wf_wire (ex_wire\<lparr>w_witness := Some [[[1, 2], [3]]]\<rparr>)"
  by (simp_all add: ex_wire_def wf_wire_def wf_wire_input_def)

text \<open>
  C5: the parser reads back every well-formed transaction, legacy or segwit, from its wire
  form: its txid is the double SHA-256 of the stripped form, its inputs and outputs are the
  ones serialised, in order, a coinbase has no inputs, and nothing is left over.
\<close>

theorem parse_tx_ser: "wf_wire w \<Longrightarrow> parse_tx (ser_tx w) = Inr (tx_of_wire w)"
  using read_tx_ser [of w "[]" "[]"] by (simp add: parse_tx_def)

lemma parse_tx_ser_witness: "parse_tx (ser_tx ex_wire) = Inr (tx_of_wire ex_wire)"
  by (rule parse_tx_ser [OF ex_wire_wf(1)])

lemma parse_tx_wire: "wf_wire w \<Longrightarrow> parse_tx (ser_tx w) = Inr (tx_of_wire w)"
  using read_tx_ser [of w "[]" "[]"] by (simp add: parse_tx_def)

text \<open>
  The txid, the spent outpoints and the outputs do not depend on the witness. Two wire
  forms that differ only in their witness, or of which one has none, parse to transactions
  that agree on everything but the witness flag.
\<close>

theorem txid_ignores_witness:
  assumes "wf_wire w" and "wf_wire (w\<lparr>w_witness := wit\<rparr>)"
  shows "\<exists>tx. parse_tx (ser_tx w) = Inr tx
    \<and> parse_tx (ser_tx (w\<lparr>w_witness := wit\<rparr>)) = Inr (tx\<lparr>tx_has_witness := wit \<noteq> None\<rparr>)"
  using parse_tx_wire [OF assms(1)] parse_tx_wire [OF assms(2)]
  by (simp add: tx_of_wire_def Let_def ser_stripped_def ser_ins_def ser_outs_def)

lemma txid_ignores_witness_witness:
  "\<exists>tx. parse_tx (ser_tx ex_wire) = Inr tx
    \<and> parse_tx (ser_tx (ex_wire\<lparr>w_witness := Some [[[1, 2], [3]]]\<rparr>)) = Inr (tx\<lparr>tx_has_witness := True\<rparr>)"
  using txid_ignores_witness [OF ex_wire_wf] by simp

text \<open>
  C37: on any bytes, short of four gigabytes, the parser either raises
  \<open>MalformedTransaction\<close> and nothing else, or returns a transaction whose txid is 32 bytes
  and whose outpoints all have a 32-byte txid and an index of 32 bits.
\<close>

theorem parse_tx_total:
  assumes "length raw < 2 ^ 32"
  shows "case parse_tx raw of Inl e \<Rightarrow> is_malformed_tx e | Inr tx \<Rightarrow> wf_tx tx"
  using parse_tx_raises [of raw] parse_tx_returns [of raw] assms by (cases "parse_tx raw") auto

lemma parse_tx_total_witness:
  "case parse_tx [1, 0, 0] of Inl e \<Rightarrow> is_malformed_tx e | Inr tx \<Rightarrow> wf_tx tx"
  by (rule parse_tx_total) simp

end
