(* ===== verification/Watch_Index.thy ===== *)
theory Watch_Index
  imports Keys
begin

text \<open>
  The interface \<open>WatchIndex\<close> between the matching loop and the record, and its in-memory
  provider. The Python \<open>Protocol\<close> is a record of operations that the loop takes as an
  argument; what the loop relies on are the laws of the locale \<open>watch_index\<close>, stated
  over the relation "item \<open>i\<close> owns outpoint hash \<open>h\<close>". The dictionary-backed index of
  \<open>match/matcher.py\<close> provides them; the SQLite store does too, in its own theory.
\<close>

section \<open>The interface\<close>

record 'ix index_ops =
  items_watching_spk :: "'ix \<Rightarrow> bytes \<Rightarrow> int list"
  items_owning_outpoint :: "'ix \<Rightarrow> bytes \<Rightarrow> int list"
  add_outpoint :: "int \<Rightarrow> bytes \<Rightarrow> 'ix \<Rightarrow> 'ix"
  drop_outpoint :: "int \<Rightarrow> bytes \<Rightarrow> 'ix \<Rightarrow> 'ix"

text \<open>
  \<open>invar\<close> is the provider's own consistency, \<open>tracked ix i\<close> that the record of item \<open>i\<close>
  is live: adding a coin for an item that is not tracked is a no-op.
\<close>

locale watch_index =
  fixes W :: "'ix index_ops"
    and invar :: "'ix \<Rightarrow> bool"
    and tracked :: "'ix \<Rightarrow> int \<Rightarrow> bool"
  assumes invar_add: "invar ix \<Longrightarrow> invar (add_outpoint W i h ix)"
    and invar_drop: "invar ix \<Longrightarrow> invar (drop_outpoint W i h ix)"
    and owning_add: "invar ix \<Longrightarrow>
      j \<in> set (items_owning_outpoint W (add_outpoint W i h ix) g) \<longleftrightarrow>
        j \<in> set (items_owning_outpoint W ix g) \<or> (j = i \<and> g = h \<and> tracked ix i)"
    and owning_drop: "invar ix \<Longrightarrow>
      j \<in> set (items_owning_outpoint W (drop_outpoint W i h ix) g) \<longleftrightarrow>
        j \<in> set (items_owning_outpoint W ix g) \<and> \<not> (j = i \<and> g = h)"
    and distinct_owning: "invar ix \<Longrightarrow> distinct (items_owning_outpoint W ix h)"
    and watching_add: "items_watching_spk W (add_outpoint W i h ix) = items_watching_spk W ix"
    and watching_drop: "items_watching_spk W (drop_outpoint W i h ix) = items_watching_spk W ix"
    and tracked_add: "tracked (add_outpoint W i h ix) = tracked ix"
    and tracked_drop: "tracked (drop_outpoint W i h ix) = tracked ix"
    and watching_tracked: "i \<in> set (items_watching_spk W ix h) \<Longrightarrow> tracked ix i"
begin

definition owns :: "'ix \<Rightarrow> int \<Rightarrow> bytes \<Rightarrow> bool" where
  "owns ix i h \<longleftrightarrow> i \<in> set (items_owning_outpoint W ix h)"

lemmas index_laws = invar_add invar_drop owning_add owning_drop watching_add watching_drop
  tracked_add tracked_drop

lemma fold_drop:
  assumes "invar ix"
  shows "invar (fold (\<lambda>i. drop_outpoint W i h) is ix)
    \<and> (j \<in> set (items_owning_outpoint W (fold (\<lambda>i. drop_outpoint W i h) is ix) g) \<longleftrightarrow>
        j \<in> set (items_owning_outpoint W ix g) \<and> \<not> (j \<in> set is \<and> g = h))
    \<and> items_watching_spk W (fold (\<lambda>i. drop_outpoint W i h) is ix) = items_watching_spk W ix
    \<and> tracked (fold (\<lambda>i. drop_outpoint W i h) is ix) = tracked ix"
  using assms by (induction "is" arbitrary: ix) (auto simp: index_laws)

lemma fold_add:
  assumes "invar ix" and "\<forall>i \<in> set is. tracked ix i"
  shows "invar (fold (\<lambda>i. add_outpoint W i h) is ix)
    \<and> (j \<in> set (items_owning_outpoint W (fold (\<lambda>i. add_outpoint W i h) is ix) g) \<longleftrightarrow>
        j \<in> set (items_owning_outpoint W ix g) \<or> (j \<in> set is \<and> g = h))
    \<and> items_watching_spk W (fold (\<lambda>i. add_outpoint W i h) is ix) = items_watching_spk W ix
    \<and> tracked (fold (\<lambda>i. add_outpoint W i h) is ix) = tracked ix"
  using assms by (induction "is" arbitrary: ix) (auto simp: index_laws)

end

section \<open>InMemoryWatchIndex\<close>

record mem_index =
  by_spk :: "(bytes \<times> int list) list"
  by_outpoint :: "(bytes \<times> int list) list"

definition mem_new :: "(int \<times> bytes) list \<Rightarrow> mem_index" where
  "mem_new watched =
     \<lparr>by_spk = fold (\<lambda>(item_id, spk_h) d. AList.update spk_h (dict_get d spk_h [] @ [item_id]) d) watched [],
      by_outpoint = []\<rparr>"

definition mem_items_watching_spk :: "mem_index \<Rightarrow> bytes \<Rightarrow> int list" where
  "mem_items_watching_spk ix h = dict_get (by_spk ix) h []"

definition mem_items_owning_outpoint :: "mem_index \<Rightarrow> bytes \<Rightarrow> int list" where
  "mem_items_owning_outpoint ix h = dict_get (by_outpoint ix) h []"

definition mem_add_outpoint :: "int \<Rightarrow> bytes \<Rightarrow> mem_index \<Rightarrow> mem_index" where
  "mem_add_outpoint item_id h ix =
     ix\<lparr>by_outpoint := AList.update h (append_new item_id (dict_get (by_outpoint ix) h [])) (by_outpoint ix)\<rparr>"

definition mem_drop_outpoint :: "int \<Rightarrow> bytes \<Rightarrow> mem_index \<Rightarrow> mem_index" where
  "mem_drop_outpoint item_id h ix =
     (let owners = dict_get (by_outpoint ix) h [] in
      if owners = [] \<or> item_id \<notin> set owners then ix
      else let rest = remove1 item_id owners in
        if rest = [] then ix\<lparr>by_outpoint := AList.delete h (by_outpoint ix)\<rparr>
        else ix\<lparr>by_outpoint := AList.update h rest (by_outpoint ix)\<rparr>)"

definition mem_outpoint_count :: "mem_index \<Rightarrow> nat" where
  "mem_outpoint_count ix = sum_list (map (\<lambda>(_, v). length v) (by_outpoint ix))"

definition mem_ops :: "mem_index index_ops" where
  "mem_ops = \<lparr>items_watching_spk = mem_items_watching_spk,
     items_owning_outpoint = mem_items_owning_outpoint,
     add_outpoint = mem_add_outpoint, drop_outpoint = mem_drop_outpoint\<rparr>"

text \<open>Owner lists are never empty and never repeat an item; no outpoint has two entries.\<close>

definition mem_ok :: "mem_index \<Rightarrow> bool" where
  "mem_ok ix \<longleftrightarrow> dict_ok (by_outpoint ix)
     \<and> (\<forall>h v. map_of (by_outpoint ix) h = Some v \<longrightarrow> v \<noteq> [] \<and> distinct v)"

lemma mem_ok_new: "mem_ok (mem_new watched)"
  by (simp add: mem_ok_def mem_new_def)

lemma mem_ok_distinct: "mem_ok ix \<Longrightarrow> distinct (dict_get (by_outpoint ix) h [])"
  by (auto simp: mem_ok_def dict_get_def split: option.splits)

lemma mem_ok_add: "mem_ok ix \<Longrightarrow> mem_ok (mem_add_outpoint i h ix)"
  using mem_ok_distinct [of ix h]
  by (auto simp: mem_ok_def mem_add_outpoint_def distinct_update update_conv' split: if_splits
      simp del: map_of_eq_Some_iff)

lemma mem_ok_drop: "mem_ok ix \<Longrightarrow> mem_ok (mem_drop_outpoint i h ix)"
  using mem_ok_distinct [of ix h]
  by (auto simp: mem_ok_def mem_drop_outpoint_def Let_def distinct_update distinct_delete
      update_conv' delete_conv' split: if_splits simp del: map_of_eq_Some_iff)

lemma mem_owning_distinct: "mem_ok ix \<Longrightarrow> distinct (mem_items_owning_outpoint ix h)"
  by (simp add: mem_items_owning_outpoint_def mem_ok_distinct)

lemma mem_owning_add:
  "j \<in> set (mem_items_owning_outpoint (mem_add_outpoint i h ix) g) \<longleftrightarrow>
     j \<in> set (mem_items_owning_outpoint ix g) \<or> (j = i \<and> g = h)"
  by (auto simp: mem_items_owning_outpoint_def mem_add_outpoint_def dict_get_update)

lemma mem_owning_drop:
  "mem_ok ix \<Longrightarrow>
   j \<in> set (mem_items_owning_outpoint (mem_drop_outpoint i h ix) g) \<longleftrightarrow>
     j \<in> set (mem_items_owning_outpoint ix g) \<and> \<not> (j = i \<and> g = h)"
  using mem_ok_distinct [of ix h]
  by (auto simp: mem_items_owning_outpoint_def mem_drop_outpoint_def Let_def dict_get_update
      dict_get_delete set_remove1_eq split: if_splits)
     (metis empty_iff insert_Diff_single insert_iff list.set(1) set_remove1_eq)+

lemma mem_watching_frame [simp]:
  "mem_items_watching_spk (mem_add_outpoint i h ix) = mem_items_watching_spk ix"
  "mem_items_watching_spk (mem_drop_outpoint i h ix) = mem_items_watching_spk ix"
  by (auto simp: mem_items_watching_spk_def mem_add_outpoint_def mem_drop_outpoint_def Let_def)

interpretation mem: watch_index mem_ops mem_ok "\<lambda>_ _. True"
  by unfold_locales
     (simp_all add: mem_ops_def mem_ok_add mem_ok_drop mem_owning_add mem_owning_drop
       mem_owning_distinct)

text \<open>Dropping the last owner removes the entry, so nothing is kept for a spent coin.\<close>

lemma mem_drop_last:
  "mem_items_owning_outpoint ix h = [i] \<Longrightarrow> map_of (by_outpoint (mem_drop_outpoint i h ix)) h = None"
  by (simp add: mem_items_owning_outpoint_def mem_drop_outpoint_def delete_conv')

end
