(* ===== verification/Provisional.thy ===== *)
theory Provisional
  imports Bytes
begin

text \<open>
  \<open>ProvisionalOutpoints\<close> of \<open>match/matcher.py\<close>: coins that exist only in the mempool,
  held in memory, bounded by the number of transactions that created them and evicted
  oldest first. The lemmas show that the bound holds after every operation, that every
  coin held is accounted to a transaction still held (so releasing the transactions
  releases the coins), that forgetting a transaction releases its coins, and that a coin
  just added is there.
\<close>

record provisional =
  pv_maxlen :: int
  pv_by_outpoint :: "(bytes \<times> int list) list"
  pv_by_txid :: "(bytes \<times> bytes list) list"
  pv_evicted :: int

definition DEFAULT_PROVISIONAL_MAX :: int where
  "DEFAULT_PROVISIONAL_MAX = 100000"

definition new_provisional :: "int \<Rightarrow> exn + provisional" where
  "new_provisional maxlen =
     (if maxlen < 1 then Inl (ValueError ''provisional bound must be at least 1'')
      else Inr \<lparr>pv_maxlen = maxlen, pv_by_outpoint = [], pv_by_txid = [], pv_evicted = 0\<rparr>)"

definition prov_drop :: "bytes list \<Rightarrow> provisional \<Rightarrow> provisional" where
  "prov_drop outpoints p = p\<lparr>pv_by_outpoint := fold AList.delete outpoints (pv_by_outpoint p)\<rparr>"

text \<open>\<open>while len(self._by_txid) > self.maxlen: popitem(last=False)\<close>\<close>

function prov_evict :: "provisional \<Rightarrow> provisional" where
  "prov_evict p =
     (case pv_by_txid p of
        [] \<Rightarrow> p
      | (_, stale_outpoints) # rest \<Rightarrow>
          if int (length (pv_by_txid p)) > pv_maxlen p
          then prov_evict ((prov_drop stale_outpoints (p\<lparr>pv_by_txid := rest\<rparr>))
                 \<lparr>pv_evicted := pv_evicted p + 1\<rparr>)
          else p)"
  by pat_completeness auto
termination
  by (relation "measure (\<lambda>p. length (pv_by_txid p))") (auto simp: prov_drop_def)

declare prov_evict.simps [simp del]

definition prov_add :: "bytes \<Rightarrow> int \<Rightarrow> bytes \<Rightarrow> provisional \<Rightarrow> provisional" where
  "prov_add txid item_id h p =
     (let owners = append_new item_id (dict_get (pv_by_outpoint p) h []);
          created = append_new h (dict_get (pv_by_txid p) txid [])
      in prov_evict (p\<lparr>pv_by_outpoint := AList.update h owners (pv_by_outpoint p),
                       pv_by_txid := AList.update txid created (pv_by_txid p)\<rparr>))"

definition prov_items :: "provisional \<Rightarrow> bytes \<Rightarrow> int list" where
  "prov_items p h = dict_get (pv_by_outpoint p) h []"

definition prov_forget :: "bytes \<Rightarrow> provisional \<Rightarrow> provisional" where
  "prov_forget txid p =
     prov_drop (dict_get (pv_by_txid p) txid [])
       (p\<lparr>pv_by_txid := AList.delete txid (pv_by_txid p)\<rparr>)"

definition prov_len :: "provisional \<Rightarrow> nat" where
  "prov_len p = length (pv_by_outpoint p)"

definition pending_transactions :: "provisional \<Rightarrow> nat" where
  "pending_transactions p = length (pv_by_txid p)"

section \<open>Invariant\<close>

definition listed_in :: "(bytes \<times> bytes list) list \<Rightarrow> bytes set" where
  "listed_in d = (\<Union>created \<in> snd ` set d. set created)"

text \<open>
  \<open>prov_linked\<close>: both dictionaries have one entry per key, and every coin is listed by
  some transaction. \<open>prov_ok\<close> adds the bound.
\<close>

definition prov_linked :: "provisional \<Rightarrow> bool" where
  "prov_linked p \<longleftrightarrow> dict_ok (pv_by_outpoint p) \<and> dict_ok (pv_by_txid p)
     \<and> fst ` set (pv_by_outpoint p) \<subseteq> listed_in (pv_by_txid p)"

definition prov_ok :: "provisional \<Rightarrow> bool" where
  "prov_ok p \<longleftrightarrow> prov_linked p \<and> 1 \<le> pv_maxlen p \<and> int (length (pv_by_txid p)) \<le> pv_maxlen p"

lemma prov_okD:
  "prov_ok p \<Longrightarrow> prov_linked p" "prov_ok p \<Longrightarrow> 1 \<le> pv_maxlen p"
  "prov_ok p \<Longrightarrow> int (length (pv_by_txid p)) \<le> pv_maxlen p"
  by (simp_all add: prov_ok_def)

lemma listed_in_Cons [simp]:
  "listed_in [] = {}" "listed_in (e # d) = set (snd e) \<union> listed_in d"
  by (simp_all add: listed_in_def)

lemma listed_in_iff:
  assumes "dict_ok d"
  shows "h \<in> listed_in d \<longleftrightarrow> (\<exists>k. h \<in> set (dict_get d k []))"
  using assms by (force simp: listed_in_def dict_get_def split: option.splits)

lemma keys_fold_delete:
  "fst ` set (fold AList.delete ks d) = fst ` set d - set ks"
  by (induction ks arbitrary: d) (auto simp: delete_keys AList.delete_eq)

lemma dict_ok_fold_delete: "dict_ok d \<Longrightarrow> dict_ok (fold AList.delete ks d)"
  by (induction ks arbitrary: d) (auto simp: distinct_delete)

lemma dict_get_fold_delete:
  "dict_get (fold AList.delete ks d) k x = (if k \<in> set ks then x else dict_get d k x)"
  by (induction ks arbitrary: d) (auto simp: dict_get_delete)

lemma prov_drop_simps [simp]:
  "pv_maxlen (prov_drop hs p) = pv_maxlen p" "pv_by_txid (prov_drop hs p) = pv_by_txid p"
  "pv_evicted (prov_drop hs p) = pv_evicted p"
  "prov_items (prov_drop hs p) h = (if h \<in> set hs then [] else prov_items p h)"
  by (simp_all add: prov_drop_def prov_items_def dict_get_fold_delete)

text \<open>Dropping what a removed transaction listed keeps every remaining coin listed.\<close>

lemma prov_linked_remove:
  assumes "prov_linked p" and "dict_ok rest"
    and "listed_in (pv_by_txid p) \<subseteq> set hs \<union> listed_in rest"
  shows "prov_linked (prov_drop hs (p\<lparr>pv_by_txid := rest\<rparr>))"
proof -
  have "fst ` set (pv_by_outpoint p) \<subseteq> listed_in (pv_by_txid p)"
    using assms(1) by (simp add: prov_linked_def)
  with assms(3) have "fst ` set (fold AList.delete hs (pv_by_outpoint p)) \<subseteq> listed_in rest"
    unfolding keys_fold_delete by blast
  with assms(1,2) show ?thesis
    by (simp add: prov_linked_def prov_drop_def dict_ok_fold_delete)
qed

lemma prov_linked_evicted [simp]: "prov_linked (p\<lparr>pv_evicted := n\<rparr>) = prov_linked p"
  by (simp add: prov_linked_def)

lemma prov_evict_ok:
  assumes "prov_linked p" and "1 \<le> pv_maxlen p"
  shows "prov_ok (prov_evict p)"
  using assms
proof (induction p rule: prov_evict.induct)
  case (1 p)
  show ?case
  proof (cases "pv_by_txid p")
    case Nil
    with "1.prems" show ?thesis by (simp add: prov_evict.simps [of p] prov_ok_def)
  next
    case (Cons entry rest)
    obtain txid hs where entry: "entry = (txid, hs)" by fastforce
    show ?thesis
    proof (cases "int (length (pv_by_txid p)) > pv_maxlen p")
      case True
      have "prov_linked (prov_drop hs (p\<lparr>pv_by_txid := rest\<rparr>))"
        using "1.prems"(1) Cons entry
        by (intro prov_linked_remove) (simp_all add: prov_linked_def)
      with "1.IH" [OF Cons entry [symmetric] True] "1.prems"(2) True Cons entry show ?thesis
        by (simp add: prov_evict.simps [of p])
    next
      case False
      with "1.prems" Cons entry show ?thesis by (simp add: prov_evict.simps [of p] prov_ok_def)
    qed
  qed
qed

lemma prov_linked_add:
  assumes "prov_linked p"
  shows "prov_linked (p\<lparr>pv_by_outpoint := AList.update h owners (pv_by_outpoint p),
    pv_by_txid := AList.update txid (append_new h (dict_get (pv_by_txid p) txid [])) (pv_by_txid p)\<rparr>)"
proof -
  let ?d = "AList.update txid (append_new h (dict_get (pv_by_txid p) txid [])) (pv_by_txid p)"
  have ok: "dict_ok (pv_by_outpoint p)" "dict_ok (pv_by_txid p)"
    and sub: "fst ` set (pv_by_outpoint p) \<subseteq> listed_in (pv_by_txid p)"
    using assms by (simp_all add: prov_linked_def)
  have "listed_in ?d = insert h (listed_in (pv_by_txid p))"
  proof (intro set_eqI iffI)
    fix x assume "x \<in> listed_in ?d"
    then obtain k where "x \<in> set (dict_get ?d k [])"
      using listed_in_iff [OF distinct_update [OF ok(2)]] by blast
    then show "x \<in> insert h (listed_in (pv_by_txid p))"
      using listed_in_iff [OF ok(2)] by (auto simp: dict_get_update split: if_splits)
  next
    fix x assume "x \<in> insert h (listed_in (pv_by_txid p))"
    then obtain k where "x = h \<or> x \<in> set (dict_get (pv_by_txid p) k [])"
      using listed_in_iff [OF ok(2)] by blast
    then have "x \<in> set (dict_get ?d (if x = h then txid else k) [])"
      by (auto simp: dict_get_update)
    then show "x \<in> listed_in ?d"
      using listed_in_iff [OF distinct_update [OF ok(2)]] by blast
  qed
  moreover have "fst ` set (AList.update h owners (pv_by_outpoint p)) = insert h (fst ` set (pv_by_outpoint p))"
    by (simp add: dom_update [unfolded dom_map_of_conv_image_fst])
  ultimately show ?thesis using ok sub by (auto simp: prov_linked_def distinct_update)
qed

lemma prov_add_ok: "prov_ok p \<Longrightarrow> prov_ok (prov_add txid i h p)"
  unfolding prov_add_def Let_def
  by (rule prov_evict_ok) (auto intro: prov_linked_add dest: prov_okD)

lemma prov_forget_ok:
  assumes "prov_ok p"
  shows "prov_ok (prov_forget txid p)"
proof -
  have ok: "dict_ok (pv_by_txid p)" using assms by (simp add: prov_ok_def prov_linked_def)
  have "listed_in (pv_by_txid p) \<subseteq> set (dict_get (pv_by_txid p) txid []) \<union>
      listed_in (AList.delete txid (pv_by_txid p))"
  proof
    fix x assume "x \<in> listed_in (pv_by_txid p)"
    then obtain k where k: "x \<in> set (dict_get (pv_by_txid p) k [])"
      using listed_in_iff [OF ok] by blast
    then have "k \<noteq> txid \<Longrightarrow> x \<in> set (dict_get (AList.delete txid (pv_by_txid p)) k [])"
      by (simp add: dict_get_delete)
    with k show "x \<in> set (dict_get (pv_by_txid p) txid []) \<union> listed_in (AList.delete txid (pv_by_txid p))"
      using listed_in_iff [OF distinct_delete [OF ok]] by (cases "k = txid") auto
  qed
  with assms have "prov_linked (prov_forget txid p)"
    unfolding prov_forget_def by (intro prov_linked_remove) (auto simp: prov_ok_def distinct_delete ok)
  moreover have "length (AList.delete txid (pv_by_txid p)) \<le> length (pv_by_txid p)"
    by (rule length_delete_le)
  ultimately show ?thesis using assms by (simp add: prov_ok_def prov_forget_def)
qed

lemma new_provisional_ok: "new_provisional n = Inr p \<Longrightarrow> prov_ok p"
  by (auto simp: new_provisional_def prov_ok_def prov_linked_def split: if_splits)

section \<open>What is held\<close>

lemma prov_items_forget:
  "prov_items (prov_forget txid p) h =
     (if h \<in> set (dict_get (pv_by_txid p) txid []) then [] else prov_items p h)"
  by (simp add: prov_forget_def) (simp add: prov_items_def)

lemma prov_forget_unknown:
  "map_of (pv_by_txid p) txid = None \<Longrightarrow> prov_forget txid p = p"
  by (simp add: prov_forget_def dict_get_def prov_drop_def delete_id dom_map_of_conv_image_fst [symmetric] domIff)

text \<open>Below the bound, or for a transaction already held, adding evicts nothing.\<close>

definition prov_known :: "bytes \<Rightarrow> provisional \<Rightarrow> bool" where
  "prov_known txid p \<longleftrightarrow> txid \<in> fst ` set (pv_by_txid p)"

lemma prov_evict_within: "int (length (pv_by_txid p)) \<le> pv_maxlen p \<Longrightarrow> prov_evict p = p"
  by (cases "pv_by_txid p") (auto simp: prov_evict.simps [of p])

lemma prov_evict_step:
  "pv_by_txid p = (old, hs) # rest \<Longrightarrow> int (length (pv_by_txid p)) > pv_maxlen p \<Longrightarrow>
     prov_evict p = prov_evict ((prov_drop hs (p\<lparr>pv_by_txid := rest\<rparr>))\<lparr>pv_evicted := pv_evicted p + 1\<rparr>)"
  by (simp add: prov_evict.simps [of p])

lemma prov_add_within:
  assumes "prov_known txid p \<and> int (length (pv_by_txid p)) \<le> pv_maxlen p
    \<or> int (length (pv_by_txid p)) < pv_maxlen p"
  shows "prov_add txid i h p =
    p\<lparr>pv_by_outpoint := AList.update h (append_new i (prov_items p h)) (pv_by_outpoint p),
      pv_by_txid := AList.update txid (append_new h (dict_get (pv_by_txid p) txid [])) (pv_by_txid p)\<rparr>"
  unfolding prov_add_def Let_def prov_items_def
  by (rule prov_evict_within) (use assms in \<open>auto simp: prov_known_def length_update\<close>)

text \<open>At the bound, a new transaction takes the place of the oldest one.\<close>

lemma prov_add_at_bound:
  assumes "\<not> prov_known txid p" and "int (length (pv_by_txid p)) = pv_maxlen p"
    and "pv_by_txid p = (old, hs) # rest"
  shows "prov_add txid i h p = (prov_drop hs
    (p\<lparr>pv_by_outpoint := AList.update h (append_new i (prov_items p h)) (pv_by_outpoint p),
       pv_by_txid := rest @ [(txid, [h])]\<rparr>))\<lparr>pv_evicted := pv_evicted p + 1\<rparr>"
proof -
  have new: "txid \<notin> fst ` set (pv_by_txid p)" using assms(1) by (simp add: prov_known_def)
  then have "dict_get (pv_by_txid p) txid [] = []"
    by (simp add: dict_get_def map_of_eq_None_iff [THEN iffD2])
  with update_append_new [OF new] assms(3)
  have txids: "AList.update txid (append_new h (dict_get (pv_by_txid p) txid [])) (pv_by_txid p) =
      (old, hs) # (rest @ [(txid, [h])])"
    by (simp add: append_new_def)
  let ?q = "p\<lparr>pv_by_outpoint := AList.update h (append_new i (prov_items p h)) (pv_by_outpoint p),
    pv_by_txid := (old, hs) # (rest @ [(txid, [h])])\<rparr>"
  have len: "int (Suc (length rest)) = pv_maxlen p" using assms(2,3) by simp
  have "prov_add txid i h p = prov_evict ?q"
    by (simp only: prov_add_def Let_def txids prov_items_def)
  also have "\<dots> = prov_evict ((prov_drop hs (?q\<lparr>pv_by_txid := rest @ [(txid, [h])]\<rparr>))
      \<lparr>pv_evicted := pv_evicted ?q + 1\<rparr>)"
    by (rule prov_evict_step) (simp_all add: len [symmetric])
  also have "\<dots> = (prov_drop hs (?q\<lparr>pv_by_txid := rest @ [(txid, [h])]\<rparr>))
      \<lparr>pv_evicted := pv_evicted ?q + 1\<rparr>"
    by (rule prov_evict_within) (simp add: len [symmetric])
  finally show ?thesis by simp
qed

lemma prov_add_known: "prov_ok p \<Longrightarrow> prov_known txid (prov_add txid i h p)"
proof (cases "prov_known txid p \<or> int (length (pv_by_txid p)) < pv_maxlen p")
  case True
  assume "prov_ok p"
  with True have "prov_known txid p \<and> int (length (pv_by_txid p)) \<le> pv_maxlen p
    \<or> int (length (pv_by_txid p)) < pv_maxlen p" by (auto dest: prov_okD)
  from prov_add_within [OF this] show ?thesis
    by (simp add: prov_known_def dom_update [unfolded dom_map_of_conv_image_fst])
next
  case False
  assume ok: "prov_ok p"
  with False have len: "int (length (pv_by_txid p)) = pv_maxlen p" by (auto dest: prov_okD)
  with ok obtain old hs rest where "pv_by_txid p = (old, hs) # rest"
    by (cases "pv_by_txid p") (auto dest: prov_okD)
  from prov_add_at_bound [OF _ len this] False show ?thesis by (simp add: prov_known_def)
qed

definition listed_elsewhere :: "bytes \<Rightarrow> bytes \<Rightarrow> provisional \<Rightarrow> bool" where
  "listed_elsewhere txid h p \<longleftrightarrow> (\<exists>t. t \<noteq> txid \<and> h \<in> set (dict_get (pv_by_txid p) t []))"

lemma prov_add_holds:
  assumes ok: "prov_ok p" and fresh: "\<not> listed_elsewhere txid h p"
  shows "i \<in> set (prov_items (prov_add txid i h p) h)"
proof (cases "prov_known txid p \<or> int (length (pv_by_txid p)) < pv_maxlen p")
  case True
  with ok have "prov_known txid p \<and> int (length (pv_by_txid p)) \<le> pv_maxlen p
    \<or> int (length (pv_by_txid p)) < pv_maxlen p" by (auto dest: prov_okD)
  from prov_add_within [OF this] show ?thesis by (simp add: prov_items_def dict_get_update)
next
  case False
  with ok have len: "int (length (pv_by_txid p)) = pv_maxlen p" by (auto dest: prov_okD)
  with ok obtain old hs rest where bt: "pv_by_txid p = (old, hs) # rest"
    by (cases "pv_by_txid p") (auto dest: prov_okD)
  with False have "old \<noteq> txid" by (auto simp: prov_known_def)
  with fresh bt have "h \<notin> set hs" by (auto simp: listed_elsewhere_def dict_get_def)
  with prov_add_at_bound [OF _ len bt] False show ?thesis
    by (simp add: prov_items_def dict_get_update prov_drop_def dict_get_fold_delete)
qed

lemma prov_add_keeps:
  assumes "prov_ok p" and "prov_known txid p" and "j \<in> set (prov_items p g)"
  shows "j \<in> set (prov_items (prov_add txid i h p) g)"
  using assms prov_add_within [of txid p i h]
  by (auto simp: prov_items_def dict_get_update dest: prov_okD)

lemma prov_add_listed_elsewhere:
  assumes "prov_ok p" and "listed_elsewhere txid g (prov_add txid i h p)"
  shows "listed_elsewhere txid g p"
proof (cases "prov_known txid p \<or> int (length (pv_by_txid p)) < pv_maxlen p")
  case True
  with assms(1) have "prov_known txid p \<and> int (length (pv_by_txid p)) \<le> pv_maxlen p
    \<or> int (length (pv_by_txid p)) < pv_maxlen p" by (auto dest: prov_okD)
  from prov_add_within [OF this] assms(2) show ?thesis
    by (auto simp: listed_elsewhere_def dict_get_update)
next
  case False
  with assms(1) have len: "int (length (pv_by_txid p)) = pv_maxlen p" by (auto dest: prov_okD)
  with assms(1) obtain old hs rest where bt: "pv_by_txid p = (old, hs) # rest"
    by (cases "pv_by_txid p") (auto dest: prov_okD)
  have "dict_ok (pv_by_txid p)" using assms(1) by (simp add: prov_ok_def prov_linked_def)
  with bt have "old \<notin> fst ` set rest" by simp
  then have r: "map_of rest old = None" by (simp add: map_of_eq_None_iff)
  from prov_add_at_bound [OF _ len bt, of txid i h] False assms(2) bt r show ?thesis
    by (fastforce simp: listed_elsewhere_def dict_get_def map_add_def split: option.splits if_splits)
qed

text \<open>All the coins of one transaction, added one after another, are held.\<close>

lemma prov_add_all:
  assumes "prov_ok p" and "\<And>i h. (i, h) \<in> set coins \<Longrightarrow> \<not> listed_elsewhere txid h p"
  shows "prov_ok (fold (\<lambda>(i, h). prov_add txid i h) coins p)
    \<and> (\<forall>(i, h) \<in> set coins. i \<in> set (prov_items (fold (\<lambda>(i, h). prov_add txid i h) coins p) h))
    \<and> (prov_known txid p \<longrightarrow> (\<forall>j g. j \<in> set (prov_items p g) \<longrightarrow>
         j \<in> set (prov_items (fold (\<lambda>(i, h). prov_add txid i h) coins p) g)))"
  using assms
proof (induction coins arbitrary: p)
  case Nil
  then show ?case by simp
next
  case (Cons c coins)
  obtain i h where c: "c = (i, h)" by fastforce
  let ?p = "prov_add txid i h p"
  have ok: "prov_ok ?p" by (rule prov_add_ok [OF Cons.prems(1)])
  have fresh: "\<not> listed_elsewhere txid g ?p" if "(j, g) \<in> set coins" for j g
    using Cons.prems(2) [of j g] prov_add_listed_elsewhere [OF Cons.prems(1)] that by auto
  have new: "i \<in> set (prov_items ?p h)"
    using Cons.prems c by (intro prov_add_holds) auto
  note IH = Cons.IH [OF ok fresh]
  have known: "prov_known txid ?p" by (rule prov_add_known [OF Cons.prems(1)])
  show ?case
    using IH new known prov_add_keeps [OF Cons.prems(1)] by (auto simp: c)
qed

section \<open>Properties\<close>

datatype prov_op = Add bytes int bytes | Forget bytes

fun prov_step :: "prov_op \<Rightarrow> provisional \<Rightarrow> provisional" where
  "prov_step (Add txid i h) p = prov_add txid i h p"
| "prov_step (Forget txid) p = prov_forget txid p"

lemma prov_steps_ok: "prov_ok p \<Longrightarrow> prov_ok (fold prov_step ops p)"
proof (induction ops arbitrary: p)
  case (Cons op ops)
  then have "prov_ok (prov_step op p)" by (cases op) (simp_all add: prov_add_ok prov_forget_ok)
  then show ?case using Cons.IH by simp
qed simp

lemma prov_evict_maxlen [simp]: "pv_maxlen (prov_evict p) = pv_maxlen p"
proof (induction p rule: prov_evict.induct)
  case (1 p)
  then show ?case
    by (cases "pv_by_txid p") (auto simp: prov_evict.simps [of p] prov_drop_def split: prod.splits)
qed

lemma prov_steps_maxlen: "pv_maxlen (fold prov_step ops p) = pv_maxlen p"
proof (induction ops arbitrary: p)
  case (Cons op ops)
  have "pv_maxlen (prov_step op p) = pv_maxlen p"
    by (cases op) (simp_all add: prov_add_def prov_forget_def prov_drop_def Let_def)
  with Cons show ?case by simp
qed simp

text \<open>
  C39: mempool coins are bounded and consistent. Whatever is added and forgotten, in whatever
  order, no more transactions are held than the bound allows, both dictionaries keep one
  entry a key, and every coin that is held belongs to a transaction that is held, so that
  confirming or evicting the transaction releases it.
\<close>

theorem provisional_bounded:
  assumes "new_provisional maxlen = Inr p"
  shows "let q = fold prov_step ops p in
    int (pending_transactions q) \<le> maxlen
    \<and> dict_ok (pv_by_outpoint q) \<and> dict_ok (pv_by_txid q)
    \<and> (\<forall>h. prov_items q h \<noteq> [] \<longrightarrow> (\<exists>txid. h \<in> set (dict_get (pv_by_txid q) txid [])))"
proof -
  let ?q = "fold prov_step ops p"
  have ok: "prov_ok ?q" by (rule prov_steps_ok [OF new_provisional_ok [OF assms]])
  have "\<exists>txid. h \<in> set (dict_get (pv_by_txid ?q) txid [])" if "prov_items ?q h \<noteq> []" for h
  proof -
    from that have "h \<in> fst ` set (pv_by_outpoint ?q)"
      by (auto simp: prov_items_def dict_get_def dom_map_of_conv_image_fst [symmetric] split: option.splits)
    with ok obtain txid created where "(txid, created) \<in> set (pv_by_txid ?q)" "h \<in> set created"
      by (auto simp: prov_ok_def prov_linked_def listed_in_def)
    moreover have "dict_ok (pv_by_txid ?q)" using ok by (simp add: prov_ok_def prov_linked_def)
    ultimately show ?thesis by (intro exI [of _ txid]) (simp add: dict_get_def)
  qed
  moreover have "pv_maxlen ?q = maxlen"
    using assms by (auto simp: prov_steps_maxlen new_provisional_def split: if_splits)
  ultimately show ?thesis using ok
    by (auto simp: Let_def prov_ok_def prov_linked_def pending_transactions_def)
qed

lemma provisional_bounded_witness:
  "\<exists>p. new_provisional 1 = Inr p
    \<and> int (pending_transactions (fold prov_step [Add [1] 7 [9], Add [2] 8 [9]] p)) \<le> 1"
proof -
  obtain p where "new_provisional 1 = Inr p" by (simp add: new_provisional_def)
  with provisional_bounded [OF this, of "[Add [1] 7 [9], Add [2] 8 [9]]"] show ?thesis
    unfolding Let_def by blast
qed

end
