(* ===== verification/Matcher.thy ===== *)
theory Matcher
  imports Tx Watch_Index Provisional
begin

text \<open>
  The matching loop of \<open>match/matcher.py\<close>: \<open>match\<close> reads, \<open>note_unconfirmed\<close> arms
  mempool coins in memory, \<open>apply\<close> folds a confirmed transaction into the record. The
  operations take the index as a record of operations. The lemmas of the first part need
  no law of the index: what is reported, in which order, and that matching writes
  nothing. Those of the second part are proved once in the context of \<open>watch_index\<close>: what
  \<open>apply\<close> leaves in the record.
\<close>

datatype direction = OUTGOING | INCOMING

record match =
  item_id :: int
  match_direction :: direction

record 'ix matcher =
  m_k :: bytes
  m_index :: 'ix
  m_prov :: provisional

section \<open>Matching\<close>

fun match_inputs :: "'ix index_ops \<Rightarrow> 'ix matcher \<Rightarrow> outpoint list \<Rightarrow> int list \<Rightarrow> exn + int list" where
  "match_inputs W m [] outgoing = Inr outgoing"
| "match_inputs W m (op # ops) outgoing =
     rbind (outpoint_hmac (m_k m) (op_txid op) (op_vout op)) (\<lambda>op_h.
       match_inputs W m ops
         (fold append_new (items_owning_outpoint W (m_index m) op_h @ prov_items (m_prov m) op_h)
           outgoing))"

fun match_outputs :: "'ix index_ops \<Rightarrow> 'ix matcher \<Rightarrow> tx_output list \<Rightarrow> int list \<Rightarrow> int list" where
  "match_outputs W m [] incoming = incoming"
| "match_outputs W m (out # outs) incoming =
     match_outputs W m outs
       (fold append_new (items_watching_spk W (m_index m) (spk_hmac (m_k m) (out_spk out))) incoming)"

definition match_tx :: "'ix index_ops \<Rightarrow> 'ix matcher \<Rightarrow> transaction \<Rightarrow> exn + match list" where
  "match_tx W m tx =
     rbind (match_inputs W m (tx_inputs tx) []) (\<lambda>outgoing.
       Inr (map (\<lambda>i. \<lparr>item_id = i, match_direction = OUTGOING\<rparr>) outgoing
            @ map (\<lambda>i. \<lparr>item_id = i, match_direction = INCOMING\<rparr>)
                (match_outputs W m (tx_outputs tx) [])))"

section \<open>Arming mempool coins\<close>

definition note_output :: "'ix index_ops \<Rightarrow> bytes \<Rightarrow> tx_output \<Rightarrow> ('ix matcher, unit) py" where
  "note_output W txid out = (\<lambda>m.
     let items = items_watching_spk W (m_index m) (spk_hmac (m_k m) (out_spk out)) in
     if items = [] then (Inr (), m)
     else case outpoint_hmac (m_k m) txid (out_vout out) of
       Inl e \<Rightarrow> (Inl e, m)
     | Inr op_h \<Rightarrow>
         (Inr (), m\<lparr>m_prov := fold (\<lambda>i. prov_add txid i op_h) items (m_prov m)\<rparr>))"

definition note_unconfirmed :: "'ix index_ops \<Rightarrow> transaction \<Rightarrow> ('ix matcher, unit) py" where
  "note_unconfirmed W tx = for_each (note_output W (tx_txid tx)) (tx_outputs tx)"

section \<open>Folding a confirmed transaction into the record\<close>

definition apply_input :: "'ix index_ops \<Rightarrow> outpoint \<Rightarrow> ('ix matcher, unit) py" where
  "apply_input W op = (\<lambda>m.
     case outpoint_hmac (m_k m) (op_txid op) (op_vout op) of
       Inl e \<Rightarrow> (Inl e, m)
     | Inr op_h \<Rightarrow>
         (Inr (), m\<lparr>m_index := fold (\<lambda>i. drop_outpoint W i op_h)
                     (items_owning_outpoint W (m_index m) op_h) (m_index m)\<rparr>))"

definition apply_output :: "'ix index_ops \<Rightarrow> bytes \<Rightarrow> tx_output \<Rightarrow> ('ix matcher, unit) py" where
  "apply_output W txid out = (\<lambda>m.
     let items = items_watching_spk W (m_index m) (spk_hmac (m_k m) (out_spk out)) in
     if items = [] then (Inr (), m)
     else case outpoint_hmac (m_k m) txid (out_vout out) of
       Inl e \<Rightarrow> (Inl e, m)
     | Inr new_op \<Rightarrow>
         (Inr (), m\<lparr>m_index := fold (\<lambda>i. add_outpoint W i new_op) items (m_index m)\<rparr>))"

definition apply_tx :: "'ix index_ops \<Rightarrow> transaction \<Rightarrow> ('ix matcher, unit) py" where
  "apply_tx W tx =
     bind (for_each (apply_input W) (tx_inputs tx)) (\<lambda>_.
     bind (for_each (apply_output W (tx_txid tx)) (tx_outputs tx)) (\<lambda>_.
     modify (\<lambda>m. m\<lparr>m_prov := prov_forget (tx_txid tx) (m_prov m)\<rparr>)))"

definition process :: "'ix index_ops \<Rightarrow> transaction \<Rightarrow> ('ix matcher, match list) py" where
  "process W tx =
     bind (\<lambda>m. (match_tx W m tx, m)) (\<lambda>matches.
     bind (apply_tx W tx) (\<lambda>_.
     ret matches))"

section \<open>What is reported\<close>

definition op_key_of :: "bytes \<Rightarrow> outpoint \<Rightarrow> bytes" where
  "op_key_of k op = op_key k (op_txid op) (op_vout op)"

text \<open>The items whose coins a transaction spends, by the record and the mempool coins.\<close>

definition spends :: "'ix index_ops \<Rightarrow> 'ix matcher \<Rightarrow> transaction \<Rightarrow> int \<Rightarrow> bool" where
  "spends W m tx i \<longleftrightarrow> (\<exists>op \<in> set (tx_inputs tx).
     i \<in> set (items_owning_outpoint W (m_index m) (op_key_of (m_k m) op))
     \<or> i \<in> set (prov_items (m_prov m) (op_key_of (m_k m) op)))"

definition pays :: "'ix index_ops \<Rightarrow> 'ix matcher \<Rightarrow> transaction \<Rightarrow> int \<Rightarrow> bool" where
  "pays W m tx i \<longleftrightarrow> (\<exists>out \<in> set (tx_outputs tx).
     i \<in> set (items_watching_spk W (m_index m) (spk_hmac (m_k m) (out_spk out))))"

lemma outpoint_hmac_op [simp]:
  "wf_op op \<Longrightarrow> outpoint_hmac k (op_txid op) (op_vout op) = Inr (op_key_of k op)"
  by (simp add: wf_op_def op_key_of_def)

lemma match_inputs_total:
  assumes "\<forall>op \<in> set ops. wf_op op" and "distinct acc"
  shows "\<exists>out. match_inputs W m ops acc = Inr out \<and> distinct out \<and>
    set out = set acc \<union> (\<Union>op \<in> set ops.
      set (items_owning_outpoint W (m_index m) (op_key_of (m_k m) op))
      \<union> set (prov_items (m_prov m) (op_key_of (m_k m) op)))"
  using assms
proof (induction ops arbitrary: acc)
  case Nil
  then show ?case by simp
next
  case (Cons op ops)
  let ?h = "op_key_of (m_k m) op"
  let ?acc = "fold append_new (items_owning_outpoint W (m_index m) ?h @ prov_items (m_prov m) ?h) acc"
  from Cons.IH [of ?acc] Cons.prems obtain out where
    "match_inputs W m ops ?acc = Inr out" "distinct out"
    "set out = set ?acc \<union> (\<Union>op \<in> set ops.
      set (items_owning_outpoint W (m_index m) (op_key_of (m_k m) op))
      \<union> set (prov_items (m_prov m) (op_key_of (m_k m) op)))" by auto
  with Cons.prems show ?case by auto
qed

lemma match_outputs_set:
  "distinct acc \<Longrightarrow> distinct (match_outputs W m outs acc) \<and>
   set (match_outputs W m outs acc) = set acc \<union> (\<Union>out \<in> set outs.
     set (items_watching_spk W (m_index m) (spk_hmac (m_k m) (out_spk out))))"
  by (induction outs arbitrary: acc) auto

text \<open>
  The alarms come first, each item at most once a direction, and an item is in the
  answer exactly when the transaction spends or pays it.
\<close>

lemma match_tx_wf:
  assumes "wf_tx tx"
  shows "\<exists>outgoing incoming. match_tx W m tx =
      Inr (map (\<lambda>i. \<lparr>item_id = i, match_direction = OUTGOING\<rparr>) outgoing
           @ map (\<lambda>i. \<lparr>item_id = i, match_direction = INCOMING\<rparr>) incoming)
    \<and> distinct outgoing \<and> distinct incoming
    \<and> (\<forall>i. i \<in> set outgoing \<longleftrightarrow> spends W m tx i)
    \<and> (\<forall>i. i \<in> set incoming \<longleftrightarrow> pays W m tx i)"
proof -
  obtain outgoing where "match_inputs W m (tx_inputs tx) [] = Inr outgoing" "distinct outgoing"
    "set outgoing = (\<Union>op \<in> set (tx_inputs tx).
      set (items_owning_outpoint W (m_index m) (op_key_of (m_k m) op))
      \<union> set (prov_items (m_prov m) (op_key_of (m_k m) op)))"
    using match_inputs_total [of "tx_inputs tx" "[]" W m] assms by (auto simp: wf_tx_def)
  moreover have "distinct (match_outputs W m (tx_outputs tx) [])"
    "set (match_outputs W m (tx_outputs tx) []) = (\<Union>out \<in> set (tx_outputs tx).
      set (items_watching_spk W (m_index m) (spk_hmac (m_k m) (out_spk out))))"
    using match_outputs_set [of "[]" W m "tx_outputs tx"] by simp_all
  ultimately show ?thesis
    by (intro exI [of _ outgoing] exI [of _ "match_outputs W m (tx_outputs tx) []"])
       (auto simp: match_tx_def spends_def pays_def)
qed

lemma match_tx_returns:
  assumes "wf_tx tx"
  obtains ms where "match_tx W m tx = Inr ms"
    and "\<And>i. \<lparr>item_id = i, match_direction = OUTGOING\<rparr> \<in> set ms \<longleftrightarrow> spends W m tx i"
    and "\<And>i. \<lparr>item_id = i, match_direction = INCOMING\<rparr> \<in> set ms \<longleftrightarrow> pays W m tx i"
proof -
  from match_tx_wf [OF assms, of W m] obtain outgoing incoming where
    "match_tx W m tx = Inr (map (\<lambda>i. \<lparr>item_id = i, match_direction = OUTGOING\<rparr>) outgoing
       @ map (\<lambda>i. \<lparr>item_id = i, match_direction = INCOMING\<rparr>) incoming)"
    "\<forall>i. i \<in> set outgoing \<longleftrightarrow> spends W m tx i" "\<forall>i. i \<in> set incoming \<longleftrightarrow> pays W m tx i"
    by blast
  then show thesis by (intro that) (auto simp: image_iff)
qed

section \<open>Matching and arming leave the record alone\<close>

lemma note_output_frame:
  "note_output W txid out m = (r, m') \<Longrightarrow> m_index m' = m_index m \<and> m_k m' = m_k m"
  by (auto simp: note_output_def Let_def split: if_splits sum.splits)

lemma note_unconfirmed_frame:
  assumes "note_unconfirmed W tx m = (r, m')"
  shows "m_index m' = m_index m \<and> m_k m' = m_k m"
  using assms unfolding note_unconfirmed_def
  by (rule for_each_invariant [where P = "\<lambda>u. m_index u = m_index m \<and> m_k u = m_k m"])
     (auto dest: note_output_frame)

definition coins_noted :: "'ix index_ops \<Rightarrow> 'ix matcher \<Rightarrow> transaction \<Rightarrow> (int \<times> bytes) list" where
  "coins_noted W m tx = concat (map (\<lambda>out.
     map (\<lambda>i. (i, op_key (m_k m) (tx_txid tx) (out_vout out)))
       (items_watching_spk W (m_index m) (spk_hmac (m_k m) (out_spk out)))) (tx_outputs tx))"

lemma fold_pairs: "fold (\<lambda>(i, h). f i h) (map (\<lambda>i. (i, h)) is) x = fold (\<lambda>i. f i h) is x"
  by (induction "is" arbitrary: x) auto

lemma note_outputs_wf:
  assumes "\<forall>out \<in> set outs. wf_outpoint txid (out_vout out)"
  shows "for_each (note_output W txid) outs m = (Inr (), m\<lparr>m_prov :=
    fold (\<lambda>(i, h). prov_add txid i h) (concat (map (\<lambda>out.
       map (\<lambda>i. (i, op_key (m_k m) txid (out_vout out)))
         (items_watching_spk W (m_index m) (spk_hmac (m_k m) (out_spk out)))) outs)) (m_prov m)\<rparr>)"
  using assms
proof (induction outs arbitrary: m)
  case Nil
  then show ?case by (simp add: ret_def)
next
  case (Cons out outs)
  let ?is = "items_watching_spk W (m_index m) (spk_hmac (m_k m) (out_spk out))"
  let ?m = "m\<lparr>m_prov := fold (\<lambda>i. prov_add txid i (op_key (m_k m) txid (out_vout out))) ?is (m_prov m)\<rparr>"
  have "note_output W txid out m = (Inr (), ?m)"
    using Cons.prems by (simp add: note_output_def Let_def)
  with Cons.IH [of ?m] Cons.prems show ?case
    by (simp add: for_each_Cons bind_def fold_pairs)
qed

lemma note_unconfirmed_wf:
  assumes "wf_tx tx"
  shows "note_unconfirmed W tx m = (Inr (), m\<lparr>m_prov :=
    fold (\<lambda>(i, h). prov_add (tx_txid tx) i h) (coins_noted W m tx) (m_prov m)\<rparr>)"
  using assms unfolding note_unconfirmed_def coins_noted_def
  by (intro note_outputs_wf) (auto simp: wf_tx_def)

text \<open>A deposit seen in the mempool arms its coins: whoever spends one is matched.\<close>

lemma note_then_spends:
  assumes "wf_tx d" and "prov_ok (m_prov m)"
    and "\<And>i h. (i, h) \<in> set (coins_noted W m d) \<Longrightarrow> \<not> listed_elsewhere (tx_txid d) h (m_prov m)"
    and "out \<in> set (tx_outputs d)"
    and "i \<in> set (items_watching_spk W (m_index m) (spk_hmac (m_k m) (out_spk out)))"
    and "\<lparr>op_txid = tx_txid d, op_vout = out_vout out\<rparr> \<in> set (tx_inputs s)"
  shows "spends W (snd (note_unconfirmed W d m)) s i"
proof -
  have "(i, op_key (m_k m) (tx_txid d) (out_vout out)) \<in> set (coins_noted W m d)"
    using assms(4,5) by (auto simp: coins_noted_def)
  with prov_add_all [OF assms(2,3)] have "i \<in> set (prov_items
      (fold (\<lambda>(i, h). prov_add (tx_txid d) i h) (coins_noted W m d) (m_prov m))
      (op_key (m_k m) (tx_txid d) (out_vout out)))" by fast
  with assms(6) show ?thesis
    unfolding spends_def note_unconfirmed_wf [OF assms(1)]
    by (auto simp: op_key_of_def intro!: bexI [rotated])
qed

section \<open>What apply leaves in the record\<close>

definition spent_keys :: "bytes \<Rightarrow> transaction \<Rightarrow> bytes set" where
  "spent_keys k tx = op_key_of k ` set (tx_inputs tx)"

text \<open>The coins a transaction creates for an item: outputs that pay a script it watches.\<close>

definition creates :: "'ix index_ops \<Rightarrow> bytes \<Rightarrow> 'ix \<Rightarrow> transaction \<Rightarrow> int \<Rightarrow> bytes \<Rightarrow> bool" where
  "creates W k ix tx i h \<longleftrightarrow> (\<exists>out \<in> set (tx_outputs tx).
     i \<in> set (items_watching_spk W ix (spk_hmac k (out_spk out)))
     \<and> h = op_key k (tx_txid tx) (out_vout out))"

context watch_index begin

lemma apply_inputs_record:
  assumes "invar (m_index m)" and "\<forall>op \<in> set ops. wf_op op"
  shows "\<exists>ix. for_each (apply_input W) ops m = (Inr (), m\<lparr>m_index := ix\<rparr>) \<and> invar ix
    \<and> (\<forall>j g. j \<in> set (items_owning_outpoint W ix g) \<longleftrightarrow>
         j \<in> set (items_owning_outpoint W (m_index m) g) \<and> g \<notin> op_key_of (m_k m) ` set ops)
    \<and> items_watching_spk W ix = items_watching_spk W (m_index m)
    \<and> tracked ix = tracked (m_index m)"
  using assms
proof (induction ops arbitrary: m)
  case Nil
  then show ?case by (auto simp: ret_def intro: exI [of _ "m_index m"])
next
  case (Cons op ops)
  let ?h = "op_key_of (m_k m) op"
  let ?ix = "fold (\<lambda>i. drop_outpoint W i ?h) (items_owning_outpoint W (m_index m) ?h) (m_index m)"
  have one: "apply_input W op m = (Inr (), m\<lparr>m_index := ?ix\<rparr>)"
    using Cons.prems by (simp add: apply_input_def)
  note d = fold_drop [OF Cons.prems(1), of ?h "items_owning_outpoint W (m_index m) ?h"]
  from Cons.IH [of "m\<lparr>m_index := ?ix\<rparr>"] Cons.prems d obtain ix where
    "for_each (apply_input W) ops (m\<lparr>m_index := ?ix\<rparr>) = (Inr (), m\<lparr>m_index := ix\<rparr>)" "invar ix"
    "\<forall>j g. j \<in> set (items_owning_outpoint W ix g) \<longleftrightarrow>
         j \<in> set (items_owning_outpoint W ?ix g) \<and> g \<notin> op_key_of (m_k m) ` set ops"
    "items_watching_spk W ix = items_watching_spk W ?ix" "tracked ix = tracked ?ix"
    by auto
  with one d show ?case
    by (intro exI [of _ ix]) (auto simp: for_each_Cons bind_def)
qed

lemma apply_outputs_record:
  assumes "invar (m_index m)" and "\<forall>out \<in> set outs. wf_outpoint txid (out_vout out)"
  shows "\<exists>ix. for_each (apply_output W txid) outs m = (Inr (), m\<lparr>m_index := ix\<rparr>) \<and> invar ix
    \<and> (\<forall>j g. j \<in> set (items_owning_outpoint W ix g) \<longleftrightarrow>
         j \<in> set (items_owning_outpoint W (m_index m) g) \<or> (\<exists>out \<in> set outs.
           j \<in> set (items_watching_spk W (m_index m) (spk_hmac (m_k m) (out_spk out)))
           \<and> g = op_key (m_k m) txid (out_vout out)))
    \<and> items_watching_spk W ix = items_watching_spk W (m_index m)
    \<and> tracked ix = tracked (m_index m)"
  using assms
proof (induction outs arbitrary: m)
  case Nil
  then show ?case by (auto simp: ret_def intro: exI [of _ "m_index m"])
next
  case (Cons out outs)
  let ?is = "items_watching_spk W (m_index m) (spk_hmac (m_k m) (out_spk out))"
  let ?h = "op_key (m_k m) txid (out_vout out)"
  let ?ix = "fold (\<lambda>i. add_outpoint W i ?h) ?is (m_index m)"
  have one: "apply_output W txid out m = (Inr (), m\<lparr>m_index := ?ix\<rparr>)"
    using Cons.prems by (simp add: apply_output_def Let_def)
  have "\<forall>i \<in> set ?is. tracked (m_index m) i" by (auto intro: watching_tracked)
  note a = fold_add [OF Cons.prems(1) this]
  from Cons.IH [of "m\<lparr>m_index := ?ix\<rparr>"] Cons.prems a obtain ix where
    "for_each (apply_output W txid) outs (m\<lparr>m_index := ?ix\<rparr>) = (Inr (), m\<lparr>m_index := ix\<rparr>)" "invar ix"
    "\<forall>j g. j \<in> set (items_owning_outpoint W ix g) \<longleftrightarrow>
         j \<in> set (items_owning_outpoint W ?ix g) \<or> (\<exists>out \<in> set outs.
           j \<in> set (items_watching_spk W ?ix (spk_hmac (m_k m) (out_spk out)))
           \<and> g = op_key (m_k m) txid (out_vout out))"
    "items_watching_spk W ix = items_watching_spk W ?ix" "tracked ix = tracked ?ix"
    by auto
  with one a show ?case
    by (intro exI [of _ ix]) (auto simp: for_each_Cons bind_def)
qed

text \<open>
  After \<open>apply\<close>, an item owns a coin when it owned it and the transaction does not spend
  it, or when the transaction creates it for the item. Nothing else changes.
\<close>

lemma apply_record:
  assumes "invar (m_index m)" and "wf_tx tx"
  obtains ix where
    "apply_tx W tx m = (Inr (), m\<lparr>m_index := ix, m_prov := prov_forget (tx_txid tx) (m_prov m)\<rparr>)"
    and "invar ix"
    and "\<And>j g. owns ix j g \<longleftrightarrow> owns (m_index m) j g \<and> g \<notin> spent_keys (m_k m) tx
           \<or> creates W (m_k m) (m_index m) tx j g"
    and "items_watching_spk W ix = items_watching_spk W (m_index m)"
    and "tracked ix = tracked (m_index m)"
proof -
  have ops: "\<forall>op \<in> set (tx_inputs tx). wf_op op"
    and outs: "\<forall>out \<in> set (tx_outputs tx). wf_outpoint (tx_txid tx) (out_vout out)"
    using assms(2) by (auto simp: wf_tx_def)
  from apply_inputs_record [OF assms(1) ops] obtain ix1 where i:
    "for_each (apply_input W) (tx_inputs tx) m = (Inr (), m\<lparr>m_index := ix1\<rparr>)" "invar ix1"
    "\<And>j g. j \<in> set (items_owning_outpoint W ix1 g) \<longleftrightarrow>
         j \<in> set (items_owning_outpoint W (m_index m) g) \<and> g \<notin> op_key_of (m_k m) ` set (tx_inputs tx)"
    "items_watching_spk W ix1 = items_watching_spk W (m_index m)"
    "tracked ix1 = tracked (m_index m)"
    by blast
  from apply_outputs_record [of "m\<lparr>m_index := ix1\<rparr>", OF _ outs] i(2)
  obtain ix2 where o:
    "for_each (apply_output W (tx_txid tx)) (tx_outputs tx) (m\<lparr>m_index := ix1\<rparr>) =
       (Inr (), m\<lparr>m_index := ix2\<rparr>)" "invar ix2"
    "\<And>j g. j \<in> set (items_owning_outpoint W ix2 g) \<longleftrightarrow>
         j \<in> set (items_owning_outpoint W ix1 g) \<or> (\<exists>out \<in> set (tx_outputs tx).
           j \<in> set (items_watching_spk W ix1 (spk_hmac (m_k m) (out_spk out)))
           \<and> g = op_key (m_k m) (tx_txid tx) (out_vout out))"
    "items_watching_spk W ix2 = items_watching_spk W ix1" "tracked ix2 = tracked ix1"
    by auto
  show thesis
  proof (rule that)
    show "apply_tx W tx m = (Inr (), m\<lparr>m_index := ix2, m_prov := prov_forget (tx_txid tx) (m_prov m)\<rparr>)"
      by (simp add: apply_tx_def bind_def i(1) o(1) modify_def)
    show "invar ix2" by (rule o(2))
    show "owns ix2 j g \<longleftrightarrow> owns (m_index m) j g \<and> g \<notin> spent_keys (m_k m) tx
        \<or> creates W (m_k m) (m_index m) tx j g" for j g
      using i(3,4) o(3) by (auto simp: owns_def spent_keys_def creates_def)
    show "items_watching_spk W ix2 = items_watching_spk W (m_index m)" using i(4) o(4) by simp
    show "tracked ix2 = tracked (m_index m)" using i(5) o(5) by simp
  qed
qed

text \<open>A confirmed deposit is armed: a later spend of its coin is matched.\<close>

lemma apply_then_spends:
  assumes "invar (m_index m)" and "wf_tx d" and "out \<in> set (tx_outputs d)"
    and "i \<in> set (items_watching_spk W (m_index m) (spk_hmac (m_k m) (out_spk out)))"
    and "\<lparr>op_txid = tx_txid d, op_vout = out_vout out\<rparr> \<in> set (tx_inputs s)"
  shows "spends W (snd (apply_tx W d m)) s i"
proof (rule apply_record [OF assms(1,2)], goal_cases)
  case (1 ix)
  have "creates W (m_k m) (m_index m) d i (op_key (m_k m) (tx_txid d) (out_vout out))"
    using assms(3,4) by (auto simp: creates_def)
  with 1(3) have "owns ix i (op_key (m_k m) (tx_txid d) (out_vout out))" by simp
  then have "i \<in> set (items_owning_outpoint W ix (op_key (m_k m) (tx_txid d) (out_vout out)))"
    by (simp add: owns_def)
  then show ?thesis
    unfolding spends_def 1(1) by (intro bexI [OF _ assms(5)]) (simp add: op_key_of_def)
qed

end

section \<open>Properties\<close>

definition ex_deposit :: transaction where
  "ex_deposit = \<lparr>tx_txid = replicate 32 1, tx_inputs = [],
     tx_outputs = [\<lparr>out_vout = 0, out_spk = [81]\<rparr>], tx_is_coinbase = True, tx_has_witness = False\<rparr>"

definition ex_spend :: transaction where
  "ex_spend = \<lparr>tx_txid = replicate 32 2, tx_inputs = [\<lparr>op_txid = replicate 32 1, op_vout = 0\<rparr>],
     tx_outputs = [], tx_is_coinbase = False, tx_has_witness = False\<rparr>"

lemma ex_tx_wf [simp]: "wf_tx ex_deposit" "wf_tx ex_spend"
  by (simp_all add: ex_deposit_def ex_spend_def wf_tx_def wf_op_def wf_outpoint_def)

text \<open>An index that watches the one script of the deposit, for item 7, and no mempool coins.\<close>

definition ex_matcher :: "mem_index matcher" where
  "ex_matcher = \<lparr>m_k = [], m_index = mem_new [(7, spk_hmac [] [81])],
     m_prov = \<lparr>pv_maxlen = 10, pv_by_outpoint = [], pv_by_txid = [], pv_evicted = 0\<rparr>\<rparr>"

lemma ex_matcher_ok [simp]:
  "mem_ok (m_index ex_matcher)" "prov_ok (m_prov ex_matcher)" "m_k ex_matcher = []"
  "items_watching_spk mem_ops (m_index ex_matcher) (spk_hmac [] [81]) = [7]"
  by (simp_all add: ex_matcher_def mem_ok_def prov_ok_def prov_linked_def mem_new_def mem_ops_def
      mem_items_watching_spk_def dict_get_def)

text \<open>
  C14: matching is exact. An item is reported leaving exactly when the transaction spends a
  coin the record or the mempool set holds for it, arriving exactly when the transaction
  pays a script it watches, each at most once, and alarms come before arrivals.
\<close>

theorem match_exact:
  assumes "wf_tx tx"
  shows "\<exists>outgoing incoming. match_tx W m tx =
      Inr (map (\<lambda>i. \<lparr>item_id = i, match_direction = OUTGOING\<rparr>) outgoing
           @ map (\<lambda>i. \<lparr>item_id = i, match_direction = INCOMING\<rparr>) incoming)
    \<and> distinct outgoing \<and> distinct incoming
    \<and> (\<forall>i. i \<in> set outgoing \<longleftrightarrow> spends W m tx i)
    \<and> (\<forall>i. i \<in> set incoming \<longleftrightarrow> pays W m tx i)"
  by (rule match_tx_wf [OF assms])

lemma match_exact_witness:
  "\<exists>ms. match_tx mem_ops ex_matcher ex_deposit = Inr ms \<and> \<lparr>item_id = 7, match_direction = INCOMING\<rparr> \<in> set ms"
proof -
  have "pays mem_ops ex_matcher ex_deposit 7" by (simp add: pays_def) (simp add: ex_deposit_def)
  with match_exact [OF ex_tx_wf(1), of mem_ops ex_matcher] show ?thesis by (auto simp: image_iff)
qed

text \<open>
  C15: what confirming a transaction leaves in the record. An item owns a coin afterwards
  exactly when it owned it and the transaction does not spend it, or the transaction
  creates it for a script the item watches; what is watched does not change, and the
  mempool coins of the transaction are forgotten.
\<close>

theorem apply_updates_record:
  assumes "mem_ok (m_index m)" and "wf_tx tx"
  shows "\<exists>ix. apply_tx mem_ops tx m = (Inr (), m\<lparr>m_index := ix, m_prov := prov_forget (tx_txid tx) (m_prov m)\<rparr>)
    \<and> mem_ok ix \<and> items_watching_spk mem_ops ix = items_watching_spk mem_ops (m_index m)
    \<and> (\<forall>j g. j \<in> set (mem_items_owning_outpoint ix g) \<longleftrightarrow>
         j \<in> set (mem_items_owning_outpoint (m_index m) g) \<and> g \<notin> spent_keys (m_k m) tx
         \<or> creates mem_ops (m_k m) (m_index m) tx j g)"
proof (rule mem.apply_record [OF assms], goal_cases)
  case (1 ix)
  have "mem.owns ix j g \<longleftrightarrow> j \<in> set (mem_items_owning_outpoint ix g)" for ix j g
    by (simp add: mem.owns_def) (simp add: mem_ops_def)
  with 1 show ?case by (intro exI [of _ ix]) simp
qed

lemma apply_updates_record_witness:
  "\<exists>ix. m_index (snd (apply_tx mem_ops ex_deposit ex_matcher)) = ix
    \<and> 7 \<in> set (mem_items_owning_outpoint ix (op_key [] (replicate 32 1) 0))"
proof -
  have "creates mem_ops (m_k ex_matcher) (m_index ex_matcher) ex_deposit 7 (op_key [] (replicate 32 1) 0)"
    by (simp add: creates_def) (simp add: ex_deposit_def)
  with apply_updates_record [OF ex_matcher_ok(1) ex_tx_wf(1)] show ?thesis by auto
qed

text \<open>
  C18: a deposit that is spent again before it confirms still alarms. Once the mempool has
  shown a deposit to a watched script, whoever spends that coin is reported as leaving,
  provided no other pending transaction claims the coin.
\<close>

theorem unconfirmed_deposit_alarms:
  assumes "wf_tx d" and "wf_tx s" and "prov_ok (m_prov m)"
    and "\<And>i h. (i, h) \<in> set (coins_noted W m d) \<Longrightarrow> \<not> listed_elsewhere (tx_txid d) h (m_prov m)"
    and "out \<in> set (tx_outputs d)"
    and "i \<in> set (items_watching_spk W (m_index m) (spk_hmac (m_k m) (out_spk out)))"
    and "\<lparr>op_txid = tx_txid d, op_vout = out_vout out\<rparr> \<in> set (tx_inputs s)"
  shows "\<exists>m' ms. note_unconfirmed W d m = (Inr (), m') \<and> m_index m' = m_index m
    \<and> match_tx W m' s = Inr ms \<and> \<lparr>item_id = i, match_direction = OUTGOING\<rparr> \<in> set ms"
proof -
  obtain m' where n: "note_unconfirmed W d m = (Inr (), m')" using note_unconfirmed_wf [OF assms(1)] by blast
  with note_then_spends [OF assms(1) assms(3-7)] have "spends W m' s i" by simp
  with match_tx_wf [OF assms(2), of W m'] obtain ms where
    "match_tx W m' s = Inr ms" "\<lparr>item_id = i, match_direction = OUTGOING\<rparr> \<in> set ms"
    by (auto simp: image_iff)
  with n note_unconfirmed_frame [OF n] show ?thesis by blast
qed

lemma unconfirmed_deposit_alarms_witness:
  "\<exists>m' ms. note_unconfirmed mem_ops ex_deposit ex_matcher = (Inr (), m') \<and> m_index m' = m_index ex_matcher
    \<and> match_tx mem_ops m' ex_spend = Inr ms \<and> \<lparr>item_id = 7, match_direction = OUTGOING\<rparr> \<in> set ms"
proof (rule unconfirmed_deposit_alarms [where out = "\<lparr>out_vout = 0, out_spk = [81]\<rparr>"])
  show "\<not> listed_elsewhere (tx_txid ex_deposit) h (m_prov ex_matcher)" for h
    by (simp add: listed_elsewhere_def ex_matcher_def dict_get_def)
qed (simp_all add: ex_deposit_def [THEN arg_cong [of _ _ tx_outputs]] ex_deposit_def [THEN arg_cong [of _ _ tx_txid]]
  ex_spend_def [THEN arg_cong [of _ _ tx_inputs]])

end
