(* ===== verification/Block.thy ===== *)
theory Block
  imports Tx_Roundtrip
begin

text \<open>
  \<open>match/block.py\<close>: the block parser. A block is an 80-byte header, a transaction
  count and that many transactions back to back. The lemmas show that it returns exactly
  the transactions that were serialised, in order; that it refuses whole what it cannot
  read to the last byte; that every transaction of a returned block is well formed; and
  which exceptions can leave it: \<open>MalformedBlock\<close>, and \<open>struct.error\<close> where the
  buffer ends inside the transaction count.
\<close>

definition HEADER_SIZE :: nat where
  "HEADER_SIZE = 80"

record block =
  blk_hash :: bytes
  blk_prev_hash :: bytes
  blk_transactions :: "transaction list"

text \<open>The transaction count and the offset just past it.\<close>

definition read_tx_count :: "bytes \<Rightarrow> nat \<Rightarrow> exn + (int \<times> nat)" where
  "read_tx_count raw p =
     (let first = uint (raw ! p) in
      if first < 253 then Inr (first, p + 1)
      else if first = 253 then rbind (unpack_from 2 raw (p + 1)) (\<lambda>c. Inr (c, p + 3))
      else if first = 254 then rbind (unpack_from 4 raw (p + 1)) (\<lambda>c. Inr (c, p + 5))
      else rbind (unpack_from 8 raw (p + 1)) (\<lambda>c. Inr (c, p + 9)))"

fun read_txs :: "bytes \<Rightarrow> nat \<Rightarrow> nat \<Rightarrow> transaction list \<Rightarrow> exn + (transaction list \<times> nat)" where
  "read_txs raw 0 p transactions = Inr (transactions, p)"
| "read_txs raw (Suc n) p transactions =
     (case read_tx raw p of
        Inl (MalformedTransaction msg) \<Rightarrow>
          Inl (MalformedBlock (''transaction '' @ nat_str (length transactions) @ '': '' @ msg))
      | Inl e \<Rightarrow> Inl e
      | Inr (tx, p') \<Rightarrow> read_txs raw n p' (transactions @ [tx]))"

definition parse_block :: "bytes \<Rightarrow> exn + block" where
  "parse_block raw =
     (if length raw < HEADER_SIZE + 1 then Inl (MalformedBlock ''truncated block header'')
      else let header = take HEADER_SIZE raw; prev_hash = slice 4 36 header in
        rbind (read_tx_count raw HEADER_SIZE) (\<lambda>(count, p).
        if count = 0 then Inl (MalformedBlock ''block claims no transactions'')
        else if count * 60 > int (length raw) - int p
        then Inl (MalformedBlock ''transaction count exceeds remaining bytes'')
        else rbind (read_txs raw (nat count) p []) (\<lambda>(transactions, p').
          if p' \<noteq> length raw
          then Inl (MalformedBlock ''trailing bytes after the last transaction'')
          else Inr \<lparr>blk_hash = dsha256 header, blk_prev_hash = prev_hash,
                    blk_transactions = transactions\<rparr>)))"

section \<open>What leaves the parser\<close>

definition is_malformed_block :: "exn \<Rightarrow> bool" where
  "is_malformed_block e \<longleftrightarrow> (\<exists>m. e = MalformedBlock m)"

definition is_struct_error :: "exn \<Rightarrow> bool" where
  "is_struct_error e \<longleftrightarrow> (\<exists>m. e = StructError m)"

lemma is_malformed_block_simps [simp]:
  "is_malformed_block (MalformedBlock m)" "is_struct_error (StructError m)"
  "\<not> is_malformed_block (StructError m)"
  by (simp_all add: is_malformed_block_def is_struct_error_def)

lemma read_txs_Suc:
  "read_txs raw (Suc n) p acc =
     (case read_tx raw p of
        Inl (MalformedTransaction msg) \<Rightarrow>
          Inl (MalformedBlock (''transaction '' @ nat_str (length acc) @ '': '' @ msg))
      | Inl e \<Rightarrow> Inl e
      | Inr (tx, p') \<Rightarrow> read_txs raw n p' (acc @ [tx]))"
  by simp

lemma read_txs_raises: "read_txs raw n p acc = Inl e \<Longrightarrow> is_malformed_block e"
proof (induction n arbitrary: p acc)
  case 0
  then show ?case by simp
next
  case (Suc n)
  show ?case
  proof (cases "read_tx raw p")
    case (Inl e')
    with read_tx_raises [OF Inl] Suc.prems show ?thesis
      by (auto simp: is_malformed_tx_def)
  next
    case (Inr x)
    with Suc show ?thesis by (cases x) auto
  qed
qed

lemma read_tx_count_raises:
  "read_tx_count raw p = Inl e \<Longrightarrow> p < length raw \<Longrightarrow>
     is_struct_error e \<and> length raw < p + 9 \<and> 253 \<le> uint (raw ! p)"
  by (auto simp: read_tx_count_def unpack_from_def Let_def rbind_Inl_iff split: if_splits)

lemma read_tx_count_returns:
  "read_tx_count raw p = Inr (c, q) \<Longrightarrow> 0 \<le> c \<and> p < q"
  by (auto simp: read_tx_count_def unpack_from_def Let_def rbind_Inr_iff split: if_splits)

lemma parse_block_raises:
  assumes "parse_block raw = Inl e"
  shows "is_malformed_block e \<or>
    is_struct_error e \<and> 81 \<le> length raw \<and> length raw < 89 \<and> 253 \<le> uint (raw ! 80)"
  using assms
  by (auto simp: parse_block_def HEADER_SIZE_def Let_def rbind_Inl_iff split: if_splits prod.splits
      dest!: read_tx_count_raises read_txs_raises)

text \<open>The transactions a successful loop appends, one for each that was due.\<close>

lemma read_txs_returns:
  assumes "read_txs raw n p acc = Inr (txs, q)" and "length raw < 2 ^ 32"
  shows "\<exists>new. txs = acc @ new \<and> length new = n \<and> (\<forall>tx \<in> set new. wf_tx tx)"
  using assms(1)
proof (induction n arbitrary: p acc)
  case 0
  then show ?case by simp
next
  case (Suc n)
  then obtain tx p' where tx: "read_tx raw p = Inr (tx, p')" and
    rest: "read_txs raw n p' (acc @ [tx]) = Inr (txs, q)"
    by (auto split: sum.splits exn.splits)
  from Suc.IH [OF rest] obtain new where
    "txs = (acc @ [tx]) @ new" "length new = n" "\<forall>tx \<in> set new. wf_tx tx" by blast
  with read_tx_returns(1) [OF tx assms(2)] show ?case by (intro exI [of _ "tx # new"]) auto
qed

definition wf_block :: "block \<Rightarrow> bool" where
  "wf_block b \<longleftrightarrow> length (blk_hash b) = 32 \<and> length (blk_prev_hash b) = 32
     \<and> blk_transactions b \<noteq> [] \<and> (\<forall>tx \<in> set (blk_transactions b). wf_tx tx)"

lemma parse_block_returns:
  assumes "parse_block raw = Inr b" and "length raw < 2 ^ 32"
  shows "wf_block b" and "blk_hash b = dsha256 (take 80 raw)"
    and "blk_prev_hash b = slice 4 36 (take 80 raw)"
proof -
  from assms(1) obtain c p txs where
    len: "81 \<le> length raw" and c: "read_tx_count raw 80 = Inr (c, p)" and "c \<noteq> 0"
    and txs: "read_txs raw (nat c) p [] = Inr (txs, length raw)"
    and b: "b = \<lparr>blk_hash = dsha256 (take 80 raw), blk_prev_hash = slice 4 36 (take 80 raw),
      blk_transactions = txs\<rparr>"
    by (auto simp: parse_block_def HEADER_SIZE_def Let_def rbind_Inr_iff split: if_splits prod.splits)
  from read_txs_returns [OF txs assms(2)] have "length txs = nat c" "\<forall>tx \<in> set txs. wf_tx tx" by auto
  with read_tx_count_returns [OF c] \<open>c \<noteq> 0\<close> len show "wf_block b"
    by (auto simp: wf_block_def b)
  show "blk_hash b = dsha256 (take 80 raw)" "blk_prev_hash b = slice 4 36 (take 80 raw)"
    by (simp_all add: b)
qed

section \<open>Round trip\<close>

definition ser_block :: "bytes \<Rightarrow> wire_tx list \<Rightarrow> bytes" where
  "ser_block header ws = header @ ser_varint (length ws) @ concat (map ser_tx ws)"

definition wf_wire_block :: "bytes \<Rightarrow> wire_tx list \<Rightarrow> bool" where
  "wf_wire_block header ws \<longleftrightarrow> length header = 80 \<and> ws \<noteq> [] \<and> length ws < 2 ^ 64
     \<and> (\<forall>w \<in> set ws. wf_wire w \<and> w_outs w \<noteq> [])"

lemma read_txs_ser:
  assumes "\<forall>w \<in> set ws. wf_wire w" and "length pre = p"
  shows "read_txs (pre @ concat (map ser_tx ws) @ post) (length ws) p acc =
    Inr (acc @ map tx_of_wire ws, p + length (concat (map ser_tx ws)))"
  using assms
proof (induction ws arbitrary: pre p acc)
  case Nil
  then show ?case by simp
next
  case (Cons w ws)
  from Cons.prems have "read_tx (pre @ ser_tx w @ concat (map ser_tx ws) @ post) p =
      Inr (tx_of_wire w, p + length (ser_tx w))"
    using read_tx_ser [of w pre] by simp
  moreover have "read_txs ((pre @ ser_tx w) @ concat (map ser_tx ws) @ post) (length ws)
      (p + length (ser_tx w)) (acc @ [tx_of_wire w]) =
    Inr ((acc @ [tx_of_wire w]) @ map tx_of_wire ws,
      p + length (ser_tx w) + length (concat (map ser_tx ws)))"
    using Cons.prems by (intro Cons.IH) auto
  ultimately show ?case by simp
qed

lemma read_tx_count_ser:
  assumes "n < 2 ^ 64"
  shows "read_tx_count (pre @ ser_varint n @ s) (length pre) =
    Inr (int n, length pre + length (ser_varint n))"
proof -
  have field: "unpack_from k (pre @ b # to_le k (int n) @ s) (Suc (length pre)) = Inr (int n)"
    if "int n < 256 ^ k" for k and b :: byte
    using that by (simp add: unpack_from_def)
  consider "n < 253" | "253 \<le> n" "n < 65536" | "65536 \<le> n" "n < 4294967296" | "4294967296 \<le> n"
    by linarith
  then show ?thesis
  proof cases
    case 1
    then show ?thesis by (simp add: read_tx_count_def ser_varint_def nth_append uint_word_byte)
  next
    case 2
    then show ?thesis using field [of 2 253]
      by (simp add: read_tx_count_def ser_varint_def nth_append)
  next
    case 3
    then show ?thesis using field [of 4 254]
      by (simp add: read_tx_count_def ser_varint_def nth_append)
  next
    case 4
    then show ?thesis using field [of 8 255] assms
      by (simp add: read_tx_count_def ser_varint_def nth_append)
  qed
qed

lemma length_ser_tx:
  assumes "wf_wire w" and "w_outs w \<noteq> []"
  shows "60 \<le> length (ser_tx w)"
proof -
  have "41 \<le> length (concat (map ser_input (w_ins w)))"
    using ser_ins_length [of w] assms(1) by (cases "w_ins w") (auto simp: wf_wire_def)
  moreover have "9 \<le> length (concat (map ser_output (w_outs w)))"
    using ser_outs_length [of w] assms(2) by (cases "w_outs w") auto
  ultimately show ?thesis
    using length_ser_varint [of "length (w_ins w)"] length_ser_varint [of "length (w_outs w)"]
    by (auto simp: ser_tx_def ser_stripped_def ser_ins_def ser_outs_def split: option.splits)
qed

lemma parse_block_wire:
  assumes "wf_wire_block header ws"
  shows "parse_block (ser_block header ws @ post) =
    (if post = [] then Inr \<lparr>blk_hash = dsha256 header, blk_prev_hash = slice 4 36 header,
         blk_transactions = map tx_of_wire ws\<rparr>
     else Inl (MalformedBlock ''trailing bytes after the last transaction''))"
proof -
  let ?n = "ser_varint (length ws)" and ?txs = "concat (map ser_tx ws)"
  have h: "length header = 80" "ws \<noteq> []" "length ws < 2 ^ 64" "\<forall>w \<in> set ws. wf_wire w"
    and outs: "\<And>w. w \<in> set ws \<Longrightarrow> 60 \<le> length (ser_tx w)"
    using assms length_ser_tx by (auto simp: wf_wire_block_def)
  have c: "read_tx_count (ser_block header ws @ post) 80 = Inr (int (length ws), 80 + length ?n)"
    using read_tx_count_ser [OF h(3), of header "?txs @ post"] h(1) by (simp add: ser_block_def)
  have len: "int (length ws) * 60 \<le> int (length ?txs)"
    using length_concat_ge [of ws 60 ser_tx] outs by simp
  have txs: "read_txs (ser_block header ws @ post) (length ws) (80 + length ?n) [] =
      Inr (map tx_of_wire ws, 80 + length ?n + length ?txs)"
    using read_txs_ser [OF h(4), of "header @ ?n" "80 + length ?n" post "[]"] h(1)
    by (simp add: ser_block_def)
  have size: "length (ser_block header ws @ post) = 80 + length ?n + length ?txs + length post"
    using h(1) by (simp add: ser_block_def)
  have "take 80 (ser_block header ws @ post) = header" using h(1) by (simp add: ser_block_def)
  moreover have "?n \<noteq> []" using length_ser_varint [of "length ws"] by auto
  ultimately show ?thesis using c txs len size h(2)
    by (simp add: parse_block_def HEADER_SIZE_def Let_def)
qed

lemma parse_block_ser:
  assumes "wf_wire_block header ws"
  shows "parse_block (ser_block header ws) =
    Inr \<lparr>blk_hash = dsha256 header, blk_prev_hash = slice 4 36 header,
         blk_transactions = map tx_of_wire ws\<rparr>"
  using parse_block_wire [OF assms, of "[]"] by simp

section \<open>Properties\<close>

text \<open>
  C16: a serialised block comes back whole: its hash is the double SHA-256 of the header, its
  parent the one the header names, its transactions the ones serialised, in order. With
  anything after the last transaction it is refused rather than read in part.
\<close>

theorem block_roundtrip:
  assumes "wf_wire_block header ws"
  shows "parse_block (ser_block header ws @ post) =
    (if post = [] then Inr \<lparr>blk_hash = dsha256 header, blk_prev_hash = slice 4 36 header,
         blk_transactions = map tx_of_wire ws\<rparr>
     else Inl (MalformedBlock ''trailing bytes after the last transaction''))"
  by (rule parse_block_wire [OF assms])

lemma ex_wire_block: "wf_wire_block (zeros 80) [ex_wire]"
  by (simp add: wf_wire_block_def ex_wire_wf) (simp add: ex_wire_def)

lemma block_roundtrip_witness:
  "parse_block (ser_block (zeros 80) [ex_wire] @ [0]) =
     Inl (MalformedBlock ''trailing bytes after the last transaction'')"
  using block_roundtrip [OF ex_wire_block, of "[0]"] by simp

text \<open>
  C38: what \<open>parse_block\<close> can raise. It is \<open>MalformedBlock\<close>, except on a buffer of 81 to 88
  bytes that ends inside a transaction count of several bytes: there \<open>struct.unpack_from\<close>
  raises \<open>struct.error\<close>, which is not a \<open>MalformedBlock\<close> and not a \<open>ValueError\<close>.
\<close>

theorem parse_block_errors:
  "(case parse_block raw of
      Inr _ \<Rightarrow> True
    | Inl e \<Rightarrow> is_malformed_block e \<or>
        is_struct_error e \<and> \<not> is_value_error e \<and> length raw \<in> {81..88} \<and> 253 \<le> uint (raw ! 80))
   \<and> parse_block (zeros 80 @ [253]) = Inl (StructError ''unpack_from requires a larger buffer'')"
proof (intro conjI)
  show "case parse_block raw of
      Inr _ \<Rightarrow> True
    | Inl e \<Rightarrow> is_malformed_block e \<or>
        is_struct_error e \<and> \<not> is_value_error e \<and> length raw \<in> {81..88} \<and> 253 \<le> uint (raw ! 80)"
    using parse_block_raises [of raw]
    by (cases "parse_block raw") (auto simp: is_struct_error_def)
  show "parse_block (zeros 80 @ [253]) = Inl (StructError ''unpack_from requires a larger buffer'')"
    by code_simp
qed

end
