(* ===== verification/Sequence.thy ===== *)
theory Sequence
  imports Bytes
begin

text \<open>
  \<open>match/sequence.py\<close>: per-topic sequence tracking, the only evidence that the stream
  dropped something. The lemmas show that a message goes unreported exactly when it
  follows the last one, that the losses counted on a topic are exact for every run of a
  wrapping 32-bit counter that does not jump across more than the wrap margin, that the
  reconciliation flag is set by every loss and cleared by \<open>reconciled\<close> alone, and that
  topics do not disturb one another.
\<close>

definition UINT32 :: int where
  "UINT32 = 4294967296"

definition WRAP_MARGIN :: int where
  "WRAP_MARGIN = 65536"

datatype anomaly_kind = GAP | RESTART | DUPLICATE

record anomaly =
  an_topic :: string
  an_kind :: anomaly_kind
  an_last_seq :: int
  an_seq :: int
  an_missing :: int

record topic_state =
  ts_last_seq :: "int option"
  ts_received :: int
  ts_missing_total :: int
  ts_gaps :: int
  ts_restarts :: int
  ts_duplicates :: int

definition new_topic_state :: topic_state where
  "new_topic_state = \<lparr>ts_last_seq = None, ts_received = 0, ts_missing_total = 0, ts_gaps = 0,
     ts_restarts = 0, ts_duplicates = 0\<rparr>"

definition parse_seq_part :: "bytes \<Rightarrow> exn + int" where
  "parse_seq_part part =
     (if length part \<noteq> 4 then Inl (ValueError ''sequence part must be 4 bytes'')
      else Inr (le_int part))"

record tracker =
  tr_topics :: "(string \<times> topic_state) list"
  tr_needs_reconciliation :: bool

definition new_tracker :: tracker where
  "new_tracker = \<lparr>tr_topics = [], tr_needs_reconciliation = False\<rparr>"

definition mk_anomaly :: "string \<Rightarrow> anomaly_kind \<Rightarrow> int \<Rightarrow> int \<Rightarrow> int \<Rightarrow> anomaly" where
  "mk_anomaly topic kind prev seq missing =
     \<lparr>an_topic = topic, an_kind = kind, an_last_seq = prev, an_seq = seq, an_missing = missing\<rparr>"

definition put_state :: "string \<Rightarrow> topic_state \<Rightarrow> tracker \<Rightarrow> tracker" where
  "put_state topic st t = t\<lparr>tr_topics := AList.update topic st (tr_topics t)\<rparr>"

definition flag_for_reconciliation :: "tracker \<Rightarrow> tracker" where
  "flag_for_reconciliation t = t\<lparr>tr_needs_reconciliation := True\<rparr>"

definition reconciled :: "tracker \<Rightarrow> tracker" where
  "reconciled t = t\<lparr>tr_needs_reconciliation := False\<rparr>"

text \<open>The gap branch, entered with the number of messages that are missing.\<close>

definition record_gap :: "string \<Rightarrow> topic_state \<Rightarrow> int \<Rightarrow> int \<Rightarrow> int \<Rightarrow> (tracker, anomaly option) py" where
  "record_gap topic st prev seq missing = (\<lambda>t.
     (Inr (Some (mk_anomaly topic GAP prev seq missing)),
      flag_for_reconciliation (put_state topic
        (st\<lparr>ts_gaps := ts_gaps st + 1, ts_missing_total := ts_missing_total st + missing\<rparr>) t)))"

definition observe :: "string \<Rightarrow> int \<Rightarrow> (tracker, anomaly option) py" where
  "observe topic seq = (\<lambda>t.
     if \<not> (0 \<le> seq \<and> seq < UINT32) then (Inl (ValueError ''sequence number out of range''), t)
     else
       let old = dict_get (tr_topics t) topic new_topic_state;
           st = old\<lparr>ts_received := ts_received old + 1, ts_last_seq := Some seq\<rparr>
       in case ts_last_seq old of
         None \<Rightarrow> (Inr None, put_state topic st t)
       | Some prev \<Rightarrow>
           let delta = seq - prev in
           if delta = 1 then (Inr None, put_state topic st t)
           else if delta = 0 then
             (Inr (Some (mk_anomaly topic DUPLICATE prev seq 0)),
              put_state topic (st\<lparr>ts_duplicates := ts_duplicates st + 1\<rparr>) t)
           else if delta > 1 then record_gap topic st prev seq (delta - 1) t
           else if prev \<ge> UINT32 - WRAP_MARGIN \<and> seq < WRAP_MARGIN then
             record_gap topic st prev seq ((seq + UINT32 - prev) - 1) t
           else
             (Inr (Some (mk_anomaly topic RESTART prev seq 0)),
              flag_for_reconciliation
                (put_state topic (st\<lparr>ts_restarts := ts_restarts st + 1\<rparr>) t)))"

text \<open>Reading the counters of a topic does not create it.\<close>

definition topic_state_of :: "tracker \<Rightarrow> string \<Rightarrow> topic_state" where
  "topic_state_of t topic = dict_get (tr_topics t) topic new_topic_state"

definition topics :: "tracker \<Rightarrow> string list" where
  "topics t = map fst (tr_topics t)"

definition missing_total :: "tracker \<Rightarrow> int" where
  "missing_total t = sum_list (map (\<lambda>(_, st). ts_missing_total st) (tr_topics t))"

section \<open>One message\<close>

lemma topic_state_put [simp]:
  "topic_state_of (put_state topic st t) topic' = (if topic' = topic then st else topic_state_of t topic')"
  by (simp add: put_state_def topic_state_of_def dict_get_update)

lemma topic_state_flag [simp]:
  "topic_state_of (flag_for_reconciliation t) topic = topic_state_of t topic"
  "topic_state_of (reconciled t) topic = topic_state_of t topic"
  "tr_needs_reconciliation (flag_for_reconciliation t)"
  "\<not> tr_needs_reconciliation (reconciled t)"
  "tr_needs_reconciliation (put_state topic st t) = tr_needs_reconciliation t"
  by (simp_all add: flag_for_reconciliation_def topic_state_of_def reconciled_def put_state_def)

lemmas observe_unfold =
  observe_def record_gap_def mk_anomaly_def Let_def topic_state_of_def [symmetric]

lemma observe_range:
  "0 \<le> seq \<Longrightarrow> seq < UINT32 \<Longrightarrow> \<exists>a t'. observe topic seq t = (Inr a, t')"
  by (auto simp: observe_unfold split: option.splits)

lemma observe_other_topic:
  "topic' \<noteq> topic \<Longrightarrow> topic_state_of (snd (observe topic seq t)) topic' = topic_state_of t topic'"
  by (auto simp: observe_unfold split: option.splits)

lemma observe_last:
  "0 \<le> seq \<Longrightarrow> seq < UINT32 \<Longrightarrow> ts_last_seq (topic_state_of (snd (observe topic seq t)) topic) = Some seq"
  by (auto simp: observe_unfold split: option.splits)

lemma observe_received:
  "0 \<le> seq \<Longrightarrow> seq < UINT32 \<Longrightarrow>
     ts_received (topic_state_of (snd (observe topic seq t)) topic) = ts_received (topic_state_of t topic) + 1"
  by (auto simp: observe_unfold split: option.splits)

text \<open>Silence means continuity: no anomaly is returned only for a first or a following message.\<close>

lemma observe_silent_iff:
  assumes "0 \<le> seq" and "seq < UINT32"
  shows "fst (observe topic seq t) = Inr None \<longleftrightarrow>
    (case ts_last_seq (topic_state_of t topic) of None \<Rightarrow> True | Some prev \<Rightarrow> seq = prev + 1)"
  using assms by (auto simp: observe_unfold split: option.splits)

text \<open>The flag after a message: set before, or set by a loss.\<close>

definition is_loss :: "anomaly option \<Rightarrow> bool" where
  "is_loss a \<longleftrightarrow> (case a of None \<Rightarrow> False | Some an \<Rightarrow> an_kind an = GAP \<or> an_kind an = RESTART)"

lemma observe_flag:
  "observe topic seq t = (Inr a, t') \<Longrightarrow>
     tr_needs_reconciliation t' \<longleftrightarrow> tr_needs_reconciliation t \<or> is_loss a"
  by (auto simp: observe_unfold is_loss_def split: option.splits if_splits)

lemma observe_flag_raise:
  "observe topic seq t = (Inl e, t') \<Longrightarrow> t' = t \<and> is_value_error e"
  by (auto simp: observe_unfold split: option.splits if_splits)

section \<open>A run of messages\<close>

text \<open>
  The publisher numbers its messages \<open>0, 1, 2, \<dots>\<close> and publishes the number modulo
  \<open>2\<^sup>3\<^sup>2\<close>. The subscriber sees the messages at some increasing positions. A step from
  one position to the next is readable when it does not wrap, or wraps from within the
  margin below the ceiling to within the margin above the floor.
\<close>

definition wire_seq :: "int \<Rightarrow> int" where
  "wire_seq i = i mod UINT32"

definition readable :: "int \<Rightarrow> int \<Rightarrow> bool" where
  "readable i j \<longleftrightarrow> i < j \<and>
     (j div UINT32 = i div UINT32 \<or>
      j div UINT32 = i div UINT32 + 1 \<and> UINT32 - WRAP_MARGIN \<le> i mod UINT32 \<and> j mod UINT32 < WRAP_MARGIN)"

fun readable_run :: "int \<Rightarrow> int list \<Rightarrow> bool" where
  "readable_run i [] = True"
| "readable_run i (j # js) = (readable i j \<and> readable_run j js)"

definition observe_run :: "string \<Rightarrow> int list \<Rightarrow> tracker \<Rightarrow> tracker" where
  "observe_run topic seqs t = fold (\<lambda>seq t. snd (observe topic seq t)) seqs t"

lemma wire_seq_range [simp]: "0 \<le> wire_seq i" "wire_seq i < UINT32"
  by (simp_all add: wire_seq_def UINT32_def)

lemma wire_seq_step:
  assumes "readable i j"
  shows "wire_seq j - wire_seq i = j - i \<and> j div UINT32 = i div UINT32 \<or>
    wire_seq j + UINT32 - wire_seq i = j - i \<and> wire_seq j < wire_seq i \<and>
    UINT32 - WRAP_MARGIN \<le> wire_seq i \<and> wire_seq j < WRAP_MARGIN"
proof -
  have "j = UINT32 * (j div UINT32) + wire_seq j" "i = UINT32 * (i div UINT32) + wire_seq i"
    by (simp_all add: wire_seq_def)
  with assms show ?thesis
    unfolding readable_def wire_seq_def [symmetric] by (auto simp: UINT32_def WRAP_MARGIN_def)
qed

lemma observe_readable:
  assumes "readable i j" and "ts_last_seq (topic_state_of t topic) = Some (wire_seq i)"
  shows "ts_missing_total (topic_state_of (snd (observe topic (wire_seq j) t)) topic) =
    ts_missing_total (topic_state_of t topic) + (j - i - 1)"
    and "ts_restarts (topic_state_of (snd (observe topic (wire_seq j) t)) topic) =
      ts_restarts (topic_state_of t topic)"
  using wire_seq_step [OF assms(1)] assms
  by (auto simp: observe_unfold readable_def UINT32_def WRAP_MARGIN_def wire_seq_range [unfolded UINT32_def])

lemma observe_run_simps [simp]:
  "observe_run topic [] t = t"
  "observe_run topic (seq # seqs) t = observe_run topic seqs (snd (observe topic seq t))"
  by (simp_all add: observe_run_def)

lemma observe_run_exact:
  assumes "readable_run i js" and "ts_last_seq (topic_state_of t topic) = Some (wire_seq i)"
  shows "ts_missing_total (topic_state_of (observe_run topic (map wire_seq js) t) topic) =
      ts_missing_total (topic_state_of t topic) + (last (i # js) - i - int (length js))
    \<and> ts_restarts (topic_state_of (observe_run topic (map wire_seq js) t) topic) =
      ts_restarts (topic_state_of t topic)"
  using assms
proof (induction js arbitrary: i t)
  case Nil
  show ?case by simp
next
  case (Cons j js)
  let ?t = "snd (observe topic (wire_seq j) t)"
  have l: "ts_last_seq (topic_state_of ?t topic) = Some (wire_seq j)"
    by (simp add: observe_last)
  from Cons.prems have j: "readable i j" "readable_run j js" by simp_all
  from Cons.IH [OF j(2) l] observe_readable [OF j(1) Cons.prems(2)] show ?case
    by simp
qed

lemma observe_run_other:
  "topic' \<noteq> topic \<Longrightarrow> topic_state_of (observe_run topic seqs t) topic' = topic_state_of t topic'"
  by (induction seqs arbitrary: t) (simp_all add: observe_other_topic)

lemma observe_sticky:
  "tr_needs_reconciliation t \<Longrightarrow> tr_needs_reconciliation (snd (observe topic seq t))"
  by (cases "observe topic seq t"; cases "fst (observe topic seq t)")
     (auto simp: observe_flag dest: observe_flag_raise)

lemma observe_run_sticky:
  "tr_needs_reconciliation t \<Longrightarrow> tr_needs_reconciliation (observe_run topic seqs t)"
  by (induction seqs arbitrary: t) (simp_all add: observe_sticky)

text \<open>A run of consecutive numbers, with no wrap, leaves the flag as it was.\<close>

lemma observe_consecutive:
  assumes "ts_last_seq (topic_state_of t topic) = Some s" and "0 \<le> s" and "s + 1 < UINT32"
  shows "snd (observe topic (s + 1) t) = put_state topic
    ((topic_state_of t topic)\<lparr>ts_received := ts_received (topic_state_of t topic) + 1,
       ts_last_seq := Some (s + 1)\<rparr>) t"
  using assms by (simp add: observe_unfold)

section \<open>Properties\<close>

text \<open>
  C12: the accounting of losses is exact. Of a publisher's numbered messages a subscriber
  sees the ones at positions \<open>i\<close> and then \<open>js\<close>, through a 32-bit counter that wraps. If no
  step between two of them crosses the ceiling outside the wrap margin, the tracker counts
  as missing exactly the messages that were not seen, and reports no restart.
\<close>

theorem losses_exact:
  assumes "readable_run i js"
  shows "let st = topic_state_of (observe_run topic (map wire_seq (i # js)) new_tracker) topic in
    ts_missing_total st = last (i # js) - i - int (length js) \<and> ts_restarts st = 0"
proof -
  let ?t = "snd (observe topic (wire_seq i) new_tracker)"
  have first: "topic_state_of ?t topic = new_topic_state\<lparr>ts_received := 1, ts_last_seq := Some (wire_seq i)\<rparr>"
    by (simp add: observe_def new_tracker_def topic_state_of_def put_state_def dict_get_def
        new_topic_state_def Let_def)
  from observe_run_exact [OF assms, of ?t topic] show ?thesis
    by (simp add: first Let_def) (simp add: new_topic_state_def)
qed

lemma losses_exact_witness:
  "let st = topic_state_of (observe_run ''rawtx'' (map wire_seq [4294967290, 4294967294, 4294967299]) new_tracker) ''rawtx'' in
    ts_missing_total st = 7 \<and> ts_restarts st = 0"
  using losses_exact [of 4294967290 "[4294967294, 4294967299]" "''rawtx''"]
  by (simp add: readable_def UINT32_def WRAP_MARGIN_def)

text \<open>
  Silence means continuity. For a number in range, \<open>observe\<close> returns no anomaly exactly
  when it is the first on its topic or follows the last one.
\<close>

theorem silence_is_continuity:
  assumes "0 \<le> seq" and "seq < UINT32"
  shows "fst (observe topic seq t) = Inr None \<longleftrightarrow>
    (case ts_last_seq (topic_state_of t topic) of None \<Rightarrow> True | Some prev \<Rightarrow> seq = prev + 1)"
  by (rule observe_silent_iff [OF assms])

lemma silence_is_continuity_witness:
  "fst (observe ''rawtx'' 5 new_tracker) = Inr None"
proof -
  have "(0 :: int) \<le> 5" "5 < UINT32" by (simp_all add: UINT32_def)
  from silence_is_continuity [OF this, of "''rawtx''" new_tracker] show ?thesis
    by (simp add: topic_state_of_def new_tracker_def dict_get_def new_topic_state_def)
qed

text \<open>The anomalies a run of messages on one topic reports.\<close>

fun anomalies :: "string \<Rightarrow> int list \<Rightarrow> tracker \<Rightarrow> anomaly option list" where
  "anomalies topic [] t = []"
| "anomalies topic (seq # seqs) t =
     (case observe topic seq t of (r, t') \<Rightarrow>
        (case r of Inl e \<Rightarrow> None | Inr a \<Rightarrow> a) # anomalies topic seqs t')"

text \<open>
  The reconciliation flag is never raised without a reported loss and a reported loss
  never fails to raise it. After any run of messages it is set exactly when it was set
  before or a gap or a restart was reported in the run.
\<close>

theorem flag_iff_loss:
  "tr_needs_reconciliation (observe_run topic seqs t) \<longleftrightarrow>
     tr_needs_reconciliation t \<or> (\<exists>a \<in> set (anomalies topic seqs t). is_loss a)"
proof (induction seqs arbitrary: t)
  case Nil
  show ?case by simp
next
  case (Cons seq seqs)
  obtain r t' where o: "observe topic seq t = (r, t')" by fastforce
  have "tr_needs_reconciliation t' \<longleftrightarrow> tr_needs_reconciliation t \<or>
      is_loss (case r of Inl e \<Rightarrow> None | Inr a \<Rightarrow> a)"
    using o observe_flag [of topic seq t _ t'] observe_flag_raise [of topic seq t _ t']
    by (cases r) (auto simp: is_loss_def)
  then show ?case by (simp add: o Cons.IH disj_assoc)
qed

text \<open>A clean wrap, with nothing missing, is reported as a gap of zero and sets the flag.\<close>

lemma clean_wrap_is_reported:
  "let (r, t) = observe ''rawtx'' 0 (snd (observe ''rawtx'' 4294967295 new_tracker))
   in r = Inr (Some (mk_anomaly ''rawtx'' GAP 4294967295 0 0)) \<and> tr_needs_reconciliation t"
  by (simp add: observe_def new_tracker_def new_topic_state_def put_state_def dict_get_def UINT32_def
      WRAP_MARGIN_def record_gap_def flag_for_reconciliation_def Let_def)

end
