(* ===== verification/Ingest.thy ===== *)
theory Ingest
  imports Matcher Block Sequence
begin

text \<open>
  \<open>match/stream.py\<close>: the seam between a message source and the matching loop.
  \<open>rawtx\<close> messages alert and never write the record; \<open>rawblock\<close> messages write it, and
  are expanded first by a hook that may owe the record more blocks than the one that
  arrived. The hook is a parameter here, a generator in the form of its yields and their
  follow-up updates on its own state; \<open>None\<close> applies exactly what arrives. The catch-up
  follower is plugged into it in the theory \<open>Service\<close>.
\<close>

definition TOPIC_TX :: string where "TOPIC_TX = ''rawtx''"
definition TOPIC_BLOCK :: string where "TOPIC_BLOCK = ''rawblock''"

definition DEFAULT_SEEN_MAX :: int where
  "DEFAULT_SEEN_MAX = 200000"

record stream_message =
  msg_topic :: string
  msg_body :: bytes
  msg_seq :: int

section \<open>SeenTransactions\<close>

record seen =
  se_maxlen :: int
  se_txids :: "bytes list"
  se_evicted :: int

definition new_seen :: "int \<Rightarrow> exn + seen" where
  "new_seen maxlen =
     (if maxlen < 1 then Inl (ValueError ''seen-set bound must be at least 1'')
      else Inr \<lparr>se_maxlen = maxlen, se_txids = [], se_evicted = 0\<rparr>)"

text \<open>\<open>while len > maxlen: popitem(last=False)\<close>: one pass of the loop drops the oldest.\<close>

function seen_evict :: "seen \<Rightarrow> seen" where
  "seen_evict s =
     (if int (length (se_txids s)) > se_maxlen s \<and> se_txids s \<noteq> []
      then seen_evict (s\<lparr>se_txids := tl (se_txids s), se_evicted := se_evicted s + 1\<rparr>)
      else s)"
  by auto
termination by (relation "measure (\<lambda>s. length (se_txids s))") auto

declare seen_evict.simps [simp del]

definition seen_add :: "bytes \<Rightarrow> seen \<Rightarrow> bool \<times> seen" where
  "seen_add txid s =
     (if txid \<in> set (se_txids s) then (False, s)
      else (True, seen_evict (s\<lparr>se_txids := se_txids s @ [txid]\<rparr>)))"

definition seen_len :: "seen \<Rightarrow> nat" where
  "seen_len s = length (se_txids s)"

section \<open>StreamIngest\<close>

text \<open>
  \<open>ig_announced\<close> is the sequence of calls made to the \<open>on_anomaly\<close> callback, when one was
  given; \<open>ig_expand\<close> is the state of the hook.
\<close>

record ('ix, 'f) ingest =
  ig_matcher :: "'ix matcher"
  ig_tracker :: tracker
  ig_seen :: seen
  ig_on_anomaly :: bool
  ig_announced :: "anomaly list"
  ig_expand :: 'f
  ig_parsed :: int
  ig_malformed :: int
  ig_ignored :: int
  ig_blocks :: int
  ig_confirmed :: int
  ig_suppressed :: int
  ig_catch_up_failures :: int

definition new_ingest :: "'ix matcher \<Rightarrow> tracker \<Rightarrow> bool \<Rightarrow> seen \<Rightarrow> 'f \<Rightarrow> ('ix, 'f) ingest" where
  "new_ingest m t on_anomaly s f =
     \<lparr>ig_matcher = m, ig_tracker = t, ig_seen = s, ig_on_anomaly = on_anomaly, ig_announced = [],
      ig_expand = f, ig_parsed = 0, ig_malformed = 0, ig_ignored = 0, ig_blocks = 0,
      ig_confirmed = 0, ig_suppressed = 0, ig_catch_up_failures = 0\<rparr>"

text \<open>The hook: the blocks it yields, each with its update when resumed.\<close>

type_synonym 'f hook = "block \<Rightarrow> ('f, (block \<times> ('f \<Rightarrow> 'f)) list) py"

text \<open>A method of a part of the ingest, run on that part.\<close>

definition on_matcher :: "('ix matcher, 'a) py \<Rightarrow> (('ix, 'f) ingest, 'a) py" where
  "on_matcher m = (\<lambda>g. let (r, t) = m (ig_matcher g) in (r, g\<lparr>ig_matcher := t\<rparr>))"

definition on_tracker :: "(tracker, 'a) py \<Rightarrow> (('ix, 'f) ingest, 'a) py" where
  "on_tracker m = (\<lambda>g. let (r, t) = m (ig_tracker g) in (r, g\<lparr>ig_tracker := t\<rparr>))"

definition on_seen :: "(seen \<Rightarrow> 'a \<times> seen) \<Rightarrow> (('ix, 'f) ingest, 'a) py" where
  "on_seen m = (\<lambda>g. let (x, s) = m (ig_seen g) in (Inr x, g\<lparr>ig_seen := s\<rparr>))"

definition on_expand :: "('f, 'a) py \<Rightarrow> (('ix, 'f) ingest, 'a) py" where
  "on_expand m = (\<lambda>g. let (r, f) = m (ig_expand g) in (r, g\<lparr>ig_expand := f\<rparr>))"

definition handle_tx :: "'ix index_ops \<Rightarrow> bytes \<Rightarrow> (('ix, 'f) ingest, match list) py" where
  "handle_tx W body =
     (case parse_tx body of
        Inl (MalformedTransaction _) \<Rightarrow>
          bind (modify (\<lambda>g. g\<lparr>ig_malformed := ig_malformed g + 1\<rparr>)) (\<lambda>_. ret [])
      | Inl e \<Rightarrow> throw e
      | Inr tx \<Rightarrow>
          bind (modify (\<lambda>g. g\<lparr>ig_parsed := ig_parsed g + 1\<rparr>)) (\<lambda>_.
          bind (on_matcher (\<lambda>m. (match_tx W m tx, m))) (\<lambda>matches.
          bind (on_matcher (note_unconfirmed W tx)) (\<lambda>_.
          if matches \<noteq> [] then
            bind (on_seen (seen_add (tx_txid tx))) (\<lambda>fresh.
            if \<not> fresh then ret [] else ret matches)
          else ret matches))))"

text \<open>One transaction of a block, and the loop over them.\<close>

definition apply_one :: "'ix index_ops \<Rightarrow> transaction \<Rightarrow> (('ix, 'f) ingest, match list) py" where
  "apply_one W tx =
     bind (on_matcher (\<lambda>m. (match_tx W m tx, m))) (\<lambda>matches.
     bind (on_matcher (apply_tx W tx)) (\<lambda>_.
     bind (modify (\<lambda>g. g\<lparr>ig_confirmed := ig_confirmed g + 1\<rparr>)) (\<lambda>_.
     if matches = [] then ret []
     else bind (on_seen (seen_add (tx_txid tx))) (\<lambda>fresh.
       if fresh then ret matches
       else bind (modify (\<lambda>g. g\<lparr>ig_suppressed := ig_suppressed g + 1\<rparr>)) (\<lambda>_. ret [])))))"

definition apply_block :: "'ix index_ops \<Rightarrow> block \<Rightarrow> (('ix, 'f) ingest, match list) py" where
  "apply_block W b =
     bind (modify (\<lambda>g. g\<lparr>ig_blocks := ig_blocks g + 1\<rparr>)) (\<lambda>_.
     bind (for_collect (apply_one W) (blk_transactions b)) (\<lambda>alerts.
     ret (concat alerts)))"

text \<open>\<open>for due in self._expand(block): alerts.extend(self._apply_block(due))\<close>\<close>

definition apply_due :: "'ix index_ops \<Rightarrow> block \<times> ('f \<Rightarrow> 'f) \<Rightarrow> (('ix, 'f) ingest, match list) py" where
  "apply_due W = (\<lambda>(due, post).
     bind (apply_block W due) (\<lambda>alerts.
     bind (modify (\<lambda>g. g\<lparr>ig_expand := post (ig_expand g)\<rparr>)) (\<lambda>_.
     ret alerts)))"

definition apply_expanded :: "'ix index_ops \<Rightarrow> 'f hook \<Rightarrow> block \<Rightarrow> (('ix, 'f) ingest, match list) py" where
  "apply_expanded W expand b =
     bind (on_expand (expand b)) (\<lambda>yields.
     bind (for_collect (apply_due W) yields) (\<lambda>alerts.
     ret (concat alerts)))"

text \<open>\<open>try: body / except Exception: flag, count, re-raise / else: reconciled\<close>\<close>

definition flag_tracker :: "('ix, 'f) ingest \<Rightarrow> ('ix, 'f) ingest" where
  "flag_tracker g = g\<lparr>ig_tracker := flag_for_reconciliation (ig_tracker g)\<rparr>"

definition guard_catch_up :: "(('ix, 'f) ingest, 'a) py \<Rightarrow> (('ix, 'f) ingest, 'a) py" where
  "guard_catch_up body = (\<lambda>g. case body g of
     (Inl e, h) \<Rightarrow> (Inl e, (flag_tracker h)\<lparr>ig_catch_up_failures := ig_catch_up_failures h + 1\<rparr>)
   | (Inr x, h) \<Rightarrow> (Inr x, h\<lparr>ig_tracker := reconciled (ig_tracker h)\<rparr>))"

definition handle_block :: "'ix index_ops \<Rightarrow> 'f hook option \<Rightarrow> bytes \<Rightarrow> (('ix, 'f) ingest, match list) py" where
  "handle_block W expand body =
     (case parse_block body of
        Inl (MalformedBlock _) \<Rightarrow>
          bind (modify (\<lambda>g. flag_tracker (g\<lparr>ig_malformed := ig_malformed g + 1\<rparr>))) (\<lambda>_. ret [])
      | Inl e \<Rightarrow> throw e
      | Inr b \<Rightarrow>
          (case expand of
             None \<Rightarrow> apply_block W b
           | Some hook \<Rightarrow> guard_catch_up (apply_expanded W hook b)))"

definition announce :: "anomaly option \<Rightarrow> ('ix, 'f) ingest \<Rightarrow> ('ix, 'f) ingest" where
  "announce a g = (case a of
     None \<Rightarrow> g
   | Some an \<Rightarrow> if ig_on_anomaly g then g\<lparr>ig_announced := ig_announced g @ [an]\<rparr> else g)"

definition handle :: "'ix index_ops \<Rightarrow> 'f hook option \<Rightarrow> stream_message \<Rightarrow> (('ix, 'f) ingest, match list) py" where
  "handle W expand msg =
     bind (on_tracker (observe (msg_topic msg) (msg_seq msg))) (\<lambda>a.
     bind (modify (announce a)) (\<lambda>_.
     if msg_topic msg = TOPIC_TX then handle_tx W (msg_body msg)
     else if msg_topic msg = TOPIC_BLOCK then handle_block W expand (msg_body msg)
     else bind (modify (\<lambda>g. g\<lparr>ig_ignored := ig_ignored g + 1\<rparr>)) (\<lambda>_. ret [])))"

definition run :: "'ix index_ops \<Rightarrow> 'f hook option \<Rightarrow> stream_message list \<Rightarrow> (('ix, 'f) ingest, match list) py" where
  "run W expand messages = bind (for_collect (handle W expand) messages) (\<lambda>ms. ret (concat ms))"

section \<open>The seen-set\<close>

definition seen_ok :: "seen \<Rightarrow> bool" where
  "seen_ok s \<longleftrightarrow> 1 \<le> se_maxlen s \<and> distinct (se_txids s) \<and> int (length (se_txids s)) \<le> se_maxlen s"

lemma seen_evict_within: "int (length (se_txids s)) \<le> se_maxlen s \<Longrightarrow> seen_evict s = s"
  by (simp add: seen_evict.simps [of s])

lemma seen_evict_over:
  "int (length (se_txids s)) = se_maxlen s + 1 \<Longrightarrow> 0 \<le> se_maxlen s \<Longrightarrow>
   seen_evict s = s\<lparr>se_txids := tl (se_txids s), se_evicted := se_evicted s + 1\<rparr>"
  by (cases "se_txids s") (auto simp: seen_evict.simps [of s] seen_evict_within)

text \<open>A new txid is appended; at the bound the oldest one makes room and is counted.\<close>

lemma seen_add_new:
  assumes "seen_ok s" and "txid \<notin> set (se_txids s)"
  shows "seen_add txid s = (True,
    if int (length (se_txids s)) < se_maxlen s then s\<lparr>se_txids := se_txids s @ [txid]\<rparr>
    else s\<lparr>se_txids := tl (se_txids s) @ [txid], se_evicted := se_evicted s + 1\<rparr>)"
proof (cases "int (length (se_txids s)) < se_maxlen s")
  case True
  then show ?thesis using assms by (simp add: seen_add_def seen_evict_within)
next
  case False
  with assms have "int (length (se_txids s)) = se_maxlen s" "se_txids s \<noteq> []" by (auto simp: seen_ok_def)
  then show ?thesis using assms by (simp add: seen_add_def seen_evict_over seen_ok_def)
qed

lemma seen_add_ok: "seen_ok s \<Longrightarrow> seen_ok (snd (seen_add txid s))"
proof (cases "txid \<in> set (se_txids s)")
  case True
  then show "seen_ok s \<Longrightarrow> ?thesis" by (simp add: seen_add_def)
next
  case False
  assume ok: "seen_ok s"
  have "distinct (tl (se_txids s) @ [txid])"
    using ok False by (cases "se_txids s") (auto simp: seen_ok_def)
  moreover have "length (tl (se_txids s)) + 1 \<le> length (se_txids s)" if "se_txids s \<noteq> []"
    using that by (cases "se_txids s") auto
  ultimately show ?thesis using ok False
    by (cases "se_txids s = []") (auto simp: seen_add_new seen_ok_def)
qed

lemma seen_add_fresh: "fst (seen_add txid s) \<longleftrightarrow> txid \<notin> set (se_txids s)"
  by (simp add: seen_add_def)

lemma seen_add_mem:
  assumes "seen_ok s"
  shows "txid \<in> set (se_txids (snd (seen_add txid s)))"
proof (cases "txid \<in> set (se_txids s)")
  case True
  then show ?thesis by (simp add: seen_add_def)
next
  case False
  then show ?thesis by (simp add: seen_add_new [OF assms])
qed

section \<open>What each message may touch\<close>

text \<open>
  The record side of an ingest: the key, the index and the hook's state. Two ingests with
  the same record side are not told apart by confirmed blocks.
\<close>

definition record_side :: "('ix, 'f) ingest \<Rightarrow> bytes \<times> 'ix \<times> 'f" where
  "record_side g = (m_k (ig_matcher g), m_index (ig_matcher g), ig_expand g)"

lemma sim_then:
  "sim v any m n \<Longrightarrow> (\<And>x y. sim v S (k x) (l y)) \<Longrightarrow> sim v S (bind m k) (bind n l)"
  by (rule sim_bind)

lemma sim_on_seen: "sim record_side any (on_seen p) (on_seen q)"
  by (simp add: sim_def on_seen_def record_side_def split: prod.splits)

lemma sim_on_expand: "sim record_side (=) (on_expand m) (on_expand m)"
proof -
  have "same_outcome (=) r r" for r :: "exn + 'z" by (cases r) auto
  then show ?thesis by (auto simp: sim_def on_expand_def record_side_def split: prod.splits)
qed

text \<open>
  A method of the matcher runs the same on the record side when its exception and its
  index depend on the key and the index alone.
\<close>

definition matcher_side :: "'ix matcher \<Rightarrow> bytes \<times> 'ix" where
  "matcher_side m = (m_k m, m_index m)"

lemma sim_on_matcher: "sim matcher_side any p p \<Longrightarrow> sim record_side any (on_matcher p) (on_matcher p)"
  unfolding sim_def
  by (simp add: on_matcher_def record_side_def matcher_side_def split: prod.splits)
     (metis fst_conv snd_conv)

lemma match_inputs_agree:
  "m_k m = m_k n \<Longrightarrow> same_outcome any (match_inputs W m ops acc) (match_inputs W n ops acc')"
proof (induction ops arbitrary: acc acc')
  case (Cons op ops)
  then show ?case by (cases "outpoint_hmac (m_k n) (op_txid op) (op_vout op)") auto
qed simp

lemma sim_match: "sim matcher_side any (\<lambda>m. (match_tx W m tx, m)) (\<lambda>m. (match_tx W m tx, m))"
  unfolding sim_def
proof (intro allI impI)
  fix m n :: "'a matcher" assume "matcher_side m = matcher_side n"
  then show "matcher_side (snd (match_tx W m tx, m)) = matcher_side (snd (match_tx W n tx, n))
    \<and> same_outcome any (fst (match_tx W m tx, m)) (fst (match_tx W n tx, n))"
    using match_inputs_agree [of m n W "tx_inputs tx" "[]" "[]"]
    by (cases "match_inputs W m (tx_inputs tx) []"; cases "match_inputs W n (tx_inputs tx) []")
       (auto simp: match_tx_def matcher_side_def)
qed

lemma sim_apply_tx: "sim matcher_side any (apply_tx W tx) (apply_tx W tx)"
  unfolding apply_tx_def
proof (intro sim_then sim_for_each)
  show "sim matcher_side any (apply_input W op) (apply_input W op)" for op
    by (auto simp: sim_def apply_input_def matcher_side_def split: sum.splits)
  show "sim matcher_side any (apply_output W txid out) (apply_output W txid out)" for txid out
    by (auto simp: sim_def apply_output_def matcher_side_def Let_def split: sum.splits)
  show "sim matcher_side any (modify (\<lambda>m. m\<lparr>m_prov := prov_forget txid (m_prov m)\<rparr>))
      (modify (\<lambda>m. m\<lparr>m_prov := prov_forget txid (m_prov m)\<rparr>))" for txid
    by (rule sim_modify) (simp add: matcher_side_def)
qed

lemma sim_counters [intro!]:
  "sim record_side any (modify (\<lambda>g. g\<lparr>ig_confirmed := a g\<rparr>)) (modify (\<lambda>g. g\<lparr>ig_confirmed := a g\<rparr>))"
  "sim record_side any (modify (\<lambda>g. g\<lparr>ig_suppressed := b g\<rparr>)) (modify (\<lambda>g. g\<lparr>ig_suppressed := b g\<rparr>))"
  "sim record_side any (modify (\<lambda>g. g\<lparr>ig_blocks := c g\<rparr>)) (modify (\<lambda>g. g\<lparr>ig_blocks := c g\<rparr>))"
  by (rule sim_modify, simp add: record_side_def)+

text \<open>The decision to announce a match never reaches the record.\<close>

lemma sim_apply_one: "sim record_side any (apply_one W tx) (apply_one W tx)"
proof -
  have alert: "sim record_side any
      (if ms = [] then ret [] else bind (on_seen (seen_add t)) (\<lambda>fresh. if fresh then ret ms
         else bind (modify (\<lambda>g. g\<lparr>ig_suppressed := ig_suppressed g + 1\<rparr>)) (\<lambda>_. ret [])))
      (if ns = [] then ret [] else bind (on_seen (seen_add t)) (\<lambda>fresh. if fresh then ret ns
         else bind (modify (\<lambda>g. g\<lparr>ig_suppressed := ig_suppressed g + 1\<rparr>)) (\<lambda>_. ret [])))"
    for ms ns :: "match list" and t
    by (auto simp: sim_def py_simps on_seen_def record_side_def same_outcome_def
        split: prod.splits sum.splits if_splits)
  show ?thesis unfolding apply_one_def
    by (intro sim_then sim_on_matcher sim_match sim_apply_tx sim_counters alert)
qed

lemma sim_apply_block: "sim record_side any (apply_block W b) (apply_block W b)"
  unfolding apply_block_def by (intro sim_then sim_collect sim_apply_one sim_ret sim_counters TrueI)

lemma sim_apply_due: "sim record_side any (apply_due W y) (apply_due W y)"
  unfolding apply_due_def
  by (cases y) (auto intro!: sim_then sim_apply_block sim_ret sim_modify simp: record_side_def)

lemma sim_apply_expanded: "sim record_side any (apply_expanded W hook b) (apply_expanded W hook b)"
  unfolding apply_expanded_def
  by (rule sim_bind [OF sim_on_expand]) (auto intro!: sim_then sim_collect sim_apply_due sim_ret)

lemma record_side_frame [simp]:
  "record_side (flag_tracker g) = record_side g"
  "record_side (g\<lparr>ig_tracker := t\<rparr>) = record_side g"
  "record_side (g\<lparr>ig_catch_up_failures := n\<rparr>) = record_side g"
  "record_side (g\<lparr>ig_malformed := n\<rparr>) = record_side g"
  "record_side (g\<lparr>ig_parsed := n\<rparr>) = record_side g"
  "record_side (g\<lparr>ig_ignored := n\<rparr>) = record_side g"
  "record_side (g\<lparr>ig_seen := s\<rparr>) = record_side g"
  "record_side (announce a g) = record_side g"
  by (simp_all add: record_side_def flag_tracker_def announce_def split: option.splits)

lemma sim_guard:
  assumes "sim record_side any m m"
  shows "sim record_side any (guard_catch_up m) (guard_catch_up m)"
  unfolding sim_def
proof (intro allI impI)
  fix g h :: "('a, 'b) ingest" assume "record_side g = record_side h"
  moreover obtain r g' q h' where mg: "m g = (r, g')" and mh: "m h = (q, h')" by fastforce
  ultimately have "record_side g' = record_side h'" "same_outcome any r q"
    using simD [OF assms, of g h] by simp_all
  then show "record_side (snd (guard_catch_up m g)) = record_side (snd (guard_catch_up m h))
    \<and> same_outcome any (fst (guard_catch_up m g)) (fst (guard_catch_up m h))"
    by (cases r; cases q) (simp_all add: guard_catch_up_def mg mh)
qed

lemma sim_malformed: "sim record_side any
    (bind (modify (\<lambda>g. flag_tracker (g\<lparr>ig_malformed := ig_malformed g + 1\<rparr>))) (\<lambda>_. ret []))
    (bind (modify (\<lambda>g. flag_tracker (g\<lparr>ig_malformed := ig_malformed g + 1\<rparr>))) (\<lambda>_. ret []))"
  by (rule sim_then, rule sim_modify) (simp_all add: sim_ret)

lemma sim_handle_block: "sim record_side any (handle_block W expand body) (handle_block W expand body)"
proof (cases "parse_block body")
  case (Inl e)
  then show ?thesis by (cases e) (simp_all add: handle_block_def sim_throw sim_malformed)
next
  case (Inr b)
  then show ?thesis
    by (cases expand) (simp_all add: handle_block_def sim_guard sim_apply_expanded sim_apply_block)
qed

section \<open>The mempool never writes the record\<close>

lemma on_matcher_run: "m (ig_matcher g) = (r, t) \<Longrightarrow> on_matcher m g = (r, g\<lparr>ig_matcher := t\<rparr>)"
  by (simp add: on_matcher_def)

text \<open>
  On any payload: no exception, the record side as it was, and the tracker untouched.
\<close>

lemma handle_tx_blind:
  assumes "length body < 2 ^ 32"
  shows "\<exists>ms g'. handle_tx W body g = (Inr ms, g') \<and> record_side g' = record_side g
    \<and> ig_tracker g' = ig_tracker g"
proof (cases "parse_tx body")
  case (Inl e)
  then obtain msg where "e = MalformedTransaction msg"
    using parse_tx_raises by (auto simp: is_malformed_tx_def)
  then show ?thesis using Inl by (simp add: handle_tx_def py_simps)
next
  case (Inr tx)
  let ?g = "g\<lparr>ig_parsed := ig_parsed g + 1\<rparr>"
  have wf: "wf_tx tx" using parse_tx_returns [OF Inr assms] .
  obtain ms where ms: "match_tx W (ig_matcher g) tx = Inr ms"
    using match_tx_wf [OF wf, of W "ig_matcher g"] by blast
  obtain m where n: "note_unconfirmed W tx (ig_matcher g) = (Inr (), m)"
    using note_unconfirmed_wf [OF wf] by blast
  then have frame: "m_index m = m_index (ig_matcher g)" "m_k m = m_k (ig_matcher g)"
    using note_unconfirmed_frame by fast+
  obtain fresh s where "seen_add (tx_txid tx) (ig_seen g) = (fresh, s)" by fastforce
  then show ?thesis
    by (cases "ms = []"; cases fresh)
       (simp_all add: handle_tx_def Inr py_simps on_matcher_def ms n on_seen_def record_side_def frame)
qed

definition seq_in_range :: "stream_message \<Rightarrow> bool" where
  "seq_in_range msg \<longleftrightarrow> 0 \<le> msg_seq msg \<and> msg_seq msg < UINT32"

lemma observe_on_tracker:
  assumes "seq_in_range msg"
  shows "\<exists>a t. on_tracker (observe (msg_topic msg) (msg_seq msg)) g = (Inr a, g\<lparr>ig_tracker := t\<rparr>)
    \<and> observe (msg_topic msg) (msg_seq msg) (ig_tracker g) = (Inr a, t)"
  using observe_range [of "msg_seq msg" "msg_topic msg" "ig_tracker g"] assms
  by (auto simp: seq_in_range_def on_tracker_def)

definition small :: "stream_message \<Rightarrow> bool" where
  "small msg \<longleftrightarrow> length (msg_body msg) < 2 ^ 32"

lemma handle_other_blind:
  assumes "seq_in_range msg" and "small msg" and "msg_topic msg \<noteq> TOPIC_BLOCK"
  shows "\<exists>ms g'. handle W expand msg g = (Inr ms, g') \<and> record_side g' = record_side g"
proof -
  obtain a t where o: "on_tracker (observe (msg_topic msg) (msg_seq msg)) g = (Inr a, g\<lparr>ig_tracker := t\<rparr>)"
    using observe_on_tracker [OF assms(1)] by blast
  let ?g = "announce a (g\<lparr>ig_tracker := t\<rparr>)"
  obtain ms g' where "handle_tx W (msg_body msg) ?g = (Inr ms, g')" "record_side g' = record_side ?g"
    using handle_tx_blind assms(2) by (metis small_def)
  then show ?thesis using o assms(3) by (simp add: handle_def py_simps)
qed

lemma sim_on_observe:
  assumes "seq_in_range msg"
  shows "sim record_side any (on_tracker (observe (msg_topic msg) (msg_seq msg)))
    (on_tracker (observe (msg_topic msg) (msg_seq msg)))"
  unfolding sim_def
proof (intro allI impI)
  fix g h :: "('a, 'b) ingest" assume "record_side g = record_side h"
  moreover obtain a t b u where
    "on_tracker (observe (msg_topic msg) (msg_seq msg)) g = (Inr a, g\<lparr>ig_tracker := t\<rparr>)"
    "on_tracker (observe (msg_topic msg) (msg_seq msg)) h = (Inr b, h\<lparr>ig_tracker := u\<rparr>)"
    using observe_on_tracker [OF assms] by metis
  ultimately show "record_side (snd (on_tracker (observe (msg_topic msg) (msg_seq msg)) g)) =
      record_side (snd (on_tracker (observe (msg_topic msg) (msg_seq msg)) h))
    \<and> same_outcome any (fst (on_tracker (observe (msg_topic msg) (msg_seq msg)) g))
      (fst (on_tracker (observe (msg_topic msg) (msg_seq msg)) h))" by simp
qed

lemma sim_handle_rawblock:
  assumes "seq_in_range msg" and "msg_topic msg = TOPIC_BLOCK"
  shows "sim record_side any (handle W expand msg) (handle W expand msg)"
  unfolding handle_def
  by (rule sim_then [OF sim_on_observe [OF assms(1)]], rule sim_then, rule sim_modify, simp)
     (simp add: assms(2) TOPIC_TX_def TOPIC_BLOCK_def sim_handle_block)

lemma run_Cons: "run W expand (msg # msgs) =
    bind (handle W expand msg) (\<lambda>ms. bind (run W expand msgs) (\<lambda>ns. ret (ms @ ns)))"
  by (simp add: run_def bind_bind)

lemma run_Nil [simp]: "run W expand [] = ret []"
  by (simp add: run_def)

text \<open>
  Any run of messages leaves the record that its block messages alone leave, and raises
  exactly when they do.
\<close>

lemma run_blocks_only:
  assumes "\<forall>msg \<in> set msgs. seq_in_range msg \<and> small msg"
  shows "sim record_side any (run W expand msgs)
    (run W expand (filter (\<lambda>msg. msg_topic msg = TOPIC_BLOCK) msgs))"
  using assms
proof (induction msgs)
  case Nil
  then show ?case by (simp add: sim_ret)
next
  case (Cons msg msgs)
  then have IH: "sim record_side any (run W expand msgs)
    (run W expand (filter (\<lambda>msg. msg_topic msg = TOPIC_BLOCK) msgs))" by simp
  show ?case
  proof (cases "msg_topic msg = TOPIC_BLOCK")
    case True
    with Cons.prems have "sim record_side any (handle W expand msg) (handle W expand msg)"
      by (simp add: sim_handle_rawblock)
    with IH True show ?thesis by (auto simp: run_Cons intro!: sim_then sim_ret)
  next
    case False
    show ?thesis unfolding sim_def
    proof (intro allI impI)
      fix g h :: "('a, 'b) ingest" assume gh: "record_side g = record_side h"
      obtain ms g' where "handle W expand msg g = (Inr ms, g')" "record_side g' = record_side h"
        using handle_other_blind [of msg W expand g] False Cons.prems gh by fastforce
      moreover from this have "sim record_side any (bind (run W expand msgs) (\<lambda>ns. ret (ms @ ns)))
        (bind (run W expand (filter (\<lambda>msg. msg_topic msg = TOPIC_BLOCK) msgs)) ret)"
        by (intro sim_then [OF IH] sim_ret TrueI)
      ultimately show "record_side (snd (run W expand (msg # msgs) g)) =
          record_side (snd (run W expand (filter (\<lambda>msg. msg_topic msg = TOPIC_BLOCK) (msg # msgs)) h))
        \<and> same_outcome any (fst (run W expand (msg # msgs) g))
          (fst (run W expand (filter (\<lambda>msg. msg_topic msg = TOPIC_BLOCK) (msg # msgs)) h))"
        using False by (simp add: run_Cons bind_run simD)
    qed
  qed
qed

section \<open>The record as the fold of confirmed transactions\<close>

text \<open>
  The abstract record is a set of coins, an item with the hash of an outpoint it owns.
  Confirming a transaction removes the coins it spends, whoever owns them, and adds the
  ones it creates for the items that watch the scripts it pays.
\<close>

type_synonym coins = "(int \<times> bytes) set"

definition holdings :: "'ix index_ops \<Rightarrow> 'ix \<Rightarrow> coins" where
  "holdings W ix = {(i, h). i \<in> set (items_owning_outpoint W ix h)}"

definition watched :: "'ix index_ops \<Rightarrow> 'ix \<Rightarrow> bytes \<Rightarrow> int set" where
  "watched W ix = (\<lambda>h. set (items_watching_spk W ix h))"

definition confirm_tx :: "bytes \<Rightarrow> (bytes \<Rightarrow> int set) \<Rightarrow> transaction \<Rightarrow> coins \<Rightarrow> coins" where
  "confirm_tx k watch tx R =
     {(i, h) \<in> R. h \<notin> spent_keys k tx}
     \<union> {(i, op_key k (tx_txid tx) (out_vout out)) | i out.
          out \<in> set (tx_outputs tx) \<and> i \<in> watch (spk_hmac k (out_spk out))}"

abbreviation index_of :: "('ix, 'f) ingest \<Rightarrow> 'ix" where
  "index_of g \<equiv> m_index (ig_matcher g)"

abbreviation key_of :: "('ix, 'f) ingest \<Rightarrow> bytes" where
  "key_of g \<equiv> m_k (ig_matcher g)"

text \<open>The parts of an ingest that folding transactions in leaves alone.\<close>

definition same_frame :: "('ix, 'f) ingest \<Rightarrow> ('ix, 'f) ingest \<Rightarrow> bool" where
  "same_frame g h \<longleftrightarrow> key_of h = key_of g \<and> ig_expand h = ig_expand g \<and> ig_tracker h = ig_tracker g
     \<and> ig_catch_up_failures h = ig_catch_up_failures g \<and> ig_malformed h = ig_malformed g"

lemma same_frame_trans: "same_frame f g \<Longrightarrow> same_frame g h \<Longrightarrow> same_frame f h"
  by (simp add: same_frame_def)

text \<open>
  What confirming transactions in turn announces: for each, the owners of the coins it spends
  and the items whose scripts it pays, against the record as the ones before it left it.
\<close>

fun chain_alerts :: "bytes \<Rightarrow> (bytes \<Rightarrow> int set) \<Rightarrow> transaction list \<Rightarrow> coins \<Rightarrow> match set" where
  "chain_alerts k watch [] R = {}"
| "chain_alerts k watch (tx # txs) R =
     {\<lparr>item_id = i, match_direction = OUTGOING\<rparr> | i h. (i, h) \<in> R \<and> h \<in> spent_keys k tx}
     \<union> {\<lparr>item_id = i, match_direction = INCOMING\<rparr> | i out.
          out \<in> set (tx_outputs tx) \<and> i \<in> watch (spk_hmac k (out_spk out))}
     \<union> chain_alerts k watch txs (confirm_tx k watch tx R)"

lemma chain_alerts_append [simp]:
  "chain_alerts k watch (as @ bs) R =
     chain_alerts k watch as R \<union> chain_alerts k watch bs (fold (confirm_tx k watch) as R)"
  by (induction as arbitrary: R) auto

text \<open>
  Transactions none of which was announced before, by an ingest that holds no mempool coins;
  and what announcing transactions may do to the set of announced ones and to those coins.
\<close>

definition unseen :: "transaction list \<Rightarrow> ('ix, 'f) ingest \<Rightarrow> bool" where
  "unseen txs g \<longleftrightarrow> distinct (map tx_txid txs) \<and> tx_txid ` set txs \<inter> set (se_txids (ig_seen g)) = {}
     \<and> pv_by_outpoint (m_prov (ig_matcher g)) = []"

definition ages :: "transaction list \<Rightarrow> ('ix, 'f) ingest \<Rightarrow> ('ix, 'f) ingest \<Rightarrow> bool" where
  "ages txs g h \<longleftrightarrow> set (se_txids (ig_seen h)) \<subseteq> tx_txid ` set txs \<union> set (se_txids (ig_seen g))
     \<and> (pv_by_outpoint (m_prov (ig_matcher g)) = [] \<longrightarrow> pv_by_outpoint (m_prov (ig_matcher h)) = [])"

lemma ages_append: "ages as f g \<Longrightarrow> ages bs g h \<Longrightarrow> ages (as @ bs) f h"
  by (auto simp: ages_def)

lemma ages_same: "ig_seen h = ig_seen g \<Longrightarrow> ig_matcher h = ig_matcher g \<Longrightarrow> ages txs g h"
  by (auto simp: ages_def)

lemma unseen_append:
  assumes "unseen (as @ bs) g"
  shows "unseen as g \<and> (ages as g h \<longrightarrow> unseen bs h)"
proof -
  have "unseen as g" using assms by (auto simp: unseen_def)
  moreover have "unseen bs h" if "ages as g h"
  proof -
    have "tx_txid ` set bs \<inter> (tx_txid ` set as \<union> set (se_txids (ig_seen g))) = {}"
      using assms by (auto simp: unseen_def)
    then show ?thesis using assms that unfolding unseen_def ages_def by (simp add: disjoint_iff subset_iff) blast
  qed
  ultimately show ?thesis by blast
qed

lemma seen_add_subset: "set (se_txids (snd (seen_add txid s))) \<subseteq> insert txid (set (se_txids s))"
proof -
  have "set (se_txids (seen_evict s)) \<subseteq> set (se_txids s)" for s
  proof (induction s rule: seen_evict.induct)
    case (1 s)
    have "set (tl (se_txids s)) \<subseteq> set (se_txids s)" by (cases "se_txids s") auto
    with 1 show ?case by (subst seen_evict.simps) (simp, blast)
  qed
  from this [of "s\<lparr>se_txids := se_txids s @ [txid]\<rparr>"] show ?thesis by (auto simp: seen_add_def)
qed

lemma fold_delete_Nil [simp]: "fold AList.delete ks [] = []"
  by (induction ks) simp_all

lemma prov_forget_empty: "pv_by_outpoint p = [] \<Longrightarrow> pv_by_outpoint (prov_forget txid p) = []"
  by (simp add: prov_forget_def prov_drop_def)

lemma match_alerts:
  assumes "wf_tx tx" and "pv_by_outpoint (m_prov m) = []" and "match_tx W m tx = Inr ms"
  shows "set ms = chain_alerts (m_k m) (watched W (m_index m)) [tx] (holdings W (m_index m))"
proof (rule set_eqI, rule match_tx_returns [OF assms(1), of W m])
  fix a :: match and ns
  assume ns: "match_tx W m tx = Inr ns"
    "\<And>i. \<lparr>item_id = i, match_direction = OUTGOING\<rparr> \<in> set ns \<longleftrightarrow> spends W m tx i"
    "\<And>i. \<lparr>item_id = i, match_direction = INCOMING\<rparr> \<in> set ns \<longleftrightarrow> pays W m tx i"
  obtain i d where a: "a = \<lparr>item_id = i, match_direction = d\<rparr>" by (cases a)
  have "prov_items (m_prov m) h = []" for h using assms(2) by (simp add: prov_items_def dict_get_def)
  then show "a \<in> set ms \<longleftrightarrow> a \<in> chain_alerts (m_k m) (watched W (m_index m)) [tx] (holdings W (m_index m))"
    using ns assms(3) by (cases d) (auto simp: a spends_def pays_def spent_keys_def holdings_def watched_def)
qed

context watch_index begin

lemma apply_holdings:
  assumes "invar (m_index m)" and "wf_tx tx"
  shows "\<exists>ix. apply_tx W tx m = (Inr (), m\<lparr>m_index := ix, m_prov := prov_forget (tx_txid tx) (m_prov m)\<rparr>)
    \<and> invar ix \<and> watched W ix = watched W (m_index m)
    \<and> holdings W ix = confirm_tx (m_k m) (watched W (m_index m)) tx (holdings W (m_index m))"
proof (rule apply_record [OF assms], goal_cases)
  case (1 ix)
  have "holdings W ix = confirm_tx (m_k m) (watched W (m_index m)) tx (holdings W (m_index m))"
    using 1(3) by (auto simp: holdings_def confirm_tx_def watched_def owns_def creates_def)
  with 1 show ?case by (auto simp: watched_def)
qed

text \<open>
  One confirmed transaction: announced when it matches and was not announced before, and
  folded into the record either way.
\<close>

lemma apply_one_run:
  assumes "invar (index_of g)" and "wf_tx tx"
  shows "\<exists>ms g'. match_tx W (ig_matcher g) tx = Inr ms
    \<and> apply_one W tx g = (Inr (if tx_txid tx \<in> set (se_txids (ig_seen g)) then [] else ms), g')
    \<and> invar (index_of g') \<and> watched W (index_of g') = watched W (index_of g)
    \<and> holdings W (index_of g') =
        confirm_tx (key_of g) (watched W (index_of g)) tx (holdings W (index_of g))
    \<and> same_frame g g' \<and> ig_blocks g' = ig_blocks g \<and> ages [tx] g g'"
proof -
  obtain ms where ms: "match_tx W (ig_matcher g) tx = Inr ms"
    using match_tx_wf [OF assms(2), of W "ig_matcher g"] by blast
  obtain ix where ix: "apply_tx W tx (ig_matcher g) = (Inr (), (ig_matcher g)
        \<lparr>m_index := ix, m_prov := prov_forget (tx_txid tx) (m_prov (ig_matcher g))\<rparr>)"
      "invar ix" "watched W ix = watched W (index_of g)"
      "holdings W ix = confirm_tx (key_of g) (watched W (index_of g)) tx (holdings W (index_of g))"
    using apply_holdings [OF assms] by blast
  obtain fresh s where s: "seen_add (tx_txid tx) (ig_seen g) = (fresh, s)" by fastforce
  then have "fresh \<longleftrightarrow> tx_txid tx \<notin> set (se_txids (ig_seen g))"
    using seen_add_fresh [of "tx_txid tx" "ig_seen g"] by simp
  moreover have "set (se_txids s) \<subseteq> insert (tx_txid tx) (set (se_txids (ig_seen g)))"
    using seen_add_subset [of "tx_txid tx" "ig_seen g"] s by simp
  ultimately show ?thesis
    by (cases "ms = []"; cases fresh)
       (simp_all add: apply_one_def py_simps on_matcher_def on_seen_def ms ix s same_frame_def ages_def
          prov_forget_empty subset_insertI)
qed

lemma apply_txs_run:
  assumes "invar (index_of g)" and "\<forall>tx \<in> set txs. wf_tx tx"
  shows "\<exists>ms g'. for_collect (apply_one W) txs g = (Inr ms, g')
    \<and> invar (index_of g') \<and> watched W (index_of g') = watched W (index_of g)
    \<and> holdings W (index_of g') =
        fold (confirm_tx (key_of g) (watched W (index_of g))) txs (holdings W (index_of g))
    \<and> same_frame g g' \<and> ig_blocks g' = ig_blocks g \<and> ages txs g g'
    \<and> (unseen txs g \<longrightarrow> set (concat ms) =
         chain_alerts (key_of g) (watched W (index_of g)) txs (holdings W (index_of g)))"
  using assms
proof (induction txs arbitrary: g)
  case Nil
  then show ?case by (simp add: ret_def same_frame_def ages_def)
next
  case (Cons tx txs)
  obtain ms g1 where one: "match_tx W (ig_matcher g) tx = Inr ms"
      "apply_one W tx g = (Inr (if tx_txid tx \<in> set (se_txids (ig_seen g)) then [] else ms), g1)" "invar (index_of g1)"
      "watched W (index_of g1) = watched W (index_of g)"
      "holdings W (index_of g1) =
        confirm_tx (key_of g) (watched W (index_of g)) tx (holdings W (index_of g))"
      "same_frame g g1" "ig_blocks g1 = ig_blocks g" "ages [tx] g g1"
    using apply_one_run [OF Cons.prems(1), of tx] Cons.prems(2) by auto
  obtain ns g2 where two: "for_collect (apply_one W) txs g1 = (Inr ns, g2)" "invar (index_of g2)"
      "watched W (index_of g2) = watched W (index_of g1)"
      "holdings W (index_of g2) =
        fold (confirm_tx (key_of g1) (watched W (index_of g1))) txs (holdings W (index_of g1))"
      "same_frame g1 g2" "ig_blocks g2 = ig_blocks g1" "ages txs g1 g2"
      "unseen txs g1 \<Longrightarrow> set (concat ns) =
         chain_alerts (key_of g1) (watched W (index_of g1)) txs (holdings W (index_of g1))"
    using Cons.IH [OF one(3)] Cons.prems(2) by auto
  have k: "key_of g1 = key_of g" using one(6) by (simp add: same_frame_def)
  have "set ms \<union> set (concat ns) =
      chain_alerts (key_of g) (watched W (index_of g)) (tx # txs) (holdings W (index_of g))
    \<and> tx_txid tx \<notin> set (se_txids (ig_seen g))" if "unseen (tx # txs) g"
    using match_alerts [OF _ _ one(1)] two(8) unseen_append [of "[tx]" txs g g1] that Cons.prems(2) one(4,5,8) k
    by (simp add: unseen_def)
  moreover have "ages (tx # txs) g g2" using ages_append [OF one(8) two(7)] by simp
  ultimately show ?case using one(2-6) two(1-7) k same_frame_trans [OF one(6) two(5)] one(7)
    by (auto simp: bind_run ret_def)
qed

lemma apply_block_run:
  assumes "invar (index_of g)" and "\<forall>tx \<in> set (blk_transactions b). wf_tx tx"
  shows "\<exists>ms g'. apply_block W b g = (Inr ms, g')
    \<and> invar (index_of g') \<and> watched W (index_of g') = watched W (index_of g)
    \<and> holdings W (index_of g') = fold (confirm_tx (key_of g) (watched W (index_of g)))
        (blk_transactions b) (holdings W (index_of g))
    \<and> same_frame g g' \<and> ig_blocks g' = ig_blocks g + 1 \<and> ages (blk_transactions b) g g'
    \<and> (unseen (blk_transactions b) g \<longrightarrow> set ms = chain_alerts (key_of g) (watched W (index_of g))
         (blk_transactions b) (holdings W (index_of g)))"
proof -
  let ?g = "g\<lparr>ig_blocks := ig_blocks g + 1\<rparr>"
  from apply_txs_run [of ?g "blk_transactions b"] assms obtain ms g' where
    "for_collect (apply_one W) (blk_transactions b) ?g = (Inr ms, g')" "invar (index_of g')"
    "watched W (index_of g') = watched W (index_of g)"
    "holdings W (index_of g') = fold (confirm_tx (key_of g) (watched W (index_of g)))
        (blk_transactions b) (holdings W (index_of g))" "same_frame ?g g'"
    "ig_blocks g' = ig_blocks g + 1" "ages (blk_transactions b) ?g g'"
    "unseen (blk_transactions b) ?g \<longrightarrow> set (concat ms) = chain_alerts (key_of g) (watched W (index_of g))
         (blk_transactions b) (holdings W (index_of g))" by auto
  then show ?thesis by (simp add: apply_block_def py_simps same_frame_def ages_def unseen_def)
qed

text \<open>The blocks the hook yields, applied in turn, each followed by the hook's own update.\<close>

lemma apply_due_run:
  assumes "invar (index_of g)" and "\<forall>(b, _) \<in> set ys. \<forall>tx \<in> set (blk_transactions b). wf_tx tx"
  shows "\<exists>ms g'. for_collect (apply_due W) ys g = (Inr ms, g')
    \<and> invar (index_of g') \<and> watched W (index_of g') = watched W (index_of g)
    \<and> holdings W (index_of g') = fold (confirm_tx (key_of g) (watched W (index_of g)))
        (concat (map (\<lambda>(b, _). blk_transactions b) ys)) (holdings W (index_of g))
    \<and> key_of g' = key_of g \<and> ig_tracker g' = ig_tracker g
    \<and> ig_catch_up_failures g' = ig_catch_up_failures g
    \<and> ig_expand g' = fold (\<lambda>(_, post). post) ys (ig_expand g)
    \<and> ig_malformed g' = ig_malformed g \<and> ig_blocks g' = ig_blocks g + int (length ys)
    \<and> (unseen (concat (map (\<lambda>(b, _). blk_transactions b) ys)) g \<longrightarrow> set (concat ms) =
         chain_alerts (key_of g) (watched W (index_of g)) (concat (map (\<lambda>(b, _). blk_transactions b) ys))
           (holdings W (index_of g)))"
  using assms
proof (induction ys arbitrary: g)
  case Nil
  then show ?case by (simp add: ret_def)
next
  case (Cons y ys)
  obtain b post where y: "y = (b, post)" by fastforce
  let ?txs = "concat (map (\<lambda>(b, _). blk_transactions b) ys)"
  obtain ms g1 where one: "apply_block W b g = (Inr ms, g1)" "invar (index_of g1)"
      "watched W (index_of g1) = watched W (index_of g)"
      "holdings W (index_of g1) = fold (confirm_tx (key_of g) (watched W (index_of g)))
        (blk_transactions b) (holdings W (index_of g))" "same_frame g g1"
      "ig_blocks g1 = ig_blocks g + 1" "ages (blk_transactions b) g g1"
      "unseen (blk_transactions b) g \<Longrightarrow> set ms = chain_alerts (key_of g) (watched W (index_of g))
         (blk_transactions b) (holdings W (index_of g))"
    using apply_block_run [OF Cons.prems(1), of b] Cons.prems(2) y by auto
  let ?g1 = "g1\<lparr>ig_expand := post (ig_expand g)\<rparr>"
  have due: "apply_due W y g = (Inr ms, ?g1)"
    using one by (simp add: y apply_due_def py_simps same_frame_def)
  obtain ns g2 where two: "for_collect (apply_due W) ys ?g1 = (Inr ns, g2)" "invar (index_of g2)"
      "watched W (index_of g2) = watched W (index_of g1)"
      "holdings W (index_of g2) = fold (confirm_tx (key_of g1) (watched W (index_of g1)))
        ?txs (holdings W (index_of g1))"
      "key_of g2 = key_of g1" "ig_tracker g2 = ig_tracker g1"
      "ig_catch_up_failures g2 = ig_catch_up_failures g1"
      "ig_expand g2 = fold (\<lambda>(_, post). post) ys (post (ig_expand g))"
      "ig_malformed g2 = ig_malformed g1" "ig_blocks g2 = ig_blocks g1 + int (length ys)"
      "unseen ?txs ?g1 \<Longrightarrow> set (concat ns) =
         chain_alerts (key_of g1) (watched W (index_of g1)) ?txs (holdings W (index_of g1))"
    using Cons.IH [of ?g1] one(2) Cons.prems(2) by auto
  have k: "key_of g1 = key_of g" using one(5) by (simp add: same_frame_def)
  have "ages (blk_transactions b) g ?g1" using one(7) by (simp add: ages_def)
  then have "set ms \<union> set (concat ns) =
      chain_alerts (key_of g) (watched W (index_of g)) (blk_transactions b @ ?txs) (holdings W (index_of g))"
    if "unseen (blk_transactions b @ ?txs) g"
    using unseen_append [OF that, of ?g1] one(3,4,8) two(11) k by simp
  with due one(1-6) two(1-10) y show ?case
    by (auto simp: bind_run ret_def same_frame_def)
qed

end

section \<open>Properties\<close>

definition ex_ingest :: "'f \<Rightarrow> (mem_index, 'f) ingest" where
  "ex_ingest f = new_ingest ex_matcher new_tracker False
     \<lparr>se_maxlen = 10, se_txids = [], se_evicted = 0\<rparr> f"

text \<open>
  A \<open>rawtx\<close> message, whatever its bytes, raises nothing and writes nothing: the index,
  the state of the follower and the sequence tracker are as before.
\<close>

theorem mempool_never_writes:
  assumes "length body < 2 ^ 32"
  shows "\<exists>ms g'. handle_tx W body g = (Inr ms, g') \<and> index_of g' = index_of g
    \<and> ig_expand g' = ig_expand g \<and> ig_tracker g' = ig_tracker g"
  using handle_tx_blind [OF assms, of W g] by (auto simp: record_side_def)

lemma mempool_never_writes_witness:
  "\<exists>ms g'. handle_tx mem_ops [255, 255] (ex_ingest ()) = (Inr ms, g') \<and> index_of g' = index_of (ex_ingest ())"
  using mempool_never_writes [of "[255, 255]" mem_ops "ex_ingest ()"] by auto

text \<open>
  C3: the record is a function of the block stream alone. Two services with the same key,
  index and follower, one fed the whole stream and the other only its block messages, end
  with the same index and the same follower, and if one raises the other raises the same
  exception: a dropped transaction costs an alert, never the record.
\<close>

theorem record_from_blocks_only:
  assumes "\<forall>msg \<in> set msgs. seq_in_range msg \<and> small msg"
    and "record_side g = record_side h"
  shows "record_side (snd (run W expand msgs g)) =
      record_side (snd (run W expand (filter (\<lambda>msg. msg_topic msg = TOPIC_BLOCK) msgs) h))
    \<and> same_outcome any (fst (run W expand msgs g))
        (fst (run W expand (filter (\<lambda>msg. msg_topic msg = TOPIC_BLOCK) msgs) h))"
  using simD [OF run_blocks_only [OF assms(1), of W expand] assms(2)] by blast

lemma record_from_blocks_only_witness:
  "record_side (snd (run mem_ops None
      [\<lparr>msg_topic = ''rawtx'', msg_body = [1, 2], msg_seq = 5\<rparr>,
       \<lparr>msg_topic = ''hashtx'', msg_body = [], msg_seq = 9\<rparr>] (ex_ingest ()))) = record_side (ex_ingest ())"
  (is "record_side (snd (run _ _ ?msgs _)) = _")
proof -
  have r: "\<forall>msg \<in> set ?msgs. seq_in_range msg \<and> small msg"
    by (simp add: seq_in_range_def small_def UINT32_def)
  have "filter (\<lambda>msg. msg_topic msg = TOPIC_BLOCK) ?msgs = []" by (simp add: TOPIC_BLOCK_def)
  with record_from_blocks_only [OF r refl, of mem_ops None "ex_ingest ()"] show ?thesis
    by (simp add: ret_def)
qed

text \<open>What confirming a transaction with these matches and this new index leaves.\<close>

definition confirmed_state :: "transaction \<Rightarrow> match list \<Rightarrow> 'ix \<Rightarrow> ('ix, 'f) ingest \<Rightarrow> ('ix, 'f) ingest" where
  "confirmed_state tx ms ix g =
     g\<lparr>ig_matcher := (ig_matcher g)\<lparr>m_index := ix, m_prov := prov_forget (tx_txid tx) (m_prov (ig_matcher g))\<rparr>,
       ig_seen := (if ms = [] then ig_seen g else snd (seen_add (tx_txid tx) (ig_seen g))),
       ig_confirmed := ig_confirmed g + 1,
       ig_suppressed := ig_suppressed g + (if ms \<noteq> [] \<and> tx_txid tx \<in> set (se_txids (ig_seen g)) then 1 else 0)\<rparr>"

lemma apply_one_exact:
  assumes "mem_ok (index_of g)" and "wf_tx tx"
  shows "\<exists>ms ix. match_tx mem_ops (ig_matcher g) tx = Inr ms
    \<and> apply_one mem_ops tx g =
        (Inr (if tx_txid tx \<in> set (se_txids (ig_seen g)) then [] else ms), confirmed_state tx ms ix g)
    \<and> mem_ok ix \<and> watched mem_ops ix = watched mem_ops (index_of g)
    \<and> holdings mem_ops ix = confirm_tx (key_of g) (watched mem_ops (index_of g)) tx (holdings mem_ops (index_of g))"
proof -
  obtain ms where ms: "match_tx mem_ops (ig_matcher g) tx = Inr ms"
    using match_tx_wf [OF assms(2), of mem_ops "ig_matcher g"] by blast
  obtain ix where ix: "apply_tx mem_ops tx (ig_matcher g) = (Inr (), (ig_matcher g)
        \<lparr>m_index := ix, m_prov := prov_forget (tx_txid tx) (m_prov (ig_matcher g))\<rparr>)"
      "mem_ok ix" "watched mem_ops ix = watched mem_ops (index_of g)"
      "holdings mem_ops ix = confirm_tx (key_of g) (watched mem_ops (index_of g)) tx (holdings mem_ops (index_of g))"
    using mem.apply_holdings [OF assms] by blast
  obtain fresh s where s: "seen_add (tx_txid tx) (ig_seen g) = (fresh, s)" by fastforce
  moreover have "fresh \<longleftrightarrow> tx_txid tx \<notin> set (se_txids (ig_seen g))"
    using seen_add_fresh [of "tx_txid tx" "ig_seen g"] s by simp
  ultimately have "apply_one mem_ops tx g =
      (Inr (if tx_txid tx \<in> set (se_txids (ig_seen g)) then [] else ms), confirmed_state tx ms ix g)"
    by (cases "ms = []"; cases fresh)
       (simp_all add: apply_one_def py_simps on_matcher_def on_seen_def ms ix confirmed_state_def)
  with ms ix show ?thesis by blast
qed

text \<open>
  C7: a confirmed transaction is folded into the record whether or not it is announced, and
  it is announced exactly when its txid was not announced before: then all its matches are
  returned, otherwise none. The record becomes the one the abstract step
  \<open>confirm_tx\<close> gives. Nothing else changes but this: the provisional coins of the transaction are
  forgotten, a transaction that matches goes into the seen-set, one is added to the confirmations, and one
  to the suppressed alerts when it matches and was seen. So a transaction that matched is in the seen-set
  afterwards, and confirming it again announces nothing.
\<close>

theorem confirmation_alerts_once:
  assumes "mem_ok (index_of g)" and "wf_tx tx"
  shows "\<exists>ms ix. match_tx mem_ops (ig_matcher g) tx = Inr ms
    \<and> apply_one mem_ops tx g = (Inr (if tx_txid tx \<in> set (se_txids (ig_seen g)) then [] else ms),
        g\<lparr>ig_matcher := (ig_matcher g)\<lparr>m_index := ix, m_prov := prov_forget (tx_txid tx) (m_prov (ig_matcher g))\<rparr>,
          ig_seen := (if ms = [] then ig_seen g else snd (seen_add (tx_txid tx) (ig_seen g))),
          ig_confirmed := ig_confirmed g + 1,
          ig_suppressed := ig_suppressed g + (if ms \<noteq> [] \<and> tx_txid tx \<in> set (se_txids (ig_seen g)) then 1 else 0)\<rparr>)
    \<and> mem_ok ix \<and> watched mem_ops ix = watched mem_ops (index_of g)
    \<and> holdings mem_ops ix = confirm_tx (key_of g) (watched mem_ops (index_of g)) tx (holdings mem_ops (index_of g))
    \<and> (ms \<noteq> [] \<and> seen_ok (ig_seen g) \<longrightarrow>
        tx_txid tx \<in> set (se_txids (ig_seen (snd (apply_one mem_ops tx g))))
        \<and> fst (apply_one mem_ops tx (snd (apply_one mem_ops tx g))) = Inr [])"
proof -
  obtain ms ix where one: "match_tx mem_ops (ig_matcher g) tx = Inr ms"
      "apply_one mem_ops tx g =
        (Inr (if tx_txid tx \<in> set (se_txids (ig_seen g)) then [] else ms), confirmed_state tx ms ix g)"
      "mem_ok ix" "watched mem_ops ix = watched mem_ops (index_of g)"
      "holdings mem_ops ix = confirm_tx (key_of g) (watched mem_ops (index_of g)) tx (holdings mem_ops (index_of g))"
    using apply_one_exact [OF assms] by blast
  have "mem_ok (index_of (confirmed_state tx ms ix g))" using one(3) by (simp add: confirmed_state_def)
  then have again: "fst (apply_one mem_ops tx (confirmed_state tx ms ix g)) = Inr []"
    if "tx_txid tx \<in> set (se_txids (ig_seen (confirmed_state tx ms ix g)))"
    using apply_one_exact [OF _ assms(2), of "confirmed_state tx ms ix g"] that by auto
  have "tx_txid tx \<in> set (se_txids (ig_seen (confirmed_state tx ms ix g)))" if "ms \<noteq> []" "seen_ok (ig_seen g)"
    using that seen_add_mem by (simp add: confirmed_state_def)
  then have "ms \<noteq> [] \<and> seen_ok (ig_seen g) \<longrightarrow>
      tx_txid tx \<in> set (se_txids (ig_seen (snd (apply_one mem_ops tx g))))
      \<and> fst (apply_one mem_ops tx (snd (apply_one mem_ops tx g))) = Inr []"
    using again one(2) by simp
  with one(1,3-5) one(2) [unfolded confirmed_state_def] show ?thesis by blast
qed

lemma confirmation_alerts_once_witness:
  "\<exists>g'. apply_one mem_ops ex_deposit (ex_ingest ()) = (Inr [\<lparr>item_id = 7, match_direction = INCOMING\<rparr>], g')
    \<and> ig_confirmed g' = 1 \<and> ig_suppressed g' = 0 \<and> se_txids (ig_seen g') = [replicate 32 1]
    \<and> fst (apply_one mem_ops ex_deposit g') = Inr []"
proof -
  let ?g = "ex_ingest ()"
  have g: "mem_ok (index_of ?g)" "seen_ok (ig_seen ?g)" "ig_matcher ?g = ex_matcher"
    by (simp_all add: ex_ingest_def new_ingest_def seen_ok_def)
  have m: "match_tx mem_ops (ig_matcher ?g) ex_deposit = Inr [\<lparr>item_id = 7, match_direction = INCOMING\<rparr>]"
    by (simp add: g(3) match_tx_def append_new_def) (simp add: ex_deposit_def append_new_def)
  show ?thesis
    using confirmation_alerts_once [OF g(1) ex_tx_wf(1)] g(2) unfolding m
    by (auto simp: ex_ingest_def new_ingest_def ex_deposit_def seen_add_def seen_evict_within)
qed

text \<open>
  The seen-set is bounded and forgets by age. Adding keeps it within its bound and free
  of repetitions; a known txid changes nothing, a new one goes to the end, and at the bound
  exactly the oldest one is dropped and counted.
\<close>

theorem seen_bounded:
  assumes "seen_ok s"
  shows "seen_ok (snd (seen_add txid s))
    \<and> (fst (seen_add txid s) \<longleftrightarrow> txid \<notin> set (se_txids s))
    \<and> txid \<in> set (se_txids (snd (seen_add txid s)))
    \<and> snd (seen_add txid s) =
        (if txid \<in> set (se_txids s) then s
         else if int (length (se_txids s)) < se_maxlen s then s\<lparr>se_txids := se_txids s @ [txid]\<rparr>
         else s\<lparr>se_txids := tl (se_txids s) @ [txid], se_evicted := se_evicted s + 1\<rparr>)"
proof -
  have "snd (seen_add txid s) =
      (if txid \<in> set (se_txids s) then s
       else if int (length (se_txids s)) < se_maxlen s then s\<lparr>se_txids := se_txids s @ [txid]\<rparr>
       else s\<lparr>se_txids := tl (se_txids s) @ [txid], se_evicted := se_evicted s + 1\<rparr>)"
  proof (cases "txid \<in> set (se_txids s)")
    case True
    then show ?thesis by (simp add: seen_add_def)
  next
    case False
    with seen_add_new [OF assms False] show ?thesis by simp
  qed
  then show ?thesis
    using seen_add_ok [OF assms, of txid] seen_add_mem [OF assms, of txid] seen_add_fresh [of txid s]
    by (intro conjI)
qed

lemma seen_bounded_witness:
  "snd (seen_add [3] \<lparr>se_maxlen = 2, se_txids = [[1], [2]], se_evicted = 0\<rparr>) =
     \<lparr>se_maxlen = 2, se_txids = [[2], [3]], se_evicted = 1\<rparr>"
proof -
  have "seen_ok \<lparr>se_maxlen = 2, se_txids = [[1], [2]], se_evicted = 0\<rparr>" by (simp add: seen_ok_def)
  from seen_bounded [OF this, of "[3]"] show ?thesis by simp
qed

end
