(* ===== verification/Json.thy ===== *)
theory Json
  imports Bytes
begin

text \<open>
  The values \<open>json.loads\<close> returns, as the answers of the node arrive in the program, and
  the conversions the program applies to them: \<open>int(...)\<close>, subscription by a string key
  and \<open>isinstance\<close>. A number with a fraction or an exponent is a binary floating point
  value, given by its mantissa and exponent; JSON as Python reads it also has the two
  infinities and NaN.
\<close>

datatype pyfloat = Finite (mantissa: int) (exponent: int) | PosInf | NegInf | NaN

datatype json =
    JNull
  | JBool bool
  | JInt int
  | JFloat pyfloat
  | JStr string
  | JList "json list"
  | JObj "(string \<times> json) list"

text \<open>Truncation towards zero of \<open>m * 2\<^sup>e\<close>.\<close>

definition truncate :: "int \<Rightarrow> int \<Rightarrow> int" where
  "truncate m e =
     (if 0 \<le> e then m * 2 ^ nat e
      else if 0 \<le> m then m div 2 ^ nat (- e) else - ((- m) div 2 ^ nat (- e)))"

definition is_digit :: "char \<Rightarrow> bool" where
  "is_digit c \<longleftrightarrow> 48 \<le> (of_char c :: nat) \<and> (of_char c :: nat) \<le> 57"

definition digit_value :: "char \<Rightarrow> int" where
  "digit_value c = of_char c - 48"

text \<open>What \<open>int(s)\<close> strips: the Latin-1 characters for which \<open>str.isspace\<close> holds.\<close>

definition is_str_space :: "char \<Rightarrow> bool" where
  "is_str_space c \<longleftrightarrow> (let n = (of_char c :: nat) in
     9 \<le> n \<and> n \<le> 13 \<or> 28 \<le> n \<and> n \<le> 32 \<or> n = 133 \<or> n = 160)"

definition py_strip :: "string \<Rightarrow> string" where
  "py_strip s = rev (dropWhile is_str_space (rev (dropWhile is_str_space s)))"

text \<open>Digits, with single underscores allowed between two of them.\<close>

fun int_digits :: "int \<Rightarrow> string \<Rightarrow> int option" where
  "int_digits acc [] = Some acc"
| "int_digits acc (c # cs) =
     (if is_digit c then int_digits (10 * acc + digit_value c) cs
      else if c = CHR ''_'' then (case cs of
        [] \<Rightarrow> None
      | d # rest \<Rightarrow> if is_digit d then int_digits (10 * acc + digit_value d) rest else None)
      else None)"

definition int_unsigned :: "string \<Rightarrow> int option" where
  "int_unsigned s = (case s of
     [] \<Rightarrow> None
   | c # cs \<Rightarrow> if is_digit c then int_digits (digit_value c) cs else None)"

definition int_of_str :: "string \<Rightarrow> int option" where
  "int_of_str s = (case py_strip s of
     [] \<Rightarrow> None
   | c # cs \<Rightarrow>
       if c = CHR ''-'' then map_option uminus (int_unsigned cs)
       else if c = CHR ''+'' then int_unsigned cs
       else int_unsigned (c # cs))"

text \<open>\<open>int(v)\<close>\<close>

fun py_int :: "json \<Rightarrow> exn + int" where
  "py_int (JInt i) = Inr i"
| "py_int (JBool b) = Inr (if b then 1 else 0)"
| "py_int (JFloat (Finite m e)) = Inr (truncate m e)"
| "py_int (JFloat NaN) = Inl (ValueError ''cannot convert float NaN to integer'')"
| "py_int (JFloat _) = Inl OverflowError"
| "py_int (JStr s) = (case int_of_str s of
     Some i \<Rightarrow> Inr i
   | None \<Rightarrow> Inl (ValueError ''invalid literal for int() with base 10''))"
| "py_int _ = Inl TypeError"

text \<open>\<open>v[key]\<close> with a string key, for a value known to be a \<open>dict\<close>, and for any value.\<close>

fun py_item :: "json \<Rightarrow> string \<Rightarrow> exn + json" where
  "py_item (JObj fields) key = (case map_of fields key of Some v \<Rightarrow> Inr v | None \<Rightarrow> Inl KeyError)"
| "py_item _ key = Inl TypeError"

fun is_dict :: "json \<Rightarrow> bool" where
  "is_dict (JObj _) = True"
| "is_dict _ = False"

text \<open>The truth value of a JSON value.\<close>

fun truthy :: "json \<Rightarrow> bool" where
  "truthy JNull = False"
| "truthy (JBool b) = b"
| "truthy (JInt i) = (i \<noteq> 0)"
| "truthy (JFloat (Finite m e)) = (m \<noteq> 0)"
| "truthy (JFloat _) = True"
| "truthy (JStr s) = (s \<noteq> [])"
| "truthy (JList xs) = (xs \<noteq> [])"
| "truthy (JObj fields) = (fields \<noteq> [])"

lemma py_int_examples:
  "py_int (JStr '' -1_0 '') = Inr (- 10)" "py_int (JFloat (Finite (- 7) (- 1))) = Inr (- 3)"
  "py_int (JStr ''1__0'') = Inl (ValueError ''invalid literal for int() with base 10'')"
  by code_simp+

lemma py_item_raises: "py_item v key = Inl e \<Longrightarrow> e = KeyError \<or> e = TypeError"
  by (cases v) (auto split: option.splits)

end
