(* ===== verification/Utf8.thy ===== *)
theory Utf8
  imports Bytes
begin

text \<open>
  \<open>str.encode()\<close> and \<open>bytes.decode()\<close> in UTF-8, strict, as the store and the payload
  encryption use them. A text is a list of code points. The lemmas show that encoding a
  text without surrogates never fails and decodes back to it.
\<close>

type_synonym py_str = "nat list"

text \<open>A literal of the source, as a text.\<close>

definition lit :: "string \<Rightarrow> py_str" where
  "lit s = map of_char s"

definition is_surrogate :: "nat \<Rightarrow> bool" where
  "is_surrogate n \<longleftrightarrow> 55296 \<le> n \<and> n \<le> 57343"

definition nbyte :: "nat \<Rightarrow> byte" where
  "nbyte n = word_of_nat n"

definition utf8_char :: "nat \<Rightarrow> bytes" where
  "utf8_char n =
     (if n < 128 then [nbyte n]
      else if n < 2048 then [nbyte (192 + n div 64), nbyte (128 + n mod 64)]
      else if n < 65536
      then [nbyte (224 + n div 4096), nbyte (128 + n div 64 mod 64), nbyte (128 + n mod 64)]
      else [nbyte (240 + n div 262144), nbyte (128 + n div 4096 mod 64),
            nbyte (128 + n div 64 mod 64), nbyte (128 + n mod 64)])"

definition utf8_encode :: "py_str \<Rightarrow> exn + bytes" where
  "utf8_encode s = (if \<exists>n \<in> set s. is_surrogate n then Inl UnicodeEncodeError
                    else Inr (concat (map utf8_char s)))"

definition is_cont :: "byte \<Rightarrow> bool" where
  "is_cont b \<longleftrightarrow> 128 \<le> unat b \<and> unat b < 192"

definition cont_value :: "byte \<Rightarrow> nat" where
  "cont_value b = unat b - 128"

fun utf8_decode :: "bytes \<Rightarrow> exn + py_str" where
  "utf8_decode [] = Inr []"
| "utf8_decode (b # bs) =
     (let n = unat b in
      if n < 128 then rbind (utf8_decode bs) (\<lambda>s. Inr (n # s))
      else if 194 \<le> n \<and> n < 224 then
        (case bs of
           c # rest \<Rightarrow>
             if is_cont c
             then rbind (utf8_decode rest) (\<lambda>s. Inr (((n - 192) * 64 + cont_value c) # s))
             else Inl UnicodeDecodeError
         | _ \<Rightarrow> Inl UnicodeDecodeError)
      else if 224 \<le> n \<and> n < 240 then
        (case bs of
           c # d # rest \<Rightarrow>
             (let v = (n - 224) * 4096 + cont_value c * 64 + cont_value d in
              if is_cont c \<and> is_cont d \<and> 2048 \<le> v \<and> \<not> is_surrogate v
              then rbind (utf8_decode rest) (\<lambda>s. Inr (v # s))
              else Inl UnicodeDecodeError)
         | _ \<Rightarrow> Inl UnicodeDecodeError)
      else if 240 \<le> n \<and> n < 245 then
        (case bs of
           c # d # e # rest \<Rightarrow>
             (let v = (n - 240) * 262144 + cont_value c * 4096 + cont_value d * 64 + cont_value e in
              if is_cont c \<and> is_cont d \<and> is_cont e \<and> 65536 \<le> v \<and> v < 1114112
              then rbind (utf8_decode rest) (\<lambda>s. Inr (v # s))
              else Inl UnicodeDecodeError)
         | _ \<Rightarrow> Inl UnicodeDecodeError)
      else Inl UnicodeDecodeError)"

text \<open>The code points a Python string can hold and encode.\<close>

definition is_scalar :: "nat \<Rightarrow> bool" where
  "is_scalar n \<longleftrightarrow> n < 1114112 \<and> \<not> is_surrogate n"

definition is_text :: "py_str \<Rightarrow> bool" where
  "is_text s \<longleftrightarrow> (\<forall>n \<in> set s. is_scalar n)"

lemma is_text_simps [simp]:
  "is_text []" "is_text (c # s) \<longleftrightarrow> is_scalar c \<and> is_text s" "is_text (s @ t) \<longleftrightarrow> is_text s \<and> is_text t"
  by (auto simp: is_text_def)

lemma is_text_lit [simp]: "is_text (lit s)"
proof -
  have "of_char c < (256 :: nat)" for c by simp
  moreover have "is_scalar n" if "n < 256" for n using that by (simp add: is_scalar_def is_surrogate_def)
  ultimately have "is_scalar (of_char c)" for c by blast
  then show ?thesis by (simp add: is_text_def lit_def)
qed

lemma unat_nbyte [simp]: "unat (nbyte n) = n mod 256"
  by (simp add: nbyte_def unat_of_nat)

lemma cont_byte [simp]:
  "is_cont (nbyte (128 + m mod 64))" "cont_value (nbyte (128 + m mod 64)) = m mod 64"
proof -
  have "m mod 64 < 64" by simp
  then have "(128 + m mod 64) mod 256 = 128 + m mod 64" by simp
  then show "is_cont (nbyte (128 + m mod 64))" "cont_value (nbyte (128 + m mod 64)) = m mod 64"
    by (simp_all add: is_cont_def cont_value_def)
qed

lemma digits64:
  fixes n :: nat
  shows "n div 64 * 64 + n mod 64 = n"
    and "n div 4096 * 4096 + n div 64 mod 64 * 64 + n mod 64 = n"
    and "n div 262144 * 262144 + n div 4096 mod 64 * 4096 + n div 64 mod 64 * 64 + n mod 64 = n"
proof -
  have a: "n div 64 div 64 = n div 4096" "n div 4096 div 64 = n div 262144"
    by (simp_all add: div_mult2_eq [symmetric])
  have b: "n div 64 * 64 + n mod 64 = n" "n div 4096 * 64 + n div 64 mod 64 = n div 64"
    "n div 262144 * 64 + n div 4096 mod 64 = n div 4096"
    using div_mult_mod_eq [of n 64] div_mult_mod_eq [of "n div 64" 64] div_mult_mod_eq [of "n div 4096" 64]
    by (simp_all add: a)
  then show "n div 64 * 64 + n mod 64 = n"
    "n div 4096 * 4096 + n div 64 mod 64 * 64 + n mod 64 = n"
    "n div 262144 * 262144 + n div 4096 mod 64 * 4096 + n div 64 mod 64 * 64 + n mod 64 = n"
    by linarith+
qed

lemma utf8_decode_char:
  assumes "is_scalar n"
  shows "utf8_decode (utf8_char n @ bs) = rbind (utf8_decode bs) (\<lambda>s. Inr (n # s))"
proof -
  consider "n < 128" | "128 \<le> n" "n < 2048" | "2048 \<le> n" "n < 65536" | "65536 \<le> n" "n < 1114112"
    using assms unfolding is_scalar_def by linarith
  then show ?thesis
  proof cases
    case 1
    then show ?thesis by (simp add: utf8_char_def Let_def)
  next
    case 2
    define q where "q = n div 64"
    have "q < 32" "2 \<le> q" using 2 by (simp_all add: q_def less_mult_imp_div_less)
    then show ?thesis using 2 digits64(1) [of n]
      by (simp add: utf8_char_def Let_def q_def [symmetric])
  next
    case 3
    then have "n div 4096 < 16" by (simp add: less_mult_imp_div_less)
    then show ?thesis using 3 digits64(2) [of n] assms by (simp add: utf8_char_def Let_def is_scalar_def)
  next
    case 4
    then have "n div 262144 < 5" by (simp add: less_mult_imp_div_less)
    then show ?thesis using 4 digits64(3) [of n] by (simp add: utf8_char_def Let_def)
  qed
qed

lemma utf8_roundtrip:
  assumes "is_text s"
  shows "\<exists>b. utf8_encode s = Inr b \<and> utf8_decode b = Inr s"
proof -
  have "utf8_decode (concat (map utf8_char s)) = Inr s" if "\<forall>n \<in> set s. is_scalar n"
    using that by (induction s) (simp_all add: utf8_decode_char)
  with assms show ?thesis by (auto simp: utf8_encode_def is_text_def is_scalar_def)
qed

lemma utf8_encode_length: "utf8_encode s = Inr b \<Longrightarrow> length s \<le> length b \<and> length b \<le> 4 * length s"
proof -
  have "1 \<le> length (utf8_char n) \<and> length (utf8_char n) \<le> 4" for n
    by (simp add: utf8_char_def)
  then have "length s \<le> length (concat (map utf8_char s)) \<and> length (concat (map utf8_char s)) \<le> 4 * length s"
  proof (induction s)
    case (Cons n s)
    from Cons.IH [OF Cons.prems] Cons.prems [of n] show ?case by simp
  qed simp
  then show "utf8_encode s = Inr b \<Longrightarrow> length s \<le> length b \<and> length b \<le> 4 * length s"
    by (auto simp: utf8_encode_def split: if_splits)
qed

lemma utf8_inject:
  assumes "is_text s" and "is_text t" and "utf8_encode s = Inr b" and "utf8_encode t = Inr b"
  shows "s = t"
  using utf8_roundtrip [OF assms(1)] utf8_roundtrip [OF assms(2)] assms(3,4) by auto

lemma lit_inject [simp]: "lit s = lit t \<longleftrightarrow> s = t"
  by (simp add: lit_def inj_map_eq_map inj_def)

end
