(* ===== verification/Base64.thy ===== *)
theory Base64
  imports Utf8
begin

text \<open>
  \<open>base64.b64encode\<close> and \<open>base64.b64decode(..., validate=True)\<close> of the standard library, as
  the payload encryption and the RPC client use them, as Python 3.11 has them. Validation accepts
  whole quadruples of alphabet characters, the last of which may end in one or two pad characters; the
  bits a pad leaves unused are not checked. Behind whole quadruples any number of pad
  characters is accepted, behind a padded one none; a text does not begin with one. A text that is not
  ASCII is a \<open>ValueError\<close>, every other rejection a \<open>binascii.Error\<close>, which is a \<open>ValueError\<close> too.
\<close>

definition b64_char :: "nat \<Rightarrow> nat" where
  "b64_char n =
     (if n < 26 then n + 65 else if n < 52 then n + 71 else if n < 62 then n - 4
      else if n = 62 then 43 else 47)"

definition b64_value :: "nat \<Rightarrow> nat option" where
  "b64_value c =
     (if 65 \<le> c \<and> c \<le> 90 then Some (c - 65) else if 97 \<le> c \<and> c \<le> 122 then Some (c - 71)
      else if 48 \<le> c \<and> c \<le> 57 then Some (c + 4) else if c = 43 then Some 62
      else if c = 47 then Some 63 else None)"

definition PAD :: nat where "PAD = 61"

fun b64encode :: "bytes \<Rightarrow> py_str" where
  "b64encode [] = []"
| "b64encode [a] = (let x = unat a in [b64_char (x div 4), b64_char (x mod 4 * 16), PAD, PAD])"
| "b64encode [a, b] = (let x = unat a; y = unat b in
     [b64_char (x div 4), b64_char (x mod 4 * 16 + y div 16), b64_char (y mod 16 * 4), PAD])"
| "b64encode (a # b # c # rest) = (let x = unat a; y = unat b; z = unat c in
     [b64_char (x div 4), b64_char (x mod 4 * 16 + y div 16), b64_char (y mod 16 * 4 + z div 64),
      b64_char (z mod 64)] @ b64encode rest)"

definition binascii_error :: exn where
  "binascii_error = ValueError ''binascii.Error''"

text \<open>The pad characters behind whole quadruples.\<close>

definition only_pads :: "py_str \<Rightarrow> exn + bytes" where
  "only_pads s = (if \<forall>c \<in> set s. c = PAD then Inr [] else Inl binascii_error)"

fun b64_quads :: "py_str \<Rightarrow> exn + bytes" where
  "b64_quads (p # q # r # s # rest) =
     (if p = PAD then only_pads (q # r # s # rest)
      else case (b64_value p, b64_value q) of
        (Some x, Some y) \<Rightarrow>
          let first = nbyte (x * 4 + y div 16) in
          if r = PAD then if s = PAD \<and> rest = [] then Inr [first] else Inl binascii_error
          else (case b64_value r of
              None \<Rightarrow> Inl binascii_error
            | Some z \<Rightarrow>
                let second = nbyte (y mod 16 * 16 + z div 4) in
                if s = PAD then if rest = [] then Inr [first, second] else Inl binascii_error
                else (case b64_value s of
                    None \<Rightarrow> Inl binascii_error
                  | Some w \<Rightarrow> rbind (b64_quads rest) (\<lambda>bs.
                      Inr (first # second # nbyte (z mod 4 * 64 + w) # bs))))
      | _ \<Rightarrow> Inl binascii_error)"
| "b64_quads s = only_pads s"

definition b64decode :: "py_str \<Rightarrow> exn + bytes" where
  "b64decode s =
     (if \<exists>c \<in> set s. 128 \<le> c then Inl (ValueError ''string argument should contain only ASCII characters'')
      else if s \<noteq> [] \<and> hd s = PAD then Inl binascii_error
      else b64_quads s)"

section \<open>Lemmas\<close>

lemma b64_table: "\<forall>n \<in> set [0..<64]. b64_value (b64_char n) = Some n \<and> b64_char n \<noteq> PAD \<and> b64_char n < 128"
  by code_simp

lemma b64_char_ok [simp]:
  "n < 64 \<Longrightarrow> b64_value (b64_char n) = Some n" "n < 64 \<Longrightarrow> b64_char n \<noteq> PAD" "n < 64 \<Longrightarrow> b64_char n < 128"
  using b64_table by auto

lemma nbyte_unat [simp]: "nbyte (unat b) = b"
  by (simp add: nbyte_def)

lemma sextets:
  fixes x y z :: nat
  assumes "x < 256" and "y < 256" and "z < 256"
  shows "x div 4 < 64" "x mod 4 * 16 < 64" "x mod 4 * 16 + y div 16 < 64" "y mod 16 * 4 < 64"
    "y mod 16 * 4 + z div 64 < 64" "z mod 64 < 64"
    "x div 4 * 4 + (x mod 4 * 16 + y div 16) div 16 = x"
    "(x mod 4 * 16 + y div 16) mod 16 * 16 + (y mod 16 * 4 + z div 64) div 4 = y"
    "(y mod 16 * 4 + z div 64) mod 4 * 64 + z mod 64 = z"
proof -
  have d: "y div 16 < 16" "z div 64 < 4" "x div 4 < 64" using assms by simp_all
  have m: "x mod 4 < 4" "y mod 16 < 16" "z mod 64 < 64" by simp_all
  show "x div 4 < 64" "x mod 4 * 16 < 64" "x mod 4 * 16 + y div 16 < 64" "y mod 16 * 4 < 64"
    "y mod 16 * 4 + z div 64 < 64" "z mod 64 < 64" using d m by linarith+
  show "x div 4 * 4 + (x mod 4 * 16 + y div 16) div 16 = x" using d by simp
  show "(x mod 4 * 16 + y div 16) mod 16 * 16 + (y mod 16 * 4 + z div 64) div 4 = y" using d by simp
  show "(y mod 16 * 4 + z div 64) mod 4 * 64 + z mod 64 = z" using d by simp
qed

lemma b64_quads_roundtrip: "b64_quads (b64encode bs) = Inr bs"
proof (induction bs rule: b64encode.induct)
  case (2 a)
  note s = sextets [OF unat_byte_less [of a] zero_less_numeral zero_less_numeral]
  show ?case using s by (simp add: Let_def)
next
  case (3 a b)
  note s = sextets [OF unat_byte_less [of a] unat_byte_less [of b] zero_less_numeral]
  show ?case using s by (simp add: Let_def)
next
  case (4 a b c rest)
  note s = sextets [OF unat_byte_less [of a] unat_byte_less [of b] unat_byte_less [of c]]
  show ?case using s 4 by (simp add: Let_def)
qed (simp add: only_pads_def)

lemma length_b64encode: "length (b64encode bs) = 4 * ((length bs + 2) div 3)"
proof (induction bs rule: b64encode.induct)
  case (4 a b c rest)
  have "(5 + length rest) div 3 = Suc ((2 + length rest) div 3)" by arith
  with 4 show ?case by (simp add: Let_def)
qed (simp_all add: Let_def)

lemma b64encode_ascii: "c \<in> set (b64encode bs) \<Longrightarrow> c < 128"
proof (induction bs rule: b64encode.induct)
  case (2 a)
  then show ?case using sextets [OF unat_byte_less [of a] zero_less_numeral zero_less_numeral]
    by (auto simp: Let_def PAD_def)
next
  case (3 a b)
  then show ?case using sextets [OF unat_byte_less [of a] unat_byte_less [of b] zero_less_numeral]
    by (auto simp: Let_def PAD_def)
next
  case (4 a b c rest)
  then show ?case using sextets [OF unat_byte_less [of a] unat_byte_less [of b] unat_byte_less [of c]]
    by (auto simp: Let_def)
qed simp

lemma b64encode_head: "b64encode bs \<noteq> [] \<Longrightarrow> hd (b64encode bs) \<noteq> PAD"
proof (induction bs rule: b64encode.induct)
  case (2 a)
  then show ?case using sextets(1) [OF unat_byte_less [of a] zero_less_numeral zero_less_numeral] by (simp add: Let_def)
next
  case (3 a b)
  then show ?case using sextets(1) [OF unat_byte_less [of a] zero_less_numeral zero_less_numeral] by (simp add: Let_def)
next
  case (4 a b c rest)
  then show ?case using sextets(1) [OF unat_byte_less [of a] zero_less_numeral zero_less_numeral] by (simp add: Let_def)
qed simp

lemma b64_roundtrip [simp]: "b64decode (b64encode bs) = Inr bs"
  using b64encode_ascii [of _ bs] b64encode_head [of bs] b64_quads_roundtrip [of bs]
  by (fastforce simp: b64decode_def)

lemma b64_quads_raises: "b64_quads s = Inl e \<Longrightarrow> e = binascii_error"
  by (induction s arbitrary: e rule: b64_quads.induct)
     (auto simp: Let_def rbind_Inl_iff only_pads_def split: option.splits if_splits)

lemma b64decode_raises: "b64decode s = Inl e \<Longrightarrow> \<exists>t. e = ValueError t"
  using b64_quads_raises [of s e] by (auto simp: b64decode_def binascii_error_def split: if_splits)

text \<open>Excess pads pass behind whole quadruples only.\<close>

lemma b64decode_pads:
  "b64decode (map of_char ''ABCD='') = Inr [0x00, 0x10, 0x83]"
  "b64decode (map of_char ''ABCD===='') = Inr [0x00, 0x10, 0x83]"
  "b64decode (map of_char ''ABC=='') = Inl binascii_error"
  "b64decode (map of_char ''====='') = Inl binascii_error"
  "b64decode (map of_char ''ABCD=A'') = Inl binascii_error"
  by code_simp+

end
