(* ===== verification/Rpc.thy ===== *)
theory Rpc
  imports Json Base64
begin

text \<open>
  \<open>node/rpc.py\<close>: the JSON-RPC client and where its credentials come from. The network is a
  parameter: a function from the request to what the exchange gave, which is nothing (the
  type of the exception \<open>http.client\<close> raised), bytes that are not JSON, or a JSON value. The
  environment and the files are a record of functions. A port is read from Latin-1 text;
  digits beyond it, which Python's \<open>int\<close> also reads, are taken as no number.
\<close>

type_synonym 'n rpc = "string \<Rightarrow> json list \<Rightarrow> ('n, json) py"

section \<open>Credentials\<close>

datatype file_read = Contents py_str | OsError py_str | NotUtf8 bytes

text \<open>
  What reading a file as text gave: its text, what the operating system said, or the bytes that are
  no text, which \<open>UnicodeDecodeError\<close> carries. \<open>exists\<close> and \<open>read_text\<close> are of a path; \<open>Path(d) / n\<close> is the path \<open>d\<close>, a slash, \<open>n\<close>.\<close>

record world =
  environ :: "string \<Rightarrow> py_str option"
  path_exists :: "py_str \<Rightarrow> bool"
  read_text :: "py_str \<Rightarrow> file_read"

definition env_set :: "world \<Rightarrow> string \<Rightarrow> py_str option" where
  "env_set w name = (case environ w name of Some v \<Rightarrow> if v = [] then None else Some v | None \<Rightarrow> None)"

definition path_under :: "py_str \<Rightarrow> string \<Rightarrow> py_str" where
  "path_under dir name = dir @ lit ''/'' @ lit name"

text \<open>\<open>s.rstrip("\r\n")\<close>\<close>

definition rstrip_newlines :: "py_str \<Rightarrow> py_str" where
  "rstrip_newlines s = rev (dropWhile (\<lambda>c. c = 13 \<or> c = 10) (rev s))"

text \<open>
  The program has one copy of these two functions for each credential, which differ in the
  exception, the names and nothing else.
\<close>

definition read_secret_as :: "(string \<Rightarrow> py_str \<Rightarrow> exn) \<Rightarrow> world \<Rightarrow> py_str \<Rightarrow> exn + py_str" where
  "read_secret_as fail w path =
     (case read_text w path of
        OsError strerror \<Rightarrow> Inl (fail ''could not read'' (path @ lit '': '' @ strerror))
      | NotUtf8 contents \<Rightarrow> Inl (UndecodableFile contents)
      | Contents text \<Rightarrow>
          let secret = rstrip_newlines text
          in if secret = [] then Inl (fail ''is empty'' path) else Inr secret)"

definition read_credential_as ::
  "(string \<Rightarrow> py_str \<Rightarrow> exn) \<Rightarrow> string \<Rightarrow> string \<Rightarrow> string \<Rightarrow> string \<Rightarrow> world \<Rightarrow> exn + py_str" where
  "read_credential_as fail credentials_env credential_name file_env env_name w =
     (let from_variables =
        (case env_set w file_env of
           Some file \<Rightarrow> read_secret_as fail w file
         | None \<Rightarrow> (case env_set w env_name of
             Some value \<Rightarrow> Inr value
           | None \<Rightarrow> Inl (fail ''no credential found'' (lit file_env @ lit '' or '' @ lit env_name))))
      in case env_set w credentials_env of
           Some dir \<Rightarrow>
             if path_exists w (path_under dir credential_name)
             then read_secret_as fail w (path_under dir credential_name)
             else from_variables
         | None \<Rightarrow> from_variables)"

definition ENV_HOST :: string where "ENV_HOST = ''COLDWATCH_RPC_HOST''"
definition ENV_PORT :: string where "ENV_PORT = ''COLDWATCH_RPC_PORT''"
definition ENV_USER :: string where "ENV_USER = ''COLDWATCH_RPC_USER''"
definition ENV_PASSWORD :: string where "ENV_PASSWORD = ''COLDWATCH_RPC_PASSWORD''"
definition ENV_PASSWORD_FILE :: string where "ENV_PASSWORD_FILE = ''COLDWATCH_RPC_PASSWORD_FILE''"
definition ENV_SYSTEMD_CREDENTIALS :: string where "ENV_SYSTEMD_CREDENTIALS = ''CREDENTIALS_DIRECTORY''"
definition RPC_CREDENTIAL_NAME :: string where "RPC_CREDENTIAL_NAME = ''rpc-password''"

definition rpc_read_secret :: "world \<Rightarrow> py_str \<Rightarrow> exn + py_str" where
  "rpc_read_secret = read_secret_as MissingCredentials"

definition rpc_read_password :: "world \<Rightarrow> exn + py_str" where
  "rpc_read_password =
     read_credential_as MissingCredentials ENV_SYSTEMD_CREDENTIALS RPC_CREDENTIAL_NAME
       ENV_PASSWORD_FILE ENV_PASSWORD"

text \<open>\<open>int(s)\<close> for a text.\<close>

definition int_of_text :: "py_str \<Rightarrow> exn + int" where
  "int_of_text s =
     (if \<forall>c \<in> set s. c < 256 then py_int (JStr (map char_of s))
      else Inl (ValueError ''invalid literal for int() with base 10''))"

section \<open>The client\<close>

record client =
  cl_host :: py_str
  cl_port :: int
  cl_auth :: py_str
  cl_next_id :: int

definition new_rpc :: "py_str \<Rightarrow> int \<Rightarrow> py_str \<Rightarrow> py_str \<Rightarrow> exn + client" where
  "new_rpc host port user password =
     rbind (utf8_encode (user @ lit '':'' @ password)) (\<lambda>b.
     Inr \<lparr>cl_host = host, cl_port = port, cl_auth = b64encode b, cl_next_id = 1\<rparr>)"

definition env_or :: "world \<Rightarrow> string \<Rightarrow> py_str \<Rightarrow> py_str" where
  "env_or w name dflt = (case environ w name of Some v \<Rightarrow> v | None \<Rightarrow> dflt)"

definition rpc_from_env :: "world \<Rightarrow> exn + client" where
  "rpc_from_env w =
     (case env_set w ENV_USER of
        None \<Rightarrow> Inl (MissingCredentials ''is not set'' (lit ENV_USER))
      | Some user \<Rightarrow>
          rbind (rpc_read_password w) (\<lambda>password.
          rbind (int_of_text (env_or w ENV_PORT (lit ''8332''))) (\<lambda>port.
          new_rpc (env_or w ENV_HOST (lit ''127.0.0.1'')) port user password)))"

record http_request =
  hr_host :: py_str
  hr_port :: int
  hr_authorization :: py_str
  hr_body :: json

datatype reply = NoAnswer string | NotJson | Answer json

text \<open>\<open>payload.get(key)\<close> for an object, None as the JSON null it stands for.\<close>

fun json_get :: "json \<Rightarrow> string \<Rightarrow> json \<Rightarrow> json" where
  "json_get (JObj members) key dflt = (case map_of members key of Some v \<Rightarrow> v | None \<Rightarrow> dflt)"
| "json_get _ key dflt = dflt"

fun json_has :: "json \<Rightarrow> string \<Rightarrow> bool" where
  "json_has (JObj members) key \<longleftrightarrow> map_of members key \<noteq> None"
| "json_has _ key \<longleftrightarrow> False"

text \<open>
  What a reply comes to. The message of an \<open>RpcError\<close> is left out: the program never puts it
  into a string. \<open>int\<close> of the code is outside every \<open>try\<close>, and so is its exception.
\<close>

definition decode_reply :: "string \<Rightarrow> reply \<Rightarrow> exn + json" where
  "decode_reply meth rep =
     (case rep of
        NoAnswer t \<Rightarrow> Inl (RpcTransportError (meth @ '': '' @ t))
      | NotJson \<Rightarrow> Inl (RpcTransportError (meth @ '': response was not JSON''))
      | Answer payload \<Rightarrow>
          if \<not> is_dict payload
          then Inl (RpcTransportError (meth @ '': response was not a JSON-RPC object''))
          else let error = json_get payload ''error'' JNull in
            if error \<noteq> JNull then
              if is_dict error
              then rbind (py_int (json_get error ''code'' (JInt (- 1)))) (\<lambda>code. Inl (RpcError code))
              else Inl (RpcTransportError (meth @ '': malformed error object''))
            else if \<not> json_has payload ''result''
            then Inl (RpcTransportError (meth @ '': response had neither result nor error''))
            else Inr (json_get payload ''result'' JNull))"

record 'n connection =
  co_client :: client
  co_net :: 'n

definition rpc_request :: "client \<Rightarrow> string \<Rightarrow> json list \<Rightarrow> http_request" where
  "rpc_request c meth params =
     \<lparr>hr_host = cl_host c, hr_port = cl_port c, hr_authorization = lit ''Basic '' @ cl_auth c,
      hr_body = JObj [(''jsonrpc'', JStr ''1.0''), (''id'', JInt (cl_next_id c)), (''method'', JStr meth),
                      (''params'', JList params)]\<rparr>"

definition rpc_call_method :: "(http_request \<Rightarrow> 'n \<Rightarrow> reply \<times> 'n) \<Rightarrow> ('n connection) rpc" where
  "rpc_call_method post meth params = (\<lambda>s.
     let (rep, n) = post (rpc_request (co_client s) meth params) (co_net s)
     in (decode_reply meth rep,
         \<lparr>co_client = (co_client s)\<lparr>cl_next_id := cl_next_id (co_client s) + 1\<rparr>, co_net = n\<rparr>))"

definition rpc_repr :: "client \<Rightarrow> py_str \<times> int" where
  "rpc_repr c = (cl_host c, cl_port c)"

section \<open>Properties\<close>

text \<open>
  A call returns a value exactly when the node answered an object without an error and
  with that result; the exception is the node's error code, a transport error, or, when the
  node's error code is not a number, whatever \<open>int\<close> makes of it.
\<close>

theorem rpc_outcome:
  "(decode_reply meth rep = Inr v \<longleftrightarrow>
     (\<exists>members. rep = Answer (JObj members) \<and> map_of members ''error'' \<in> {None, Some JNull}
       \<and> map_of members ''result'' = Some v))
   \<and> (\<forall>e. decode_reply meth rep = Inl e \<longrightarrow>
       (\<exists>t. e = RpcTransportError t) \<or> (\<exists>code. e = RpcError code) \<or>
       (\<exists>payload. rep = Answer payload
          \<and> py_int (json_get (json_get payload ''error'' JNull) ''code'' (JInt (- 1))) = Inl e))"
proof (cases rep)
  case (Answer payload)
  then show ?thesis
  proof (cases payload)
    case (JObj members)
    then show ?thesis using Answer
      by (cases "map_of members ''error''"; cases "map_of members ''result''")
         (auto simp: decode_reply_def Let_def rbind_Inl_iff rbind_Inr_iff)
  qed (simp_all add: decode_reply_def)
qed (simp_all add: decode_reply_def)

text \<open>An error object whose code is null: the call raises \<open>TypeError\<close>.\<close>

lemma null_code_escapes:
  "decode_reply ''getblock'' (Answer (JObj [(''error'', JObj [(''code'', JNull)])])) = Inl TypeError"
  by (simp add: decode_reply_def)

text \<open>Two worlds that differ in nothing but the secrets.\<close>

text \<open>
  A file that is text in one is text in the other, blank or not in both; one that is no text has any
  bytes; what the operating system says is the same.
\<close>

fun same_file :: "file_read \<Rightarrow> file_read \<Rightarrow> bool" where
  "same_file (Contents t) (Contents u) = (rstrip_newlines t = [] \<longleftrightarrow> rstrip_newlines u = [])"
| "same_file (OsError t) (OsError u) = (t = u)"
| "same_file (NotUtf8 _) (NotUtf8 _) = True"
| "same_file _ _ = False"

definition same_but_secrets :: "world \<Rightarrow> world \<Rightarrow> bool" where
  "same_but_secrets w v \<longleftrightarrow>
     (\<forall>name. name \<noteq> ENV_PASSWORD \<longrightarrow> environ w name = environ v name)
     \<and> (env_set w ENV_PASSWORD = None \<longleftrightarrow> env_set v ENV_PASSWORD = None)
     \<and> path_exists w = path_exists v
     \<and> (\<forall>p. same_file (read_text w p) (read_text v p))"

text \<open>The same exception, or each the exception of a file that is no text, with its own bytes.\<close>

definition same_but_bytes :: "world \<Rightarrow> world \<Rightarrow> exn \<Rightarrow> exn \<Rightarrow> bool" where
  "same_but_bytes w v e e' \<longleftrightarrow> e' = e
     \<or> (\<exists>p b c. read_text w p = NotUtf8 b \<and> read_text v p = NotUtf8 c \<and> e = UndecodableFile b \<and> e' = UndecodableFile c)"

lemma read_secret_same:
  assumes "same_but_secrets w v" and "read_secret_as f w p = Inl e"
  shows "\<exists>e'. read_secret_as f v p = Inl e' \<and> same_but_bytes w v e e'"
proof -
  have f: "same_file (read_text w p) (read_text v p)" using assms(1) by (simp add: same_but_secrets_def)
  show ?thesis
  proof (cases "read_text w p")
    case (Contents t)
    with f show ?thesis using assms(2)
      by (cases "read_text v p") (auto simp: read_secret_as_def same_but_bytes_def Let_def split: if_splits)
  next
    case (OsError t)
    with f show ?thesis using assms(2)
      by (cases "read_text v p") (auto simp: read_secret_as_def same_but_bytes_def)
  next
    case (NotUtf8 b)
    with f obtain c where "read_text v p = NotUtf8 c" by (cases "read_text v p") auto
    with NotUtf8 show ?thesis using assms(2) by (auto simp: read_secret_as_def same_but_bytes_def)
  qed
qed

text \<open>
  A file that is not UTF-8 is the way out: only \<open>OSError\<close> is caught, and the exception that leaves
  carries the contents of the file.
\<close>

lemma undecodable_secret_escapes:
  "read_text w p = NotUtf8 contents \<Longrightarrow> rpc_read_secret w p = Inl (UndecodableFile contents)"
  by (simp add: rpc_read_secret_def read_secret_as_def)

text \<open>
  C40: a credential is never in an exception, unless its file is no text. When reading the password
  fails in one world, it fails in every other that differs in the contents of the files and the value of
  the password variable and is blank, unreadable and undecodable in the same places; the exception is
  the same, names of variables, paths and what the operating system said, except where it is the
  \<open>UnicodeDecodeError\<close> of the credential file, which carries the bytes of the file.
\<close>

theorem password_errors_leak_nothing:
  assumes "same_but_secrets w v" and "rpc_read_password w = Inl e"
  shows "\<exists>e'. rpc_read_password v = Inl e' \<and> (e' = e
    \<or> (\<exists>p b c. read_text w p = NotUtf8 b \<and> read_text v p = NotUtf8 c \<and> e = UndecodableFile b \<and> e' = UndecodableFile c))"
proof -
  have env: "env_set v name = env_set w name" if "name \<noteq> ENV_PASSWORD" for name
    using assms(1) that by (simp add: same_but_secrets_def env_set_def)
  have pw: "env_set w ENV_PASSWORD = None \<longleftrightarrow> env_set v ENV_PASSWORD = None"
    and ex: "path_exists v = path_exists w" using assms(1) by (simp_all add: same_but_secrets_def)
  have n: "ENV_SYSTEMD_CREDENTIALS \<noteq> ENV_PASSWORD" "ENV_PASSWORD_FILE \<noteq> ENV_PASSWORD"
    by (simp_all add: ENV_SYSTEMD_CREDENTIALS_def ENV_PASSWORD_def ENV_PASSWORD_FILE_def)
  have same: "same_but_bytes w v d d" for d by (simp add: same_but_bytes_def)
  have "\<exists>e'. rpc_read_password v = Inl e' \<and> same_but_bytes w v e e'" using assms(2) pw
    by (auto simp: rpc_read_password_def read_credential_as_def Let_def env [OF n(1)] env [OF n(2)] ex same
        intro: read_secret_same [OF assms(1)] split: option.splits if_splits)
  then show ?thesis unfolding same_but_bytes_def .
qed

definition ex_world :: "py_str \<Rightarrow> world" where
  "ex_world user = \<lparr>environ = (\<lambda>name. if name = ENV_USER then Some user else None),
     path_exists = (\<lambda>_. False), read_text = (\<lambda>_. OsError (lit ''No such file''))\<rparr>"

lemma password_errors_leak_nothing_witness:
  "rpc_read_password (ex_world (lit ''u'')) =
     Inl (MissingCredentials ''no credential found'' (lit ENV_PASSWORD_FILE @ lit '' or '' @ lit ENV_PASSWORD))"
proof -
  let ?w = "ex_world (lit ''u'')" and ?v = "(ex_world (lit ''u''))\<lparr>environ := (environ (ex_world (lit ''u'')))(ENV_PASSWORD := Some [])\<rparr>"
  have n: "ENV_USER \<noteq> ENV_PASSWORD" "ENV_USER \<noteq> ENV_PASSWORD_FILE" "ENV_USER \<noteq> ENV_SYSTEMD_CREDENTIALS"
      "ENV_SYSTEMD_CREDENTIALS \<noteq> ENV_PASSWORD" "ENV_PASSWORD_FILE \<noteq> ENV_PASSWORD"
    by (simp_all add: ENV_USER_def ENV_PASSWORD_def ENV_PASSWORD_FILE_def ENV_SYSTEMD_CREDENTIALS_def)
  have s: "same_but_secrets ?v ?w"
    using n by (simp add: same_but_secrets_def ex_world_def env_set_def)
  have "rpc_read_password ?v =
      Inl (MissingCredentials ''no credential found'' (lit ENV_PASSWORD_FILE @ lit '' or '' @ lit ENV_PASSWORD))"
    using n by (simp add: rpc_read_password_def read_credential_as_def env_set_def ex_world_def Let_def)
  from password_errors_leak_nothing [OF s this] show ?thesis by auto
qed

end
