(* ===== verification/Reconcile.thy ===== *)
theory Reconcile
  imports Block Rpc
begin

text \<open>
  \<open>reconcile.py\<close>: the follower that hands blocks to the record in order and fetches the
  ones the stream lost. The node's RPC is a parameter \<open>call\<close>: any function from a method
  name, its arguments and a node state to an exception or a JSON answer and the next node
  state, so that the node may answer anything, and differently each time.

  \<open>blocks_to_apply\<close> is a generator. Everything in it that can raise happens before the
  first block is yielded; after that it alternates between yielding a block and moving
  the tip. It is modelled by the list of its yields, each with the update the generator
  makes when it is resumed after that yield; a consumer that stops early leaves the later
  updates undone.
\<close>

record chain_tip =
  tip_hash :: bytes
  tip_height :: int

record 'n follower =
  fo_node :: 'n
  fo_tip :: "chain_tip option"
  fo_max_catch_up :: int
  fo_fetched :: int
  fo_catch_ups :: int

definition DEFAULT_MAX_CATCH_UP :: int where
  "DEFAULT_MAX_CATCH_UP = 144"

definition RAW_BLOCK :: json where
  "RAW_BLOCK = JInt 0"

definition new_follower :: "'n \<Rightarrow> chain_tip option \<Rightarrow> int \<Rightarrow> 'n follower" where
  "new_follower n t ceiling =
     \<lparr>fo_node = n, fo_tip = t, fo_max_catch_up = ceiling, fo_fetched = 0, fo_catch_ups = 0\<rparr>"

text \<open>One call, its transport and node errors translated by \<open>refused\<close> and \<open>unreachable\<close>.\<close>

definition rpc_call :: "'n rpc \<Rightarrow> string \<Rightarrow> json list \<Rightarrow> ('n follower, json) py" where
  "rpc_call call m args = (\<lambda>f.
     let (r, n) = call m args (fo_node f) in (r, f\<lparr>fo_node := n\<rparr>))"

definition catch_rpc :: "string \<Rightarrow> string \<Rightarrow> ('s, 'a) py \<Rightarrow> ('s, 'a) py" where
  "catch_rpc refused unreachable m = (\<lambda>s. case m s of
     (Inl (RpcError code), t) \<Rightarrow>
       (Inl (CatchUpFailed (refused @ '' (rpc '' @ int_str code @ '')'')), t)
   | (Inl (RpcTransportError _), t) \<Rightarrow> (Inl (CatchUpFailed unreachable), t)
   | r \<Rightarrow> r)"

definition describe :: "'n rpc \<Rightarrow> bytes \<Rightarrow> ('n follower, json) py" where
  "describe call block_hash =
     bind (catch_rpc ''node refused a block description''
             ''node unreachable fetching a block description''
             (rpc_call call ''getblock'' [JStr (hex (rev block_hash)), JInt 1])) (\<lambda>described.
     bind (check (is_dict described)
             (CatchUpFailed ''block description did not come back as an object'')) (\<lambda>_.
     ret described))"

text \<open>
  \<open>int(self._describe(...)[key])\<close> inside a \<open>try\<close> that turns a missing or unusable
  field into a failed catch-up. The call is inside the \<open>try\<close>, too.
\<close>

definition catch_field :: "string \<Rightarrow> ('s, 'a) py \<Rightarrow> ('s, 'a) py" where
  "catch_field msg m = (\<lambda>s. case m s of
     (Inl e, t) \<Rightarrow> if e = KeyError \<or> e = TypeError \<or> is_value_error e
                  then (Inl (CatchUpFailed msg), t) else (Inl e, t)
   | r \<Rightarrow> r)"

definition described_int :: "'n rpc \<Rightarrow> bytes \<Rightarrow> string \<Rightarrow> ('n follower, int) py" where
  "described_int call block_hash key =
     bind (describe call block_hash) (\<lambda>described.
     lift_exn (rbind (py_item described key) py_int))"

definition height_of :: "'n rpc \<Rightarrow> block \<Rightarrow> ('n follower, int) py" where
  "height_of call block =
     catch_field ''block description carried no usable height''
       (described_int call (blk_hash block) ''height'')"

definition on_active_chain :: "'n rpc \<Rightarrow> bytes \<Rightarrow> ('n follower, bool) py" where
  "on_active_chain call block_hash =
     catch_field ''block description carried no usable confirmation count''
       (bind (described_int call block_hash ''confirmations'') (\<lambda>c. ret (c \<ge> 0)))"

definition parse_fetched :: "int \<Rightarrow> string \<Rightarrow> exn + block" where
  "parse_fetched height raw =
     (case rbind (fromhex raw) parse_block of
        Inl e \<Rightarrow> if is_value_error e
                 then Inl (CatchUpFailed (''block '' @ int_str height @ '' did not parse'')) else Inl e
      | Inr b \<Rightarrow> Inr b)"

definition fetch :: "'n rpc \<Rightarrow> int \<Rightarrow> ('n follower, block) py" where
  "fetch call height =
     bind (catch_rpc (''node refused block '' @ int_str height)
             (''node unreachable fetching block '' @ int_str height)
             (bind (rpc_call call ''getblockhash'' [JInt height]) (\<lambda>block_hash.
              rpc_call call ''getblock'' [block_hash, RAW_BLOCK]))) (\<lambda>raw.
     case raw of
       JStr s \<Rightarrow> lift_exn (parse_fetched height s)
     | _ \<Rightarrow> throw (CatchUpFailed (''block '' @ int_str height @ '' did not come back as hex'')))"

text \<open>The loop of \<open>_fetch_gap\<close>: \<open>blocks\<close> so far, the hash the next one must name as its parent.\<close>

fun fetch_chain :: "'n rpc \<Rightarrow> int list \<Rightarrow> bytes \<Rightarrow> block list \<Rightarrow> ('n follower, block list) py" where
  "fetch_chain call [] expected_parent blocks = ret blocks"
| "fetch_chain call (height # heights) expected_parent blocks =
     bind (fetch call height) (\<lambda>fetched.
     bind (check (blk_prev_hash fetched = expected_parent)
             (ReorgDetected ''fetched blocks do not form a chain'')) (\<lambda>_.
     bind (modify (\<lambda>f. f\<lparr>fo_fetched := fo_fetched f + 1\<rparr>)) (\<lambda>_.
     fetch_chain call heights (blk_hash fetched) (blocks @ [fetched]))))"

definition fetch_gap :: "'n rpc \<Rightarrow> chain_tip \<Rightarrow> block \<Rightarrow> int \<Rightarrow> ('n follower, block list) py" where
  "fetch_gap call tip block target =
     bind (on_active_chain call (tip_hash tip)) (\<lambda>active.
     bind (check active
             (ReorgDetected ''the last applied block is no longer on the active chain'')) (\<lambda>_.
     let missing = target - tip_height tip - 1 in
     bind (check (\<not> missing < 0)
             (ReorgDetected ''received a block at or below the tip on a different branch'')) (\<lambda>_.
     bind (gets fo_max_catch_up) (\<lambda>ceiling.
     bind (check (\<not> missing > ceiling)
             (CatchUpFailed (int_str missing @ '' blocks behind, beyond the catch-up ceiling''))) (\<lambda>_.
     bind (fetch_chain call [tip_height tip + 1..target - 1] (tip_hash tip) []) (\<lambda>blocks.
     let parent = (if blocks = [] then tip_hash tip else blk_hash (last blocks)) in
     bind (check (blk_prev_hash block = parent)
             (ReorgDetected ''the incoming block does not follow the chain we applied'')) (\<lambda>_.
     ret blocks)))))))"

text \<open>What the generator does when it is resumed after yielding a block.\<close>

definition advance_tip :: "block \<Rightarrow> int \<Rightarrow> 'n follower \<Rightarrow> 'n follower" where
  "advance_tip block height f = f\<lparr>fo_tip := Some \<lparr>tip_hash = blk_hash block, tip_height = height\<rparr>\<rparr>"

definition advance_next :: "block \<Rightarrow> 'n follower \<Rightarrow> 'n follower" where
  "advance_next block f =
     (case fo_tip f of None \<Rightarrow> f | Some t \<Rightarrow> advance_tip block (tip_height t + 1) f)"

definition already_applied :: "chain_tip \<Rightarrow> block \<Rightarrow> bool" where
  "already_applied tip block \<longleftrightarrow> blk_hash block = tip_hash tip"

type_synonym 'f yields = "(block \<times> ('f \<Rightarrow> 'f)) list"

definition blocks_to_apply :: "'n rpc \<Rightarrow> block \<Rightarrow> ('n follower, 'n follower yields) py" where
  "blocks_to_apply call block =
     bind (gets fo_tip) (\<lambda>tip. case tip of
       None \<Rightarrow>
         bind (height_of call block) (\<lambda>height.
         ret [(block, advance_tip block height)])
     | Some tip \<Rightarrow>
         if blk_prev_hash block = tip_hash tip
         then ret [(block, advance_tip block (tip_height tip + 1))]
         else if already_applied tip block then ret []
         else
           bind (modify (\<lambda>f. f\<lparr>fo_catch_ups := fo_catch_ups f + 1\<rparr>)) (\<lambda>_.
           bind (height_of call block) (\<lambda>target.
           bind (fetch_gap call tip block target) (\<lambda>gap.
           ret (map (\<lambda>b. (b, advance_next b)) gap @ [(block, advance_tip block target)])))))"

section \<open>What a call of the node can change\<close>

text \<open>
  Up to the node's own state and the counters, asking the node leaves the follower alone:
  \<open>keeps m\<close> says that \<open>m\<close> moves neither the tip nor the ceiling.
\<close>

definition keeps :: "('n follower, 'a) py \<Rightarrow> bool" where
  "keeps m \<longleftrightarrow> (\<forall>f r f'. m f = (r, f') \<longrightarrow> fo_tip f' = fo_tip f \<and> fo_max_catch_up f' = fo_max_catch_up f)"

lemma keepsD: "keeps m \<Longrightarrow> m f = (r, f') \<Longrightarrow> fo_tip f' = fo_tip f \<and> fo_max_catch_up f' = fo_max_catch_up f"
  by (auto simp: keeps_def)

lemma keeps_bind: "keeps m \<Longrightarrow> (\<And>x. keeps (k x)) \<Longrightarrow> keeps (bind m k)"
  unfolding keeps_def bind_def by (fastforce split: prod.splits sum.splits)

lemma keeps_basic [simp]:
  "keeps (ret x)" "keeps (throw e)" "keeps (check ok e)" "keeps (gets q)" "keeps (lift_exn y)"
  "keeps (rpc_call call m args)" "keeps (modify (\<lambda>f. f\<lparr>fo_fetched := g f\<rparr>))"
  "keeps (modify (\<lambda>f. f\<lparr>fo_catch_ups := g f\<rparr>))"
  by (auto simp: keeps_def py_simps rpc_call_def split: prod.splits)

lemma keeps_catch: "keeps m \<Longrightarrow> keeps (catch_rpc a b m)" "keeps m \<Longrightarrow> keeps (catch_field c m)"
  by (auto simp: keeps_def catch_rpc_def catch_field_def split: prod.splits sum.splits exn.splits if_splits)

lemma keeps_describe [simp]: "keeps (describe call h)"
  unfolding describe_def by (intro keeps_bind keeps_catch keeps_basic)

lemma keeps_described_int [simp]: "keeps (described_int call h key)"
  unfolding described_int_def by (intro keeps_bind keeps_describe keeps_basic)

lemma keeps_asks [simp]: "keeps (height_of call b)" "keeps (on_active_chain call h)"
  unfolding height_of_def on_active_chain_def
  by (intro keeps_bind keeps_catch keeps_described_int keeps_basic)+

lemma keeps_fetch [simp]: "keeps (fetch call height)"
  unfolding fetch_def
  by (intro keeps_bind keeps_catch keeps_basic) (auto split: json.split)

lemma keeps_fetch_chain [simp]: "keeps (fetch_chain call heights p blocks)"
  by (induction heights arbitrary: p blocks) (auto intro!: keeps_bind)

lemma keeps_fetch_gap [simp]: "keeps (fetch_gap call tip block target)"
  unfolding fetch_gap_def Let_def by (intro keeps_bind) simp_all

section \<open>Whatever the node answers, the record is handed a chain\<close>

text \<open>Each block names the one before it as its parent, the first one \<open>h\<close>.\<close>

fun linked :: "bytes \<Rightarrow> block list \<Rightarrow> bool" where
  "linked h [] = True"
| "linked h (b # bs) = (blk_prev_hash b = h \<and> linked (blk_hash b) bs)"

abbreviation end_hash :: "bytes \<Rightarrow> block list \<Rightarrow> bytes" where
  "end_hash h bs \<equiv> last (h # map blk_hash bs)"

lemma linked_append [simp]: "linked h (as @ bs) \<longleftrightarrow> linked h as \<and> linked (end_hash h as) bs"
  by (induction as arbitrary: h) auto

lemma fetch_chain_linked:
  assumes "fetch_chain call heights (end_hash h blocks) blocks f = (Inr bs, f')" and "linked h blocks"
  shows "linked h bs \<and> length bs = length blocks + length heights"
  using assms
proof (induction heights arbitrary: blocks f)
  case Nil
  then show ?case by simp
next
  case (Cons height heights)
  from Cons.prems(1) obtain b f1 f2 where
    "blk_prev_hash b = end_hash h blocks"
    "fetch_chain call heights (blk_hash b) (blocks @ [b]) f2 = (Inr bs, f')"
    by (auto simp: bind_returns_iff simp del: last.simps split: if_splits)
  with Cons.IH [of "blocks @ [b]" f2] Cons.prems(2) show ?case by simp
qed

lemma fetch_gap_linked:
  assumes "fetch_gap call tip block target f = (Inr bs, f')"
  shows "linked (tip_hash tip) (bs @ [block])" "int (length bs) \<le> fo_max_catch_up f"
    and "target = tip_height tip + int (length bs) + 1"
proof -
  from assms obtain f1 f2 where
    a: "on_active_chain call (tip_hash tip) f = (Inr True, f1)"
    and m: "\<not> target - tip_height tip - 1 < 0" "\<not> target - tip_height tip - 1 > fo_max_catch_up f1"
    and c: "fetch_chain call [tip_height tip + 1..target - 1] (tip_hash tip) [] f1 = (Inr bs, f2)"
    and p: "blk_prev_hash block = (if bs = [] then tip_hash tip else blk_hash (last bs))"
    unfolding fetch_gap_def Let_def
    by (elim bind_returnsE) (simp add: check_iff split: if_split_asm, blast?)
  from fetch_chain_linked [of call _ "tip_hash tip" "[]"] c
  have "linked (tip_hash tip) bs" "length bs = nat (target - tip_height tip - 1)" by simp_all
  moreover have "fo_max_catch_up f1 = fo_max_catch_up f" using keepsD [OF keeps_asks(2) a] by simp
  ultimately show "linked (tip_hash tip) (bs @ [block])" "int (length bs) \<le> fo_max_catch_up f"
    "target = tip_height tip + int (length bs) + 1"
    using m p by (auto simp: last_map)
qed

definition resume :: "'f yields \<Rightarrow> 'f \<Rightarrow> 'f" where
  "resume ys f = fold (\<lambda>(_, post). post) ys f"

lemma advance_next_run:
  "fo_tip f = Some t \<Longrightarrow>
   fo_tip (resume (map (\<lambda>b. (b, advance_next b)) bs) f) =
     Some \<lparr>tip_hash = end_hash (tip_hash t) bs, tip_height = tip_height t + int (length bs)\<rparr>"
  by (induction bs arbitrary: f t) (auto simp: resume_def advance_next_def advance_tip_def)

lemma resume_append [simp]: "resume (as @ bs) f = resume bs (resume as f)"
  by (simp add: resume_def)

lemma blocks_to_apply_frame:
  "blocks_to_apply call block f = (r, f') \<Longrightarrow> fo_tip f' = fo_tip f \<and> fo_max_catch_up f' = fo_max_catch_up f"
proof -
  have "keeps (blocks_to_apply call block)"
    unfolding blocks_to_apply_def
    by (rule keeps_bind) (auto intro!: keeps_bind split: option.split)
  then show "blocks_to_apply call block f = (r, f') \<Longrightarrow>
    fo_tip f' = fo_tip f \<and> fo_max_catch_up f' = fo_max_catch_up f" by (rule keepsD)
qed

lemma resume_ceiling:
  "\<forall>(_, post) \<in> set ys. \<forall>f. fo_max_catch_up (post f) = fo_max_catch_up f \<Longrightarrow>
   fo_max_catch_up (resume ys f) = fo_max_catch_up f"
  by (induction ys arbitrary: f) (auto simp: resume_def)

lemma advance_ceiling [simp]:
  "fo_max_catch_up (advance_tip b h f) = fo_max_catch_up f"
  "fo_max_catch_up (advance_next b f) = fo_max_catch_up f"
  by (simp_all add: advance_tip_def advance_next_def split: option.split)

text \<open>The three ways the generator runs to completion from a known tip.\<close>

lemma blocks_to_apply_cases:
  assumes "blocks_to_apply call block f = (Inr ys, f')" and "fo_tip f = Some t"
  obtains (child) "blk_prev_hash block = tip_hash t" "ys = [(block, advance_tip block (tip_height t + 1))]"
    | (tip) "ys = []" "blk_hash block = tip_hash t"
    | (gap) target gap f1 where "fetch_gap call t block target f1 = (Inr gap, f')"
        "fo_max_catch_up f1 = fo_max_catch_up f"
        "ys = map (\<lambda>b. (b, advance_next b)) gap @ [(block, advance_tip block target)]"
proof -
  have frame: "fo_max_catch_up f1 = fo_max_catch_up f"
    if "height_of call block (f\<lparr>fo_catch_ups := fo_catch_ups f + 1\<rparr>) = (r, f1)" for r f1
    using keepsD [OF keeps_asks(1) that] by simp
  from assms show thesis
    using that frame
    by (auto simp: blocks_to_apply_def already_applied_def bind_returns_iff modify_def
        split: if_split_asm)
qed

lemma blocks_to_apply_ceiling:
  assumes "blocks_to_apply call block f = (Inr ys, f')" and "fo_tip f = Some t"
  shows "fo_max_catch_up (resume ys f') = fo_max_catch_up f"
proof -
  have "\<forall>(_, post) \<in> set ys. \<forall>f. fo_max_catch_up (post f) = fo_max_catch_up f"
    using assms by (rule blocks_to_apply_cases) auto
  from resume_ceiling [OF this, of f'] blocks_to_apply_frame [OF assms(1)] show ?thesis by simp
qed

text \<open>
  The blocks handed out follow the tip and one another, the last is the one that arrived,
  and they are no more than the ceiling allows. Nothing at all is handed out only for the
  block that is the tip.
\<close>

lemma blocks_to_apply_linked:
  assumes "blocks_to_apply call block f = (Inr ys, f')" and "fo_tip f = Some t"
  shows "ys = [] \<and> blk_hash block = tip_hash t \<or>
    (\<exists>bs. map fst ys = bs @ [block] \<and> linked (tip_hash t) (bs @ [block])
      \<and> int (length bs) \<le> max 0 (fo_max_catch_up f)
      \<and> fo_tip (resume ys f') = Some \<lparr>tip_hash = blk_hash block,
           tip_height = tip_height t + int (length bs) + 1\<rparr>)"
  using assms
proof (cases rule: blocks_to_apply_cases)
  case child
  then show ?thesis by (intro disjI2 exI [of _ "[]"]) (simp add: resume_def advance_tip_def)
next
  case tip
  then show ?thesis by simp
next
  case (gap target gap f1)
  note g = fetch_gap_linked [OF gap(1)]
  have "fo_tip (resume ys f') = Some \<lparr>tip_hash = blk_hash block, tip_height = target\<rparr>"
    by (simp add: gap(3) resume_def advance_tip_def)
  then show ?thesis using gap g
    by (intro disjI2 exI [of _ gap]) (simp add: comp_def)
qed

section \<open>An honest node closes every gap within the ceiling\<close>

text \<open>
  A chain of blocks in serialised form, by height: each is well formed and names its
  predecessor. Where block \<open>j\<close> arrives on top of block \<open>i\<close> with blocks missing in between,
  \<open>apart ch i j\<close> asks that SHA-256 tells block \<open>i\<close> from the two last ones.
\<close>

type_synonym raw_block = "bytes \<times> wire_tx list"

definition raw_hash :: "raw_block \<Rightarrow> bytes" where
  "raw_hash rb = dsha256 (fst rb)"

definition raw_parsed :: "raw_block \<Rightarrow> block" where
  "raw_parsed rb = \<lparr>blk_hash = raw_hash rb, blk_prev_hash = slice 4 36 (fst rb),
     blk_transactions = map tx_of_wire (snd rb)\<rparr>"

definition valid_chain :: "raw_block list \<Rightarrow> bool" where
  "valid_chain ch \<longleftrightarrow> (\<forall>rb \<in> set ch. wf_wire_block (fst rb) (snd rb)
       \<and> length (ser_block (fst rb) (snd rb)) < 2 ^ 32)
     \<and> (\<forall>h < length ch - 1. slice 4 36 (fst (ch ! Suc h)) = raw_hash (ch ! h))"

definition apart :: "raw_block list \<Rightarrow> nat \<Rightarrow> nat \<Rightarrow> bool" where
  "apart ch i j \<longleftrightarrow> j = Suc i \<or>
     raw_hash (ch ! (j - 1)) \<noteq> raw_hash (ch ! i) \<and> raw_hash (ch ! j) \<noteq> raw_hash (ch ! i)"

text \<open>The node answers the two methods as documented for the blocks of the chain.\<close>

definition serves :: "'n rpc \<Rightarrow> raw_block list \<Rightarrow> bool" where
  "serves call ch \<longleftrightarrow> (\<forall>h n. h < length ch \<longrightarrow>
     (let display = JStr (hex (rev (raw_hash (ch ! h)))) in
       (\<exists>n'. call ''getblockhash'' [JInt (int h)] n = (Inr display, n'))
     \<and> (\<exists>n'. call ''getblock'' [display, RAW_BLOCK] n =
           (Inr (JStr (hex (ser_block (fst (ch ! h)) (snd (ch ! h))))), n'))
     \<and> (\<exists>n' fields c. call ''getblock'' [display, JInt 1] n = (Inr (JObj fields), n')
           \<and> map_of fields ''height'' = Some (JInt (int h))
           \<and> map_of fields ''confirmations'' = Some (JInt c) \<and> 0 \<le> c)))"

lemma raw_parsed_block:
  "valid_chain ch \<Longrightarrow> h < length ch \<Longrightarrow>
   parse_block (ser_block (fst (ch ! h)) (snd (ch ! h))) = Inr (raw_parsed (ch ! h))"
  by (simp add: valid_chain_def parse_block_ser raw_parsed_def raw_hash_def)

lemma raw_parsed_wf:
  assumes "valid_chain ch" and "h < length ch"
  shows "wf_block (raw_parsed (ch ! h))"
  using raw_parsed_block [OF assms] parse_block_returns(1) assms by (auto simp: valid_chain_def)

lemma serves_described:
  assumes "serves call ch" and "h < length ch"
  shows "\<exists>n'. height_of call (raw_parsed (ch ! h)) f = (Inr (int h), f\<lparr>fo_node := n'\<rparr>)"
    and "\<exists>n'. on_active_chain call (raw_hash (ch ! h)) f = (Inr True, f\<lparr>fo_node := n'\<rparr>)"
proof -
  let ?d = "JStr (hex (rev (raw_hash (ch ! h))))"
  from assms obtain n' fields c where
    "call ''getblock'' [?d, JInt 1] (fo_node f) = (Inr (JObj fields), n')"
    "map_of fields ''height'' = Some (JInt (int h))"
    "map_of fields ''confirmations'' = Some (JInt c)" "0 \<le> c"
    unfolding serves_def Let_def by blast
  then show "\<exists>n'. height_of call (raw_parsed (ch ! h)) f = (Inr (int h), f\<lparr>fo_node := n'\<rparr>)"
    "\<exists>n'. on_active_chain call (raw_hash (ch ! h)) f = (Inr True, f\<lparr>fo_node := n'\<rparr>)"
    by (auto simp: height_of_def on_active_chain_def described_int_def describe_def catch_rpc_def
        catch_field_def rpc_call_def py_simps raw_parsed_def)
qed

lemma serves_fetch:
  assumes "serves call ch" and "valid_chain ch" and "h < length ch"
  shows "\<exists>n'. fetch call (int h) f = (Inr (raw_parsed (ch ! h)), f\<lparr>fo_node := n'\<rparr>)"
proof -
  let ?d = "JStr (hex (rev (raw_hash (ch ! h))))"
  from assms(1,3) obtain n1 where "call ''getblockhash'' [JInt (int h)] (fo_node f) = (Inr ?d, n1)"
    unfolding serves_def Let_def by blast
  moreover from assms(1,3) obtain n2 where "call ''getblock'' [?d, RAW_BLOCK] n1 =
      (Inr (JStr (hex (ser_block (fst (ch ! h)) (snd (ch ! h))))), n2)"
    unfolding serves_def Let_def by blast
  ultimately show ?thesis using raw_parsed_block [OF assms(2,3)]
    by (auto simp: fetch_def catch_rpc_def rpc_call_def bind_def parse_fetched_def lift_exn_def)
qed

lemma serves_fetch_chain:
  assumes "serves call ch" and "valid_chain ch" and "i < j" and "j \<le> length ch"
  shows "\<exists>n'. fetch_chain call [int i + 1..int j - 1] (raw_hash (ch ! i)) blocks f =
    (Inr (blocks @ map (\<lambda>k. raw_parsed (ch ! k)) [Suc i..<j]),
     f\<lparr>fo_node := n', fo_fetched := fo_fetched f + int (j - Suc i)\<rparr>)"
  using assms(3-)
proof (induction "j - i" arbitrary: i blocks f)
  case 0
  then show ?case by simp
next
  case (Suc d)
  show ?case
  proof (cases "Suc i = j")
    case True
    then show ?thesis
      by (intro exI [of _ "fo_node f"]) (simp add: ret_def)
  next
    case False
    let ?b = "raw_parsed (ch ! Suc i)"
    have i: "Suc i < j" "Suc i < length ch" using Suc.prems False by simp_all
    have d: "d = j - Suc i" using Suc.hyps(2) by simp
    obtain n where n: "fetch call (int (Suc i)) f = (Inr ?b, f\<lparr>fo_node := n\<rparr>)"
      using serves_fetch [OF assms(1,2) i(2)] by blast
    let ?f = "f\<lparr>fo_node := n, fo_fetched := fo_fetched f + 1\<rparr>"
    have prev: "blk_prev_hash ?b = raw_hash (ch ! i)"
      using assms(2) i by (simp add: valid_chain_def raw_parsed_def)
    have hash: "blk_hash ?b = raw_hash (ch ! Suc i)" by (simp add: raw_parsed_def)
    obtain n' where "fetch_chain call [int (Suc i) + 1..int j - 1] (raw_hash (ch ! Suc i)) (blocks @ [?b]) ?f =
      (Inr ((blocks @ [?b]) @ map (\<lambda>k. raw_parsed (ch ! k)) [Suc (Suc i)..<j]),
       ?f\<lparr>fo_node := n', fo_fetched := fo_fetched ?f + int (j - Suc (Suc i))\<rparr>)"
      using Suc.hyps(1) [OF d i(1) Suc.prems(2), of "blocks @ [?b]" ?f] by blast
    moreover have "[int i + 1..int j - 1] = int (Suc i) # [int (Suc i) + 1..int j - 1]"
      using i by (subst upto.simps) simp
    moreover have "[Suc i..<j] = Suc i # [Suc (Suc i)..<j]" using i by (simp add: upt_conv_Cons)
    moreover have "fo_fetched f + 1 + int (j - Suc (Suc i)) = fo_fetched f + int (j - Suc i)" using i by simp
    ultimately show ?thesis
      using n prev hash by (auto simp: py_simps algebra_simps)
  qed
qed

text \<open>
  From tip \<open>i\<close>, the arrival of block \<open>j\<close> hands out exactly the blocks \<open>i + 1, \<dots>, j\<close>.
\<close>

lemma blocks_to_apply_honest:
  assumes "serves call ch" and "valid_chain ch" and "i < j" and "j < length ch"
    and "fo_tip f = Some \<lparr>tip_hash = raw_hash (ch ! i), tip_height = int i\<rparr>"
    and "int (j - i - 1) \<le> fo_max_catch_up f" and "apart ch i j"
  shows "\<exists>ys f'. blocks_to_apply call (raw_parsed (ch ! j)) f = (Inr ys, f')
    \<and> map fst ys = map (\<lambda>k. raw_parsed (ch ! k)) [Suc i..<Suc j]
    \<and> fo_tip (resume ys f') = Some \<lparr>tip_hash = raw_hash (ch ! j), tip_height = int j\<rparr>
    \<and> fo_fetched (resume ys f') = fo_fetched f + int (j - Suc i)"
proof -
  let ?b = "raw_parsed (ch ! j)"
  have prev: "blk_prev_hash ?b = raw_hash (ch ! (j - 1))" and hash: "blk_hash ?b = raw_hash (ch ! j)"
    using assms(2-4) by (auto simp: valid_chain_def raw_parsed_def dest: spec [of _ "j - 1"])
  show ?thesis
  proof (cases "j = Suc i")
    case True
    then show ?thesis using prev hash assms(5)
      by (auto simp: blocks_to_apply_def py_simps resume_def advance_tip_def)
  next
    case False
    then have j: "i < j - 1" "Suc i < j" using assms(3) by simp_all
    let ?f = "f\<lparr>fo_catch_ups := fo_catch_ups f + 1\<rparr>"
    obtain n1 where n1: "height_of call ?b ?f = (Inr (int j), ?f\<lparr>fo_node := n1\<rparr>)"
      using serves_described(1) [OF assms(1,4)] by blast
    let ?f1 = "?f\<lparr>fo_node := n1\<rparr>"
    obtain n2 where n2: "on_active_chain call (raw_hash (ch ! i)) ?f1 = (Inr True, ?f1\<lparr>fo_node := n2\<rparr>)"
      using serves_described(2) [OF assms(1)] assms(3,4) by (meson less_trans)
    let ?f2 = "?f1\<lparr>fo_node := n2\<rparr>"
    let ?c = "fo_fetched f + int (j - Suc i)"
    obtain n3 where n3: "fetch_chain call [int i + 1..int j - 1] (raw_hash (ch ! i)) [] ?f2 =
        (Inr (map (\<lambda>k. raw_parsed (ch ! k)) [Suc i..<j]), ?f2\<lparr>fo_node := n3, fo_fetched := ?c\<rparr>)"
      using serves_fetch_chain [OF assms(1,2,3), of "[]" ?f2] assms(4) by auto
    let ?gap = "map (\<lambda>k. raw_parsed (ch ! k)) [Suc i..<j]"
    have last: "blk_hash (last ?gap) = raw_hash (ch ! (j - 1))" and "?gap \<noteq> []"
      using j by (simp_all add: last_map raw_parsed_def)
    then have "fetch_gap call \<lparr>tip_hash = raw_hash (ch ! i), tip_height = int i\<rparr> ?b (int j) ?f1 =
        (Inr ?gap, ?f2\<lparr>fo_node := n3, fo_fetched := ?c\<rparr>)"
      using n2 n3 prev j assms(6) by (simp add: fetch_gap_def Let_def py_simps)
    moreover have "\<not> already_applied \<lparr>tip_hash = raw_hash (ch ! i), tip_height = int i\<rparr> ?b"
      "blk_prev_hash ?b \<noteq> raw_hash (ch ! i)"
      using prev hash j assms(7) by (auto simp: already_applied_def apart_def)
    moreover have "fo_fetched (fold (\<lambda>(_, post). post)
        (map (\<lambda>k. (raw_parsed (ch ! k), advance_next (raw_parsed (ch ! k)))) ks) f) = fo_fetched f"
      for ks and f :: "'a follower"
      by (induction ks arbitrary: f) (simp_all add: advance_next_def advance_tip_def split: option.split)
    ultimately show ?thesis
      using n1 hash j assms(5)
      by (auto simp: blocks_to_apply_def bind_def gets_def modify_def comp_def resume_def advance_tip_def)
  qed
qed

section \<open>Properties\<close>

text \<open>
  C2: whatever the node answers, the record is only ever handed a chain. The blocks that
  \<open>blocks_to_apply\<close> yields from a known tip link to the tip and to one another by their
  parent hashes and end with the block that arrived; no more than the ceiling are fetched,
  and when all are applied the tip is that block, as many heights up as blocks were
  yielded. Nothing is yielded only when the block is the tip itself.
\<close>

theorem only_a_chain_is_applied:
  assumes "blocks_to_apply call block f = (Inr ys, f')" and "fo_tip f = Some t"
  shows "ys = [] \<and> blk_hash block = tip_hash t \<or>
    (\<exists>bs. map fst ys = bs @ [block] \<and> linked (tip_hash t) (bs @ [block])
      \<and> int (length bs) \<le> max 0 (fo_max_catch_up f)
      \<and> fo_tip (resume ys f') = Some \<lparr>tip_hash = blk_hash block,
           tip_height = tip_height t + int (length bs) + 1\<rparr>)"
  by (rule blocks_to_apply_linked [OF assms])

text \<open>A node that answers every call with \<open>null\<close>.\<close>

definition null_node :: "unit rpc" where
  "null_node m args n = (Inr JNull, n)"

lemma only_a_chain_is_applied_witness:
  "let b = \<lparr>blk_hash = [2], blk_prev_hash = [1], blk_transactions = []\<rparr>;
       f = new_follower () (Some \<lparr>tip_hash = [1], tip_height = 9\<rparr>) 144;
       (r, f') = blocks_to_apply null_node b f
   in \<exists>ys. r = Inr ys \<and> map fst ys = [b] \<and> fo_tip (resume ys f') = Some \<lparr>tip_hash = [2], tip_height = 10\<rparr>"
proof -
  let ?b = "\<lparr>blk_hash = [2], blk_prev_hash = [1], blk_transactions = []\<rparr>"
  let ?t = "\<lparr>tip_hash = [1], tip_height = 9\<rparr>"
  let ?f = "new_follower () (Some ?t) 144"
  have r: "blocks_to_apply null_node ?b ?f = (Inr [(?b, advance_tip ?b 10)], ?f)"
    by (simp add: blocks_to_apply_def new_follower_def py_simps)
  have "fo_tip ?f = Some ?t" by (simp add: new_follower_def)
  from only_a_chain_is_applied [OF r this] r show ?thesis by (auto simp: Let_def)
qed

end
