(* ===== verification/Service.thy ===== *)
theory Service
  imports Ingest Reconcile
begin

text \<open>
  The service as the program composes it: a \<open>StreamIngest\<close> whose \<open>expand_block\<close> hook is
  \<open>ChainFollower.blocks_to_apply\<close>. The lemmas are about a lossy stream: any blocks may be
  missing from it, any transactions may be in it, and the node is asked for what is
  missing. The record that results is the one that the whole chain, in order, would have
  produced.
\<close>

type_synonym ('ix, 'n) service = "('ix, 'n follower) ingest"

definition service_handle :: "'ix index_ops \<Rightarrow> 'n rpc \<Rightarrow> stream_message \<Rightarrow> (('ix, 'n) service, match list) py" where
  "service_handle W call = handle W (Some (blocks_to_apply call))"

definition service_run :: "'ix index_ops \<Rightarrow> 'n rpc \<Rightarrow> stream_message list \<Rightarrow> (('ix, 'n) service, match list) py" where
  "service_run W call = run W (Some (blocks_to_apply call))"

section \<open>A failed catch-up is never silent\<close>

text \<open>A failure flags the record; only applied blocks clear the flag.\<close>

lemma guard_raises:
  "guard_catch_up body g = (Inl e, g') \<Longrightarrow>
     tr_needs_reconciliation (ig_tracker g') \<and>
     (\<exists>h. body g = (Inl e, h) \<and> ig_catch_up_failures g' = ig_catch_up_failures h + 1)"
  by (auto simp: guard_catch_up_def flag_tracker_def split: prod.splits sum.splits)

lemma guard_returns:
  "guard_catch_up body g = (Inr x, g') \<Longrightarrow> \<not> tr_needs_reconciliation (ig_tracker g')"
  by (auto simp: guard_catch_up_def split: prod.splits sum.splits)

section \<open>What a lossy stream delivers\<close>

text \<open>
  \<open>delivers ch cap i msgs j\<close>: with the record at height \<open>i\<close>, the messages carry blocks of
  the chain in increasing order, the last one \<open>j\<close>, and never more than \<open>cap\<close> consecutive
  blocks are missing. Messages of other topics may come at any point.
\<close>

inductive delivers :: "raw_block list \<Rightarrow> int \<Rightarrow> nat \<Rightarrow> stream_message list \<Rightarrow> nat \<Rightarrow> bool" for ch cap where
  nothing: "delivers ch cap i [] i"
| other: "msg_topic msg \<noteq> TOPIC_BLOCK \<Longrightarrow> seq_in_range msg \<Longrightarrow> small msg \<Longrightarrow>
    delivers ch cap i msgs j \<Longrightarrow> delivers ch cap i (msg # msgs) j"
| block: "msg_topic msg = TOPIC_BLOCK \<Longrightarrow> seq_in_range msg \<Longrightarrow> i < k \<Longrightarrow> k < length ch \<Longrightarrow>
    apart ch i k \<Longrightarrow> int (k - i - 1) \<le> cap \<Longrightarrow> msg_body msg = ser_block (fst (ch ! k)) (snd (ch ! k)) \<Longrightarrow>
    delivers ch cap k msgs j \<Longrightarrow> delivers ch cap i (msg # msgs) j"

inductive_simps delivers_Nil [simp]: "delivers ch cap i [] j"
inductive_cases delivers_ConsE: "delivers ch cap i (msg # msgs) j"

lemma delivers_mono: "delivers ch cap i msgs j \<Longrightarrow> i \<le> j"
  by (induction rule: delivers.induct) auto

text \<open>The transactions of the blocks from one height up to another, in chain order.\<close>

definition chain_txs :: "raw_block list \<Rightarrow> nat \<Rightarrow> nat \<Rightarrow> transaction list" where
  "chain_txs ch i j = concat (map (\<lambda>k. blk_transactions (raw_parsed (ch ! k))) [Suc i..<Suc j])"

lemma chain_txs_same [simp]: "chain_txs ch i i = []"
  by (simp add: chain_txs_def)

lemma chain_txs_append: "i \<le> k \<Longrightarrow> k \<le> j \<Longrightarrow> chain_txs ch i k @ chain_txs ch k j = chain_txs ch i j"
proof -
  assume "i \<le> k" "k \<le> j"
  then have "[Suc i..<Suc j] = [Suc i..<Suc k] @ [Suc k..<Suc j]"
    by (metis Suc_le_mono add_Suc le_add_diff_inverse upt_add_eq_append)
  then show ?thesis by (simp add: chain_txs_def del: upt_Suc)
qed

definition at_height :: "raw_block list \<Rightarrow> nat \<Rightarrow> 'n follower \<Rightarrow> bool" where
  "at_height ch i f \<longleftrightarrow> fo_tip f = Some \<lparr>tip_hash = raw_hash (ch ! i), tip_height = int i\<rparr>"

context watch_index begin

lemma service_block:
  assumes chain: "valid_chain ch" "serves call ch" and "i < k" "k < length ch" "apart ch i k"
    and gap: "int (k - i - 1) \<le> fo_max_catch_up (ig_expand g)"
    and tip: "at_height ch i (ig_expand g)" and inv: "invar (index_of g)"
    and msg: "msg_topic msg = TOPIC_BLOCK" "seq_in_range msg"
      "msg_body msg = ser_block (fst (ch ! k)) (snd (ch ! k))"
  shows "\<exists>ms g'. service_handle W call msg g = (Inr ms, g')
    \<and> invar (index_of g') \<and> watched W (index_of g') = watched W (index_of g)
    \<and> holdings W (index_of g') = fold (confirm_tx (key_of g) (watched W (index_of g)))
        (chain_txs ch i k) (holdings W (index_of g))
    \<and> key_of g' = key_of g \<and> at_height ch k (ig_expand g')
    \<and> fo_max_catch_up (ig_expand g') = fo_max_catch_up (ig_expand g)
    \<and> ig_catch_up_failures g' = ig_catch_up_failures g
    \<and> \<not> tr_needs_reconciliation (ig_tracker g')
    \<and> fo_fetched (ig_expand g') = fo_fetched (ig_expand g) + int (k - Suc i)
    \<and> ig_blocks g' = ig_blocks g + int (k - i) \<and> ig_malformed g' = ig_malformed g
    \<and> (unseen (chain_txs ch i k) g \<longrightarrow> set ms = chain_alerts (key_of g) (watched W (index_of g))
         (chain_txs ch i k) (holdings W (index_of g)))"
proof -
  let ?b = "raw_parsed (ch ! k)"
  obtain a t where o: "on_tracker (observe (msg_topic msg) (msg_seq msg)) g = (Inr a, g\<lparr>ig_tracker := t\<rparr>)"
    using observe_on_tracker [OF msg(2)] by blast
  define g1 where "g1 = announce a (g\<lparr>ig_tracker := t\<rparr>)"
  have g1: "ig_matcher g1 = ig_matcher g" "ig_expand g1 = ig_expand g"
      "ig_catch_up_failures g1 = ig_catch_up_failures g" "ig_blocks g1 = ig_blocks g"
      "ig_malformed g1 = ig_malformed g" "ig_seen g1 = ig_seen g"
    by (simp_all add: g1_def announce_def split: option.split)
  obtain ys f' where ys: "blocks_to_apply call ?b (ig_expand g) = (Inr ys, f')"
      "map fst ys = map (\<lambda>h. raw_parsed (ch ! h)) [Suc i..<Suc k]"
      "fo_tip (resume ys f') = Some \<lparr>tip_hash = raw_hash (ch ! k), tip_height = int k\<rparr>"
      "fo_fetched (resume ys f') = fo_fetched (ig_expand g) + int (k - Suc i)"
    using blocks_to_apply_honest [OF chain(2,1) assms(3,4)] tip gap assms(5) unfolding at_height_def by blast
  let ?g2 = "g1\<lparr>ig_expand := f'\<rparr>"
  have wf: "\<forall>(b, _) \<in> set ys. \<forall>tx \<in> set (blk_transactions b). wf_tx tx"
  proof -
    have "\<forall>b \<in> set (map fst ys). wf_block b"
      using raw_parsed_wf [OF chain(1)] assms(4) by (simp add: ys(2) del: upt_Suc)
    then show ?thesis by (simp add: wf_block_def split_beta)
  qed
  have txs: "concat (map (\<lambda>(b, _). blk_transactions b) ys) = chain_txs ch i k"
  proof -
    have "map (\<lambda>(b, _). blk_transactions b) ys = map blk_transactions (map fst ys)" by auto
    then show ?thesis by (simp add: ys(2) chain_txs_def comp_def del: upt_Suc)
  qed
  have "invar (index_of ?g2)" using inv g1 by simp
  note due = apply_due_run [OF this wf, unfolded txs, folded resume_def]
  obtain ms g3 where g3: "for_collect (apply_due W) ys ?g2 = (Inr ms, g3)" "invar (index_of g3)"
      "watched W (index_of g3) = watched W (index_of g)"
      "holdings W (index_of g3) = fold (confirm_tx (key_of g) (watched W (index_of g)))
        (chain_txs ch i k) (holdings W (index_of g))"
      "key_of g3 = key_of g" "ig_catch_up_failures g3 = ig_catch_up_failures g"
      "ig_expand g3 = resume ys f'" "ig_malformed g3 = ig_malformed g" "ig_blocks g3 = ig_blocks g + int (k - i)"
      "unseen (chain_txs ch i k) g \<longrightarrow> set (concat ms) = chain_alerts (key_of g) (watched W (index_of g))
         (chain_txs ch i k) (holdings W (index_of g))"
    using due arg_cong [OF ys(2), of length] assms(3)
    by (elim exE conjE) (rule that, simp_all add: g1 unseen_def of_nat_diff)
  have "fo_max_catch_up (resume ys f') = fo_max_catch_up (ig_expand g)"
    using blocks_to_apply_ceiling [OF ys(1)] tip by (simp add: at_height_def)
  moreover have "service_handle W call msg g =
      (Inr (concat ms), g3\<lparr>ig_tracker := reconciled (ig_tracker g3)\<rparr>)"
  proof -
    have "apply_expanded W (blocks_to_apply call) ?b g1 = (Inr (concat ms), g3)"
      using ys(1) g1 g3(1) by (simp add: apply_expanded_def on_expand_def py_simps)
    then show ?thesis using o msg raw_parsed_block [OF chain(1) assms(4)]
      by (simp add: service_handle_def handle_def py_simps TOPIC_TX_def TOPIC_BLOCK_def g1_def [symmetric]
          handle_block_def guard_catch_up_def)
  qed
  ultimately show ?thesis using g3 ys(3,4) by (simp add: at_height_def)
qed

lemma service_lossy:
  assumes "delivers ch cap i msgs j" and "valid_chain ch" and "serves call ch"
    and "at_height ch i (ig_expand g)" and "fo_max_catch_up (ig_expand g) = cap" and "invar (index_of g)"
  shows "\<exists>ms g'. service_run W call msgs g = (Inr ms, g') \<and> invar (index_of g')
    \<and> holdings W (index_of g') = fold (confirm_tx (key_of g) (watched W (index_of g)))
        (chain_txs ch i j) (holdings W (index_of g))
    \<and> at_height ch j (ig_expand g')"
  using assms
proof (induction arbitrary: g rule: delivers.induct)
  case (nothing i)
  then show ?case by (simp add: service_run_def ret_def)
next
  case (other msg i msgs j)
  obtain ms g1 where one: "handle W (Some (blocks_to_apply call)) msg g = (Inr ms, g1)"
      "record_side g1 = record_side g"
    using handle_other_blind other.hyps(1-3) by metis
  obtain ns g2 where "service_run W call msgs g1 = (Inr ns, g2)" "invar (index_of g2)"
      "holdings W (index_of g2) = fold (confirm_tx (key_of g) (watched W (index_of g)))
        (chain_txs ch i j) (holdings W (index_of g))" "at_height ch j (ig_expand g2)"
    using other.IH [of g1] other.prems one(2) by (auto simp: record_side_def)
  with one(1) show ?case by (simp add: service_run_def run_Cons py_simps)
next
  case (block msg i k msgs j)
  obtain ms g1 where one: "handle W (Some (blocks_to_apply call)) msg g = (Inr ms, g1)"
      "invar (index_of g1)" "watched W (index_of g1) = watched W (index_of g)"
      "holdings W (index_of g1) = fold (confirm_tx (key_of g) (watched W (index_of g)))
        (chain_txs ch i k) (holdings W (index_of g))" "key_of g1 = key_of g"
      "at_height ch k (ig_expand g1)" "fo_max_catch_up (ig_expand g1) = cap"
    using service_block [of ch call i k g msg] block.hyps block.prems unfolding service_handle_def by metis
  obtain ns g2 where "service_run W call msgs g1 = (Inr ns, g2)" "invar (index_of g2)"
      "holdings W (index_of g2) = fold (confirm_tx (key_of g1) (watched W (index_of g1)))
        (chain_txs ch k j) (holdings W (index_of g1))" "at_height ch j (ig_expand g2)"
    using block.IH [OF block.prems(1,2) one(6,7,2)] by blast
  moreover have "chain_txs ch i j = chain_txs ch i k @ chain_txs ch k j"
    using chain_txs_append [of i k j ch] block.hyps(3) delivers_mono [OF block.hyps(8)] by simp
  ultimately show ?case using one by (simp add: service_run_def run_Cons py_simps)
qed

end

section \<open>Properties\<close>

text \<open>
  A lossy stream and an honest node give the record of the whole chain. The messages may
  miss any blocks, up to the ceiling at a time, and interleave anything else; the run raises
  nothing, the record that results is the fold of the transactions of every block from the
  tip to the last block delivered, in chain order, and the tip is that block.
\<close>

theorem lossy_stream_exact_record:
  assumes "delivers ch cap i msgs j" and "valid_chain ch" and "serves call ch"
    and "at_height ch i (ig_expand g)" and "fo_max_catch_up (ig_expand g) = cap" and "mem_ok (index_of g)"
  shows "\<exists>ms g'. service_run mem_ops call msgs g = (Inr ms, g') \<and> mem_ok (index_of g')
    \<and> holdings mem_ops (index_of g') = fold (confirm_tx (key_of g) (watched mem_ops (index_of g)))
        (chain_txs ch i j) (holdings mem_ops (index_of g))
    \<and> at_height ch j (ig_expand g')"
  by (rule mem.service_lossy [OF assms])

text \<open>A block, a node that serves it, and a service whose tip it is.\<close>

definition ex_block :: raw_block where
  "ex_block = (zeros 80, [ex_wire])"

definition ex_node :: "unit rpc" where
  "ex_node m args n = (Inr (
     if m = ''getblockhash'' then JStr (hex (rev (raw_hash ex_block)))
     else if args ! 1 = JInt 0 then JStr (hex (ser_block (fst ex_block) (snd ex_block)))
     else JObj [(''height'', JInt 0), (''confirmations'', JInt 1)]), n)"

lemma ex_wire_length: "length (ser_tx ex_wire) = 62"
  by (simp add: ex_wire_def ser_tx_def ser_stripped_def ser_ins_def ser_outs_def ser_input_def
      ser_output_def ser_bytes_def ser_varint_def)

definition ex_service :: "(mem_index, unit) service" where
  "ex_service = ex_ingest (new_follower () (Some \<lparr>tip_hash = raw_hash ex_block, tip_height = 0\<rparr>) 144)"

lemma ex_block_valid: "valid_chain [ex_block]" "serves ex_node [ex_block]"
proof -
  have "length (ser_block (zeros 80) [ex_wire]) < 2 ^ 32" by (simp add: ser_block_def ex_wire_length ser_varint_def)
  then show "valid_chain [ex_block]"
    using ex_wire_block by (simp add: valid_chain_def ex_block_def)
  show "serves ex_node [ex_block]"
    by (simp add: serves_def ex_node_def RAW_BLOCK_def Let_def)
qed

lemma ex_service_simps [simp]:
  "at_height [ex_block] 0 (ig_expand ex_service)" "fo_max_catch_up (ig_expand ex_service) = 144"
  "mem_ok (index_of ex_service)"
  by (simp_all add: ex_service_def ex_ingest_def new_ingest_def new_follower_def at_height_def)

lemma lossy_stream_exact_record_witness:
  "\<exists>ms g'. service_run mem_ops ex_node [\<lparr>msg_topic = ''rawtx'', msg_body = ser_tx ex_wire, msg_seq = 5\<rparr>]
      ex_service = (Inr ms, g') \<and> mem_ok (index_of g') \<and> at_height [ex_block] 0 (ig_expand g')"
proof -
  let ?msg = "\<lparr>msg_topic = ''rawtx'', msg_body = ser_tx ex_wire, msg_seq = 5\<rparr>"
  have "length (ser_tx ex_wire) < 2 ^ 32" by (simp add: ex_wire_length)
  then have "delivers [ex_block] 144 0 [?msg] 0"
    by (intro delivers.other delivers.nothing)
       (simp_all add: TOPIC_BLOCK_def seq_in_range_def UINT32_def small_def)
  from lossy_stream_exact_record [OF this ex_block_valid, of ex_service] show ?thesis by auto
qed

text \<open>
  C17: a failed catch-up is loud and harmless. When the follower cannot produce the blocks the
  record owes, the message raises that exception, the index and the tip stay as they were,
  the reconciliation flag is set and the failure is counted.
\<close>

theorem failed_catch_up_is_loud:
  assumes "msg_topic msg = TOPIC_BLOCK" and "seq_in_range msg"
    and "parse_block (msg_body msg) = Inr b"
    and "blocks_to_apply call b (ig_expand g) = (Inl e, f')"
  shows "\<exists>g'. service_handle W call msg g = (Inl e, g')
    \<and> index_of g' = index_of g \<and> fo_tip (ig_expand g') = fo_tip (ig_expand g)
    \<and> tr_needs_reconciliation (ig_tracker g')
    \<and> ig_catch_up_failures g' = ig_catch_up_failures g + 1"
proof -
  obtain a t where o: "on_tracker (observe (msg_topic msg) (msg_seq msg)) g = (Inr a, g\<lparr>ig_tracker := t\<rparr>)"
    using observe_on_tracker [OF assms(2)] by blast
  define g1 where "g1 = announce a (g\<lparr>ig_tracker := t\<rparr>)"
  have g1: "ig_matcher g1 = ig_matcher g" "ig_expand g1 = ig_expand g"
      "ig_catch_up_failures g1 = ig_catch_up_failures g"
    by (simp_all add: g1_def announce_def split: option.split)
  have "apply_expanded W (blocks_to_apply call) b g1 = (Inl e, g1\<lparr>ig_expand := f'\<rparr>)"
    using assms(4) g1 by (simp add: apply_expanded_def on_expand_def py_simps)
  then show ?thesis using o assms(1,3) g1 blocks_to_apply_frame [OF assms(4)]
    by (simp add: service_handle_def handle_def py_simps TOPIC_TX_def TOPIC_BLOCK_def g1_def [symmetric]
        handle_block_def guard_catch_up_def flag_tracker_def)
qed

lemma failed_catch_up_is_loud_witness:
  "\<exists>g'. service_handle mem_ops null_node \<lparr>msg_topic = ''rawblock'', msg_body = ser_block (zeros 80) [ex_wire], msg_seq = 0\<rparr>
      (ex_ingest (new_follower () None 144)) =
      (Inl (CatchUpFailed ''block description did not come back as an object''), g')
    \<and> tr_needs_reconciliation (ig_tracker g') \<and> ig_catch_up_failures g' = 1"
proof -
  let ?msg = "\<lparr>msg_topic = ''rawblock'', msg_body = ser_block (zeros 80) [ex_wire], msg_seq = 0\<rparr>"
  let ?g = "ex_ingest (new_follower () None 144)"
  have m: "msg_topic ?msg = TOPIC_BLOCK" "seq_in_range ?msg"
    by (simp_all add: TOPIC_BLOCK_def seq_in_range_def UINT32_def)
  obtain b where p: "parse_block (msg_body ?msg) = Inr b"
    using parse_block_ser [OF ex_wire_block] by simp
  have "blocks_to_apply null_node b (ig_expand ?g) =
      (Inl (CatchUpFailed ''block description did not come back as an object''), ig_expand ?g)"
    by (simp add: blocks_to_apply_def ex_ingest_def new_ingest_def new_follower_def py_simps height_of_def
        described_int_def describe_def catch_field_def catch_rpc_def rpc_call_def null_node_def)
  from failed_catch_up_is_loud [OF m p this, of mem_ops] show ?thesis
    by (auto simp: ex_ingest_def new_ingest_def)
qed

text \<open>
  The flag is cleared by applied blocks and by nothing else. If a message that raises
  nothing turns a set flag off, it was a block, and the follower produced every block owed.
\<close>

theorem flag_cleared_by_blocks_only:
  assumes "service_handle W call msg g = (Inr ms, g')" and "small msg"
    and "tr_needs_reconciliation (ig_tracker g)" and "\<not> tr_needs_reconciliation (ig_tracker g')"
  shows "msg_topic msg = TOPIC_BLOCK \<and> (\<exists>b ys f'. parse_block (msg_body msg) = Inr b
    \<and> blocks_to_apply call b (ig_expand g) = (Inr ys, f'))"
proof -
  obtain a t where o: "observe (msg_topic msg) (msg_seq msg) (ig_tracker g) = (Inr a, t)"
    using assms(1) by (auto simp: service_handle_def handle_def bind_returns_iff on_tracker_def
        split: prod.splits)
  then have t: "tr_needs_reconciliation t" using observe_flag assms(3) by blast
  define g1 where "g1 = announce a (g\<lparr>ig_tracker := t\<rparr>)"
  have g1: "ig_expand g1 = ig_expand g" "ig_tracker g1 = t"
    by (simp_all add: g1_def announce_def split: option.split)
  have h: "handle W (Some (blocks_to_apply call)) msg g =
    (if msg_topic msg = TOPIC_TX then handle_tx W (msg_body msg) g1
     else if msg_topic msg = TOPIC_BLOCK then handle_block W (Some (blocks_to_apply call)) (msg_body msg) g1
     else (Inr [], g1\<lparr>ig_ignored := ig_ignored g1 + 1\<rparr>))"
    using o by (simp add: handle_def py_simps on_tracker_def g1_def)
  have "msg_topic msg \<noteq> TOPIC_TX"
    using h assms handle_tx_blind [of "msg_body msg" W g1] g1 t
    by (auto simp: service_handle_def small_def)
  moreover have topic: "msg_topic msg = TOPIC_BLOCK"
    using calculation h assms(1,4) g1 t by (auto simp: service_handle_def split: if_splits)
  ultimately have hb: "handle_block W (Some (blocks_to_apply call)) (msg_body msg) g1 = (Inr ms, g')"
    using h assms(1) by (simp add: service_handle_def)
  obtain b where b: "parse_block (msg_body msg) = Inr b"
  proof (cases "parse_block (msg_body msg)")
    case (Inl e)
    with hb assms(4) show ?thesis
      by (cases e) (auto simp: handle_block_def flag_tracker_def bind_def modify_def)
  qed
  have "\<exists>ys f'. blocks_to_apply call b (ig_expand g) = (Inr ys, f')"
  proof (cases "blocks_to_apply call b (ig_expand g)")
    case (Pair r f')
    with hb b g1 show ?thesis
      by (cases r) (auto simp: handle_block_def guard_catch_up_def apply_expanded_def on_expand_def bind_def)
  qed
  with topic b show ?thesis by blast
qed

lemma flag_cleared_by_blocks_only_witness:
  "let msg = \<lparr>msg_topic = ''rawblock'', msg_body = ser_block (zeros 80) [ex_wire], msg_seq = 0\<rparr>;
       f = new_follower () (Some \<lparr>tip_hash = zeros 32, tip_height = 5\<rparr>) 144
   in \<exists>b ys f'. parse_block (msg_body msg) = Inr b \<and> blocks_to_apply null_node b f = (Inr ys, f')"
proof -
  let ?msg = "\<lparr>msg_topic = ''rawblock'', msg_body = ser_block (zeros 80) [ex_wire], msg_seq = 0\<rparr>"
  let ?f = "new_follower () (Some \<lparr>tip_hash = zeros 32, tip_height = 5\<rparr>) 144"
  let ?g = "flag_tracker (ex_ingest ?f)"
  let ?b = "raw_parsed ex_block" let ?ys = "[(?b, advance_tip ?b 6)]"
  have m: "msg_topic ?msg = TOPIC_BLOCK" "seq_in_range ?msg"
    by (simp_all add: TOPIC_BLOCK_def seq_in_range_def UINT32_def)
  obtain a t where o: "on_tracker (observe (msg_topic ?msg) (msg_seq ?msg)) ?g = (Inr a, ?g\<lparr>ig_tracker := t\<rparr>)"
    using observe_on_tracker [OF m(2)] by blast
  define g1 where "g1 = announce a (?g\<lparr>ig_tracker := t\<rparr>)"
  have g1: "ig_expand g1 = ?f" "mem_ok (index_of g1)"
    by (simp_all add: g1_def announce_def flag_tracker_def ex_ingest_def new_ingest_def split: option.split)
  have p: "parse_block (msg_body ?msg) = Inr ?b"
    using raw_parsed_block [OF ex_block_valid(1), of 0] by (simp add: ex_block_def)
  have ys: "blocks_to_apply null_node ?b ?f = (Inr ?ys, ?f)"
    by (simp add: blocks_to_apply_def new_follower_def py_simps raw_parsed_def ex_block_def)
       (simp add: slice_def zeros_def)
  have "wf_block ?b" using raw_parsed_wf [OF ex_block_valid(1), of 0] by simp
  then have "\<forall>(b, _) \<in> set ?ys. \<forall>tx \<in> set (blk_transactions b). wf_tx tx" by (simp add: wf_block_def)
  from mem.apply_due_run [OF _ this, of "g1\<lparr>ig_expand := ?f\<rparr>"] g1 obtain ms g2 where
    d: "for_collect (apply_due mem_ops) ?ys (g1\<lparr>ig_expand := ?f\<rparr>) = (Inr ms, g2)" by auto
  then have h: "service_handle mem_ops null_node ?msg ?g =
      (Inr (concat ms), g2\<lparr>ig_tracker := reconciled (ig_tracker g2)\<rparr>)"
    using o m(1) p ys g1(1) by (simp add: service_handle_def handle_def bind_def modify_def ret_def
        TOPIC_TX_def TOPIC_BLOCK_def g1_def [symmetric] handle_block_def guard_catch_up_def
        apply_expanded_def on_expand_def)
  have "small ?msg" by (simp add: small_def ser_block_def ex_wire_length ser_varint_def)
  from flag_cleared_by_blocks_only [OF h this] show ?thesis
    by (simp add: flag_tracker_def ex_ingest_def new_ingest_def)
qed

end
