(* ===== verification/Poly1305.thy ===== *)
theory Poly1305
  imports Bytes
begin

text \<open>
  \<open>crypto/poly1305.py\<close>: the one-time authenticator. Python's unbounded integers are \<open>int\<close>.
  The lemmas show that the accumulator loop evaluates the polynomial whose coefficients are
  the blocks of the message, at the clamped half of the key, modulo \<open>2\<^sup>1\<^sup>3\<^sup>0 - 5\<close>.
\<close>

definition POLY_P :: int where
  "POLY_P = 2 ^ 130 - 5"

definition R_CLAMP :: int where
  "R_CLAMP = 21267647620597763993911028882763415551"

text \<open>\<open>int.from_bytes(chunk, "little") | (1 << (8 * len(chunk)))\<close>\<close>

definition poly_block :: "bytes \<Rightarrow> int" where
  "poly_block chunk = le_int chunk OR push_bit (8 * length chunk) 1"

fun poly_loop :: "int \<Rightarrow> bytes list \<Rightarrow> int \<Rightarrow> int" where
  "poly_loop r [] acc = acc"
| "poly_loop r (chunk # rest) acc = poly_loop r rest (((acc + poly_block chunk) * r) mod POLY_P)"

definition poly1305_mac :: "bytes \<Rightarrow> bytes \<Rightarrow> exn + bytes" where
  "poly1305_mac key message =
     (if length key \<noteq> 32 then Inl (ValueError ''poly1305 key must be 32 bytes'')
      else let r = le_int (take 16 key) AND R_CLAMP; s = le_int (drop 16 key);
               acc = poly_loop r (chunks 16 message) 0
           in Inr (to_le 16 ((acc + s) AND (2 ^ 128 - 1))))"

section \<open>The loop evaluates a polynomial\<close>

text \<open>\<open>a\<^sub>1 r\<^sup>n + a\<^sub>2 r\<^sup>n\<^sup>-\<^sup>1 + \<dots> + a\<^sub>n r\<close>, over the integers.\<close>

fun poly_sum :: "int \<Rightarrow> int list \<Rightarrow> int" where
  "poly_sum r [] = 0"
| "poly_sum r (a # as) = a * r ^ Suc (length as) + poly_sum r as"

lemma poly_loop_sum:
  "poly_loop r cs acc mod POLY_P = (acc * r ^ length cs + poly_sum r (map poly_block cs)) mod POLY_P"
proof (induction cs arbitrary: acc)
  case Nil
  show ?case by simp
next
  case (Cons c cs)
  let ?p = "poly_sum r (map poly_block cs)"
  have "poly_loop r (c # cs) acc mod POLY_P =
      ((acc + poly_block c) * r mod POLY_P * r ^ length cs + ?p) mod POLY_P"
    by (simp add: Cons.IH)
  also have "\<dots> = ((acc + poly_block c) * r * r ^ length cs + ?p) mod POLY_P"
    by (metis mod_add_left_eq mod_mult_left_eq)
  also have "(acc + poly_block c) * r * r ^ length cs + ?p =
      acc * r ^ length (c # cs) + poly_sum r (map poly_block (c # cs))"
    by (simp add: algebra_simps)
  finally show ?case .
qed

lemma poly_loop_range: "0 \<le> acc \<Longrightarrow> acc < POLY_P \<Longrightarrow> 0 \<le> poly_loop r cs acc \<and> poly_loop r cs acc < POLY_P"
  by (induction cs arbitrary: acc) (simp_all add: POLY_P_def)

text \<open>The bit above the block does not overlap it.\<close>

lemma or_above:
  assumes "0 \<le> a" and "a < 2 ^ n"
  shows "a OR push_bit n 1 = a + (2 :: int) ^ n"
proof -
  have "take_bit n a = a" using assms by (simp add: take_bit_int_eq_self)
  then have "\<not> bit a n" by (metis bit_take_bit_iff less_irrefl)
  then have "a + push_bit n 1 = a OR push_bit n 1"
    by (intro disjunctive_add) (auto simp: bit_exp_iff)
  then show ?thesis by (simp add: push_bit_eq_mult)
qed

lemma poly_block_value: "poly_block c = le_int c + 256 ^ length c"
proof -
  have p: "(256 :: int) ^ length c = 2 ^ (8 * length c)" by (simp add: power_mult)
  with le_int_less [of c] have "le_int c < 2 ^ (8 * length c)" by simp
  then show ?thesis unfolding poly_block_def p by (intro or_above) simp_all
qed

lemma poly1305_mac_value:
  assumes "length key = 32"
  shows "poly1305_mac key m = Inr (to_le 16
    ((poly_sum (le_int (take 16 key) AND R_CLAMP)
        (map (\<lambda>c. le_int c + 256 ^ length c) (chunks 16 m)) mod POLY_P
      + le_int (drop 16 key)) mod 2 ^ 128))"
proof -
  let ?r = "le_int (take 16 key) AND R_CLAMP"
  have blocks: "map poly_block (chunks 16 m) = map (\<lambda>c. le_int c + 256 ^ length c) (chunks 16 m)"
    by (simp add: poly_block_value)
  have "0 \<le> poly_loop ?r (chunks 16 m) 0 \<and> poly_loop ?r (chunks 16 m) 0 < POLY_P"
    by (rule poly_loop_range) (simp_all add: POLY_P_def)
  then have "poly_loop ?r (chunks 16 m) 0 = poly_loop ?r (chunks 16 m) 0 mod POLY_P" by simp
  also have "\<dots> = poly_sum ?r (map (\<lambda>c. le_int c + 256 ^ length c) (chunks 16 m)) mod POLY_P"
    by (simp add: poly_loop_sum blocks)
  finally have loop: "poly_loop ?r (chunks 16 m) 0 = \<dots>" .
  have mask: "x AND (2 ^ 128 - 1) = x mod 2 ^ 128" for x :: int
    using take_bit_eq_mask [of 128 x] by (simp add: take_bit_eq_mod mask_eq_exp_minus_1)
  show ?thesis
    using assms by (simp only: poly1305_mac_def Let_def loop mask) simp
qed

lemma poly1305_mac_total:
  "length key = 32 \<Longrightarrow> \<exists>tag. poly1305_mac key m = Inr tag \<and> length tag = 16"
  by (simp add: poly1305_mac_def Let_def)

section \<open>Properties\<close>

text \<open>
  C35: the tag is the polynomial of RFC 8439. For a 32-byte key it is, modulo \<open>2\<^sup>1\<^sup>2\<^sup>8\<close>, the sum
  of the second half of the key and the value modulo \<open>2\<^sup>1\<^sup>3\<^sup>0 - 5\<close>, at the clamped first half,
  of the polynomial whose coefficients are the 16-byte blocks, each with a one above its
  last byte.
\<close>

theorem poly1305_polynomial:
  assumes "length key = 32"
  shows "poly1305_mac key m = Inr (to_le 16
    ((poly_sum (le_int (take 16 key) AND R_CLAMP)
        (map (\<lambda>c. le_int c + 256 ^ length c) (chunks 16 m)) mod POLY_P
      + le_int (drop 16 key)) mod 2 ^ 128))"
  by (rule poly1305_mac_value [OF assms])

lemma poly1305_polynomial_witness: "poly1305_mac (zeros 32) [1] = Inr (zeros 16)"
proof -
  have "take 16 (zeros 32) = zeros 16" "drop 16 (zeros 32) = zeros 16" by (simp_all add: zeros_def)
  moreover have "to_le 16 0 = zeros 16" by code_simp
  ultimately show ?thesis using poly1305_polynomial [of "zeros 32" "[1]"] by (simp add: chunks_step)
qed

text \<open>The tag of RFC 8439, section 2.5.2.\<close>

lemma poly1305_rfc8439:
  "rbind (fromhex ''85d6be7857556d337f4452fe42d506a80103808afb0db2fd4abff6af4149f51b'') (\<lambda>key.
     poly1305_mac key (ascii ''Cryptographic Forum Research Group'')) =
   fromhex ''a8061dc1305136c6c22b8baf0c0127a9''"
  by code_simp

end
