(* ===== verification/Aead.thy ===== *)
theory Aead
  imports Chacha20 Poly1305
begin

text \<open>
  \<open>crypto/aead.py\<close>: the storage AEAD, ChaCha20-Poly1305. The nonce that \<open>seal\<close> draws from
  \<open>secrets\<close> is an argument. The lemmas show the round trip, that \<open>open_\<close> accepts exactly
  the values \<open>seal\<close> makes for the same key and associated data, and that the authenticated
  message determines both the associated data and the ciphertext.
\<close>

definition NONCE_LEN :: nat where "NONCE_LEN = 12"
definition TAG_LEN :: nat where "TAG_LEN = 16"

text \<open>\<open>bytes(-len(data) % 16)\<close>\<close>

definition pad16 :: "bytes \<Rightarrow> bytes" where
  "pad16 data = zeros (nat ((- int (length data)) mod 16))"

definition mac_data :: "bytes \<Rightarrow> bytes \<Rightarrow> exn + bytes" where
  "mac_data aad ciphertext =
     rbind (pack_le 8 (int (length aad))) (\<lambda>la.
     rbind (pack_le 8 (int (length ciphertext))) (\<lambda>lc.
     Inr (aad @ pad16 aad @ ciphertext @ pad16 ciphertext @ la @ lc)))"

definition aead_tag :: "bytes \<Rightarrow> bytes \<Rightarrow> bytes \<Rightarrow> exn + bytes" where
  "aead_tag otk aad ciphertext = rbind (mac_data aad ciphertext) (poly1305_mac otk)"

definition seal_with_nonce :: "bytes \<Rightarrow> bytes \<Rightarrow> bytes \<Rightarrow> bytes \<Rightarrow> exn + bytes" where
  "seal_with_nonce key nonce plaintext aad =
     rbind (chacha20_xor key nonce (zeros 32) 0) (\<lambda>otk.
     rbind (chacha20_xor key nonce plaintext 1) (\<lambda>ciphertext.
     rbind (aead_tag otk aad ciphertext) (\<lambda>tag.
     Inr (nonce @ ciphertext @ tag))))"

text \<open>\<open>seal\<close>, given the bytes \<open>secrets.token_bytes(NONCE_LEN)\<close> returns.\<close>

definition seal :: "bytes \<Rightarrow> bytes \<Rightarrow> bytes \<Rightarrow> bytes \<Rightarrow> exn + bytes" where
  "seal drawn key plaintext aad =
     (if length key \<noteq> 32 then Inl (ValueError ''key must be 32 bytes'')
      else seal_with_nonce key drawn plaintext aad)"

definition aead_open :: "bytes \<Rightarrow> bytes \<Rightarrow> bytes \<Rightarrow> exn + bytes" where
  "aead_open key sealed aad =
     (if length key \<noteq> 32 then Inl (ValueError ''key must be 32 bytes'')
      else if length sealed < NONCE_LEN + TAG_LEN
      then Inl (AuthenticationFailed ''sealed value too short'')
      else
        let nonce = take NONCE_LEN sealed;
            ciphertext = slice NONCE_LEN (length sealed - TAG_LEN) sealed;
            tag = drop (length sealed - TAG_LEN) sealed
        in rbind (chacha20_xor key nonce (zeros 32) 0) (\<lambda>otk.
           rbind (aead_tag otk aad ciphertext) (\<lambda>t.
           if t \<noteq> tag then Inl (AuthenticationFailed ''authentication failed'')
           else chacha20_xor key nonce ciphertext 1)))"

section \<open>The message under the tag\<close>

lemma length_pad16: "length (xs @ pad16 xs) mod 16 = 0"
proof -
  have "int (length (xs @ pad16 xs)) = int (length xs) + (- int (length xs)) mod 16"
    by (simp add: pad16_def)
  then have "int (length (xs @ pad16 xs)) mod 16 = 0" by (simp add: mod_add_right_eq)
  then show ?thesis by presburger
qed

definition fits :: "bytes \<Rightarrow> bool" where
  "fits xs \<longleftrightarrow> length xs < 2 ^ 64"

lemma mac_data_fits:
  "fits aad \<Longrightarrow> fits c \<Longrightarrow> mac_data aad c =
     Inr (aad @ pad16 aad @ c @ pad16 c @ to_le 8 (int (length aad)) @ to_le 8 (int (length c)))"
  by (simp add: mac_data_def pack_le_def fits_def)

lemma mac_data_inject:
  assumes "fits aad" "fits c" "fits aad'" "fits c'" and "mac_data aad c = mac_data aad' c'"
  shows "aad = aad' \<and> c = c'"
proof -
  let ?body = "\<lambda>a c. a @ pad16 a @ c @ pad16 c"
  let ?len = "\<lambda>a c. to_le 8 (int (length a)) @ to_le 8 (int (length c))"
  from assms have "?body aad c @ ?len aad c = ?body aad' c' @ ?len aad' c'"
    by (simp add: mac_data_fits)
  moreover have "length (?len aad c) = length (?len aad' c')" by simp
  ultimately have b: "?body aad c = ?body aad' c'" and l: "?len aad c = ?len aad' c'"
    using append_eq_append_conv by blast+
  from l have "to_le 8 (int (length aad)) = to_le 8 (int (length aad'))"
    "to_le 8 (int (length c)) = to_le 8 (int (length c'))"
    by (metis append_eq_append_conv length_to_le)+
  then have la: "length aad = length aad'" "length c = length c'"
    using to_le_inject [of "int (length aad)" 8 "int (length aad')"]
      to_le_inject [of "int (length c)" 8 "int (length c')"] assms(1-4)
    by (simp_all add: fits_def)
  with b have "aad = aad'" "pad16 aad @ c @ pad16 c = pad16 aad' @ c' @ pad16 c'"
    by (metis append_eq_append_conv)+
  then show ?thesis using la by (simp add: append_eq_append_conv)
qed

lemma aead_tag_total:
  assumes "fits aad" and "fits c" and "length otk = 32"
  shows "\<exists>t. aead_tag otk aad c = Inr t \<and> length t = 16"
  using poly1305_mac_total [OF assms(3)] assms(1,2) by (auto simp: aead_tag_def mac_data_fits)

section \<open>Sealing and opening\<close>

lemma chacha_out:
  "length key = 32 \<Longrightarrow> length nonce = 12 \<Longrightarrow>
   \<exists>out. chacha20_xor key nonce data c = Inr out \<and> length out = length data \<and> chacha20_xor key nonce out c = Inr data"
  using xor_chunks_involution [of key nonce c data] by (simp add: chacha20_xor_def)

lemma seal_open:
  assumes "length key = 32" and "length nonce = 12" and "fits aad" and "fits plaintext"
  shows "\<exists>sealed. seal_with_nonce key nonce plaintext aad = Inr sealed
    \<and> length sealed = length plaintext + 28 \<and> take 12 sealed = nonce
    \<and> aead_open key sealed aad = Inr plaintext"
proof -
  obtain otk where otk: "chacha20_xor key nonce (zeros 32) 0 = Inr otk" "length otk = 32"
    using chacha_out [OF assms(1,2), of "zeros 32" 0] by auto
  obtain c where c: "chacha20_xor key nonce plaintext 1 = Inr c" "length c = length plaintext"
      "chacha20_xor key nonce c 1 = Inr plaintext"
    using chacha_out [OF assms(1,2), of plaintext 1] by auto
  from c(2) assms(4) have "fits c" by (simp add: fits_def)
  then obtain t where t: "aead_tag otk aad c = Inr t" "length t = 16"
    using aead_tag_total [OF assms(3) _ otk(2)] by blast
  let ?s = "nonce @ c @ t"
  have "take 12 ?s = nonce" "slice 12 (length ?s - 16) ?s = c" "drop (length ?s - 16) ?s = t"
    using assms(2) t(2) by (simp_all add: slice_def)
  then show ?thesis
    using otk(1) c t assms(1,2)
    by (simp add: seal_with_nonce_def aead_open_def NONCE_LEN_def TAG_LEN_def Let_def)
qed

lemma open_seal:
  assumes "aead_open key sealed aad = Inr plaintext"
  shows "seal_with_nonce key (take 12 sealed) plaintext aad = Inr sealed"
proof -
  let ?n = "take 12 sealed" and ?c = "slice 12 (length sealed - 16) sealed"
  from assms have k: "length key = 32" and l: "28 \<le> length sealed"
    by (auto simp: aead_open_def NONCE_LEN_def TAG_LEN_def split: if_splits)
  have n: "length ?n = 12" using l by simp
  from assms obtain otk where otk: "chacha20_xor key ?n (zeros 32) 0 = Inr otk"
      "aead_tag otk aad ?c = Inr (drop (length sealed - 16) sealed)"
      "chacha20_xor key ?n ?c 1 = Inr plaintext"
    by (auto simp: aead_open_def NONCE_LEN_def TAG_LEN_def Let_def rbind_Inr_iff split: if_splits)
  have "chacha20_xor key ?n plaintext 1 = Inr ?c"
    using chacha_out [OF k n, of ?c 1] otk(3) by auto
  moreover have "sealed = ?n @ ?c @ drop (length sealed - 16) sealed"
  proof -
    have "?n @ ?c = take (length sealed - 16) sealed"
      using slice_concat [of 0 12 "length sealed - 16" sealed] l by (simp add: slice_def)
    then show ?thesis by (metis append.assoc append_take_drop_id)
  qed
  ultimately show ?thesis using otk(1,2) by (simp add: seal_with_nonce_def)
qed

section \<open>Properties\<close>

text \<open>
  What \<open>seal\<close> makes, \<open>open_\<close> opens: for a 32-byte key and the 12 bytes that were drawn,
  sealing returns 28 bytes more than the plaintext, and opening under the same associated
  data returns the plaintext.
\<close>

theorem seal_open_roundtrip:
  assumes "length key = 32" and "length drawn = 12" and "fits aad" and "fits plaintext"
  shows "\<exists>sealed. seal drawn key plaintext aad = Inr sealed \<and> length sealed = length plaintext + 28
    \<and> aead_open key sealed aad = Inr plaintext"
  using seal_open [OF assms] assms(1) by (auto simp: seal_def)

lemma seal_open_roundtrip_witness:
  "\<exists>sealed. seal (zeros 12) (zeros 32) [1, 2] [3] = Inr sealed \<and> aead_open (zeros 32) sealed [3] = Inr [1, 2]"
  using seal_open_roundtrip [of "zeros 32" "zeros 12" "[3]" "[1, 2]"] by (auto simp: fits_def)

text \<open>
  C13: \<open>open_\<close> accepts nothing but sealed values. Whatever it opens is byte for byte what
  sealing the returned plaintext under the same key, nonce and associated data makes.
\<close>

theorem open_accepts_only_seals:
  assumes "aead_open key sealed aad = Inr plaintext"
  shows "seal (take 12 sealed) key plaintext aad = Inr sealed"
proof -
  have "length key = 32" using assms by (auto simp: aead_open_def split: if_splits)
  then show ?thesis using open_seal [OF assms] by (simp add: seal_def)
qed

lemma open_accepts_only_seals_witness:
  "\<exists>sealed. aead_open (zeros 32) sealed [3] = Inr [1, 2] \<and> seal (take 12 sealed) (zeros 32) [1, 2] [3] = Inr sealed"
proof -
  obtain sealed where "aead_open (zeros 32) sealed [3] = Inr [1, 2]"
    using seal_open [of "zeros 32" "zeros 12" "[3]" "[1, 2]"] by (auto simp: fits_def)
  with open_accepts_only_seals [OF this] show ?thesis by blast
qed

text \<open>
  The authenticated message fixes where the associated data ends and the ciphertext
  begins: two pairs with the same message are the same pair.
\<close>

theorem mac_data_boundary:
  assumes "fits aad" "fits c" "fits aad'" "fits c'" and "mac_data aad c = mac_data aad' c'"
  shows "aad = aad' \<and> c = c'"
  by (rule mac_data_inject [OF assms])

lemma mac_data_boundary_witness: "mac_data [0] [] \<noteq> mac_data [] [0]"
  using mac_data_boundary [of "[0]" "[]" "[]" "[0]"] by (auto simp: fits_def)

end
