(* ===== verification/Store.thy ===== *)
theory Store
  imports Keys Aead Utf8 Watch_Index
begin

text \<open>
  \<open>storage/store.py\<close> over the schema of \<open>storage/schema.py\<close>: the tables as lists of rows, the
  \<open>AUTOINCREMENT\<close> counters, each method as the statements it runs. SQLite's \<open>CHECK\<close>,
  \<open>UNIQUE\<close> and foreign-key rules are part of the statements; \<open>with self._db\<close> is
  \<open>transaction\<close>, which undoes every change when its body raises. A status column is an
  enumeration, which is what its \<open>CHECK\<close> admits. What the program takes from outside is an
  argument: the bytes \<open>secrets\<close> draws, the day \<open>self._today()\<close> returns, and what SQLite
  answers to \<open>VACUUM\<close> and the checkpoint, which another connection can block. No other statement is
  taken to meet a database that another process keeps locked beyond the busy timeout: there it would raise
  \<open>OperationalError\<close> out of its method, and the transaction around it would change nothing. Ids are taken to be in SQLite's range.
  The lock serialises whole methods, so that one method is one step.
\<close>

section \<open>Rows and tables\<close>

datatype item_status = ARMING | ARMED | ACTIVE | PAUSED | STOPPED
datatype watch_status = W_ACTIVE | W_GRACE | W_STOPPED

record watch_row =
  w_id :: int
  w_token_hash :: bytes
  w_balance_sats :: int
  w_status :: watch_status
  w_alarm_undelivered :: int
  w_created_at :: int

record item_row =
  i_id :: int
  i_watch_id :: int
  i_chain :: string
  i_spk_hmac :: bytes
  i_spk_ct :: bytes
  i_label_ct :: bytes
  i_incoming_mode :: string
  i_status :: item_status
  i_drip_rate :: int
  i_created_at :: int

record channel_row =
  c_id :: int
  c_watch_id :: int
  c_kind :: string
  c_dest_ct :: bytes
  c_privacy_ack :: bool
  c_verified_at :: "int option"

record route_row =
  r_item_id :: int
  r_channel_id :: int
  r_min_severity :: string

record outbox_row =
  o_id :: int
  o_item_id :: int
  o_channel_id :: int
  o_kind :: string
  o_direction :: "string option"
  o_attempts :: int
  o_next_try_at :: int

text \<open>\<open>seq_*\<close> is the table's row of \<open>sqlite_sequence\<close>: the highest id it has ever issued.\<close>

record db =
  db_watch :: "watch_row list"
  db_item :: "item_row list"
  db_utxo :: "(int \<times> bytes) list"
  db_channel :: "channel_row list"
  db_route :: "route_row list"
  db_outbox :: "outbox_row list"
  seq_watch :: int
  seq_item :: int
  seq_channel :: int
  seq_outbox :: int
  db_user_version :: int
  db_busy_timeout :: int

record store =
  st_keys :: subkeys
  st_db :: db

definition TOKEN_BYTES :: nat where "TOKEN_BYTES = 32"
definition AAD_SPK :: bytes where "AAD_SPK = ascii ''spk''"
definition AAD_LABEL :: bytes where "AAD_LABEL = ascii ''label''"
definition AAD_DEST :: bytes where "AAD_DEST = ascii ''dest''"
definition TRACKED :: "item_status list" where "TRACKED = [ARMED, ACTIVE, PAUSED]"
definition SCHEMA_VERSION :: int where "SCHEMA_VERSION = 1"
definition BUSY_TIMEOUT_MS :: int where "BUSY_TIMEOUT_MS = 5000"

definition aad_for :: "bytes \<Rightarrow> int \<Rightarrow> exn + bytes" where
  "aad_for purpose watch_id = rbind (pack_le 8 watch_id) (\<lambda>w. Inr (purpose @ w))"

section \<open>Running statements\<close>

type_synonym 'a st = "(store, 'a) py"

text \<open>\<open>with self._db:\<close> commits when the body returns and rolls back when it raises.\<close>

definition transaction :: "'a st \<Rightarrow> 'a st" where
  "transaction body = (\<lambda>s. case body s of (Inl e, _) \<Rightarrow> (Inl e, s) | r \<Rightarrow> r)"

definition query :: "(db \<Rightarrow> 'a) \<Rightarrow> 'a st" where
  "query q = gets (\<lambda>s. q (st_db s))"

definition exec :: "(db \<Rightarrow> db) \<Rightarrow> unit st" where
  "exec u = modify (\<lambda>s. s\<lparr>st_db := u (st_db s)\<rparr>)"

definition require :: "'a option \<Rightarrow> exn \<Rightarrow> 'a st" where
  "require x e = (case x of None \<Rightarrow> throw e | Some v \<Rightarrow> ret v)"

definition find_watch :: "int \<Rightarrow> db \<Rightarrow> watch_row option" where
  "find_watch i d = find (\<lambda>w. w_id w = i) (db_watch d)"

definition find_item :: "int \<Rightarrow> db \<Rightarrow> item_row option" where
  "find_item i d = find (\<lambda>r. i_id r = i) (db_item d)"

definition find_channel :: "int \<Rightarrow> db \<Rightarrow> channel_row option" where
  "find_channel i d = find (\<lambda>c. c_id c = i) (db_channel d)"

definition require_watch :: "int \<Rightarrow> unit st" where
  "require_watch i = bind (query (find_watch i)) (\<lambda>w. bind (require w (UnknownRow [i])) (\<lambda>_. ret ()))"

definition require_item :: "int \<Rightarrow> unit st" where
  "require_item i = bind (query (find_item i)) (\<lambda>r. bind (require r (UnknownRow [i])) (\<lambda>_. ret ()))"

section \<open>Opening\<close>

definition empty_db :: db where
  "empty_db = \<lparr>db_watch = [], db_item = [], db_utxo = [], db_channel = [], db_route = [],
     db_outbox = [], seq_watch = 0, seq_item = 0, seq_channel = 0, seq_outbox = 0, db_user_version = 0,
     db_busy_timeout = BUSY_TIMEOUT_MS\<rparr>"

text \<open>\<open>journal_mode\<close> is what SQLite answers to \<open>PRAGMA journal_mode=WAL\<close> for a file.\<close>

definition open_store :: "string \<Rightarrow> subkeys \<Rightarrow> string \<Rightarrow> db \<Rightarrow> exn + store" where
  "open_store path keys journal_mode file =
     (if path \<noteq> '':memory:'' \<and> journal_mode \<notin> {''wal'', ''memory''}
      then Inl (RuntimeError ''database refused WAL mode'')
      else if db_user_version file > SCHEMA_VERSION
      then Inl (RuntimeError ''database schema version is newer'')
      else Inr \<lparr>st_keys = keys, st_db = file\<lparr>db_user_version := SCHEMA_VERSION,
                  db_busy_timeout := BUSY_TIMEOUT_MS\<rparr>\<rparr>)"

section \<open>Tenants\<close>

definition insert_watch :: "bytes \<Rightarrow> int \<Rightarrow> db \<Rightarrow> db" where
  "insert_watch h today d =
     d\<lparr>db_watch := db_watch d @ [\<lparr>w_id = seq_watch d + 1, w_token_hash = h, w_balance_sats = 0,
         w_status = W_ACTIVE, w_alarm_undelivered = 0, w_created_at = today\<rparr>],
       seq_watch := seq_watch d + 1\<rparr>"

definition create_watch :: "bytes \<Rightarrow> int \<Rightarrow> (bytes \<times> int) st" where
  "create_watch token today =
     transaction (bind (query id) (\<lambda>d.
       bind (check (sha256 token \<notin> w_token_hash ` set (db_watch d)) IntegrityError) (\<lambda>_.
       bind (exec (insert_watch (sha256 token) today)) (\<lambda>_.
       ret (token, seq_watch d + 1)))))"

record watch =
  wv_id :: int
  wv_status :: watch_status
  wv_balance_sats :: int
  wv_alarm_undelivered :: bool

definition watch_view :: "watch_row \<Rightarrow> watch" where
  "watch_view w = \<lparr>wv_id = w_id w, wv_status = w_status w, wv_balance_sats = w_balance_sats w,
     wv_alarm_undelivered = (w_alarm_undelivered w \<noteq> 0)\<rparr>"

definition watch_by_token :: "bytes \<Rightarrow> watch option st" where
  "watch_by_token token = query (\<lambda>d.
     map_option watch_view (find (\<lambda>w. w_token_hash w = sha256 token) (db_watch d)))"

definition get_watch :: "int \<Rightarrow> watch st" where
  "get_watch watch_id = bind (query (find_watch watch_id)) (\<lambda>w.
     bind (require w (UnknownRow [watch_id])) (\<lambda>w. ret (watch_view w)))"

text \<open>
  \<open>DELETE FROM watch WHERE id = ?\<close> with the cascades of the schema: items and channels of
  the watch, and coins, routes and outbox rows of those.
\<close>

definition delete_watch :: "int \<Rightarrow> db \<Rightarrow> db" where
  "delete_watch watch_id d =
     (let gone_i = i_id ` {r \<in> set (db_item d). i_watch_id r = watch_id};
          gone_c = c_id ` {c \<in> set (db_channel d). c_watch_id c = watch_id}
      in d\<lparr>db_watch := filter (\<lambda>w. w_id w \<noteq> watch_id) (db_watch d),
           db_item := filter (\<lambda>r. i_watch_id r \<noteq> watch_id) (db_item d),
           db_utxo := filter (\<lambda>(i, _). i \<notin> gone_i) (db_utxo d),
           db_channel := filter (\<lambda>c. c_watch_id c \<noteq> watch_id) (db_channel d),
           db_route := filter (\<lambda>r. r_item_id r \<notin> gone_i \<and> r_channel_id r \<notin> gone_c) (db_route d),
           db_outbox := filter (\<lambda>b. o_item_id b \<notin> gone_i \<and> o_channel_id b \<notin> gone_c) (db_outbox d)\<rparr>)"

text \<open>
  What \<open>VACUUM\<close> and \<open>PRAGMA wal_checkpoint(TRUNCATE)\<close> answer: the checkpoint's busy flag, or
  the error code of the step that failed.
\<close>

datatype scrub_answer = Checkpointed int | Failed int

definition SQLITE_BUSY :: int where "SQLITE_BUSY = 5"
definition SQLITE_LOCKED :: int where "SQLITE_LOCKED = 6"

definition scrub :: "scrub_answer \<Rightarrow> int option \<Rightarrow> unit st" where
  "scrub answer watch_id =
     bind (exec (\<lambda>d. d\<lparr>db_busy_timeout := 0\<rparr>)) (\<lambda>_.
     bind (exec (\<lambda>d. d\<lparr>db_busy_timeout := BUSY_TIMEOUT_MS\<rparr>)) (\<lambda>_.
     case answer of
       Failed code \<Rightarrow>
         if code mod 256 \<in> {SQLITE_BUSY, SQLITE_LOCKED} then throw (PurgeIncomplete watch_id)
         else throw (OperationalError code)
     | Checkpointed busy \<Rightarrow> if busy \<noteq> 0 then throw (PurgeIncomplete watch_id) else ret ()))"

definition purge_watch :: "scrub_answer \<Rightarrow> int \<Rightarrow> unit st" where
  "purge_watch answer watch_id =
     bind (transaction (bind (query (find_watch watch_id)) (\<lambda>w.
       bind (exec (delete_watch watch_id)) (\<lambda>_.
       check (w \<noteq> None) (UnknownRow [watch_id]))))) (\<lambda>_.
     scrub answer (Some watch_id))"

definition finish_purge :: "scrub_answer \<Rightarrow> unit st" where
  "finish_purge answer = scrub answer None"

section \<open>Items\<close>

definition insert_item :: "int \<Rightarrow> string \<Rightarrow> bytes \<Rightarrow> bytes \<Rightarrow> bytes \<Rightarrow> string \<Rightarrow> int \<Rightarrow> db \<Rightarrow> db" where
  "insert_item watch_id chain h spk_ct label_ct incoming_mode today d =
     d\<lparr>db_item := db_item d @ [\<lparr>i_id = seq_item d + 1, i_watch_id = watch_id, i_chain = chain,
         i_spk_hmac = h, i_spk_ct = spk_ct, i_label_ct = label_ct, i_incoming_mode = incoming_mode,
         i_status = ARMING, i_drip_rate = 10, i_created_at = today\<rparr>],
       seq_item := seq_item d + 1\<rparr>"

text \<open>\<open>nonces\<close> are the two draws of \<open>seal\<close>, for the script and for the label.\<close>

definition add_item :: "bytes \<times> bytes \<Rightarrow> int \<Rightarrow> int \<Rightarrow> string \<Rightarrow> bytes \<Rightarrow> py_str \<Rightarrow> string \<Rightarrow> int st" where
  "add_item nonces today watch_id chain spk label incoming_mode =
     transaction (bind (require_watch watch_id) (\<lambda>_.
     bind (gets st_keys) (\<lambda>keys.
     bind (lift_exn (rbind (aad_for AAD_SPK watch_id) (seal (fst nonces) (sk_store keys) spk))) (\<lambda>spk_ct.
     bind (lift_exn (rbind (utf8_encode label) (\<lambda>l.
       rbind (aad_for AAD_LABEL watch_id) (seal (snd nonces) (sk_store keys) l)))) (\<lambda>label_ct.
     bind (check (incoming_mode \<in> {''info'', ''mute''}) IntegrityError) (\<lambda>_.
     bind (query seq_item) (\<lambda>seq.
     bind (exec (insert_item watch_id chain (spk_hmac (sk_match keys) spk) spk_ct label_ct
             incoming_mode today)) (\<lambda>_.
     ret (seq + 1)))))))))"

record item =
  iv_id :: int
  iv_watch_id :: int
  iv_chain :: string
  iv_status :: item_status
  iv_incoming_mode :: string
  iv_drip_rate :: int

definition item_view :: "item_row \<Rightarrow> item" where
  "item_view r = \<lparr>iv_id = i_id r, iv_watch_id = i_watch_id r, iv_chain = i_chain r,
     iv_status = i_status r, iv_incoming_mode = i_incoming_mode r, iv_drip_rate = i_drip_rate r\<rparr>"

definition get_item :: "int \<Rightarrow> item st" where
  "get_item item_id = bind (query (find_item item_id)) (\<lambda>r.
     bind (require r (UnknownRow [item_id])) (\<lambda>r. ret (item_view r)))"

definition items_of :: "int \<Rightarrow> item list st" where
  "items_of watch_id = query (\<lambda>d.
     map item_view (sort_key i_id (filter (\<lambda>r. i_watch_id r = watch_id) (db_item d))))"

definition item_spk :: "int \<Rightarrow> bytes st" where
  "item_spk item_id = bind (query (find_item item_id)) (\<lambda>r.
     bind (require r (UnknownRow [item_id])) (\<lambda>r.
     bind (gets st_keys) (\<lambda>keys.
     lift_exn (rbind (aad_for AAD_SPK (i_watch_id r)) (aead_open (sk_store keys) (i_spk_ct r))))))"

definition item_label :: "int \<Rightarrow> py_str st" where
  "item_label item_id = bind (query (find_item item_id)) (\<lambda>r.
     bind (require r (UnknownRow [item_id])) (\<lambda>r.
     bind (gets st_keys) (\<lambda>keys.
     lift_exn (rbind (rbind (aad_for AAD_LABEL (i_watch_id r)) (aead_open (sk_store keys) (i_label_ct r)))
       utf8_decode))))"

definition set_status :: "int \<Rightarrow> item_status \<Rightarrow> db \<Rightarrow> db" where
  "set_status item_id new d =
     d\<lparr>db_item := map (\<lambda>r. if i_id r = item_id then r\<lparr>i_status := new\<rparr> else r) (db_item d)\<rparr>"

definition has_status :: "int \<Rightarrow> item_status \<Rightarrow> db \<Rightarrow> bool" where
  "has_status item_id old d \<longleftrightarrow> (\<exists>r \<in> set (db_item d). i_id r = item_id \<and> i_status r = old)"

text \<open>\<open>UPDATE watch_item SET status = to WHERE id = ? AND status = from\<close>, with its row count.\<close>

definition update_status :: "int \<Rightarrow> item_status \<Rightarrow> item_status \<Rightarrow> bool st" where
  "update_status item_id old new =
     bind (query (has_status item_id old)) (\<lambda>hit.
     if hit then bind (exec (set_status item_id new)) (\<lambda>_. ret True) else ret False)"

definition insert_utxo :: "int \<Rightarrow> bytes \<Rightarrow> db \<Rightarrow> db" where
  "insert_utxo item_id h d = d\<lparr>db_utxo := append_new (item_id, h) (db_utxo d)\<rparr>"

definition arm :: "int \<Rightarrow> bytes list \<Rightarrow> unit st" where
  "arm item_id outpoint_hmacs =
     transaction (bind (update_status item_id ARMING ARMED) (\<lambda>hit.
     if \<not> hit then bind (require_item item_id) (\<lambda>_. throw (NotArmable item_id))
     else exec (fold (insert_utxo item_id) outpoint_hmacs)))"

definition has_verified_route :: "int \<Rightarrow> db \<Rightarrow> bool" where
  "has_verified_route item_id d \<longleftrightarrow> (\<exists>r \<in> set (db_route d). \<exists>c \<in> set (db_channel d).
     r_item_id r = item_id \<and> c_id c = r_channel_id r \<and> c_verified_at c \<noteq> None)"

definition activate :: "int \<Rightarrow> unit st" where
  "activate item_id =
     transaction (bind (query (find_item item_id)) (\<lambda>r.
     bind (require r (UnknownRow [item_id])) (\<lambda>r.
     bind (query (has_verified_route item_id)) (\<lambda>verified.
     bind (check (\<not> (i_status r \<noteq> ARMED \<or> \<not> verified)) (NotActivatable item_id)) (\<lambda>_.
     exec (set_status item_id ACTIVE))))))"

definition transition :: "int \<Rightarrow> item_status \<Rightarrow> item_status \<Rightarrow> unit st" where
  "transition item_id old new =
     transaction (bind (update_status item_id old new) (\<lambda>hit.
     if hit then ret ()
     else bind (require_item item_id) (\<lambda>_. throw (BadTransition item_id))))"

definition pause :: "int \<Rightarrow> unit st" where
  "pause item_id = transition item_id ACTIVE PAUSED"

definition resume_item :: "int \<Rightarrow> unit st" where
  "resume_item item_id = transition item_id PAUSED ACTIVE"

definition delete_coins :: "int \<Rightarrow> db \<Rightarrow> db" where
  "delete_coins item_id d = d\<lparr>db_utxo := filter (\<lambda>(i, _). i \<noteq> item_id) (db_utxo d)\<rparr>"

definition stop_item :: "int \<Rightarrow> unit st" where
  "stop_item item_id =
     transaction (bind (require_item item_id) (\<lambda>_.
     bind (exec (delete_coins item_id)) (\<lambda>_.
     exec (set_status item_id STOPPED))))"

section \<open>Channels and routes\<close>

definition insert_channel :: "int \<Rightarrow> string \<Rightarrow> bytes \<Rightarrow> bool \<Rightarrow> db \<Rightarrow> db" where
  "insert_channel watch_id kind dest_ct privacy_ack d =
     d\<lparr>db_channel := db_channel d @ [\<lparr>c_id = seq_channel d + 1, c_watch_id = watch_id,
         c_kind = kind, c_dest_ct = dest_ct, c_privacy_ack = privacy_ack, c_verified_at = None\<rparr>],
       seq_channel := seq_channel d + 1\<rparr>"

definition add_channel :: "bytes \<Rightarrow> int \<Rightarrow> string \<Rightarrow> py_str \<Rightarrow> bool \<Rightarrow> int st" where
  "add_channel nonce watch_id kind dest privacy_ack =
     transaction (bind (require_watch watch_id) (\<lambda>_.
     bind (gets st_keys) (\<lambda>keys.
     bind (lift_exn (rbind (utf8_encode dest) (\<lambda>b.
       rbind (aad_for AAD_DEST watch_id) (seal nonce (sk_store keys) b)))) (\<lambda>dest_ct.
     bind (query seq_channel) (\<lambda>seq.
     bind (exec (insert_channel watch_id kind dest_ct privacy_ack)) (\<lambda>_.
     ret (seq + 1)))))))"

definition channel_dest :: "int \<Rightarrow> py_str st" where
  "channel_dest channel_id = bind (query (find_channel channel_id)) (\<lambda>c.
     bind (require c (UnknownRow [channel_id])) (\<lambda>c.
     bind (gets st_keys) (\<lambda>keys.
     lift_exn (rbind (rbind (aad_for AAD_DEST (c_watch_id c)) (aead_open (sk_store keys) (c_dest_ct c)))
       utf8_decode))))"

definition set_verified :: "int \<Rightarrow> int \<Rightarrow> db \<Rightarrow> db" where
  "set_verified today channel_id d =
     d\<lparr>db_channel := map (\<lambda>c. if c_id c = channel_id then c\<lparr>c_verified_at := Some today\<rparr> else c)
         (db_channel d)\<rparr>"

definition mark_verified :: "int \<Rightarrow> int \<Rightarrow> unit st" where
  "mark_verified today channel_id =
     transaction (bind (query (find_channel channel_id)) (\<lambda>c.
     bind (exec (set_verified today channel_id)) (\<lambda>_.
     check (c \<noteq> None) (UnknownRow [channel_id]))))"

definition put_route :: "route_row \<Rightarrow> db \<Rightarrow> db" where
  "put_route r d = d\<lparr>db_route := filter (\<lambda>q. \<not> (r_item_id q = r_item_id r \<and> r_channel_id q = r_channel_id r))
     (db_route d) @ [r]\<rparr>"

definition route :: "int \<Rightarrow> int \<Rightarrow> string \<Rightarrow> unit st" where
  "route item_id channel_id min_severity =
     transaction (bind (query (find_item item_id)) (\<lambda>i.
     bind (query (find_channel channel_id)) (\<lambda>c.
     bind (require i (UnknownRow [item_id, channel_id])) (\<lambda>i.
     bind (require c (UnknownRow [item_id, channel_id])) (\<lambda>c.
     bind (check (i_watch_id i = c_watch_id c)
             (ValueError ''item and channel belong to different watches'')) (\<lambda>_.
     bind (check (min_severity \<in> {''info'', ''alarm''}) IntegrityError) (\<lambda>_.
     exec (put_route \<lparr>r_item_id = item_id, r_channel_id = channel_id, r_min_severity = min_severity\<rparr>))))))))"

record channel_view =
  cv_id :: int
  cv_kind :: string
  cv_privacy_ack :: bool
  cv_verified :: bool
  cv_min_severity :: string

definition channels_for :: "int \<Rightarrow> channel_view list st" where
  "channels_for item_id = query (\<lambda>d.
     sort_key cv_id (concat (map (\<lambda>r. map (\<lambda>c. \<lparr>cv_id = c_id c, cv_kind = c_kind c,
         cv_privacy_ack = c_privacy_ack c, cv_verified = (c_verified_at c \<noteq> None),
         cv_min_severity = r_min_severity r\<rparr>)
       (filter (\<lambda>c. c_id c = r_channel_id r) (db_channel d)))
     (filter (\<lambda>r. r_item_id r = item_id) (db_route d)))))"

section \<open>What the matching loop sees\<close>

definition is_tracked :: "item_row \<Rightarrow> bool" where
  "is_tracked r \<longleftrightarrow> i_status r \<in> set TRACKED"

definition store_items_watching_spk :: "store \<Rightarrow> bytes \<Rightarrow> int list" where
  "store_items_watching_spk s h =
     sort (map i_id (filter (\<lambda>r. i_spk_hmac r = h \<and> is_tracked r) (db_item (st_db s))))"

definition store_items_owning_outpoint :: "store \<Rightarrow> bytes \<Rightarrow> int list" where
  "store_items_owning_outpoint s h =
     sort (map fst (filter (\<lambda>(_, g). g = h) (db_utxo (st_db s))))"

definition tracked_item :: "db \<Rightarrow> int \<Rightarrow> bool" where
  "tracked_item d item_id \<longleftrightarrow> (\<exists>r \<in> set (db_item d). i_id r = item_id \<and> is_tracked r)"

definition store_add_outpoint :: "int \<Rightarrow> bytes \<Rightarrow> store \<Rightarrow> store" where
  "store_add_outpoint item_id h s =
     (if tracked_item (st_db s) item_id then s\<lparr>st_db := insert_utxo item_id h (st_db s)\<rparr> else s)"

definition store_drop_outpoint :: "int \<Rightarrow> bytes \<Rightarrow> store \<Rightarrow> store" where
  "store_drop_outpoint item_id h s =
     s\<lparr>st_db := (st_db s)\<lparr>db_utxo := filter (\<lambda>c. c \<noteq> (item_id, h)) (db_utxo (st_db s))\<rparr>\<rparr>"

definition outpoint_count :: "int \<Rightarrow> nat st" where
  "outpoint_count item_id = query (\<lambda>d. length (filter (\<lambda>(i, _). i = item_id) (db_utxo d)))"

definition store_ops :: "store index_ops" where
  "store_ops = \<lparr>items_watching_spk = store_items_watching_spk,
     items_owning_outpoint = store_items_owning_outpoint,
     add_outpoint = store_add_outpoint, drop_outpoint = store_drop_outpoint\<rparr>"

end
