(* ===== verification/Store_Invariant.thy ===== *)
theory Store_Invariant
  imports Store
begin

text \<open>
  What every reachable database satisfies, whatever the callers do. The changes a method
  can make are first read off its definition, one lemma a method; the invariant is then
  shown for each kind of change, and lifted to reachable states by rule induction.
\<close>

section \<open>What a method can change\<close>

definition on_db :: "(db \<Rightarrow> db) \<Rightarrow> store \<Rightarrow> store" where
  "on_db u s = s\<lparr>st_db := u (st_db s)\<rparr>"

lemma on_db_simps [simp]: "st_db (on_db u s) = u (st_db s)" "st_keys (on_db u s) = st_keys s"
  by (simp_all add: on_db_def)

lemmas st_simps = transaction_def query_def exec_def require_def py_simps on_db_def Let_def

lemma create_watch_effect:
  assumes "create_watch token today s = (r, s')"
  shows "s' = s \<or> r = Inr (token, seq_watch (st_db s) + 1) \<and> s' = on_db (insert_watch (sha256 token) today) s
    \<and> sha256 token \<notin> w_token_hash ` set (db_watch (st_db s))"
  using assms by (auto simp: create_watch_def st_simps split: if_split_asm)

lemma require_watch_run:
  "require_watch i s = (case find_watch i (st_db s) of None \<Rightarrow> (Inl (UnknownRow [i]), s) | Some _ \<Rightarrow> (Inr (), s))"
  by (simp add: require_watch_def st_simps split: option.split)

lemma require_item_run:
  "require_item i s = (case find_item i (st_db s) of None \<Rightarrow> (Inl (UnknownRow [i]), s) | Some _ \<Rightarrow> (Inr (), s))"
  by (simp add: require_item_def st_simps split: option.split)

lemma transaction_cases:
  assumes "transaction body s = (r, s')"
  obtains (rolled_back) e where "r = Inl e" "s' = s" | (committed) x where "r = Inr x" "body s = (Inr x, s')"
  using assms by (auto simp: transaction_def split: prod.splits sum.splits)

lemma add_item_effect:
  assumes "add_item nonces today w chain spk label mode s = (r, s')"
  shows "s' = s \<or> (\<exists>spk_ct label_ct. r = Inr (seq_item (st_db s) + 1)
      \<and> s' = on_db (insert_item w chain (spk_hmac (sk_match (st_keys s)) spk) spk_ct label_ct mode today) s
      \<and> rbind (aad_for AAD_SPK w) (seal (fst nonces) (sk_store (st_keys s)) spk) = Inr spk_ct
      \<and> rbind (utf8_encode label) (\<lambda>l.
          rbind (aad_for AAD_LABEL w) (seal (snd nonces) (sk_store (st_keys s)) l)) = Inr label_ct
      \<and> find_watch w (st_db s) \<noteq> None)"
  using assms unfolding add_item_def
  by (rule transaction_cases)
     (auto simp: bind_returns_iff require_watch_run st_simps split: option.splits sum.splits if_split_asm)

lemma update_status_run:
  "update_status i old new s =
     (if has_status i old (st_db s) then (Inr True, on_db (set_status i new) s) else (Inr False, s))"
  by (simp add: update_status_def st_simps)

lemma arm_effect:
  assumes "arm i hs s = (r, s')"
  shows "s' = s \<or> r = Inr () \<and> has_status i ARMING (st_db s)
    \<and> s' = on_db (fold (insert_utxo i) hs \<circ> set_status i ARMED) s"
  using assms unfolding arm_def
  by (rule transaction_cases)
     (auto simp: bind_returns_iff update_status_run require_item_run st_simps split: option.splits if_split_asm)

lemma activate_effect:
  assumes "activate i s = (r, s')"
  shows "s' = s \<or> r = Inr () \<and> s' = on_db (set_status i ACTIVE) s \<and> has_verified_route i (st_db s)
    \<and> (\<exists>row. find_item i (st_db s) = Some row \<and> i_status row = ARMED)"
  using assms unfolding activate_def
  by (rule transaction_cases)
     (auto simp: bind_returns_iff st_simps split: option.splits if_split_asm)

lemma transition_effect:
  assumes "transition i old new s = (r, s')"
  shows "s' = s \<or> r = Inr () \<and> has_status i old (st_db s) \<and> s' = on_db (set_status i new) s"
  using assms unfolding transition_def
  by (rule transaction_cases)
     (auto simp: bind_returns_iff update_status_run require_item_run st_simps split: option.splits if_split_asm)

lemma stop_item_effect:
  assumes "stop_item i s = (r, s')"
  shows "s' = s \<or> r = Inr () \<and> s' = on_db (set_status i STOPPED \<circ> delete_coins i) s"
  using assms unfolding stop_item_def
  by (rule transaction_cases)
     (auto simp: bind_returns_iff require_item_run st_simps split: option.splits if_split_asm)

lemma add_channel_effect:
  assumes "add_channel nonce w kind dest ack s = (r, s')"
  shows "s' = s \<or> (\<exists>dest_ct. r = Inr (seq_channel (st_db s) + 1)
      \<and> s' = on_db (insert_channel w kind dest_ct ack) s
      \<and> rbind (utf8_encode dest) (\<lambda>b.
          rbind (aad_for AAD_DEST w) (seal nonce (sk_store (st_keys s)) b)) = Inr dest_ct
      \<and> find_watch w (st_db s) \<noteq> None)"
  using assms unfolding add_channel_def
  by (rule transaction_cases)
     (auto simp: bind_returns_iff require_watch_run st_simps split: option.splits sum.splits if_split_asm)

lemma mark_verified_effect:
  assumes "mark_verified today c s = (r, s')"
  shows "s' = s \<or> r = Inr () \<and> s' = on_db (set_verified today c) s"
  using assms unfolding mark_verified_def
  by (rule transaction_cases) (auto simp: bind_returns_iff st_simps split: if_split_asm)

lemma route_effect:
  assumes "route i c sev s = (r, s')"
  shows "s' = s \<or> r = Inr () \<and> s' = on_db (put_route \<lparr>r_item_id = i, r_channel_id = c, r_min_severity = sev\<rparr>) s
    \<and> (\<exists>x y. find_item i (st_db s) = Some x \<and> find_channel c (st_db s) = Some y \<and> i_watch_id x = c_watch_id y)"
  using assms unfolding route_def
  by (rule transaction_cases)
     (auto simp: bind_returns_iff st_simps split: option.splits if_split_asm)

lemma scrub_run: "snd (scrub answer w s) = on_db (\<lambda>d. d\<lparr>db_busy_timeout := BUSY_TIMEOUT_MS\<rparr>) s"
  by (simp add: scrub_def st_simps split: scrub_answer.split)

lemma purge_watch_effect:
  assumes "purge_watch answer w s = (r, s')"
  shows "s' = s \<and> r = Inl (UnknownRow [w]) \<and> find_watch w (st_db s) = None
    \<or> find_watch w (st_db s) \<noteq> None \<and> r = fst (scrub answer (Some w) s)
      \<and> s' = on_db ((\<lambda>d. d\<lparr>db_busy_timeout := BUSY_TIMEOUT_MS\<rparr>) \<circ> delete_watch w) s"
  using assms
  by (auto simp: purge_watch_def scrub_def st_simps split: if_split_asm scrub_answer.splits)

section \<open>The invariant\<close>

text \<open>Primary keys and unique columns; an id in a table never exceeds the table's counter.\<close>

definition keys_ok :: "db \<Rightarrow> bool" where
  "keys_ok d \<longleftrightarrow> distinct (map w_id (db_watch d)) \<and> distinct (map w_token_hash (db_watch d))
     \<and> distinct (map i_id (db_item d)) \<and> distinct (map c_id (db_channel d)) \<and> distinct (db_utxo d)
     \<and> distinct (map (\<lambda>q. (r_item_id q, r_channel_id q)) (db_route d))
     \<and> (\<forall>w \<in> set (db_watch d). w_id w \<le> seq_watch d) \<and> (\<forall>r \<in> set (db_item d). i_id r \<le> seq_item d)
     \<and> (\<forall>c \<in> set (db_channel d). c_id c \<le> seq_channel d)"

text \<open>Foreign keys to the tenant.\<close>

definition refs_ok :: "db \<Rightarrow> bool" where
  "refs_ok d \<longleftrightarrow> (\<forall>r \<in> set (db_item d). i_watch_id r \<in> w_id ` set (db_watch d))
     \<and> (\<forall>c \<in> set (db_channel d). c_watch_id c \<in> w_id ` set (db_watch d))"

text \<open>A coin is only ever held for a tracked item.\<close>

definition coins_ok :: "db \<Rightarrow> bool" where
  "coins_ok d \<longleftrightarrow> (\<forall>(i, h) \<in> set (db_utxo d). tracked_item d i)"

text \<open>A route joins an item and a channel of one tenant.\<close>

definition routes_ok :: "db \<Rightarrow> bool" where
  "routes_ok d \<longleftrightarrow> (\<forall>q \<in> set (db_route d). \<exists>r \<in> set (db_item d). \<exists>c \<in> set (db_channel d).
     i_id r = r_item_id q \<and> c_id c = r_channel_id q \<and> i_watch_id r = c_watch_id c)"

text \<open>An alertable item has a proven channel.\<close>

definition alerts_ok :: "db \<Rightarrow> bool" where
  "alerts_ok d \<longleftrightarrow> (\<forall>r \<in> set (db_item d). i_status r \<in> {ACTIVE, PAUSED} \<longrightarrow> has_verified_route (i_id r) d)"

definition db_ok :: "db \<Rightarrow> bool" where
  "db_ok d \<longleftrightarrow> keys_ok d \<and> refs_ok d \<and> coins_ok d \<and> routes_ok d \<and> alerts_ok d"

lemma find_Some_set: "find P xs = Some x \<Longrightarrow> x \<in> set xs \<and> P x"
  by (auto simp: find_Some_iff)

lemma find_item_Some: "find_item i d = Some r \<Longrightarrow> r \<in> set (db_item d) \<and> i_id r = i"
  by (auto simp: find_item_def dest: find_Some_set)

lemma find_channel_Some: "find_channel i d = Some c \<Longrightarrow> c \<in> set (db_channel d) \<and> c_id c = i"
  by (auto simp: find_channel_def dest: find_Some_set)

lemma find_watch_Some: "find_watch i d \<noteq> None \<longleftrightarrow> i \<in> w_id ` set (db_watch d)"
  by (auto simp: find_watch_def find_None_iff)

text \<open>A row is determined by its id.\<close>

lemma item_by_id: "keys_ok d \<Longrightarrow> r \<in> set (db_item d) \<Longrightarrow> q \<in> set (db_item d) \<Longrightarrow> i_id r = i_id q \<Longrightarrow> r = q"
  by (auto simp: keys_ok_def distinct_map dest: inj_onD)

lemma channel_by_id:
  "keys_ok d \<Longrightarrow> r \<in> set (db_channel d) \<Longrightarrow> q \<in> set (db_channel d) \<Longrightarrow> c_id r = c_id q \<Longrightarrow> r = q"
  by (auto simp: keys_ok_def distinct_map dest: inj_onD)

section \<open>Each kind of change keeps it\<close>

lemma empty_db_ok: "db_ok empty_db"
  by (simp add: db_ok_def keys_ok_def refs_ok_def coins_ok_def routes_ok_def alerts_ok_def empty_db_def)

lemma fresh_id: "\<forall>x \<in> A. f x \<le> (n :: int) \<Longrightarrow> n + 1 \<notin> f ` A"
  by fastforce

text \<open>More items and channels, the same coins and routes.\<close>

lemma tracked_mono: "tracked_item d i \<Longrightarrow> set (db_item d) \<subseteq> set (db_item e) \<Longrightarrow> tracked_item e i"
  unfolding tracked_item_def by blast

lemma coins_mono:
  "coins_ok d \<Longrightarrow> set (db_item d) \<subseteq> set (db_item e) \<Longrightarrow> set (db_utxo e) \<subseteq> set (db_utxo d) \<Longrightarrow> coins_ok e"
  unfolding coins_ok_def using tracked_mono [of d _ e] by (auto simp: split_beta)

lemma routes_mono:
  "routes_ok d \<Longrightarrow> set (db_item d) \<subseteq> set (db_item e) \<Longrightarrow> set (db_channel d) \<subseteq> set (db_channel e) \<Longrightarrow>
   db_route e = db_route d \<Longrightarrow> routes_ok e"
  unfolding routes_ok_def by (metis subset_iff)

lemma verified_mono:
  "has_verified_route i d \<Longrightarrow> set (db_channel d) \<subseteq> set (db_channel e) \<Longrightarrow>
   db_route e = db_route d \<Longrightarrow> has_verified_route i e"
  unfolding has_verified_route_def by (metis subset_iff)

lemma insert_watch_ok:
  assumes "db_ok d" and "h \<notin> w_token_hash ` set (db_watch d)"
  shows "db_ok (insert_watch h today d)"
proof -
  have "seq_watch d + 1 \<notin> w_id ` set (db_watch d)"
    using assms(1) by (intro fresh_id) (simp add: db_ok_def keys_ok_def)
  then show ?thesis using assms
    by (auto simp: db_ok_def keys_ok_def refs_ok_def coins_ok_def routes_ok_def alerts_ok_def
        insert_watch_def tracked_item_def has_verified_route_def)
qed

lemma insert_item_ok:
  assumes "db_ok d" and "w \<in> w_id ` set (db_watch d)"
  shows "db_ok (insert_item w chain h spk_ct label_ct mode today d)"
proof -
  have fresh: "seq_item d + 1 \<notin> i_id ` set (db_item d)"
    using assms(1) by (intro fresh_id) (simp add: db_ok_def keys_ok_def)
  let ?d = "insert_item w chain h spk_ct label_ct mode today d"
  have "keys_ok ?d" "refs_ok ?d"
    using assms fresh by (auto simp: db_ok_def keys_ok_def refs_ok_def insert_item_def)
  moreover have sub: "set (db_item d) \<subseteq> set (db_item ?d)" "db_utxo ?d = db_utxo d"
      "db_channel ?d = db_channel d" "db_route ?d = db_route d"
    by (auto simp: insert_item_def)
  then have "coins_ok ?d" "routes_ok ?d"
    using assms(1) coins_mono [of d ?d] routes_mono [of d ?d] by (simp_all add: db_ok_def)
  moreover have "alerts_ok ?d"
    using assms(1) verified_mono [of _ d ?d] sub by (auto simp: db_ok_def alerts_ok_def insert_item_def)
  ultimately show ?thesis by (simp add: db_ok_def)
qed

lemma insert_channel_ok:
  assumes "db_ok d" and "w \<in> w_id ` set (db_watch d)"
  shows "db_ok (insert_channel w kind dest_ct ack d)"
proof -
  have fresh: "seq_channel d + 1 \<notin> c_id ` set (db_channel d)"
    using assms(1) by (intro fresh_id) (simp add: db_ok_def keys_ok_def)
  let ?d = "insert_channel w kind dest_ct ack d"
  have "keys_ok ?d" "refs_ok ?d"
    using assms fresh by (auto simp: db_ok_def keys_ok_def refs_ok_def insert_channel_def)
  moreover have sub: "db_item ?d = db_item d" "db_utxo ?d = db_utxo d"
      "set (db_channel d) \<subseteq> set (db_channel ?d)" "db_route ?d = db_route d"
    by (auto simp: insert_channel_def)
  then have "coins_ok ?d" "routes_ok ?d"
    using assms(1) coins_mono [of d ?d] routes_mono [of d ?d] by (simp_all add: db_ok_def)
  moreover have "alerts_ok ?d"
    using assms(1) verified_mono [of _ d ?d] sub by (auto simp: db_ok_def alerts_ok_def)
  ultimately show ?thesis by (simp add: db_ok_def)
qed

lemma set_status_items:
  "set (db_item (set_status i new d)) =
     (\<lambda>r. if i_id r = i then r\<lparr>i_status := new\<rparr> else r) ` set (db_item d)"
  by (simp add: set_status_def)

lemma set_status_ids: "map i_id (db_item (set_status i new d)) = map i_id (db_item d)"
  by (simp add: set_status_def)

lemma set_status_tracked:
  "tracked_item (set_status i new d) j \<longleftrightarrow>
     (if j = i then new \<in> set TRACKED \<and> i \<in> i_id ` set (db_item d) else tracked_item d j)"
proof -
  define u :: "item_row \<Rightarrow> item_row" where "u = (\<lambda>r. if i_id r = i then r\<lparr>i_status := new\<rparr> else r)"
  have "i_id (u r) = j \<and> is_tracked (u r) \<longleftrightarrow>
      i_id r = j \<and> (if j = i then new \<in> set TRACKED else is_tracked r)" for r
    by (auto simp: u_def is_tracked_def)
  moreover have "set (db_item (set_status i new d)) = u ` set (db_item d)"
    by (simp add: set_status_items u_def)
  ultimately show ?thesis by (auto simp: tracked_item_def)
qed

lemma set_status_ok:
  assumes "db_ok d" and "new \<in> set TRACKED \<or> i \<notin> fst ` set (db_utxo d)"
    and "new \<in> {ACTIVE, PAUSED} \<Longrightarrow> has_verified_route i d"
  shows "db_ok (set_status i new d)"
proof -
  let ?d = "set_status i new d"
  have frame: "db_watch ?d = db_watch d" "db_utxo ?d = db_utxo d" "db_channel ?d = db_channel d"
      "db_route ?d = db_route d" "seq_watch ?d = seq_watch d" "seq_item ?d = seq_item d"
      "seq_channel ?d = seq_channel d"
    by (simp_all add: set_status_def)
  define u :: "item_row \<Rightarrow> item_row" where "u = (\<lambda>r. if i_id r = i then r\<lparr>i_status := new\<rparr> else r)"
  have u: "i_id (u r) = i_id r" "i_watch_id (u r) = i_watch_id r" for r by (simp_all add: u_def)
  have items: "set (db_item ?d) = u ` set (db_item d)" by (simp add: set_status_items u_def)
  have "keys_ok ?d" "refs_ok ?d"
    using assms(1) by (auto simp: db_ok_def keys_ok_def refs_ok_def frame set_status_ids items u)
  moreover have "coins_ok ?d"
  proof -
    have "tracked_item ?d j" if "(j, h) \<in> set (db_utxo d)" for j h
    proof -
      have "tracked_item d j" using assms(1) that by (auto simp: db_ok_def coins_ok_def)
      moreover have "j \<in> fst ` set (db_utxo d)" using that by force
      ultimately show ?thesis using assms(2) by (auto simp: set_status_tracked) (auto simp: tracked_item_def)
    qed
    then show ?thesis by (auto simp: coins_ok_def frame)
  qed
  moreover have "routes_ok ?d"
    using assms(1) by (simp add: db_ok_def routes_ok_def frame items u)
  moreover have "has_verified_route j ?d = has_verified_route j d" for j
    by (simp add: has_verified_route_def frame)
  then have "alerts_ok ?d"
    using assms(1,3) by (auto simp: db_ok_def alerts_ok_def set_status_items split: if_splits)
  ultimately show ?thesis by (simp add: db_ok_def)
qed

lemma insert_utxo_ok: "db_ok d \<Longrightarrow> tracked_item d i \<Longrightarrow> db_ok (insert_utxo i h d)"
  by (auto simp: db_ok_def keys_ok_def refs_ok_def coins_ok_def routes_ok_def alerts_ok_def
      insert_utxo_def tracked_item_def has_verified_route_def)

lemma insert_utxo_tracked [simp]: "tracked_item (insert_utxo i h d) = tracked_item d"
  by (simp add: tracked_item_def insert_utxo_def fun_eq_iff)

lemma insert_utxos_ok: "db_ok d \<Longrightarrow> tracked_item d i \<Longrightarrow> db_ok (fold (insert_utxo i) hs d)"
  by (induction hs arbitrary: d) (simp_all add: insert_utxo_ok)

lemma filter_utxo_ok: "db_ok d \<Longrightarrow> db_ok (d\<lparr>db_utxo := filter P (db_utxo d)\<rparr>)"
  by (auto simp: db_ok_def keys_ok_def refs_ok_def coins_ok_def routes_ok_def alerts_ok_def
      tracked_item_def has_verified_route_def)

lemma set_verified_ok:
  assumes "db_ok d"
  shows "db_ok (set_verified today c d)"
proof -
  let ?d = "set_verified today c d"
  define u :: "channel_row \<Rightarrow> channel_row" where "u = (\<lambda>x. if c_id x = c then x\<lparr>c_verified_at := Some today\<rparr> else x)"
  have u: "c_id (u x) = c_id x" "c_watch_id (u x) = c_watch_id x" for x by (simp_all add: u_def)
  have chans: "set (db_channel ?d) = u ` set (db_channel d)" by (simp add: set_verified_def u_def)
  have ids: "map c_id (db_channel ?d) = map c_id (db_channel d)" by (simp add: set_verified_def)
  have frame: "db_watch ?d = db_watch d" "db_utxo ?d = db_utxo d" "db_item ?d = db_item d"
      "db_route ?d = db_route d" "seq_watch ?d = seq_watch d" "seq_item ?d = seq_item d"
      "seq_channel ?d = seq_channel d"
    by (simp_all add: set_verified_def)
  have "keys_ok ?d" "refs_ok ?d" "coins_ok ?d"
    using assms by (auto simp: db_ok_def keys_ok_def refs_ok_def coins_ok_def tracked_item_def frame chans ids u)
  moreover have "routes_ok ?d" using assms by (simp add: db_ok_def routes_ok_def frame chans u)
  moreover have "has_verified_route j d \<Longrightarrow> has_verified_route j ?d" for j
  proof -
    assume "has_verified_route j d"
    then obtain q x where "q \<in> set (db_route d)" "x \<in> set (db_channel d)" "r_item_id q = j"
        "c_id (u x) = r_channel_id q" "c_verified_at (u x) \<noteq> None"
      by (auto simp: has_verified_route_def u_def)
    then show "has_verified_route j ?d"
      unfolding has_verified_route_def frame chans by blast
  qed
  then have "alerts_ok ?d" using assms by (auto simp: db_ok_def alerts_ok_def frame)
  ultimately show ?thesis by (simp add: db_ok_def)
qed

lemma put_route_ok:
  assumes "db_ok d" and "find_item i d = Some x" and "find_channel c d = Some y" and "i_watch_id x = c_watch_id y"
  shows "db_ok (put_route \<lparr>r_item_id = i, r_channel_id = c, r_min_severity = sev\<rparr> d)"
proof -
  let ?q = "\<lparr>r_item_id = i, r_channel_id = c, r_min_severity = sev\<rparr>"
  let ?d = "put_route ?q d"
  have frame: "db_watch ?d = db_watch d" "db_utxo ?d = db_utxo d" "db_item ?d = db_item d"
      "db_channel ?d = db_channel d" "seq_watch ?d = seq_watch d" "seq_item ?d = seq_item d"
      "seq_channel ?d = seq_channel d"
    by (simp_all add: put_route_def)
  have "keys_ok ?d"
    using assms(1) unfolding db_ok_def keys_ok_def frame
    by (auto simp: put_route_def distinct_map inj_on_def)
  moreover have "refs_ok ?d" "coins_ok ?d"
    using assms(1) by (simp_all add: db_ok_def refs_ok_def coins_ok_def tracked_item_def frame)
  moreover have "routes_ok ?d"
    using assms(1) find_item_Some [OF assms(2)] find_channel_Some [OF assms(3)] assms(4)
    unfolding db_ok_def routes_ok_def frame by (auto simp: put_route_def)
  moreover have "has_verified_route j ?d" if "has_verified_route j d" for j
  proof -
    from that obtain q z where q: "q \<in> set (db_route d)" "z \<in> set (db_channel d)" "r_item_id q = j"
        "c_id z = r_channel_id q" "c_verified_at z \<noteq> None"
      by (auto simp: has_verified_route_def)
    show ?thesis
    proof (cases "r_item_id q = i \<and> r_channel_id q = c")
      case True
      with q show ?thesis unfolding has_verified_route_def frame
        by (intro bexI [of _ ?q] bexI [of _ z]) (auto simp: put_route_def)
    next
      case False
      with q show ?thesis unfolding has_verified_route_def frame
        by (intro bexI [of _ q] bexI [of _ z]) (auto simp: put_route_def)
    qed
  qed
  then have "alerts_ok ?d" using assms(1) by (auto simp: db_ok_def alerts_ok_def frame)
  ultimately show ?thesis by (simp add: db_ok_def)
qed

text \<open>
  The cascade of a tenant: by the invariant its items' coins and both ends of its routes go
  with it, and no route of another tenant does.
\<close>

lemma delete_watch_ok:
  assumes "db_ok d"
  shows "db_ok (delete_watch w d)"
proof -
  let ?d = "delete_watch w d"
  have k: "keys_ok d" using assms by (simp add: db_ok_def)
  have items: "db_item ?d = filter (\<lambda>r. i_watch_id r \<noteq> w) (db_item d)"
    and chans: "db_channel ?d = filter (\<lambda>c. c_watch_id c \<noteq> w) (db_channel d)"
    and watches: "db_watch ?d = filter (\<lambda>x. w_id x \<noteq> w) (db_watch d)"
    by (simp_all add: delete_watch_def Let_def)
  have utxo: "(i, h) \<in> set (db_utxo ?d) \<longleftrightarrow> (i, h) \<in> set (db_utxo d) \<and>
      (\<forall>r \<in> set (db_item d). i_watch_id r = w \<longrightarrow> i_id r \<noteq> i)" for i h
    by (auto simp: delete_watch_def Let_def image_iff)
  have route: "q \<in> set (db_route ?d) \<longleftrightarrow> q \<in> set (db_route d)
      \<and> (\<forall>r \<in> set (db_item d). i_watch_id r = w \<longrightarrow> i_id r \<noteq> r_item_id q)
      \<and> (\<forall>c \<in> set (db_channel d). c_watch_id c = w \<longrightarrow> c_id c \<noteq> r_channel_id q)" for q
    by (auto simp: delete_watch_def Let_def image_iff)
  have "keys_ok ?d"
    using k by (auto simp: keys_ok_def delete_watch_def Let_def distinct_map_filter)
  moreover have "refs_ok ?d"
    using assms by (auto simp: db_ok_def refs_ok_def items chans watches)
  moreover have "coins_ok ?d"
    using assms unfolding db_ok_def coins_ok_def tracked_item_def items by (fastforce simp: utxo)
  moreover have "routes_ok ?d"
    using assms unfolding db_ok_def routes_ok_def items chans by (fastforce simp: route)
  moreover have "has_verified_route (i_id r) ?d"
    if r: "r \<in> set (db_item d)" "i_watch_id r \<noteq> w" and v: "has_verified_route (i_id r) d" for r
  proof -
    from v obtain q c where q: "q \<in> set (db_route d)" "c \<in> set (db_channel d)" "r_item_id q = i_id r"
        "c_id c = r_channel_id q" "c_verified_at c \<noteq> None"
      by (auto simp: has_verified_route_def)
    from assms q(1) obtain r' c' where "r' \<in> set (db_item d)" "c' \<in> set (db_channel d)"
        "i_id r' = r_item_id q" "c_id c' = r_channel_id q" "i_watch_id r' = c_watch_id c'"
      unfolding db_ok_def routes_ok_def by blast
    then have same: "i_watch_id r = c_watch_id c"
      using item_by_id [OF k, of r' r] channel_by_id [OF k, of c' c] q r by simp
    have "i_id z \<noteq> r_item_id q" if "z \<in> set (db_item d)" "i_watch_id z = w" for z
      using item_by_id [OF k that(1) r(1)] q(3) r(2) that(2) by auto
    moreover have "c_id z \<noteq> r_channel_id q" if "z \<in> set (db_channel d)" "c_watch_id z = w" for z
      using channel_by_id [OF k that(1) q(2)] q(4) r(2) same that(2) by auto
    ultimately have "q \<in> set (db_route ?d)" "c \<in> set (db_channel ?d)"
      using q(1,2) r(2) same by (simp_all add: route chans)
    with q show ?thesis unfolding has_verified_route_def by blast
  qed
  then have "alerts_ok ?d" using assms by (auto simp: db_ok_def alerts_ok_def items)
  ultimately show ?thesis by (simp add: db_ok_def)
qed

end
