(* ===== verification/Store_Steps.thy ===== *)
theory Store_Steps
  imports Store_Invariant
begin

text \<open>
  The store as a state machine: one step is one method call, with any arguments and whatever
  SQLite answers. The lemmas lift the invariant to every reachable store, bound what a step
  can do to an item and to the id counters.
\<close>

inductive store_step :: "store \<Rightarrow> store \<Rightarrow> bool" where
  step_create: "create_watch token today s = (r, s') \<Longrightarrow> store_step s s'"
| step_purge: "purge_watch answer w s = (r, s') \<Longrightarrow> store_step s s'"
| step_finish: "finish_purge answer s = (r, s') \<Longrightarrow> store_step s s'"
| step_item: "add_item nonces today w chain spk label mode s = (r, s') \<Longrightarrow> store_step s s'"
| step_arm: "arm i hs s = (r, s') \<Longrightarrow> store_step s s'"
| step_activate: "activate i s = (r, s') \<Longrightarrow> store_step s s'"
| step_pause: "pause i s = (r, s') \<Longrightarrow> store_step s s'"
| step_resume: "resume_item i s = (r, s') \<Longrightarrow> store_step s s'"
| step_stop: "stop_item i s = (r, s') \<Longrightarrow> store_step s s'"
| step_channel: "add_channel nonce w kind dest ack s = (r, s') \<Longrightarrow> store_step s s'"
| step_verified: "mark_verified today c s = (r, s') \<Longrightarrow> store_step s s'"
| step_route: "route i c sev s = (r, s') \<Longrightarrow> store_step s s'"
| step_add: "store_step s (store_add_outpoint i h s)"
| step_drop: "store_step s (store_drop_outpoint i h s)"

abbreviation store_steps :: "store \<Rightarrow> store \<Rightarrow> bool" where
  "store_steps \<equiv> store_step\<^sup>*\<^sup>*"

section \<open>The changes of a step\<close>

text \<open>The change of the database, one constructor for each way a method writes.\<close>

datatype change =
    NoChange
  | NewWatch bytes int
  | NewItem int string bytes bytes bytes string int
  | NewChannel int string bytes bool
  | SetStatus int item_status item_status
  | Arm int "bytes list"
  | Stop int
  | Verify int int
  | PutRoute route_row
  | AddCoin int bytes
  | DropCoin int bytes
  | Purge int
  | Timeout

fun apply_change :: "change \<Rightarrow> db \<Rightarrow> db" where
  "apply_change NoChange d = d"
| "apply_change (NewWatch h today) d = insert_watch h today d"
| "apply_change (NewItem w chain h spk_ct label_ct mode today) d =
     insert_item w chain h spk_ct label_ct mode today d"
| "apply_change (NewChannel w kind dest_ct ack) d = insert_channel w kind dest_ct ack d"
| "apply_change (SetStatus i old new) d = set_status i new d"
| "apply_change (Arm i hs) d = fold (insert_utxo i) hs (set_status i ARMED d)"
| "apply_change (Stop i) d = set_status i STOPPED (delete_coins i d)"
| "apply_change (Verify today c) d = set_verified today c d"
| "apply_change (PutRoute q) d = put_route q d"
| "apply_change (AddCoin i h) d = insert_utxo i h d"
| "apply_change (DropCoin i h) d = d\<lparr>db_utxo := filter (\<lambda>c. c \<noteq> (i, h)) (db_utxo d)\<rparr>"
| "apply_change (Purge w) d = (delete_watch w d)\<lparr>db_busy_timeout := BUSY_TIMEOUT_MS\<rparr>"
| "apply_change Timeout d = d\<lparr>db_busy_timeout := BUSY_TIMEOUT_MS\<rparr>"

text \<open>When the methods make the change.\<close>

fun enabled :: "change \<Rightarrow> db \<Rightarrow> bool" where
  "enabled (NewWatch h today) d \<longleftrightarrow> h \<notin> w_token_hash ` set (db_watch d)"
| "enabled (NewItem w chain h spk_ct label_ct mode today) d \<longleftrightarrow> find_watch w d \<noteq> None"
| "enabled (NewChannel w kind dest_ct ack) d \<longleftrightarrow> find_watch w d \<noteq> None"
| "enabled (SetStatus i old new) d \<longleftrightarrow> has_status i old d \<and>
     (old = ARMED \<and> new = ACTIVE \<and> has_verified_route i d \<or>
      old = ACTIVE \<and> new = PAUSED \<or> old = PAUSED \<and> new = ACTIVE)"
| "enabled (Arm i hs) d \<longleftrightarrow> has_status i ARMING d"
| "enabled (PutRoute q) d \<longleftrightarrow> (\<exists>x y. find_item (r_item_id q) d = Some x
     \<and> find_channel (r_channel_id q) d = Some y \<and> i_watch_id x = c_watch_id y)"
| "enabled (AddCoin i h) d \<longleftrightarrow> tracked_item d i"
| "enabled _ d \<longleftrightarrow> True"

lemma find_item_status: "find_item i d = Some r \<Longrightarrow> has_status i (i_status r) d"
  using find_item_Some by (auto simp: has_status_def)

lemma step_change:
  assumes "store_step s s'"
  shows "\<exists>c. enabled c (st_db s) \<and> s' = on_db (apply_change c) s"
  using assms
proof cases
  case (step_create token today r)
  from create_watch_effect [OF this] show ?thesis
    by (elim disjE) (auto simp: on_db_def intro: exI [of _ NoChange] exI [of _ "NewWatch (sha256 token) today"])
next
  case (step_purge answer w r)
  from purge_watch_effect [OF this] show ?thesis
    by (elim disjE) (auto simp: on_db_def intro: exI [of _ NoChange] exI [of _ "Purge w"])
next
  case (step_finish answer r)
  then show ?thesis using scrub_run [of answer None s]
    by (auto simp: finish_purge_def on_db_def intro!: exI [of _ Timeout])
next
  case (step_item nonces today w chain spk label mode r)
  from add_item_effect [OF this] show ?thesis
    by (elim disjE exE) (auto simp: on_db_def intro: exI [of _ NoChange]
        exI [of _ "NewItem w chain (spk_hmac (sk_match (st_keys s)) spk) _ _ mode today"])
next
  case (step_arm i hs r)
  from arm_effect [OF this] show ?thesis
    by (elim disjE) (auto simp: on_db_def intro: exI [of _ NoChange] exI [of _ "Arm i hs"])
next
  case (step_activate i r)
  from activate_effect [OF this] show ?thesis
  proof (elim disjE conjE exE)
    assume "s' = s"
    then show ?thesis by (auto simp: on_db_def intro: exI [of _ NoChange])
  next
    fix row assume a: "find_item i (st_db s) = Some row" "i_status row = ARMED"
      "s' = on_db (set_status i ACTIVE) s" "has_verified_route i (st_db s)"
    with find_item_status [OF a(1)] show ?thesis
      by (intro exI [of _ "SetStatus i ARMED ACTIVE"]) (auto simp: on_db_def)
  qed
next
  case (step_pause i r)
  from transition_effect [OF this [unfolded pause_def]] show ?thesis
    by (elim disjE) (auto simp: on_db_def intro: exI [of _ NoChange] exI [of _ "SetStatus i ACTIVE PAUSED"])
next
  case (step_resume i r)
  from transition_effect [OF this [unfolded resume_item_def]] show ?thesis
    by (elim disjE) (auto simp: on_db_def intro: exI [of _ NoChange] exI [of _ "SetStatus i PAUSED ACTIVE"])
next
  case (step_stop i r)
  from stop_item_effect [OF this] show ?thesis
    by (elim disjE) (auto simp: on_db_def intro: exI [of _ NoChange] exI [of _ "Stop i"])
next
  case (step_channel nonce w kind dest ack r)
  from add_channel_effect [OF this] show ?thesis
    by (elim disjE exE) (auto simp: on_db_def intro: exI [of _ NoChange] exI [of _ "NewChannel w kind _ ack"])
next
  case (step_verified today c r)
  from mark_verified_effect [OF this] show ?thesis
    by (elim disjE) (auto simp: on_db_def intro: exI [of _ NoChange] exI [of _ "Verify today c"])
next
  case (step_route i c sev r)
  from route_effect [OF this] show ?thesis
    by (elim disjE) (auto simp: on_db_def intro: exI [of _ NoChange]
        exI [of _ "PutRoute \<lparr>r_item_id = i, r_channel_id = c, r_min_severity = sev\<rparr>"])
next
  case (step_add i h)
  then show ?thesis
    by (cases "tracked_item (st_db s) i")
       (auto simp: store_add_outpoint_def on_db_def intro: exI [of _ "AddCoin i h"] exI [of _ NoChange])
next
  case (step_drop i h)
  then show ?thesis by (auto simp: store_drop_outpoint_def on_db_def intro!: exI [of _ "DropCoin i h"])
qed

section \<open>The invariant of reachable stores\<close>

lemma db_ok_frame [simp]:
  "db_ok (d\<lparr>db_busy_timeout := n\<rparr>) = db_ok d" "db_ok (d\<lparr>db_user_version := v\<rparr>) = db_ok d"
  by (simp_all add: db_ok_def keys_ok_def refs_ok_def coins_ok_def routes_ok_def alerts_ok_def
      tracked_item_def has_verified_route_def)

lemma change_ok:
  assumes "db_ok d" and "enabled c d"
  shows "db_ok (apply_change c d)"
proof (cases c)
  case (NewWatch h today)
  with assms show ?thesis by (simp add: insert_watch_ok)
next
  case (NewItem w chain h spk_ct label_ct mode today)
  with assms have "w \<in> w_id ` set (db_watch d)" using find_watch_Some by simp
  with assms(1) NewItem show ?thesis by (simp add: insert_item_ok)
next
  case (NewChannel w kind dest_ct ack)
  with assms have "w \<in> w_id ` set (db_watch d)" using find_watch_Some by simp
  with assms(1) NewChannel show ?thesis by (simp add: insert_channel_ok)
next
  case (SetStatus i old new)
  with assms have "has_verified_route i d"
    by (auto simp: db_ok_def alerts_ok_def has_status_def)
  with assms SetStatus show ?thesis
    by (auto simp: TRACKED_def intro!: set_status_ok)
next
  case (Arm i hs)
  then have "db_ok (set_status i ARMED d)" using assms(1) by (intro set_status_ok) (simp_all add: TRACKED_def)
  moreover have "tracked_item (set_status i ARMED d) i"
    using assms(2) Arm by (auto simp: set_status_tracked TRACKED_def has_status_def)
  ultimately show ?thesis using Arm by (simp add: insert_utxos_ok)
next
  case (Stop i)
  have "db_ok (delete_coins i d)" using assms(1) by (simp add: delete_coins_def filter_utxo_ok)
  moreover have "i \<notin> fst ` set (db_utxo (delete_coins i d))" by (auto simp: delete_coins_def)
  ultimately show ?thesis using Stop set_status_ok [of "delete_coins i d" STOPPED i] by simp
next
  case (PutRoute q)
  then obtain x y where "find_item (r_item_id q) d = Some x" "find_channel (r_channel_id q) d = Some y"
      "i_watch_id x = c_watch_id y" using assms(2) by auto
  from put_route_ok [OF assms(1) this, of "r_min_severity q"] PutRoute show ?thesis by (cases q) simp
qed (use assms in \<open>simp_all add: set_verified_ok insert_utxo_ok filter_utxo_ok delete_watch_ok\<close>)

lemma step_ok: "store_step s s' \<Longrightarrow> db_ok (st_db s) \<Longrightarrow> db_ok (st_db s')"
  using step_change change_ok by fastforce

lemma steps_ok: "store_steps s s' \<Longrightarrow> db_ok (st_db s) \<Longrightarrow> db_ok (st_db s')"
  by (induction rule: rtranclp_induct) (auto intro: step_ok)

lemma open_store_ok: "open_store path keys mode empty_db = Inr s \<Longrightarrow> db_ok (st_db s)"
  using empty_db_ok by (auto simp: open_store_def split: if_splits)

section \<open>What a step does to an item\<close>

definition allowed :: "item_status \<Rightarrow> item_status \<Rightarrow> bool" where
  "allowed old new \<longleftrightarrow> old = new \<or> new = STOPPED
     \<or> (old, new) \<in> {(ARMING, ARMED), (ARMED, ACTIVE), (ACTIVE, PAUSED), (PAUSED, ACTIVE)}"

text \<open>
  \<open>same_item\<close>: two rows are the same item, perhaps in another status. \<open>succ_item d r\<close>: the row
  \<open>r\<close> is new, with an id beyond the counter, or was there, with its status moved along.
\<close>

definition same_item :: "item_row \<Rightarrow> item_row \<Rightarrow> bool" where
  "same_item q r \<longleftrightarrow> r\<lparr>i_status := i_status q\<rparr> = q"

definition succ_item :: "db \<Rightarrow> item_row \<Rightarrow> bool" where
  "succ_item d r \<longleftrightarrow> i_id r = seq_item d + 1 \<and> i_status r = ARMING \<or>
     (\<exists>q \<in> set (db_item d). same_item q r \<and> allowed (i_status q) (i_status r))"

lemma same_item_refl [simp]: "same_item r r"
  by (simp add: same_item_def)

lemma same_item_status [simp]: "same_item q (q\<lparr>i_status := x\<rparr>)"
  by (simp add: same_item_def)

lemma same_item_trans: "same_item p q \<Longrightarrow> same_item q r \<Longrightarrow> same_item p r"
  by (cases p; cases q; cases r) (simp add: same_item_def)

lemma same_item_id: "same_item q r \<Longrightarrow> i_id r = i_id q"
  by (cases q; cases r) (simp add: same_item_def)

lemma kept_item: "r \<in> set (db_item d) \<Longrightarrow> succ_item d r"
  unfolding succ_item_def allowed_def by (intro disjI2 bexI [of _ r]) simp_all

lemma set_status_succ:
  assumes "r \<in> set (db_item (set_status i new d))"
    and "\<And>q. q \<in> set (db_item d) \<Longrightarrow> i_id q = i \<Longrightarrow> allowed (i_status q) new"
  shows "succ_item d r"
proof -
  from assms(1) obtain q where q: "q \<in> set (db_item d)" "r = (if i_id q = i then q\<lparr>i_status := new\<rparr> else q)"
    by (auto simp: set_status_items)
  then have "same_item q r" "allowed (i_status q) (i_status r)"
    using assms(2) by (simp_all add: allowed_def)
  with q(1) show ?thesis unfolding succ_item_def by blast
qed

lemma fold_utxo_items [simp]: "db_item (fold (insert_utxo i) hs d) = db_item d"
  "seq_item (fold (insert_utxo i) hs d) = seq_item d"
  by (induction hs arbitrary: d) (simp_all add: insert_utxo_def)

lemma has_status_by_id:
  "keys_ok d \<Longrightarrow> has_status i old d \<Longrightarrow> q \<in> set (db_item d) \<Longrightarrow> i_id q = i \<Longrightarrow> i_status q = old"
  using item_by_id by (fastforce simp: has_status_def)

lemma change_items:
  assumes "keys_ok d" and "enabled c d" and "r \<in> set (db_item (apply_change c d))"
  shows "succ_item d r"
proof (cases c)
  case (NewItem w chain h spk_ct label_ct mode today)
  with assms(3) show ?thesis
    by (auto simp: insert_item_def intro: kept_item) (simp add: succ_item_def)
next
  case (SetStatus i old new)
  show ?thesis
  proof (rule set_status_succ [of _ i new])
    show "r \<in> set (db_item (set_status i new d))" using assms(3) SetStatus by simp
    show "allowed (i_status q) new" if "q \<in> set (db_item d)" "i_id q = i" for q
      using has_status_by_id [OF assms(1) _ that] assms(2) SetStatus by (auto simp: allowed_def)
  qed
next
  case (Arm i hs)
  show ?thesis
  proof (rule set_status_succ [of _ i ARMED])
    show "r \<in> set (db_item (set_status i ARMED d))" using assms(3) Arm by simp
    show "allowed (i_status q) ARMED" if "q \<in> set (db_item d)" "i_id q = i" for q
      using has_status_by_id [OF assms(1) _ that] assms(2) Arm by (auto simp: allowed_def)
  qed
next
  case (Stop i)
  show ?thesis
  proof (rule set_status_succ [of _ i STOPPED])
    show "r \<in> set (db_item (set_status i STOPPED d))"
      using assms(3) Stop by (simp add: set_status_def delete_coins_def)
  qed (simp add: allowed_def)
qed (use assms(3) in \<open>auto simp: insert_watch_def insert_channel_def set_verified_def put_route_def
      insert_utxo_def delete_watch_def Let_def intro: kept_item\<close>)

lemma change_seq: "seq_item d \<le> seq_item (apply_change c d)"
  by (cases c) (simp_all add: insert_watch_def insert_item_def insert_channel_def set_status_def
      delete_coins_def set_verified_def put_route_def insert_utxo_def delete_watch_def Let_def)

lemma step_items:
  assumes "store_step s s'" and "db_ok (st_db s)" and "r \<in> set (db_item (st_db s'))"
  shows "succ_item (st_db s) r" and "seq_item (st_db s) \<le> seq_item (st_db s')"
proof -
  from step_change [OF assms(1)] obtain c where
    c: "enabled c (st_db s)" "s' = on_db (apply_change c) s" by blast
  with change_items [of "st_db s" c r] assms(2,3) show "succ_item (st_db s) r" by (simp add: db_ok_def)
  from c(2) show "seq_item (st_db s) \<le> seq_item (st_db s')" by (simp add: change_seq)
qed

lemma steps_seq: "store_steps s s' \<Longrightarrow> seq_item (st_db s) \<le> seq_item (st_db s')"
proof (induction rule: rtranclp_induct)
  case (step t u)
  from step_change [OF step.hyps(2)] have "seq_item (st_db t) \<le> seq_item (st_db u)"
    by (auto simp: change_seq)
  with step.IH show ?case by simp
qed simp

text \<open>An id that was issued is never given to another item.\<close>

lemma steps_old_ids:
  assumes "store_steps s s'" and "db_ok (st_db s)"
    and "r \<in> set (db_item (st_db s'))" and "i_id r \<le> seq_item (st_db s)"
  shows "\<exists>q \<in> set (db_item (st_db s)). same_item q r"
  using assms(1,3,4)
proof (induction arbitrary: r rule: rtranclp_induct)
  case base
  then show ?case by (intro bexI [of _ r]) simp_all
next
  case (step t u)
  have ok: "db_ok (st_db t)" by (rule steps_ok [OF step.hyps(1) assms(2)])
  have "i_id r \<noteq> seq_item (st_db t) + 1" using steps_seq [OF step.hyps(1)] step.prems(2) by simp
  with step_items(1) [OF step.hyps(2) ok step.prems(1)] obtain q where
    q: "q \<in> set (db_item (st_db t))" "same_item q r" by (auto simp: succ_item_def)
  with step.IH [of q] step.prems(2) same_item_id [OF q(2)] same_item_trans show ?case by metis
qed

text \<open>A stopped item stays stopped.\<close>

lemma steps_stopped:
  assumes "store_steps s s'" and "db_ok (st_db s)"
    and "q \<in> set (db_item (st_db s))" and "i_status q = STOPPED"
    and "r \<in> set (db_item (st_db s'))" and "i_id r = i_id q"
  shows "i_status r = STOPPED"
  using assms(1,5,6)
proof (induction arbitrary: r rule: rtranclp_induct)
  case base
  then show ?case using item_by_id [of "st_db s" r q] assms(2-4) by (simp add: db_ok_def)
next
  case (step t u)
  have ok: "db_ok (st_db t)" by (rule steps_ok [OF step.hyps(1) assms(2)])
  have "i_id r \<le> seq_item (st_db s)"
    using assms(2,3) step.prems(2) by (simp add: db_ok_def keys_ok_def)
  then have "i_id r \<noteq> seq_item (st_db t) + 1" using steps_seq [OF step.hyps(1)] by simp
  with step_items(1) [OF step.hyps(2) ok step.prems(1)] obtain p where
    p: "p \<in> set (db_item (st_db t))" "same_item p r" "allowed (i_status p) (i_status r)"
    by (auto simp: succ_item_def)
  have "i_status p = STOPPED"
    using step.IH [OF p(1)] same_item_id [OF p(2)] step.prems(2) by simp
  with p(3) show ?case by (auto simp: allowed_def)
qed

end
