(* ===== verification/Store_Index.thy ===== *)
theory Store_Index
  imports Service Store_Steps
begin

text \<open>
  The database as the index of the matching loop: the store's four index operations satisfy
  the laws of \<open>watch_index\<close>, with the invariant of the store as its consistency and the
  tracked items as its live records, so that everything proved of the service over an index
  holds over the database.
\<close>

section \<open>The index the matching loop asks for\<close>

lemma owning_iff:
  "j \<in> set (store_items_owning_outpoint s g) \<longleftrightarrow> (j, g) \<in> set (db_utxo (st_db s))"
  by (auto simp: store_items_owning_outpoint_def image_iff)

lemma watching_iff:
  "j \<in> set (store_items_watching_spk s h) \<longleftrightarrow>
     (\<exists>r \<in> set (db_item (st_db s)). i_id r = j \<and> i_spk_hmac r = h \<and> is_tracked r)"
  by (auto simp: store_items_watching_spk_def)

lemma distinct_owning_store:
  assumes "distinct (db_utxo (st_db s))"
  shows "distinct (store_items_owning_outpoint s h)"
proof -
  have "inj_on fst {c \<in> set (db_utxo (st_db s)). snd c = h}" by (auto intro: inj_onI prod_eqI)
  with assms show ?thesis
    by (simp add: store_items_owning_outpoint_def distinct_map split_beta)
qed

interpretation sq: watch_index store_ops "\<lambda>s. db_ok (st_db s)" "\<lambda>s. tracked_item (st_db s)"
proof unfold_locales
  fix s :: store and i h j g
  assume ok: "db_ok (st_db s)"
  show "db_ok (st_db (add_outpoint store_ops i h s))"
    using ok by (simp add: store_ops_def store_add_outpoint_def insert_utxo_ok)
  show "db_ok (st_db (drop_outpoint store_ops i h s))"
    using ok by (simp add: store_ops_def store_drop_outpoint_def filter_utxo_ok)
  show "j \<in> set (items_owning_outpoint store_ops (add_outpoint store_ops i h s) g) \<longleftrightarrow>
      j \<in> set (items_owning_outpoint store_ops s g) \<or> (j = i \<and> g = h \<and> tracked_item (st_db s) i)"
    by (auto simp: store_ops_def owning_iff store_add_outpoint_def insert_utxo_def)
  show "j \<in> set (items_owning_outpoint store_ops (drop_outpoint store_ops i h s) g) \<longleftrightarrow>
      j \<in> set (items_owning_outpoint store_ops s g) \<and> \<not> (j = i \<and> g = h)"
    by (auto simp: store_ops_def owning_iff store_drop_outpoint_def)
  show "distinct (items_owning_outpoint store_ops s h)"
    using ok by (simp add: store_ops_def distinct_owning_store db_ok_def keys_ok_def)
next
  fix s :: store and i h
  show "items_watching_spk store_ops (add_outpoint store_ops i h s) = items_watching_spk store_ops s"
    "items_watching_spk store_ops (drop_outpoint store_ops i h s) = items_watching_spk store_ops s"
    by (simp_all add: store_ops_def store_items_watching_spk_def store_add_outpoint_def
        store_drop_outpoint_def insert_utxo_def fun_eq_iff)
  show "tracked_item (st_db (add_outpoint store_ops i h s)) = tracked_item (st_db s)"
    "tracked_item (st_db (drop_outpoint store_ops i h s)) = tracked_item (st_db s)"
    by (simp_all add: store_ops_def store_add_outpoint_def store_drop_outpoint_def)
       (simp add: tracked_item_def fun_eq_iff)
next
  fix i s h
  show "i \<in> set (items_watching_spk store_ops s h) \<Longrightarrow> tracked_item (st_db s) i"
    by (auto simp: store_ops_def watching_iff tracked_item_def)
qed

end
