(* ===== verification/Store_Properties.thy ===== *)
theory Store_Properties
  imports Store_Steps
begin

text \<open>
  The properties of the store, over every sequence of method calls from an empty database.
\<close>

section \<open>Purge\<close>

lemma in_image_filter: "y \<in> f ` {x \<in> S. P x} \<longleftrightarrow> (\<exists>x \<in> S. f x = y \<and> P x)"
  by auto

lemma delete_watch_rest:
  "set (db_outbox (delete_watch w d)) = {b \<in> set (db_outbox d).
     (\<forall>x \<in> set (db_item d). i_id x = o_item_id b \<longrightarrow> i_watch_id x \<noteq> w)
     \<and> (\<forall>c \<in> set (db_channel d). c_id c = o_channel_id b \<longrightarrow> c_watch_id c \<noteq> w)}"
  "seq_watch (delete_watch w d) = seq_watch d" "seq_item (delete_watch w d) = seq_item d"
  "seq_channel (delete_watch w d) = seq_channel d" "seq_outbox (delete_watch w d) = seq_outbox d"
  "db_user_version (delete_watch w d) = db_user_version d"
  by (auto simp: delete_watch_def Let_def image_iff)

lemma delete_watch_sets:
  assumes "db_ok d"
  shows "set (db_utxo (delete_watch w d)) =
      {(i, h) \<in> set (db_utxo d). \<exists>r \<in> set (db_item d). i_id r = i \<and> i_watch_id r \<noteq> w}"
    and "set (db_route (delete_watch w d)) =
      {q \<in> set (db_route d). \<exists>r \<in> set (db_item d). i_id r = r_item_id q \<and> i_watch_id r \<noteq> w}"
proof -
  have k: "keys_ok d" using assms by (simp add: db_ok_def)
  have own: "i \<notin> i_id ` {r \<in> set (db_item d). i_watch_id r = w} \<longleftrightarrow>
      (\<exists>r \<in> set (db_item d). i_id r = i \<and> i_watch_id r \<noteq> w)"
    if "i \<in> i_id ` set (db_item d)" for i
  proof -
    from that obtain r where r: "r \<in> set (db_item d)" "i_id r = i" by auto
    have uniq: "q = r" if "q \<in> set (db_item d)" "i_id q = i" for q
      using item_by_id [OF k that(1) r(1)] that(2) r(2) by simp
    have "i \<in> i_id ` {q \<in> set (db_item d). i_watch_id q = w} \<longleftrightarrow>
        (\<exists>q \<in> set (db_item d). i_id q = i \<and> i_watch_id q = w)" by (rule in_image_filter)
    then show ?thesis using r uniq by metis
  qed
  have u: "set (db_utxo (delete_watch w d)) = {(i, h) \<in> set (db_utxo d).
      i \<notin> i_id ` {r \<in> set (db_item d). i_watch_id r = w}}"
    by (auto simp: delete_watch_def Let_def)
  have "i \<in> i_id ` set (db_item d)" if "(i, h) \<in> set (db_utxo d)" for i h
  proof -
    have "tracked_item d i" using assms that by (auto simp: db_ok_def coins_ok_def)
    then show ?thesis by (auto simp: tracked_item_def)
  qed
  with own show "set (db_utxo (delete_watch w d)) =
      {(i, h) \<in> set (db_utxo d). \<exists>r \<in> set (db_item d). i_id r = i \<and> i_watch_id r \<noteq> w}"
    unfolding u by blast
  have q: "set (db_route (delete_watch w d)) = {q \<in> set (db_route d).
      r_item_id q \<notin> i_id ` {r \<in> set (db_item d). i_watch_id r = w}
      \<and> r_channel_id q \<notin> c_id ` {c \<in> set (db_channel d). c_watch_id c = w}}"
    by (auto simp: delete_watch_def Let_def)
  have both: "r_item_id q \<in> i_id ` set (db_item d) \<and>
      (r_channel_id q \<in> c_id ` {c \<in> set (db_channel d). c_watch_id c = w} \<longleftrightarrow>
       r_item_id q \<in> i_id ` {r \<in> set (db_item d). i_watch_id r = w})" if "q \<in> set (db_route d)" for q
  proof -
    from assms that obtain r c where rc: "r \<in> set (db_item d)" "c \<in> set (db_channel d)"
        "i_id r = r_item_id q" "c_id c = r_channel_id q" "i_watch_id r = c_watch_id c"
      unfolding db_ok_def routes_ok_def by blast
    have ur: "x = r" if "x \<in> set (db_item d)" "i_id x = r_item_id q" for x
      using item_by_id [OF k that(1) rc(1)] that(2) rc(3) by simp
    have uc: "x = c" if "x \<in> set (db_channel d)" "c_id x = r_channel_id q" for x
      using channel_by_id [OF k that(1) rc(2)] that(2) rc(4) by simp
    have "r_channel_id q \<in> c_id ` {c \<in> set (db_channel d). c_watch_id c = w} \<longleftrightarrow>
        (\<exists>x \<in> set (db_channel d). c_id x = r_channel_id q \<and> c_watch_id x = w)" by (rule in_image_filter)
    also have "\<dots> \<longleftrightarrow> c_watch_id c = w" using uc rc by metis
    finally have c: "r_channel_id q \<in> c_id ` {c \<in> set (db_channel d). c_watch_id c = w} \<longleftrightarrow> c_watch_id c = w" .
    have "r_item_id q \<in> i_id ` {r \<in> set (db_item d). i_watch_id r = w} \<longleftrightarrow>
        (\<exists>x \<in> set (db_item d). i_id x = r_item_id q \<and> i_watch_id x = w)" by (rule in_image_filter)
    also have "\<dots> \<longleftrightarrow> i_watch_id r = w" using ur rc by metis
    finally have i: "r_item_id q \<in> i_id ` {r \<in> set (db_item d). i_watch_id r = w} \<longleftrightarrow> i_watch_id r = w" .
    have "r_item_id q \<in> i_id ` set (db_item d)" using rc(1,3) by (metis imageI)
    with c i rc(5) show ?thesis by simp
  qed
  show "set (db_route (delete_watch w d)) =
      {q \<in> set (db_route d). \<exists>r \<in> set (db_item d). i_id r = r_item_id q \<and> i_watch_id r \<noteq> w}"
    unfolding q
  proof (intro Collect_cong conj_cong refl)
    fix x assume x: "x \<in> set (db_route d)"
    show "r_item_id x \<notin> i_id ` {r \<in> set (db_item d). i_watch_id r = w}
        \<and> r_channel_id x \<notin> c_id ` {c \<in> set (db_channel d). c_watch_id c = w} \<longleftrightarrow>
      (\<exists>r \<in> set (db_item d). i_id r = r_item_id x \<and> i_watch_id r \<noteq> w)"
      unfolding both [OF x, THEN conjunct2]
      using own [OF both [OF x, THEN conjunct1]] by (simp only: conj_absorb)
  qed
qed

lemma scrub_result:
  "fst (scrub answer w s) = (case answer of
     Checkpointed busy \<Rightarrow> if busy = 0 then Inr () else Inl (PurgeIncomplete w)
   | Failed code \<Rightarrow> Inl (if code mod 256 \<in> {SQLITE_BUSY, SQLITE_LOCKED} then PurgeIncomplete w
                        else OperationalError code))"
  by (auto simp: scrub_def st_simps split: scrub_answer.split)

section \<open>Properties\<close>

definition ex_keys :: subkeys where
  "ex_keys = \<lparr>sk_match = zeros 32, sk_store = zeros 32\<rparr>"

definition ex_store :: store where
  "ex_store = \<lparr>st_keys = ex_keys, st_db = empty_db\<lparr>db_user_version := 1, db_busy_timeout := 5000\<rparr>\<rparr>"

lemma ex_store_open: "open_store '':memory:'' ex_keys ''memory'' empty_db = Inr ex_store"
  by (simp add: open_store_def ex_store_def empty_db_def SCHEMA_VERSION_def BUSY_TIMEOUT_MS_def)

text \<open>A store with one tenant, one item that has been armed, activated and paused, and its channel.\<close>

definition ex_item :: "item_status \<Rightarrow> item_row" where
  "ex_item st = \<lparr>i_id = 1, i_watch_id = 1, i_chain = ''btc'', i_spk_hmac = [9], i_spk_ct = [], i_label_ct = [],
     i_incoming_mode = ''info'', i_status = st, i_drip_rate = 10, i_created_at = 0\<rparr>"

definition ex_tenant :: store where
  "ex_tenant = ex_store\<lparr>st_db := (st_db ex_store)\<lparr>
     db_watch := [\<lparr>w_id = 1, w_token_hash = [], w_balance_sats = 0, w_status = W_ACTIVE,
                   w_alarm_undelivered = 0, w_created_at = 0\<rparr>],
     db_item := [ex_item ARMED], db_utxo := [(1, [5])],
     db_channel := [\<lparr>c_id = 1, c_watch_id = 1, c_kind = ''email'', c_dest_ct = [], c_privacy_ack = False,
                     c_verified_at = Some 3\<rparr>],
     db_route := [\<lparr>r_item_id = 1, r_channel_id = 1, r_min_severity = ''info''\<rparr>],
     seq_watch := 1, seq_item := 1, seq_channel := 1\<rparr>\<rparr>"

lemma ex_tenant_ok: "db_ok (st_db ex_tenant)"
  by (simp add: db_ok_def keys_ok_def refs_ok_def coins_ok_def routes_ok_def alerts_ok_def
      tracked_item_def is_tracked_def TRACKED_def has_verified_route_def ex_tenant_def ex_item_def)

text \<open>How that store comes about, with whatever the AEAD makes of the columns.\<close>

definition ex_watch :: store where
  "ex_watch = on_db (insert_watch (sha256 [7]) 0) ex_store"

definition ex_row :: "bytes \<Rightarrow> bytes \<Rightarrow> item_status \<Rightarrow> item_row" where
  "ex_row a b st = (ex_item st)\<lparr>i_spk_hmac := spk_hmac (zeros 32) [81], i_spk_ct := a, i_label_ct := b\<rparr>"

definition ex_channel :: "bytes \<Rightarrow> int option \<Rightarrow> channel_row" where
  "ex_channel c v = \<lparr>c_id = 1, c_watch_id = 1, c_kind = ''email'', c_dest_ct = c, c_privacy_ack = False,
     c_verified_at = v\<rparr>"

definition ex_enrolled :: "bytes \<Rightarrow> bytes \<Rightarrow> item_status \<Rightarrow> (int \<times> bytes) list \<Rightarrow> channel_row list \<Rightarrow> route_row list \<Rightarrow> store" where
  "ex_enrolled a b st coins chs rts = ex_watch\<lparr>st_db := (st_db ex_watch)\<lparr>db_item := [ex_row a b st],
     db_utxo := coins, db_channel := chs, db_route := rts, seq_item := 1, seq_channel := int (length chs)\<rparr>\<rparr>"

section \<open>Sealing a column\<close>

lemma aad_for_Inr: "aad_for p w = Inr a \<longleftrightarrow> 0 \<le> w \<and> w < 2 ^ 64 \<and> a = p @ to_le 8 w"
  by (auto simp: aad_for_def pack_le_def)

lemma length_aads: "length AAD_SPK = 3" "length AAD_LABEL = 5" "length AAD_DEST = 4"
  by (simp_all add: AAD_SPK_def AAD_LABEL_def AAD_DEST_def)

lemma aads_differ: "AAD_SPK \<noteq> AAD_LABEL" "AAD_SPK \<noteq> AAD_DEST" "AAD_LABEL \<noteq> AAD_DEST"
  by (auto dest!: arg_cong [where f = length] simp: length_aads)

lemma seal_total:
  assumes "length key = 32" and "length n = 12" and "length p < 100" and "0 \<le> w" and "w < 2 ^ 64" and "fits x"
  shows "\<exists>ct. rbind (aad_for p w) (seal n key x) = Inr ct \<and> rbind (aad_for p w) (aead_open key ct) = Inr x"
proof -
  have "fits (p @ to_le 8 w)" using assms(3) by (simp add: fits_def)
  from seal_open [OF assms(1,2) this assms(6)] assms show ?thesis
    by (auto simp: aad_for_def pack_le_def seal_def)
qed

text \<open>Whatever was sealed for a column and a tenant opens for them.\<close>

lemma sealed_opens:
  assumes "rbind (aad_for p w) (seal n key x) = Inr ct" and "length n = 12" and "length p < 100" and "fits x"
  shows "rbind (aad_for p w) (aead_open key ct) = Inr x"
proof -
  from assms(1) have w: "0 \<le> w" "w < 2 ^ 64" and k: "length key = 32"
    by (auto simp: rbind_Inr_iff aad_for_Inr seal_def split: if_splits)
  from seal_total [OF k assms(2,3) w assms(4)] assms(1) show ?thesis by auto
qed

lemma find_append_None: "find P xs = None \<Longrightarrow> find P (xs @ rs) = find P rs"
  by (induction xs) (auto split: if_splits)

lemma find_item_insert:
  assumes "db_ok d"
  shows "find_item (seq_item d + 1) (insert_item w chain h spk_ct label_ct mode today d) =
    Some \<lparr>i_id = seq_item d + 1, i_watch_id = w, i_chain = chain, i_spk_hmac = h, i_spk_ct = spk_ct,
      i_label_ct = label_ct, i_incoming_mode = mode, i_status = ARMING, i_drip_rate = 10, i_created_at = today\<rparr>"
proof -
  have "find (\<lambda>r. i_id r = seq_item d + 1) (db_item d) = None"
    using assms by (force simp: find_None_iff db_ok_def keys_ok_def)
  from find_append_None [OF this] show ?thesis by (simp add: find_item_def insert_item_def)
qed

text \<open>
  What is enrolled can be read back. After \<open>add_item\<close> returns an id, with two nonces of 12
  bytes, \<open>item_spk\<close> of that id is the script that was enrolled and \<open>item_label\<close> the label.
\<close>

theorem enrolled_item_reads_back:
  assumes "db_ok (st_db s)" and "add_item nonces today w chain spk label mode s = (Inr i, s')"
    and "length (fst nonces) = 12" and "length (snd nonces) = 12"
    and "fits spk" and "is_text label" and "4 * length label < 2 ^ 64"
  shows "fst (item_spk i s') = Inr spk \<and> fst (item_label i s') = Inr label"
proof -
  obtain l where l: "utf8_encode label = Inr l" "utf8_decode l = Inr label"
    using utf8_roundtrip [OF assms(6)] by blast
  have "fits l" using utf8_encode_length [OF l(1)] assms(7) by (simp add: fits_def)
  have "s' \<noteq> s"
  proof
    assume "s' = s"
    with assms(2) have "fst (add_item nonces today w chain spk label mode s) = Inr i"
      "snd (add_item nonces today w chain spk label mode s) = s" by simp_all
    then show False
      by (auto simp: add_item_def transaction_def bind_def require_watch_run st_simps insert_item_def
          dest!: arg_cong [of _ s "\<lambda>s. length (db_item (st_db s))"] split: option.splits sum.splits if_splits)
  qed
  with add_item_effect [OF assms(2)] l(1) obtain spk_ct label_ct where
    i: "i = seq_item (st_db s) + 1" and
    s': "s' = on_db (insert_item w chain (spk_hmac (sk_match (st_keys s)) spk) spk_ct label_ct mode today) s" and
    ct: "rbind (aad_for AAD_SPK w) (seal (fst nonces) (sk_store (st_keys s)) spk) = Inr spk_ct"
      "rbind (aad_for AAD_LABEL w) (seal (snd nonces) (sk_store (st_keys s)) l) = Inr label_ct"
    by auto
  from sealed_opens [OF ct(1) assms(3) _ assms(5)] sealed_opens [OF ct(2) assms(4) _ \<open>fits l\<close>]
  show ?thesis using l(2) find_item_insert [OF assms(1)]
    by (simp add: item_spk_def item_label_def query_def require_def py_simps i s' length_aads)
qed

lemma ex_create: "create_watch [7] 0 ex_store = (Inr ([7], 1), ex_watch)"
  by (simp add: create_watch_def st_simps ex_watch_def insert_watch_def ex_store_def empty_db_def)

lemma utf8_encode_B: "utf8_encode [66] = Inr [66]"
  by (simp add: utf8_encode_def utf8_char_def is_surrogate_def nbyte_def)

lemma ex_enrol:
  "\<exists>a b. add_item (zeros 12, zeros 12) 0 1 ''btc'' [81] [66] ''info'' ex_watch =
     (Inr 1, ex_enrolled a b ARMING [] [] [])"
proof -
  have k: "sk_store (st_keys ex_watch) = zeros 32" "sk_match (st_keys ex_watch) = zeros 32"
    by (simp_all add: ex_watch_def ex_store_def ex_keys_def)
  have seq: "seq_item (st_db ex_watch) = 0"
    by (simp add: ex_watch_def insert_watch_def ex_store_def empty_db_def)
  have w: "find_watch 1 (st_db ex_watch) \<noteq> None"
    by (simp add: ex_watch_def find_watch_def insert_watch_def ex_store_def empty_db_def)
  obtain a where a: "rbind (aad_for AAD_SPK 1) (seal (zeros 12) (zeros 32) [81]) = Inr a"
    using seal_total [of "zeros 32" "zeros 12" AAD_SPK 1 "[81]"] by (auto simp: length_aads fits_def)
  obtain b where b: "rbind (aad_for AAD_LABEL 1) (seal (zeros 12) (zeros 32) [66]) = Inr b"
    using seal_total [of "zeros 32" "zeros 12" AAD_LABEL 1 "[66]"] by (auto simp: length_aads fits_def)
  note l = utf8_encode_B
  have "add_item (zeros 12, zeros 12) 0 1 ''btc'' [81] [66] ''info'' ex_watch =
      (Inr 1, on_db (insert_item 1 ''btc'' (spk_hmac (zeros 32) [81]) a b ''info'' 0) ex_watch)"
    using w by (auto simp: add_item_def require_watch_run st_simps k a b l seq)
  also have "on_db (insert_item 1 ''btc'' (spk_hmac (zeros 32) [81]) a b ''info'' 0) ex_watch =
      ex_enrolled a b ARMING [] [] []"
    by (simp add: on_db_def insert_item_def ex_enrolled_def ex_watch_def ex_row_def ex_item_def insert_watch_def
        ex_store_def empty_db_def)
  finally show ?thesis by blast
qed

lemma enrolled_item_reads_back_witness:
  "\<exists>s'. add_item (zeros 12, zeros 12) 0 1 ''btc'' [81] [66] ''info'' ex_watch = (Inr 1, s')
     \<and> fst (item_spk 1 s') = Inr [81] \<and> fst (item_label 1 s') = Inr [66]"
proof -
  obtain a b where ab: "add_item (zeros 12, zeros 12) 0 1 ''btc'' [81] [66] ''info'' ex_watch =
     (Inr 1, ex_enrolled a b ARMING [] [] [])" using ex_enrol by blast
  have ok: "db_ok (st_db ex_watch)"
    by (rule step_ok [OF step_create [OF ex_create] open_store_ok [OF ex_store_open]])
  have "is_text [66]" by (simp add: is_text_def is_scalar_def is_surrogate_def)
  from enrolled_item_reads_back [OF ok ab _ _ _ this] ab show ?thesis by (simp add: fits_def)
qed

text \<open>The tenant's item on its way to being paused, each arrow a call of the store.\<close>

lemma ex_reach:
  "\<exists>a b c. store_steps ex_store (ex_enrolled a b ACTIVE [(1, [5])] [ex_channel c (Some 3)]
     [\<lparr>r_item_id = 1, r_channel_id = 1, r_min_severity = ''info''\<rparr>])"
proof -
  obtain a b where ab: "add_item (zeros 12, zeros 12) 0 1 ''btc'' [81] [66] ''info'' ex_watch =
     (Inr 1, ex_enrolled a b ARMING [] [] [])" using ex_enrol by blast
  let ?r = "\<lparr>r_item_id = 1, r_channel_id = 1, r_min_severity = ''info''\<rparr>"
  note ex = ex_enrolled_def ex_watch_def ex_row_def ex_item_def insert_watch_def ex_store_def ex_keys_def empty_db_def
  have w: "find_watch 1 (st_db (ex_enrolled a b ARMED [(1, [5])] [] [])) \<noteq> None"
    by (simp add: ex find_watch_def)
  note l = utf8_encode_B
  obtain c where c: "rbind (aad_for AAD_DEST 1) (seal (zeros 12) (zeros 32) [66]) = Inr c"
    using seal_total [of "zeros 32" "zeros 12" AAD_DEST 1 "[66]"] by (auto simp: length_aads fits_def)
  have "arm 1 [[5]] (ex_enrolled a b ARMING [] [] []) = (Inr (), ex_enrolled a b ARMED [(1, [5])] [] [])"
    by (simp add: arm_def update_status_run st_simps has_status_def set_status_def insert_utxo_def append_new_def ex)
  note s3 = step_arm [OF this]
  have "add_channel (zeros 12) 1 ''email'' [66] False (ex_enrolled a b ARMED [(1, [5])] [] []) =
      (Inr 1, ex_enrolled a b ARMED [(1, [5])] [ex_channel c None] [])"
    using w c by (auto simp: add_channel_def require_watch_run st_simps l insert_channel_def ex ex_channel_def)
  note s4 = step_channel [OF this]
  have "mark_verified 3 1 (ex_enrolled a b ARMED [(1, [5])] [ex_channel c None] []) =
      (Inr (), ex_enrolled a b ARMED [(1, [5])] [ex_channel c (Some 3)] [])"
    by (simp add: mark_verified_def st_simps find_channel_def set_verified_def ex ex_channel_def)
  note s5 = step_verified [OF this]
  have "route 1 1 ''info'' (ex_enrolled a b ARMED [(1, [5])] [ex_channel c (Some 3)] []) =
      (Inr (), ex_enrolled a b ARMED [(1, [5])] [ex_channel c (Some 3)] [?r])"
    by (simp add: route_def st_simps find_channel_def find_item_def put_route_def ex ex_channel_def)
  note s6 = step_route [OF this]
  have "activate 1 (ex_enrolled a b ARMED [(1, [5])] [ex_channel c (Some 3)] [?r]) =
      (Inr (), ex_enrolled a b ACTIVE [(1, [5])] [ex_channel c (Some 3)] [?r])"
    by (simp add: activate_def st_simps find_item_def has_verified_route_def set_status_def ex ex_channel_def)
  note s7 = step_activate [OF this]
  have "store_steps ex_store (ex_enrolled a b ACTIVE [(1, [5])] [ex_channel c (Some 3)] [?r])"
    using step_create [OF ex_create] step_item [OF ab] s3 s4 s5 s6 s7
    by (meson converse_rtranclp_into_rtranclp rtranclp.rtrancl_refl)
  then show ?thesis by blast
qed

text \<open>
  The associated data of a ciphertext names its column and its tenant: no two columns or
  tenants share it.
\<close>

theorem associated_data_separate:
  assumes "aad_for p w = Inr a" and "aad_for q v = Inr b"
    and "p \<in> {AAD_SPK, AAD_LABEL, AAD_DEST}" and "q \<in> {AAD_SPK, AAD_LABEL, AAD_DEST}"
  shows "a = b \<longleftrightarrow> p = q \<and> w = v"
proof -
  from assms(1,2) have w: "0 \<le> w" "w < 2 ^ 64" "a = p @ to_le 8 w"
    and v: "0 \<le> v" "v < 2 ^ 64" "b = q @ to_le 8 v" by (simp_all add: aad_for_Inr)
  have "to_le 8 w = to_le 8 v \<longleftrightarrow> w = v" using to_le_inject [of w 8 v] w(1,2) v(1,2) by auto
  moreover have "p @ to_le 8 w = q @ to_le 8 v \<longleftrightarrow> p = q \<and> to_le 8 w = to_le 8 v"
    by (rule append_eq_append_conv) simp
  ultimately show ?thesis using w(3) v(3) by simp
qed

lemma associated_data_separate_witness: "aad_for AAD_SPK 1 \<noteq> aad_for AAD_DEST 1"
proof -
  have "aad_for AAD_SPK 1 = Inr (AAD_SPK @ to_le 8 1)" "aad_for AAD_DEST 1 = Inr (AAD_DEST @ to_le 8 1)"
    by (simp_all add: aad_for_Inr)
  from associated_data_separate [OF this] aads_differ have "AAD_SPK @ to_le 8 1 \<noteq> AAD_DEST @ to_le 8 1"
    by simp
  then show ?thesis by (simp add: aad_for_Inr \<open>aad_for AAD_SPK 1 = _\<close> \<open>aad_for AAD_DEST 1 = _\<close>)
qed

text \<open>
  C10: the record holds coins for tracked items only. Whatever is called, in whatever order, a
  coin in the database belongs to an item that exists and is armed, active or paused, so a
  stopped or purged item never matches a spend.
\<close>

theorem coins_only_for_tracked_items:
  assumes "open_store path keys mode empty_db = Inr s0" and "store_steps s0 s"
    and "(i, h) \<in> set (db_utxo (st_db s))"
  shows "\<exists>r \<in> set (db_item (st_db s)). i_id r = i \<and> i_status r \<in> {ARMED, ACTIVE, PAUSED}"
proof -
  have "db_ok (st_db s)" by (rule steps_ok [OF assms(2) open_store_ok [OF assms(1)]])
  then have "tracked_item (st_db s) i" using assms(3) by (auto simp: db_ok_def coins_ok_def)
  then show ?thesis by (simp add: tracked_item_def is_tracked_def TRACKED_def)
qed

lemma coins_only_for_tracked_items_witness:
  "\<exists>s. store_steps ex_store s \<and> (1, [5]) \<in> set (db_utxo (st_db s))
     \<and> (\<exists>r \<in> set (db_item (st_db s)). i_id r = 1 \<and> i_status r \<in> {ARMED, ACTIVE, PAUSED})"
proof -
  obtain a b c where s: "store_steps ex_store (ex_enrolled a b ACTIVE [(1, [5])] [ex_channel c (Some 3)]
     [\<lparr>r_item_id = 1, r_channel_id = 1, r_min_severity = ''info''\<rparr>])" (is "store_steps _ ?s")
    using ex_reach by blast
  have u: "(1, [5]) \<in> set (db_utxo (st_db ?s))" by (simp add: ex_enrolled_def)
  from s u coins_only_for_tracked_items [OF ex_store_open s u] show ?thesis by blast
qed

text \<open>
  C27: an alertable item can be alerted. In every reachable database an item that is active or
  paused is routed to a channel of its own tenant that has been verified.
\<close>

theorem alertable_items_have_proven_channel:
  assumes "open_store path keys mode empty_db = Inr s0" and "store_steps s0 s"
    and "r \<in> set (db_item (st_db s))" and "i_status r \<in> {ACTIVE, PAUSED}"
  shows "\<exists>q \<in> set (db_route (st_db s)). \<exists>c \<in> set (db_channel (st_db s)).
    r_item_id q = i_id r \<and> c_id c = r_channel_id q \<and> c_watch_id c = i_watch_id r \<and> c_verified_at c \<noteq> None"
proof -
  have ok: "db_ok (st_db s)" by (rule steps_ok [OF assms(2) open_store_ok [OF assms(1)]])
  then obtain q c where q: "q \<in> set (db_route (st_db s))" "c \<in> set (db_channel (st_db s))"
      "r_item_id q = i_id r" "c_id c = r_channel_id q" "c_verified_at c \<noteq> None"
    using assms(3,4) unfolding db_ok_def alerts_ok_def has_verified_route_def by blast
  from ok q(1) obtain r' c' where "r' \<in> set (db_item (st_db s))" "c' \<in> set (db_channel (st_db s))"
      "i_id r' = r_item_id q" "c_id c' = r_channel_id q" "i_watch_id r' = c_watch_id c'"
    unfolding db_ok_def routes_ok_def by blast
  then have "c_watch_id c = i_watch_id r"
    using item_by_id [of "st_db s" r' r] channel_by_id [of "st_db s" c' c] ok assms(3) q
    by (simp add: db_ok_def)
  with q show ?thesis by blast
qed

lemma alertable_items_have_proven_channel_witness:
  "\<exists>s. store_steps ex_store s \<and> (\<exists>q \<in> set (db_route (st_db s)). \<exists>c \<in> set (db_channel (st_db s)).
     r_item_id q = 1 \<and> c_id c = r_channel_id q \<and> c_watch_id c = 1 \<and> c_verified_at c \<noteq> None)"
proof -
  obtain a b c where s: "store_steps ex_store (ex_enrolled a b ACTIVE [(1, [5])] [ex_channel c (Some 3)]
     [\<lparr>r_item_id = 1, r_channel_id = 1, r_min_severity = ''info''\<rparr>])" (is "store_steps _ ?s")
    using ex_reach by blast
  have r: "ex_row a b ACTIVE \<in> set (db_item (st_db ?s))" "i_status (ex_row a b ACTIVE) \<in> {ACTIVE, PAUSED}"
    by (simp_all add: ex_enrolled_def ex_row_def ex_item_def)
  have "i_id (ex_row a b ACTIVE) = 1" "i_watch_id (ex_row a b ACTIVE) = 1"
    by (simp_all add: ex_row_def ex_item_def)
  with s alertable_items_have_proven_channel [OF ex_store_open s r] show ?thesis by auto
qed

text \<open>
  The life of an item. A step leaves an item's columns alone but for its status, which only
  moves from arming to armed, from armed to active, between active and paused, and from
  anywhere to stopped; a row that was not there before is arming, with the next id.
\<close>

theorem item_lifecycle:
  assumes "store_step s s'" and "db_ok (st_db s)" and "r \<in> set (db_item (st_db s'))"
  shows "i_id r = seq_item (st_db s) + 1 \<and> i_status r = ARMING \<or>
    (\<exists>q \<in> set (db_item (st_db s)). r\<lparr>i_status := i_status q\<rparr> = q \<and> allowed (i_status q) (i_status r))"
  using step_items(1) [OF assms] by (simp add: succ_item_def same_item_def)

lemma item_lifecycle_witness:
  "activate 1 ex_tenant = (Inr (), on_db (set_status 1 ACTIVE) ex_tenant)
   \<and> allowed ARMED ACTIVE \<and> \<not> allowed ARMED PAUSED"
proof -
  have a: "activate 1 ex_tenant = (Inr (), on_db (set_status 1 ACTIVE) ex_tenant)"
    by (simp add: activate_def st_simps find_item_def ex_tenant_def ex_item_def has_verified_route_def)
  have "ex_item ACTIVE \<in> set (db_item (st_db (on_db (set_status 1 ACTIVE) ex_tenant)))"
    by (simp add: set_status_def ex_tenant_def ex_item_def)
  from item_lifecycle [OF step_activate [OF a] ex_tenant_ok this] show ?thesis
    using a by (auto simp: ex_tenant_def ex_item_def allowed_def)
qed

text \<open>
  C30: an item's id means one item for ever. An item of a later database whose id had been issued
  before is the same row as then, its status apart: no purge hands its id to another tenant.
\<close>

theorem ids_never_reused:
  assumes "store_steps s s'" and "db_ok (st_db s)"
    and "r \<in> set (db_item (st_db s'))" and "i_id r \<le> seq_item (st_db s)"
  shows "\<exists>q \<in> set (db_item (st_db s)). r\<lparr>i_status := i_status q\<rparr> = q"
  using steps_old_ids [OF assms] by (simp add: same_item_def)

lemma ids_never_reused_witness:
  "\<exists>q \<in> set (db_item (st_db ex_tenant)). (ex_item STOPPED)\<lparr>i_status := i_status q\<rparr> = q"
proof -
  have stop: "stop_item 1 ex_tenant = (Inr (), on_db (set_status 1 STOPPED \<circ> delete_coins 1) ex_tenant)"
    by (simp add: stop_item_def require_item_run st_simps find_item_def ex_tenant_def ex_item_def)
  have "store_steps ex_tenant (on_db (set_status 1 STOPPED \<circ> delete_coins 1) ex_tenant)"
    using step_stop [OF stop] by (rule r_into_rtranclp [where r = store_step])
  moreover have "ex_item STOPPED \<in> set (db_item (st_db (on_db (set_status 1 STOPPED \<circ> delete_coins 1) ex_tenant)))"
    by (simp add: set_status_def delete_coins_def ex_tenant_def ex_item_def)
  moreover have "i_id (ex_item STOPPED) \<le> seq_item (st_db ex_tenant)" by (simp add: ex_item_def ex_tenant_def)
  ultimately show ?thesis using ids_never_reused [OF _ ex_tenant_ok] by blast
qed

text \<open>
  C29: a stopped item stays stopped, and its coins stay gone: whatever is called later, a row
  with its id is stopped and no coin carries its id.
\<close>

theorem stopped_is_final:
  assumes "store_steps s s'" and "db_ok (st_db s)"
    and "q \<in> set (db_item (st_db s))" and "i_status q = STOPPED"
  shows "(\<forall>r \<in> set (db_item (st_db s')). i_id r = i_id q \<longrightarrow> i_status r = STOPPED)
    \<and> i_id q \<notin> fst ` set (db_utxo (st_db s'))"
proof -
  have final: "i_status r = STOPPED" if "r \<in> set (db_item (st_db s'))" "i_id r = i_id q" for r
    by (rule steps_stopped [OF assms that])
  have "db_ok (st_db s')" by (rule steps_ok [OF assms(1,2)])
  then have "tracked_item (st_db s') i" if "(i, h) \<in> set (db_utxo (st_db s'))" for i h
    using that by (auto simp: db_ok_def coins_ok_def)
  then have "i_id q \<notin> fst ` set (db_utxo (st_db s'))"
    using final by (fastforce simp: tracked_item_def is_tracked_def TRACKED_def)
  with final show ?thesis by blast
qed

lemma stopped_is_final_witness:
  "1 \<notin> fst ` set (db_utxo (st_db (store_add_outpoint 1 [9] (on_db (set_status 1 STOPPED \<circ> delete_coins 1) ex_tenant))))"
proof -
  let ?s = "on_db (set_status 1 STOPPED \<circ> delete_coins 1) ex_tenant"
  have stop: "stop_item 1 ex_tenant = (Inr (), ?s)"
    by (simp add: stop_item_def require_item_run st_simps find_item_def ex_tenant_def ex_item_def)
  have "db_ok (st_db ?s)" by (rule step_ok [OF step_stop [OF stop] ex_tenant_ok])
  moreover have "ex_item STOPPED \<in> set (db_item (st_db ?s))"
    by (simp add: set_status_def delete_coins_def ex_tenant_def ex_item_def)
  moreover have "store_steps ?s (store_add_outpoint 1 [9] ?s)"
    by (rule r_into_rtranclp [where r = store_step]) (rule step_add)
  ultimately show ?thesis using stopped_is_final [of ?s "store_add_outpoint 1 [9] ?s" "ex_item STOPPED"]
    by (simp add: ex_item_def)
qed

text \<open>
  C28: a purge removes one tenant and nothing else. It fails with \<open>UnknownRow\<close> and changes
  nothing when there is no such tenant. Otherwise exactly the tenant's row, its items and
  channels, their coins, their routes and the outbox rows that name one of either are gone; the highest id
  each table has issued, the schema version and the keys are as before, and the busy timeout is restored.
  That is so whether or not SQLite could scrub the file, and the call returns only when the
  checkpoint was not blocked.
\<close>

theorem purge_removes_one_tenant:
  assumes "db_ok (st_db s)" and "purge_watch answer w s = (r, s')"
  shows "if w \<notin> w_id ` set (db_watch (st_db s)) then r = Inl (UnknownRow [w]) \<and> s' = s
    else let d = st_db s; d' = st_db s' in
      set (db_watch d') = {x \<in> set (db_watch d). w_id x \<noteq> w}
      \<and> set (db_item d') = {x \<in> set (db_item d). i_watch_id x \<noteq> w}
      \<and> set (db_channel d') = {x \<in> set (db_channel d). c_watch_id x \<noteq> w}
      \<and> set (db_utxo d') = {(i, h) \<in> set (db_utxo d). \<exists>x \<in> set (db_item d). i_id x = i \<and> i_watch_id x \<noteq> w}
      \<and> set (db_route d') = {q \<in> set (db_route d). \<exists>x \<in> set (db_item d). i_id x = r_item_id q \<and> i_watch_id x \<noteq> w}
      \<and> set (db_outbox d') = {b \<in> set (db_outbox d).
          (\<forall>x \<in> set (db_item d). i_id x = o_item_id b \<longrightarrow> i_watch_id x \<noteq> w)
          \<and> (\<forall>c \<in> set (db_channel d). c_id c = o_channel_id b \<longrightarrow> c_watch_id c \<noteq> w)}
      \<and> seq_watch d' = seq_watch d \<and> seq_item d' = seq_item d
      \<and> seq_channel d' = seq_channel d \<and> seq_outbox d' = seq_outbox d
      \<and> db_user_version d' = db_user_version d \<and> db_busy_timeout d' = BUSY_TIMEOUT_MS
      \<and> st_keys s' = st_keys s
      \<and> (r = Inr () \<longleftrightarrow> answer = Checkpointed 0)"
proof (cases "w \<in> w_id ` set (db_watch (st_db s))")
  case False
  with find_watch_Some [of w "st_db s"] purge_watch_effect [OF assms(2)] show ?thesis by auto
next
  case True
  then have "find_watch w (st_db s) \<noteq> None" using find_watch_Some by blast
  with purge_watch_effect [OF assms(2)] have r: "r = fst (scrub answer (Some w) s)"
    and s': "s' = s\<lparr>st_db := (delete_watch w (st_db s))\<lparr>db_busy_timeout := BUSY_TIMEOUT_MS\<rparr>\<rparr>" by auto
  have "(r = Inr ()) = (answer = Checkpointed 0)"
    unfolding r scrub_result by (simp split: scrub_answer.split)
  moreover have "set (db_watch (st_db s')) = {x \<in> set (db_watch (st_db s)). w_id x \<noteq> w}"
    "set (db_item (st_db s')) = {x \<in> set (db_item (st_db s)). i_watch_id x \<noteq> w}"
    "set (db_channel (st_db s')) = {x \<in> set (db_channel (st_db s)). c_watch_id x \<noteq> w}"
    by (auto simp: s' delete_watch_def Let_def)
  moreover note delete_watch_rest [of w "st_db s"]
  ultimately show ?thesis using True delete_watch_sets [OF assms(1), of w] by (simp add: s' Let_def)
qed

text \<open>The tenant with an alert in the outbox, beside another tenant's.\<close>

definition ex_two_tenants :: store where
  "ex_two_tenants = ex_tenant\<lparr>st_db := (st_db ex_tenant)\<lparr>
     db_watch := db_watch (st_db ex_tenant) @ [\<lparr>w_id = 2, w_token_hash = [9], w_balance_sats = 0, w_status = W_ACTIVE,
                   w_alarm_undelivered = 0, w_created_at = 0\<rparr>],
     db_item := db_item (st_db ex_tenant) @ [(ex_item ARMED)\<lparr>i_id := 2, i_watch_id := 2\<rparr>],
     db_outbox := [\<lparr>o_id = 1, o_item_id = 1, o_channel_id = 1, o_kind = ''alarm'', o_direction = None,
                     o_attempts = 0, o_next_try_at = 0\<rparr>,
                   \<lparr>o_id = 2, o_item_id = 2, o_channel_id = 2, o_kind = ''alarm'', o_direction = None,
                     o_attempts = 0, o_next_try_at = 0\<rparr>],
     seq_watch := 2, seq_item := 2, seq_outbox := 2\<rparr>\<rparr>"

lemma purge_removes_one_tenant_witness:
  "\<exists>r s'. purge_watch (Checkpointed 1) 1 ex_two_tenants = (r, s') \<and> r \<noteq> Inr ()
     \<and> i_id ` set (db_item (st_db s')) = {2} \<and> o_id ` set (db_outbox (st_db s')) = {2} \<and> seq_item (st_db s') = 2"
proof -
  obtain r s' where p: "purge_watch (Checkpointed 1) 1 ex_two_tenants = (r, s')" by fastforce
  have ok: "db_ok (st_db ex_two_tenants)"
    by (simp add: db_ok_def keys_ok_def refs_ok_def coins_ok_def routes_ok_def alerts_ok_def
      tracked_item_def is_tracked_def TRACKED_def has_verified_route_def ex_two_tenants_def ex_tenant_def ex_item_def)
  have w: "1 \<in> w_id ` set (db_watch (st_db ex_two_tenants))" by (simp add: ex_two_tenants_def ex_tenant_def)
  let ?d = "st_db ex_two_tenants"
  have d: "i_id ` {x \<in> set (db_item ?d). i_watch_id x \<noteq> 1} = {2}" "seq_item ?d = 2"
    "o_id ` {b \<in> set (db_outbox ?d). (\<forall>x \<in> set (db_item ?d). i_id x = o_item_id b \<longrightarrow> i_watch_id x \<noteq> 1)
       \<and> (\<forall>c \<in> set (db_channel ?d). c_id c = o_channel_id b \<longrightarrow> c_watch_id c \<noteq> 1)} = {2}"
    unfolding set_filter [symmetric] by (simp_all add: ex_two_tenants_def ex_tenant_def ex_item_def)
  from purge_removes_one_tenant [OF ok p] w d p show ?thesis by (simp add: Let_def)
qed

end
