(* ===== verification/Supervisor.thy ===== *)
theory Supervisor
  imports Rpc
begin

text \<open>
  \<open>node/supervisor.py\<close>: the queue in front of the node's one scan at a time. Three kinds of
  threads share the supervisor: callers that submit, the worker, and one that closes. Each
  step of the relation below is what one thread does between two points where another can
  come in between; the worker's place in its loop is part of the state. The node's answers
  are arguments, and a time limit may be over at any moment. A test of the stop flag, a wait on the
  queue, the look at a future and the change of it are steps of their own wherever another
  thread can interfere; a batch that is running is resolved in one step, because no one else
  touches a running future (\<open>running_futures_keep\<close>), and set running in one step, because a
  cancellation of one of its futures commutes with the start of another. One thread calls \<open>start\<close> at a
  time. The lists that \<open>concurrent.futures\<close> keeps are the states of the futures, by the order of their creation.
\<close>

section \<open>Data\<close>

definition DEFAULT_BATCH_MAX :: nat where "DEFAULT_BATCH_MAX = 25"
definition DEFAULT_QUEUE_MAXSIZE :: nat where "DEFAULT_QUEUE_MAXSIZE = 100"

record scan_utxo =
  su_txid :: bytes
  su_vout :: int
  su_spk :: bytes

record request =
  rq_future :: nat
  rq_spk :: bytes

datatype future = Pending | Running | Cancelled | Finished "exn + scan_utxo list"

definition is_done :: "future \<Rightarrow> bool" where
  "is_done f \<longleftrightarrow> f \<noteq> Pending \<and> f \<noteq> Running"

text \<open>
  The worker: before its first statement, at the top of its loop, in the first \<open>get\<close> of
  \<open>_collect\<close>, in its second loop, at the top of its third, in the \<open>get\<close> of that, back
  from \<open>_collect\<close>, past the check of the stop flag, past the flag of a scan in flight, inside the call to the node, in \<open>_fail\<close> on its
  way out before it looks at the next future and after it found one not done, returned, ended
  by an exception in \<open>_execute\<close>, and ended by one in \<open>_fail\<close> with these requests still to fail.
\<close>

datatype place =
    NotStarted
  | Looping
  | Polling
  | Draining "request list"
  | Lingering "request list"
  | Getting "request list"
  | Collected "request list"
  | Executing "request list"
  | Calling "request list"
  | Scanning "request list"
  | Failing "request list"
  | Resolving request "request list"
  | Exited
  | Died exn
  | DiedFailing exn "request list"

text \<open>
  The thread in \<open>close\<close>: not there, past the flags, past the sentinel, past the abort, past the
  join and before a \<open>get_nowait\<close>, with a request in hand before and after it looked at its future, out,
  and out by an exception.
\<close>

datatype closer =
    Open
  | Flagged
  | Woken
  | Aborted
  | Joined
  | Looking request
  | Setting request
  | Closed
  | CloseRaised exn

record supervisor =
  sv_batch_max :: nat
  sv_maxsize :: nat
  sv_queue :: "request option list"
  sv_stopping :: bool
  sv_in_flight :: bool
  sv_worker :: bool
  sv_place :: place
  sv_closed :: bool
  sv_closer :: closer
  sv_orphans :: int
  sv_batches :: int
  sv_futures :: "future list"
  sv_entering :: "bytes list"
  sv_calls :: "json list list"

definition new_supervisor :: "nat \<Rightarrow> nat \<Rightarrow> supervisor" where
  "new_supervisor batch_max maxsize =
     \<lparr>sv_batch_max = batch_max, sv_maxsize = maxsize, sv_queue = [], sv_stopping = False,
      sv_in_flight = False, sv_worker = False, sv_place = NotStarted, sv_closed = False, sv_closer = Open,
      sv_orphans = 0, sv_batches = 0, sv_futures = [], sv_entering = [], sv_calls = []\<rparr>"

section \<open>Futures and the queue\<close>

definition set_future :: "nat \<Rightarrow> future \<Rightarrow> supervisor \<Rightarrow> supervisor" where
  "set_future i f s = s\<lparr>sv_futures := (sv_futures s)[i := f]\<rparr>"

text \<open>\<open>Future.cancel\<close>, \<open>set_running_or_notify_cancel\<close>, \<open>set_result\<close> and \<open>set_exception\<close>.\<close>

definition cancel_future :: "nat \<Rightarrow> supervisor \<Rightarrow> supervisor" where
  "cancel_future i s = (if sv_futures s ! i = Pending then set_future i Cancelled s else s)"

definition set_running :: "request \<Rightarrow> (supervisor, bool) py" where
  "set_running r = (\<lambda>s. case sv_futures s ! rq_future r of
     Pending \<Rightarrow> (Inr True, set_future (rq_future r) Running s)
   | Cancelled \<Rightarrow> (Inr False, s)
   | _ \<Rightarrow> (Inl (RuntimeError ''Future in unexpected state''), s))"

definition finish_future :: "exn + scan_utxo list \<Rightarrow> request \<Rightarrow> (supervisor, unit) py" where
  "finish_future outcome r = (\<lambda>s.
     if is_done (sv_futures s ! rq_future r) then (Inl InvalidStateError, s)
     else (Inr (), set_future (rq_future r) (Finished outcome) s))"

definition queue_full :: "supervisor \<Rightarrow> bool" where
  "queue_full s \<longleftrightarrow> 0 < sv_maxsize s \<and> sv_maxsize s \<le> length (sv_queue s)"

text \<open>\<open>_fail\<close>: the futures that are not done.\<close>

definition future_done :: "request \<Rightarrow> supervisor \<Rightarrow> bool" where
  "future_done r s = is_done (sv_futures s ! rq_future r)"

definition fail_one :: "exn \<Rightarrow> request \<Rightarrow> (supervisor, unit) py" where
  "fail_one e r = bind (gets (future_done r)) (\<lambda>d. if d then ret () else finish_future (Inl e) r)"

definition fail_requests :: "request list \<Rightarrow> exn \<Rightarrow> (supervisor, unit) py" where
  "fail_requests requests e = for_each (fail_one e) requests"

definition shut_down :: exn where
  "shut_down = ScanFailed ''supervisor shut down'' None"

section \<open>Submission\<close>

definition submit_check :: "(supervisor, unit) py" where
  "submit_check = bind (gets sv_closed) (\<lambda>closed.
     check (\<not> closed) (ScanFailed ''supervisor is closed'' None))"

definition submit_put :: "bytes \<Rightarrow> (supervisor, nat) py" where
  "submit_put spk = (\<lambda>s.
     if queue_full s then (Inl ScanQueueFull, s)
     else let i = length (sv_futures s)
          in (Inr i, s\<lparr>sv_futures := sv_futures s @ [Pending],
                       sv_queue := sv_queue s @ [Some \<lparr>rq_future = i, rq_spk = spk\<rparr>]\<rparr>))"

definition submit :: "bytes \<Rightarrow> (supervisor, nat) py" where
  "submit spk = bind submit_check (\<lambda>_. submit_put spk)"

definition pending :: "supervisor \<Rightarrow> nat" where
  "pending s = length (sv_queue s)"

section \<open>One batch\<close>

text \<open>\<open>live\<close>, \<open>by_spk\<close> and the descriptors of \<open>_execute\<close>.\<close>

fun start_running :: "request list \<Rightarrow> (supervisor, request list) py" where
  "start_running [] = ret []"
| "start_running (r # rs) =
     bind (set_running r) (\<lambda>ok. bind (start_running rs) (\<lambda>live. ret (if ok then r # live else live)))"

definition group_by_spk :: "request list \<Rightarrow> (bytes \<times> request list) list" where
  "group_by_spk live =
     fold (\<lambda>r d. AList.update (rq_spk r) (dict_get d (rq_spk r) [] @ [r]) d) live []"

definition scan_call :: "request list \<Rightarrow> json list" where
  "scan_call live = [JStr ''start'',
     JList (map (\<lambda>(spk, _). JStr (''raw('' @ hex spk @ '')'')) (group_by_spk live))]"

text \<open>The statements of \<open>_execute\<close> before the call: nothing to do when every request was cancelled. Then the call.\<close>

definition begin_batch :: "request list \<Rightarrow> (supervisor, request list) py" where
  "begin_batch batch = bind (start_running batch) (\<lambda>live.
     if live = [] then ret []
     else bind (modify (\<lambda>s. s\<lparr>sv_in_flight := True\<rparr>)) (\<lambda>_. ret live))"

definition call_node :: "request list \<Rightarrow> supervisor \<Rightarrow> supervisor" where
  "call_node live s = s\<lparr>sv_calls := sv_calls s @ [scan_call live], sv_place := Scanning live\<rparr>"

text \<open>\<open>for entry in v\<close>, and \<open>bytes.fromhex(v)\<close>.\<close>

fun json_iter :: "json \<Rightarrow> exn + json list" where
  "json_iter (JList xs) = Inr xs"
| "json_iter (JStr s) = Inr (map (\<lambda>c. JStr [c]) s)"
| "json_iter (JObj members) = Inr (map (\<lambda>(k, _). JStr k) members)"
| "json_iter _ = Inl TypeError"

fun fromhex_json :: "json \<Rightarrow> exn + bytes" where
  "fromhex_json (JStr s) = fromhex s"
| "fromhex_json _ = Inl TypeError"

definition read_unspent :: "json \<Rightarrow> exn + scan_utxo" where
  "read_unspent entry =
     rbind (rbind (py_item entry ''scriptPubKey'') fromhex_json) (\<lambda>spk.
     rbind (rbind (py_item entry ''txid'') fromhex_json) (\<lambda>txid.
     rbind (rbind (py_item entry ''vout'') py_int) (\<lambda>vout.
     Inr \<lparr>su_txid = rev txid, su_vout = vout, su_spk = spk\<rparr>)))"

definition is_malformed_entry :: "exn \<Rightarrow> bool" where
  "is_malformed_entry e \<longleftrightarrow> e = KeyError \<or> e = TypeError \<or> is_value_error e"

fun sort_unspents :: "(bytes \<times> scan_utxo list) list \<Rightarrow> json list \<Rightarrow> exn + (bytes \<times> scan_utxo list) list" where
  "sort_unspents found [] = Inr found"
| "sort_unspents found (entry # entries) =
     (case read_unspent entry of
        Inl e \<Rightarrow> Inl (if is_malformed_entry e then ScanFailed ''scan result was malformed'' None else e)
      | Inr u \<Rightarrow>
          sort_unspents (case map_of found (su_spk u) of
              None \<Rightarrow> found
            | Some us \<Rightarrow> AList.update (su_spk u) (us @ [u]) found) entries)"

definition is_scan_failed :: "exn \<Rightarrow> bool" where
  "is_scan_failed e \<longleftrightarrow> (\<exists>d c. e = ScanFailed d c)"

text \<open>
  What the answer of the node comes to: \<open>Inl\<close> a \<open>ScanFailed\<close> when the batch is failed with it,
  \<open>Inl\<close> any other exception when it leaves \<open>_execute\<close>, else the coins of each script.
\<close>

definition scan_outcome :: "request list \<Rightarrow> exn + json \<Rightarrow> exn + (bytes \<times> scan_utxo list) list" where
  "scan_outcome live answer =
     (case answer of
        Inl (RpcError code) \<Rightarrow> Inl (ScanFailed ''node rejected the scan'' (Some code))
      | Inl (RpcTransportError _) \<Rightarrow> Inl (ScanFailed ''node unreachable during scan'' None)
      | Inl e \<Rightarrow> Inl e
      | Inr result \<Rightarrow>
          if \<not> is_dict result \<or> \<not> truthy (json_get result ''success'' JNull)
          then Inl (ScanFailed ''scan did not complete'' None)
          else rbind (json_iter (json_get result ''unspents'' (JList [])))
            (sort_unspents (map (\<lambda>(spk, _). (spk, [])) (group_by_spk live))))"

definition end_batch :: "request list \<Rightarrow> exn + json \<Rightarrow> (supervisor, unit) py" where
  "end_batch live answer =
     bind (modify (\<lambda>s. s\<lparr>sv_in_flight := False, sv_batches := sv_batches s + 1\<rparr>)) (\<lambda>_.
     case scan_outcome live answer of
       Inl e \<Rightarrow> if is_scan_failed e then fail_requests live e else throw e
     | Inr found \<Rightarrow>
         for_each (\<lambda>(spk, requests). for_each (finish_future (Inr (dict_get found spk []))) requests)
           (group_by_spk live))"

section \<open>Starting, aborting, closing\<close>

definition abort_call :: "json list" where
  "abort_call = [JStr ''abort'']"

text \<open>\<open>_abort_scan\<close>, given the answer.\<close>

definition abort_scan :: "exn + json \<Rightarrow> (supervisor, bool) py" where
  "abort_scan answer =
     bind (modify (\<lambda>s. s\<lparr>sv_calls := sv_calls s @ [abort_call]\<rparr>)) (\<lambda>_.
     case answer of
       Inr v \<Rightarrow> ret (truthy v)
     | Inl (RpcError _) \<Rightarrow> ret False
     | Inl (RpcTransportError _) \<Rightarrow> ret False
     | Inl e \<Rightarrow> throw e)"

text \<open>A thread that finds the stop flag set ends at once and leaves no trace.\<close>

definition start :: "exn + json \<Rightarrow> (supervisor, unit) py" where
  "start answer =
     bind (gets sv_worker) (\<lambda>worker.
     bind (check (\<not> worker) (RuntimeError ''supervisor already started'')) (\<lambda>_.
     bind (abort_scan answer) (\<lambda>found.
     modify (\<lambda>s. s\<lparr>sv_orphans := sv_orphans s + (if found then 1 else 0), sv_worker := True,
       sv_place := (if sv_stopping s then sv_place s else Looping)\<rparr>))))"

text \<open>
  \<open>close\<close>: the flags, where a second call returns at once; the sentinel, unless the queue is
  full; the abort, if a scan is in flight at that moment; the join, which also returns when its
  timeout is over; and \<open>_drain_queue\<close>, a request at a time.
\<close>

definition close_flags :: "supervisor \<Rightarrow> supervisor" where
  "close_flags s =
     (if sv_closed s then s else s\<lparr>sv_closed := True, sv_stopping := True, sv_closer := Flagged\<rparr>)"

definition close_wake :: "supervisor \<Rightarrow> supervisor" where
  "close_wake s =
     s\<lparr>sv_closer := Woken, sv_queue := (if queue_full s then sv_queue s else sv_queue s @ [None])\<rparr>"

definition close_abort :: "exn + json \<Rightarrow> (supervisor, unit) py" where
  "close_abort answer =
     bind (gets sv_in_flight) (\<lambda>in_flight.
     bind (if in_flight then abort_scan answer else ret False) (\<lambda>_.
     modify (\<lambda>s. s\<lparr>sv_closer := Aborted\<rparr>)))"

definition close_join :: "supervisor \<Rightarrow> supervisor" where
  "close_join s = s\<lparr>sv_closer := Joined, sv_worker := False\<rparr>"

definition drain_get :: "supervisor \<Rightarrow> supervisor" where
  "drain_get s =
     (case sv_queue s of
        [] \<Rightarrow> s\<lparr>sv_closer := Closed\<rparr>
      | None # q \<Rightarrow> s\<lparr>sv_queue := q\<rparr>
      | Some r # q \<Rightarrow> s\<lparr>sv_queue := q, sv_closer := Looking r\<rparr>)"

definition drain_look :: "request \<Rightarrow> supervisor \<Rightarrow> supervisor" where
  "drain_look r s = s\<lparr>sv_closer := (if future_done r s then Joined else Setting r)\<rparr>"

definition drain_set :: "request \<Rightarrow> supervisor \<Rightarrow> supervisor" where
  "drain_set r s =
     (case finish_future (Inl shut_down) r s of
        (Inr _, s') \<Rightarrow> s'\<lparr>sv_closer := Joined\<rparr>
      | (Inl e, s') \<Rightarrow> s'\<lparr>sv_closer := CloseRaised e\<rparr>)"

text \<open>The next step of \<open>_drain_queue\<close>, wherever it is.\<close>

definition drain_step :: "supervisor \<Rightarrow> supervisor" where
  "drain_step s =
     (case sv_closer s of
        Joined \<Rightarrow> drain_get s
      | Looking r \<Rightarrow> drain_look r s
      | Setting r \<Rightarrow> drain_set r s
      | _ \<Rightarrow> s)"

section \<open>The threads\<close>

definition move :: "place \<Rightarrow> supervisor \<Rightarrow> supervisor" where
  "move p s = s\<lparr>sv_place := p\<rparr>"

text \<open>What a \<open>get\<close> of \<open>_collect\<close> takes: a request, which takes the worker to \<open>stay\<close>, or the sentinel.\<close>

definition take_item :: "(request list \<Rightarrow> place) \<Rightarrow> request list \<Rightarrow> supervisor \<Rightarrow> supervisor" where
  "take_item stay batch s =
     (case sv_queue s of
        Some r # q \<Rightarrow> s\<lparr>sv_queue := q, sv_place := stay (batch @ [r])\<rparr>
      | None # q \<Rightarrow> s\<lparr>sv_queue := q, sv_place := Collected batch\<rparr>
      | [] \<Rightarrow> s)"

text \<open>\<open>_fail\<close> on the way out, a future at a time.\<close>

definition fail_look :: "request \<Rightarrow> request list \<Rightarrow> supervisor \<Rightarrow> supervisor" where
  "fail_look r rs s = move (if future_done r s then Failing rs else Resolving r rs) s"

definition fail_set :: "request \<Rightarrow> request list \<Rightarrow> supervisor \<Rightarrow> supervisor" where
  "fail_set r rs s =
     (case finish_future (Inl shut_down) r s of
        (Inr _, s') \<Rightarrow> move (Failing rs) s'
      | (Inl e, s') \<Rightarrow> move (DiedFailing e (r # rs)) s')"

inductive sup_step :: "supervisor \<Rightarrow> supervisor \<Rightarrow> bool" where
  enter: "submit_check s = (Inr (), s) \<Longrightarrow> sup_step s (s\<lparr>sv_entering := spk # sv_entering s\<rparr>)"
| put: "spk \<in> set (sv_entering s) \<Longrightarrow> submit_put spk (s\<lparr>sv_entering := remove1 spk (sv_entering s)\<rparr>) = (r, s')
    \<Longrightarrow> sup_step s s'"
| cancel: "i < length (sv_futures s) \<Longrightarrow> sup_step s (cancel_future i s)"
| start: "start answer s = (r, s') \<Longrightarrow> sup_step s s'"
| quit: "sv_place s = Looping \<Longrightarrow> sv_stopping s \<Longrightarrow> sup_step s (move Exited s)"
| poll: "sv_place s = Looping \<Longrightarrow> \<not> sv_stopping s \<Longrightarrow> sup_step s (move Polling s)"
| first: "sv_place s = Polling \<Longrightarrow> sv_queue s \<noteq> [] \<Longrightarrow> sup_step s (take_item Draining [] s)"
| nothing: "sv_place s = Polling \<Longrightarrow> sv_queue s = [] \<Longrightarrow> sup_step s (move (Collected []) s)"
| drain: "sv_place s = Draining b \<Longrightarrow> length b < sv_batch_max s \<Longrightarrow> sv_queue s \<noteq> []
    \<Longrightarrow> sup_step s (take_item Draining b s)"
| drained: "sv_place s = Draining b \<Longrightarrow> \<not> (length b < sv_batch_max s \<and> sv_queue s \<noteq> [])
    \<Longrightarrow> sup_step s (move (Lingering b) s)"
| linger: "sv_place s = Lingering b \<Longrightarrow> length b < sv_batch_max s \<Longrightarrow> \<not> sv_stopping s
    \<Longrightarrow> sup_step s (move (Getting b) s)"
| lingered: "sv_place s = Lingering b \<Longrightarrow> sup_step s (move (Collected b) s)"
| late: "sv_place s = Getting b \<Longrightarrow> sv_queue s \<noteq> [] \<Longrightarrow> sup_step s (take_item Lingering b s)"
| no_more: "sv_place s = Getting b \<Longrightarrow> sv_queue s = [] \<Longrightarrow> sup_step s (move (Collected b) s)"
| stopped: "sv_place s = Collected b \<Longrightarrow> sv_stopping s \<Longrightarrow> sup_step s (move (Failing b) s)"
| failed: "sv_place s = Failing [] \<Longrightarrow> sup_step s (move Exited s)"
| fail_looks: "sv_place s = Failing (r # rs) \<Longrightarrow> sup_step s (fail_look r rs s)"
| fail_sets: "sv_place s = Resolving r rs \<Longrightarrow> sup_step s (fail_set r rs s)"
| go_on: "sv_place s = Collected b \<Longrightarrow> \<not> sv_stopping s
    \<Longrightarrow> sup_step s (move (if b = [] then Looping else Executing b) s)"
| execute: "sv_place s = Executing b \<Longrightarrow> begin_batch b s = (Inr live, s')
    \<Longrightarrow> sup_step s (move (if live = [] then Looping else Calling live) s')"
| execute_dies: "sv_place s = Executing b \<Longrightarrow> begin_batch b s = (Inl e, s') \<Longrightarrow> sup_step s (move (Died e) s')"
| calls: "sv_place s = Calling live \<Longrightarrow> sup_step s (call_node live s)"
| answered: "sv_place s = Scanning live \<Longrightarrow> end_batch live answer s = (Inr (), s')
    \<Longrightarrow> sup_step s (move Looping s')"
| answer_kills: "sv_place s = Scanning live \<Longrightarrow> end_batch live answer s = (Inl e, s')
    \<Longrightarrow> sup_step s (move (Died e) s')"
| close: "sup_step s (close_flags s)"
| close_wakes: "sv_closer s = Flagged \<Longrightarrow> sup_step s (close_wake s)"
| close_aborts: "sv_closer s = Woken \<Longrightarrow> close_abort answer s = (Inr (), s') \<Longrightarrow> sup_step s s'"
| close_abort_fails: "sv_closer s = Woken \<Longrightarrow> close_abort answer s = (Inl e, s')
    \<Longrightarrow> sup_step s (s'\<lparr>sv_closer := CloseRaised e\<rparr>)"
| join: "sv_closer s = Aborted \<Longrightarrow> sup_step s (close_join s)"
| drain_gets: "sv_closer s = Joined \<Longrightarrow> sup_step s (drain_get s)"
| drain_looks: "sv_closer s = Looking r \<Longrightarrow> sup_step s (drain_look r s)"
| drain_sets: "sv_closer s = Setting r \<Longrightarrow> sup_step s (drain_set r s)"

abbreviation sup_steps :: "supervisor \<Rightarrow> supervisor \<Rightarrow> bool" where
  "sup_steps \<equiv> sup_step\<^sup>*\<^sup>*"

end
