(* ===== verification/Supervisor_Safety.thy ===== *)
theory Supervisor_Safety
  imports Supervisor "HOL-Library.Multiset"
begin

text \<open>
  Who answers for a future. The accounting \<open>accounted\<close> relates the futures to the requests in
  the queue and in the hands of the worker and of the thread that closes: every step of every
  thread keeps it. A worker or a \<open>close\<close> that an exception ends is a state of its own: only an
  answer of the node ends \<open>_execute\<close>, and only a cancellation between the look at a future and
  its resolution ends \<open>_fail\<close> and \<open>_drain_queue\<close>.
\<close>

section \<open>The accounting\<close>

definition accounted :: "future list \<Rightarrow> nat list \<Rightarrow> nat list \<Rightarrow> bool \<Rightarrow> bool" where
  "accounted F hold run dead \<longleftrightarrow> distinct hold \<and> distinct run
     \<and> (\<forall>i \<in> set hold. i < length F \<and> (F ! i = Pending \<or> F ! i = Cancelled))
     \<and> (\<forall>i \<in> set run. i < length F \<and> F ! i = Running)
     \<and> (\<forall>i < length F. F ! i = Pending \<longrightarrow> i \<in> set hold)
     \<and> (\<forall>i < length F. F ! i = Running \<longrightarrow> i \<in> set run \<or> dead)"

lemma accounted_new: "accounted F hold run dead \<Longrightarrow> accounted (F @ [Pending]) (hold @ [length F]) run dead"
  by (fastforce simp: accounted_def nth_append less_Suc_eq)

lemma accounted_order: "accounted F hold run dead \<Longrightarrow> distinct hold' \<Longrightarrow> set hold' = set hold \<Longrightarrow> accounted F hold' run dead"
  by (simp add: accounted_def)

lemma accounted_cancel:
  "accounted F hold run dead \<Longrightarrow> F ! i = Pending \<Longrightarrow> i < length F \<Longrightarrow> accounted (F[i := Cancelled]) hold run dead"
  by (auto simp: accounted_def nth_list_update)

text \<open>The one at the head of the hold is resolved, dropped because it was cancelled, or set running.\<close>

lemma accounted_resolve:
  "accounted F (i # hold) run dead \<Longrightarrow> accounted (F[i := Finished r]) hold run dead"
  by (auto simp: accounted_def nth_list_update)

lemma accounted_drop:
  "accounted F (i # hold) run dead \<Longrightarrow> F ! i = Cancelled \<Longrightarrow> accounted F hold run dead"
  by (auto simp: accounted_def)

lemma accounted_run:
  "accounted F (i # hold) run dead \<Longrightarrow> F ! i = Pending \<Longrightarrow> accounted (F[i := Running]) hold (i # run) dead"
  by (auto simp: accounted_def nth_list_update)

lemma accounted_finish:
  "accounted F hold (i # run) dead \<Longrightarrow> accounted (F[i := Finished r]) hold run dead"
  by (auto simp: accounted_def nth_list_update)

lemma accounted_die: "accounted F hold run dead \<Longrightarrow> accounted F hold [] True"
  by (auto simp: accounted_def)

section \<open>What the parts of the program do to the futures\<close>

text \<open>A future that is running stays as it is whatever its caller does.\<close>

lemma running_futures_keep: "sv_futures s ! i = Running \<Longrightarrow> sv_futures (cancel_future j s) ! i = Running"
  by (cases "i = j") (simp_all add: cancel_future_def set_future_def)

lemma fail_one_run: "fail_one e r s = (Inr (), s\<lparr>sv_futures := (if is_done (sv_futures s ! rq_future r) then sv_futures s
     else (sv_futures s)[rq_future r := Finished (Inl e)])\<rparr>)"
  by (simp add: fail_one_def py_simps future_done_def finish_future_def set_future_def)

lemma fail_requests_futures:
  "fail_requests rs e s = (Inr (), s\<lparr>sv_futures := fold (\<lambda>r F. if is_done (F ! rq_future r) then F
     else F[rq_future r := Finished (Inl e)]) rs (sv_futures s)\<rparr>)"
  by (induction rs arbitrary: s) (simp_all add: fail_requests_def for_each_Cons fail_one_run bind_def ret_def)

lemma fail_run:
  assumes "accounted F hold (map rq_future rs @ run) dead"
  shows "accounted (fold (\<lambda>r F. if is_done (F ! rq_future r) then F
     else F[rq_future r := Finished (Inl e)]) rs F) hold run dead"
  using assms
proof (induction rs arbitrary: F)
  case (Cons r rs)
  then have a: "accounted F hold (rq_future r # (map rq_future rs @ run)) dead" by simp
  then have "F ! rq_future r = Running" by (simp add: accounted_def)
  with Cons.IH [OF accounted_finish [OF a, of "Inl e"]] show ?case by (simp add: is_done_def)
qed simp

text \<open>Setting a batch running never fails and keeps exactly the requests not cancelled.\<close>

lemma start_running_ok:
  assumes "accounted (sv_futures s) (map rq_future rs @ hold) run dead"
  shows "\<exists>F'. start_running rs s = (Inr (filter (\<lambda>r. sv_futures s ! rq_future r = Pending) rs), s\<lparr>sv_futures := F'\<rparr>)
    \<and> accounted F' hold (map rq_future (filter (\<lambda>r. sv_futures s ! rq_future r = Pending) rs) @ run) dead"
  using assms
proof (induction rs arbitrary: s run)
  case Nil
  then show ?case by (intro exI [of _ "sv_futures s"]) (simp add: ret_def)
next
  case (Cons r rs)
  let ?i = "rq_future r" and ?F = "sv_futures s"
  have a: "accounted ?F (?i # (map rq_future rs @ hold)) run dead" using Cons.prems by simp
  then consider "?F ! ?i = Pending" | "?F ! ?i = Cancelled" by (auto simp: accounted_def)
  then show ?case
  proof cases
    case 1
    have keep: "filter (\<lambda>q. ?F[?i := Running] ! rq_future q = Pending) rs = filter (\<lambda>q. ?F ! rq_future q = Pending) rs"
      using a by (intro filter_cong refl) (auto simp: accounted_def nth_list_update)
    let ?s = "s\<lparr>sv_futures := ?F[?i := Running]\<rparr>"
    obtain F' where f: "start_running rs ?s = (Inr (filter (\<lambda>q. ?F ! rq_future q = Pending) rs), ?s\<lparr>sv_futures := F'\<rparr>)"
      "accounted F' hold (map rq_future (filter (\<lambda>q. ?F ! rq_future q = Pending) rs) @ ?i # run) dead"
      using Cons.IH [of ?s "?i # run"] accounted_run [OF a 1] keep by auto
    have "accounted F' hold (map rq_future (filter (\<lambda>q. ?F ! rq_future q = Pending) (r # rs)) @ run) dead"
      using f(2) 1 by (auto simp: accounted_def)
    with f(1) 1 show ?thesis
      by (intro exI [of _ F']) (simp add: py_simps set_running_def set_future_def)
  next
    case 2
    obtain F' where "start_running rs s = (Inr (filter (\<lambda>q. ?F ! rq_future q = Pending) rs), s\<lparr>sv_futures := F'\<rparr>)"
      "accounted F' hold (map rq_future (filter (\<lambda>q. ?F ! rq_future q = Pending) rs) @ run) dead"
      using Cons.IH [OF accounted_drop [OF a 2]] by blast
    with 2 show ?thesis by (intro exI [of _ F']) (simp add: py_simps set_running_def)
  qed
qed

section \<open>Resolving a batch\<close>

definition resolve :: "(request \<Rightarrow> exn + scan_utxo list) \<Rightarrow> request list \<Rightarrow> future list \<Rightarrow> future list" where
  "resolve out rs F = fold (\<lambda>r F. F[rq_future r := Finished (out r)]) rs F"

lemma resolve_run:
  assumes "accounted (sv_futures s) hold (map rq_future rs @ run) dead"
  shows "for_each (\<lambda>r. finish_future (out r) r) rs s = (Inr (), s\<lparr>sv_futures := resolve out rs (sv_futures s)\<rparr>)
    \<and> accounted (resolve out rs (sv_futures s)) hold run dead"
  using assms
proof (induction rs arbitrary: s)
  case Nil
  then show ?case by (simp add: ret_def resolve_def)
next
  case (Cons r rs)
  let ?i = "rq_future r" and ?F = "sv_futures s"
  let ?s = "s\<lparr>sv_futures := ?F[?i := Finished (out r)]\<rparr>"
  have a: "accounted ?F hold (?i # (map rq_future rs @ run)) dead" using Cons.prems by simp
  then have "?F ! ?i = Running" by (simp add: accounted_def)
  then have "finish_future (out r) r s = (Inr (), ?s)" by (simp add: finish_future_def is_done_def set_future_def)
  with Cons.IH [of ?s] accounted_finish [OF a, of "out r"] show ?case
    by (simp add: for_each_Cons bind_def resolve_def)
qed

lemma resolve_nth:
  "distinct (map rq_future rs) \<Longrightarrow> r \<in> set rs \<Longrightarrow> rq_future r < length F \<Longrightarrow> resolve out rs F ! rq_future r = Finished (out r)"
proof (induction rs arbitrary: F)
  case (Cons q rs)
  have other: "rq_future q \<notin> rq_future ` set qs \<Longrightarrow> resolve out qs F ! rq_future q = F ! rq_future q" for qs F
    by (induction qs arbitrary: F) (auto simp: resolve_def)
  show ?case
  proof (cases "r \<in> set rs")
    case True
    with Cons show ?thesis by (simp add: resolve_def)
  next
    case False
    with Cons.prems have "r = q" by simp
    with Cons.prems other [of rs "F[rq_future q := Finished (out q)]"] show ?thesis by (simp add: resolve_def)
  qed
qed simp

text \<open>Grouping by script permutes the batch, and each group has one script.\<close>

lemma concat_update:
  assumes "dict_ok d"
  shows "mset (concat (map snd (AList.update k (dict_get d k [] @ [x]) d))) = add_mset x (mset (concat (map snd d)))"
  using assms
proof (induction d)
  case (Cons p d)
  obtain k' v where p: "p = (k', v)" by fastforce
  show ?case
  proof (cases "k' = k")
    case True
    then show ?thesis by (simp add: p dict_get_def)
  next
    case False
    then have "dict_get (p # d) k [] = dict_get d k []" by (simp add: p dict_get_def)
    with Cons False show ?thesis by (simp add: p)
  qed
qed (simp add: dict_get_def)

definition grouped :: "(bytes \<times> request list) list \<Rightarrow> bool" where
  "grouped d \<longleftrightarrow> dict_ok d \<and> (\<forall>(k, rs) \<in> set d. \<forall>r \<in> set rs. rq_spk r = k)"

lemma grouped_add:
  assumes "grouped d"
  shows "grouped (AList.update (rq_spk r) (dict_get d (rq_spk r) [] @ [r]) d)"
proof -
  define e where "e = AList.update (rq_spk r) (dict_get d (rq_spk r) [] @ [r]) d"
  have ok: "dict_ok e" using assms by (simp add: e_def grouped_def distinct_update)
  have "\<forall>q \<in> set rs. rq_spk q = k" if "(k, rs) \<in> set e" for k rs
  proof -
    have m: "map_of e k = Some rs" using ok that by (rule map_of_is_SomeI)
    have old: "\<forall>q \<in> set qs. rq_spk q = k" if "map_of d k = Some qs" for qs k
      using assms map_of_SomeD [OF that] by (auto simp: grouped_def)
    show ?thesis
    proof (cases "k = rq_spk r")
      case True
      then have "rs = dict_get d k [] @ [r]" using m by (simp add: e_def update_conv')
      then show ?thesis using True old [of k] by (auto simp: dict_get_def split: option.splits)
    next
      case False
      then have "map_of d k = Some rs" using m by (simp add: e_def update_conv')
      then show ?thesis by (rule old)
    qed
  qed
  with ok have "grouped e" by (auto simp: grouped_def)
  then show ?thesis by (simp only: e_def)
qed

lemma group_by_spk_ok: "grouped (group_by_spk live) \<and> mset (concat (map snd (group_by_spk live))) = mset live"
proof -
  have "grouped (fold (\<lambda>r d. AList.update (rq_spk r) (dict_get d (rq_spk r) [] @ [r]) d) live d)
      \<and> mset (concat (map snd (fold (\<lambda>r d. AList.update (rq_spk r) (dict_get d (rq_spk r) [] @ [r]) d) live d)))
        = mset (concat (map snd d)) + mset live" if "grouped d" for d
    using that
  proof (induction live arbitrary: d)
    case (Cons r live)
    have g: "grouped (AList.update (rq_spk r) (dict_get d (rq_spk r) [] @ [r]) d)" by (rule grouped_add [OF Cons.prems])
    show ?case using Cons.IH [OF g] concat_update [of d "rq_spk r" r] Cons.prems by (simp add: grouped_def)
  qed simp
  from this [of "[]"] show ?thesis by (simp add: group_by_spk_def grouped_def)
qed

lemma for_each_groups:
  assumes "\<forall>(k, rs) \<in> set d. \<forall>r \<in> set rs. rq_spk r = k"
  shows "for_each (\<lambda>(spk, requests). for_each (finish_future (Inr (dict_get found spk []))) requests) d =
    for_each (\<lambda>r. finish_future (Inr (dict_get found (rq_spk r) [])) r) (concat (map snd d))"
  using assms
proof (induction d)
  case (Cons p d)
  obtain k rs where p: "p = (k, rs)" by fastforce
  have "for_each (finish_future (Inr (dict_get found k []))) qs =
      for_each (\<lambda>r. finish_future (Inr (dict_get found (rq_spk r) [])) r) qs" if "\<forall>r \<in> set qs. rq_spk r = k" for qs
    using that by (induction qs) (simp_all add: for_each_Cons)
  with Cons show ?case by (simp add: p for_each_Cons for_each_append)
qed simp

text \<open>A batch that is answered leaves nothing running; one that is not leaves everything as it was.\<close>

lemma end_batch_ok:
  assumes "accounted (sv_futures s) hold (map rq_future live) dead"
    and "end_batch live answer s = (r, s')"
  shows "\<exists>F'. s' = s\<lparr>sv_in_flight := False, sv_batches := sv_batches s + 1, sv_futures := F'\<rparr>
    \<and> (case scan_outcome live answer of
         Inl e \<Rightarrow> if is_scan_failed e then r = Inr () \<and> accounted F' hold [] dead
                  \<and> F' = sv_futures (snd (fail_requests live e s))
                else r = Inl e \<and> F' = sv_futures s
       | Inr found \<Rightarrow> r = Inr () \<and> accounted F' hold [] dead
           \<and> F' = resolve (\<lambda>q. Inr (dict_get found (rq_spk q) [])) (concat (map snd (group_by_spk live))) (sv_futures s))"
proof (cases "scan_outcome live answer")
  case (Inl e)
  have "accounted (sv_futures (snd (fail_requests live e s))) hold [] dead"
    using fail_run [of "sv_futures s" hold live "[]" dead e] assms(1) by (simp add: fail_requests_futures)
  then show ?thesis using Inl assms(2)
    by (auto simp: end_batch_def py_simps fail_requests_futures split: if_splits)
next
  case (Inr found)
  let ?rs = "concat (map snd (group_by_spk live))"
  let ?out = "\<lambda>q. Inr (dict_get found (rq_spk q) [])"
  let ?s = "s\<lparr>sv_in_flight := False, sv_batches := sv_batches s + 1\<rparr>"
  have m: "mset (map rq_future ?rs) = mset (map rq_future live)" using group_by_spk_ok [of live] by simp
  have "accounted (sv_futures ?s) hold (map rq_future ?rs) dead"
    using assms(1) mset_eq_setD [OF m] mset_eq_imp_distinct_iff [OF m] by (simp add: accounted_def)
  then have "for_each (\<lambda>q. finish_future (?out q) q) ?rs ?s = (Inr (), ?s\<lparr>sv_futures := resolve ?out ?rs (sv_futures ?s)\<rparr>)
      \<and> accounted (resolve ?out ?rs (sv_futures ?s)) hold [] dead"
    using resolve_run [of ?s hold ?rs "[]" dead ?out] by simp
  moreover have "for_each (\<lambda>(spk, requests). for_each (finish_future (Inr (dict_get found spk []))) requests)
      (group_by_spk live) = for_each (\<lambda>q. finish_future (?out q) q) ?rs"
    using for_each_groups group_by_spk_ok [of live] by (simp add: grouped_def)
  ultimately show ?thesis using Inr assms(2) by (auto simp: end_batch_def py_simps)
qed

section \<open>The invariant\<close>

fun waiting :: "place \<Rightarrow> request list" where
  "waiting (Draining b) = b"
| "waiting (Lingering b) = b"
| "waiting (Getting b) = b"
| "waiting (Collected b) = b"
| "waiting (Executing b) = b"
| "waiting (Failing b) = b"
| "waiting (Resolving r b) = r # b"
| "waiting _ = []"

fun running_of :: "place \<Rightarrow> request list" where
  "running_of (Calling live) = live"
| "running_of (Scanning live) = live"
| "running_of _ = []"

text \<open>What the closing thread has taken from the queue, and what a worker that died in \<open>_fail\<close> left.\<close>

fun in_hand :: "closer \<Rightarrow> request list" where
  "in_hand (Looking r) = [r]"
| "in_hand (Setting r) = [r]"
| "in_hand _ = []"

fun abandoned :: "place \<Rightarrow> request list" where
  "abandoned (DiedFailing e rs) = rs"
| "abandoned _ = []"

fun death :: "place \<Rightarrow> exn option" where
  "death (Died e) = Some e"
| "death _ = None"

definition queued :: "request option list \<Rightarrow> request list" where
  "queued q = concat (map (\<lambda>x. case x of None \<Rightarrow> [] | Some r \<Rightarrow> [r]) q)"

definition holders :: "supervisor \<Rightarrow> request list" where
  "holders s = waiting (sv_place s) @ abandoned (sv_place s) @ in_hand (sv_closer s) @ queued (sv_queue s)"

definition kept :: "supervisor \<Rightarrow> bool" where
  "kept s \<longleftrightarrow> accounted (sv_futures s) (map rq_future (holders s))
     (map rq_future (running_of (sv_place s))) (death (sv_place s) \<noteq> None)"

text \<open>An exception that an answer of the node makes \<open>_execute\<close> raise.\<close>

definition killing :: "exn \<Rightarrow> bool" where
  "killing e \<longleftrightarrow> (\<exists>live answer. scan_outcome live answer = Inl e \<and> \<not> is_scan_failed e)"

text \<open>A worker that died in \<open>_fail\<close> did so on a future that its caller had cancelled.\<close>

definition cancelled_under :: "supervisor \<Rightarrow> bool" where
  "cancelled_under s \<longleftrightarrow> (case sv_place s of
     DiedFailing e rs \<Rightarrow> e = InvalidStateError \<and> rs \<noteq> [] \<and> sv_futures s ! rq_future (hd rs) = Cancelled
   | _ \<Rightarrow> True)"

fun leaving :: "place \<Rightarrow> bool" where
  "leaving (Failing b) = True"
| "leaving (Resolving r b) = True"
| "leaving (DiedFailing e b) = True"
| "leaving _ = False"

fun filling :: "place \<Rightarrow> nat" where
  "filling (Getting b) = Suc (length b)"
| "filling _ = 0"

definition sup_ok :: "supervisor \<Rightarrow> bool" where
  "sup_ok s \<longleftrightarrow> kept s
     \<and> length (waiting (sv_place s)) \<le> max 1 (sv_batch_max s)
     \<and> length (abandoned (sv_place s)) \<le> max 1 (sv_batch_max s)
     \<and> length (running_of (sv_place s)) \<le> max 1 (sv_batch_max s)
     \<and> filling (sv_place s) \<le> sv_batch_max s
     \<and> (sv_in_flight s \<longleftrightarrow> running_of (sv_place s) \<noteq> [])
     \<and> (sv_worker s \<or> sv_stopping s \<or> sv_place s = NotStarted)
     \<and> (leaving (sv_place s) \<longrightarrow> sv_stopping s)
     \<and> cancelled_under s
     \<and> (sv_closed s \<longleftrightarrow> sv_stopping s) \<and> (sv_closer s \<noteq> Open \<longrightarrow> sv_stopping s)
     \<and> (\<forall>e. death (sv_place s) = Some e \<longrightarrow> killing e)"

lemmas sup_ok_defs = sup_ok_def kept_def holders_def cancelled_under_def

lemma queued_simps [simp]:
  "queued [] = []" "queued (None # q) = queued q" "queued (Some r # q) = r # queued q"
  "queued (q @ q') = queued q @ queued q'"
  by (simp_all add: queued_def)

lemma new_supervisor_ok: "sup_ok (new_supervisor batch_max maxsize)"
  by (simp add: sup_ok_defs accounted_def new_supervisor_def)

lemma accounted_perm:
  assumes "accounted F (map rq_future xs) run dead" and "mset xs = mset ys"
  shows "accounted F (map rq_future ys) run dead"
proof (rule accounted_order [OF assms(1)])
  have e: "mset (map rq_future xs) = mset (map rq_future ys)" using assms(2) by simp
  show "distinct (map rq_future ys)" using assms(1) mset_eq_imp_distinct_iff [OF e] by (simp add: accounted_def)
  show "set (map rq_future ys) = set (map rq_future xs)" using mset_eq_setD [OF e] by simp
qed

lemma kept_front:
  assumes "kept s" and "mset (holders s) = add_mset r (mset hs)"
  shows "accounted (sv_futures s) (rq_future r # map rq_future hs) (map rq_future (running_of (sv_place s)))
    (death (sv_place s) \<noteq> None)"
  using accounted_perm [of _ "holders s" _ _ "r # hs"] assms by (simp add: kept_def)

lemma front_open:
  "accounted F (i # hold) run dead \<Longrightarrow> i < length F \<and> (F ! i = Pending \<or> F ! i = Cancelled)"
  by (simp add: accounted_def)

lemma cancelled_under_keep:
  assumes "sup_ok s" and "sv_place s' = sv_place s"
    and "\<And>i. i < length (sv_futures s) \<Longrightarrow> sv_futures s ! i = Cancelled \<Longrightarrow> sv_futures s' ! i = Cancelled"
  shows "cancelled_under s'"
proof (cases "sv_place s")
  case (DiedFailing e rs)
  then have r: "e = InvalidStateError" "rs \<noteq> []" "sv_futures s ! rq_future (hd rs) = Cancelled"
    using assms(1) by (simp_all add: sup_ok_def cancelled_under_def)
  then have "hd rs \<in> set (holders s)" using DiedFailing by (simp add: holders_def)
  then have "rq_future (hd rs) < length (sv_futures s)"
    using assms(1) by (auto simp: sup_ok_def kept_def accounted_def)
  then show ?thesis using r DiedFailing assms(2,3) by (simp add: cancelled_under_def)
qed (simp_all add: cancelled_under_def assms(2))

lemma cancelled_under_simps [simp]:
  "cancelled_under (s\<lparr>sv_closer := c\<rparr>) = cancelled_under s"
  "cancelled_under (s\<lparr>sv_queue := q\<rparr>) = cancelled_under s"
  "cancelled_under (s\<lparr>sv_entering := es\<rparr>) = cancelled_under s"
  "cancelled_under (s\<lparr>sv_calls := cs\<rparr>) = cancelled_under s"
  "cancelled_under (s\<lparr>sv_worker := w\<rparr>) = cancelled_under s"
  "cancelled_under (s\<lparr>sv_orphans := n\<rparr>) = cancelled_under s"
  "cancelled_under (s\<lparr>sv_closed := d\<rparr>) = cancelled_under s"
  "cancelled_under (s\<lparr>sv_stopping := d\<rparr>) = cancelled_under s"
  by (cases "sv_place s"; simp add: cancelled_under_def)+

lemma take_item_ok:
  assumes "sup_ok s" and "sv_place s = p" and "waiting p = b" and "running_of p = []" and "death p = None"
    and "abandoned p = []"
    and "\<And>b. waiting (stay b) = b" and "\<And>b. running_of (stay b) = []" and "\<And>b. death (stay b) = None"
    and "\<And>b. abandoned (stay b) = []" and "\<And>b. filling (stay b) = 0" and "\<And>b. \<not> leaving (stay b)"
    and "\<And>b e rs. stay b \<noteq> DiedFailing e rs"
    and "length b < max 1 (sv_batch_max s)" and "sv_worker s \<or> sv_stopping s"
  shows "sup_ok (take_item stay b s)"
proof (cases "sv_queue s")
  case Nil
  then show ?thesis using assms(1) by (simp add: take_item_def)
next
  case (Cons x q)
  have c: "cancelled_under (t\<lparr>sv_place := stay b\<rparr>)" for t b
    using assms(13) by (auto simp: cancelled_under_def split: place.split)
  show ?thesis
  proof (cases x)
    case None
    then show ?thesis using assms Cons by (auto simp: take_item_def sup_ok_defs)
  next
    case (Some r)
    have "kept (s\<lparr>sv_queue := q, sv_place := stay (b @ [r])\<rparr>)"
      using accounted_perm [of "sv_futures s" "holders s" "[]" False
          "holders (s\<lparr>sv_queue := q, sv_place := stay (b @ [r])\<rparr>)"] assms Cons Some
      by (simp add: sup_ok_def kept_def holders_def)
    moreover have "sv_worker s \<or> sv_stopping s \<or> stay (b @ [r]) = NotStarted" using assms(15) by blast
    ultimately show ?thesis using assms(1-14) Cons Some c by (simp add: take_item_def sup_ok_def)
  qed
qed

lemma submit_put_ok:
  assumes "sup_ok s" and "submit_put spk (s\<lparr>sv_entering := es\<rparr>) = (r, s')"
  shows "sup_ok s'"
proof (cases "queue_full s")
  case True
  then have "s' = s\<lparr>sv_entering := es\<rparr>"
    using assms(2) by (simp add: submit_put_def queue_full_def split: if_splits)
  then show ?thesis using assms(1) by (simp add: sup_ok_def kept_def holders_def)
next
  case False
  let ?q = "\<lparr>rq_future = length (sv_futures s), rq_spk = spk\<rparr>"
  have s': "s' = s\<lparr>sv_entering := es, sv_futures := sv_futures s @ [Pending], sv_queue := sv_queue s @ [Some ?q]\<rparr>"
    using assms(2) False by (simp add: submit_put_def queue_full_def Let_def split: if_splits)
  have k: "kept s" using assms(1) by (simp add: sup_ok_def)
  have "holders s' = holders s @ [?q]" by (simp add: s' holders_def)
  with accounted_new k have "kept s'" by (fastforce simp: s' kept_def)
  moreover have "cancelled_under s'" using cancelled_under_keep [OF assms(1), of s'] by (simp add: s' nth_append)
  ultimately show ?thesis using assms(1) by (simp add: s' sup_ok_def)
qed

lemma cancel_ok:
  assumes "sup_ok s" and "i < length (sv_futures s)"
  shows "sup_ok (cancel_future i s)"
proof (cases "sv_futures s ! i = Pending")
  case True
  have "cancelled_under (cancel_future i s)"
    by (rule cancelled_under_keep [OF assms(1)]) (auto simp: cancel_future_def set_future_def nth_list_update [OF assms(2)] True)
  then show ?thesis using assms accounted_cancel True
    by (simp add: cancel_future_def set_future_def sup_ok_def kept_def holders_def)
next
  case False
  then show ?thesis using assms by (simp add: cancel_future_def)
qed

lemma fail_look_ok:
  assumes "sup_ok s" and "sv_place s = Failing (r # rs)"
  shows "sup_ok (fail_look r rs s)"
proof -
  have a: "accounted (sv_futures s) (rq_future r # map rq_future (rs @ in_hand (sv_closer s) @ queued (sv_queue s))) [] False"
    using assms by (simp add: sup_ok_def kept_def holders_def)
  show ?thesis
  proof (cases "future_done r s")
    case True
    then have "sv_futures s ! rq_future r = Cancelled" using front_open [OF a] by (simp add: future_done_def is_done_def)
    from accounted_drop [OF a this] show ?thesis using assms True
      by (simp add: fail_look_def move_def sup_ok_defs)
  next
    case False
    then show ?thesis using assms by (simp add: fail_look_def move_def sup_ok_defs)
  qed
qed

lemma fail_set_ok:
  assumes "sup_ok s" and "sv_place s = Resolving r rs"
  shows "sup_ok (fail_set r rs s)"
proof -
  have a: "accounted (sv_futures s) (rq_future r # map rq_future (rs @ in_hand (sv_closer s) @ queued (sv_queue s))) [] False"
    using assms by (simp add: sup_ok_def kept_def holders_def)
  show ?thesis
  proof (cases "is_done (sv_futures s ! rq_future r)")
    case True
    then have "sv_futures s ! rq_future r = Cancelled" using front_open [OF a] by (simp add: is_done_def)
    then show ?thesis using assms True by (simp add: fail_set_def finish_future_def move_def sup_ok_defs)
  next
    case False
    from accounted_resolve [OF a] show ?thesis using assms False
      by (simp add: fail_set_def finish_future_def set_future_def move_def sup_ok_defs)
  qed
qed

lemma drain_get_ok:
  assumes "sup_ok s" and "sv_closer s = Joined"
  shows "sup_ok (drain_get s)"
  using assms by (auto simp: drain_get_def sup_ok_def kept_def holders_def split: list.split option.split)

lemma in_hand_front:
  assumes "sup_ok s" and "in_hand (sv_closer s) = [r]"
  shows "accounted (sv_futures s)
    (rq_future r # map rq_future (waiting (sv_place s) @ abandoned (sv_place s) @ queued (sv_queue s)))
    (map rq_future (running_of (sv_place s))) (death (sv_place s) \<noteq> None)"
  by (rule kept_front) (use assms in \<open>simp_all add: sup_ok_def holders_def\<close>)

lemma drain_look_ok:
  assumes "sup_ok s" and "sv_closer s = Looking r"
  shows "sup_ok (drain_look r s)"
proof -
  have a: "accounted (sv_futures s)
    (rq_future r # map rq_future (waiting (sv_place s) @ abandoned (sv_place s) @ queued (sv_queue s)))
    (map rq_future (running_of (sv_place s))) (death (sv_place s) \<noteq> None)"
    using in_hand_front [OF assms(1)] assms(2) by simp
  show ?thesis
  proof (cases "future_done r s")
    case True
    then have "sv_futures s ! rq_future r = Cancelled" using front_open [OF a] by (simp add: future_done_def is_done_def)
    from accounted_drop [OF a this] show ?thesis using assms True
      by (simp add: drain_look_def sup_ok_def kept_def holders_def)
  next
    case False
    then show ?thesis using assms by (simp add: drain_look_def sup_ok_def kept_def holders_def)
  qed
qed

lemma drain_set_ok:
  assumes "sup_ok s" and "sv_closer s = Setting r"
  shows "sup_ok (drain_set r s)"
proof -
  have a: "accounted (sv_futures s)
    (rq_future r # map rq_future (waiting (sv_place s) @ abandoned (sv_place s) @ queued (sv_queue s)))
    (map rq_future (running_of (sv_place s))) (death (sv_place s) \<noteq> None)"
    using in_hand_front [OF assms(1)] assms(2) by simp
  show ?thesis
  proof (cases "is_done (sv_futures s ! rq_future r)")
    case True
    then have "sv_futures s ! rq_future r = Cancelled" using front_open [OF a] by (simp add: is_done_def)
    from accounted_drop [OF a this] show ?thesis using assms True
      by (simp add: drain_set_def finish_future_def sup_ok_def kept_def holders_def)
  next
    case False
    let ?t = "s\<lparr>sv_futures := (sv_futures s)[rq_future r := Finished (Inl shut_down)], sv_closer := Joined\<rparr>"
    have "drain_set r s = ?t" using False by (simp add: drain_set_def finish_future_def set_future_def)
    moreover have "cancelled_under ?t"
      using False front_open [OF a] by (intro cancelled_under_keep [OF assms(1)]) (auto simp: nth_list_update is_done_def)
    moreover have "kept ?t" using accounted_resolve [OF a] by (simp add: kept_def holders_def)
    ultimately show ?thesis using assms by (simp add: sup_ok_def)
  qed
qed

lemma begin_batch_ok:
  assumes "sup_ok s" and "sv_place s = Executing b"
  shows "\<exists>live F' s'. begin_batch b s = (Inr live, s') \<and> sup_ok (move (if live = [] then Looping else Calling live) s')"
proof -
  let ?live = "filter (\<lambda>r. sv_futures s ! rq_future r = Pending) b"
  have "accounted (sv_futures s) (map rq_future b @ map rq_future (in_hand (sv_closer s) @ queued (sv_queue s))) [] False"
    using assms by (simp add: sup_ok_defs holders_def)
  from start_running_ok [OF this] obtain F' where
    F: "start_running b s = (Inr ?live, s\<lparr>sv_futures := F'\<rparr>)"
      "accounted F' (map rq_future (in_hand (sv_closer s) @ queued (sv_queue s))) (map rq_future ?live) False" by auto
  have len: "length ?live \<le> max 1 (sv_batch_max s)"
  proof -
    have "length b \<le> max 1 (sv_batch_max s)" using assms by (simp add: sup_ok_def)
    then show ?thesis using length_filter_le le_trans by blast
  qed
  show ?thesis
  proof (cases "?live = []")
    case True
    with F assms show ?thesis by (simp add: begin_batch_def py_simps move_def sup_ok_defs)
  next
    case False
    let ?s = "s\<lparr>sv_futures := F', sv_in_flight := True\<rparr>"
    have "begin_batch b s = (Inr ?live, ?s)" using False F(1) by (simp add: begin_batch_def py_simps)
    moreover have "sup_ok (move (Calling ?live) ?s)"
      using False F(2) assms len by (simp add: move_def sup_ok_defs)
    ultimately show ?thesis using False by (intro exI [of _ ?live] exI [of _ F'] exI [of _ ?s]) simp
  qed
qed

lemma answer_ok:
  assumes "sup_ok s" and "sv_place s = Scanning live" and "end_batch live answer s = (r, s')"
  shows "sup_ok (move (case r of Inr _ \<Rightarrow> Looping | Inl e \<Rightarrow> Died e) s')"
proof -
  have a: "accounted (sv_futures s) (map rq_future (in_hand (sv_closer s) @ queued (sv_queue s))) (map rq_future live) False"
    using assms(1,2) by (simp add: sup_ok_defs)
  from end_batch_ok [OF this assms(3)] obtain F' where
    F1: "s' = s\<lparr>sv_in_flight := False, sv_batches := sv_batches s + 1, sv_futures := F'\<rparr>" and
    o: "case scan_outcome live answer of
         Inl e \<Rightarrow> if is_scan_failed e then r = Inr () \<and> accounted F' (map rq_future (in_hand (sv_closer s) @ queued (sv_queue s))) [] False
                  \<and> F' = sv_futures (snd (fail_requests live e s))
                else r = Inl e \<and> F' = sv_futures s
       | Inr found \<Rightarrow> r = Inr () \<and> accounted F' (map rq_future (in_hand (sv_closer s) @ queued (sv_queue s))) [] False
           \<and> F' = resolve (\<lambda>q. Inr (dict_get found (rq_spk q) [])) (concat (map snd (group_by_spk live))) (sv_futures s)"
    by blast
  have F2: "r = Inr () \<and> accounted F' (map rq_future (in_hand (sv_closer s) @ queued (sv_queue s))) [] False
       \<or> (\<exists>e. r = Inl e \<and> scan_outcome live answer = Inl e \<and> \<not> is_scan_failed e \<and> F' = sv_futures s)"
    using o by (cases "scan_outcome live answer") (auto split: if_splits)
  from F2 show ?thesis
  proof
    assume "r = Inr () \<and> accounted F' (map rq_future (in_hand (sv_closer s) @ queued (sv_queue s))) [] False"
    then show ?thesis using assms(1,2) by (simp add: F1 move_def sup_ok_defs)
  next
    assume "\<exists>e. r = Inl e \<and> scan_outcome live answer = Inl e \<and> \<not> is_scan_failed e \<and> F' = sv_futures s"
    then obtain e where e: "r = Inl e" "F' = sv_futures s" "killing e" unfolding killing_def by blast
    then show ?thesis using assms(1,2) accounted_die [OF a] by (simp add: F1 move_def sup_ok_defs)
  qed
qed

lemma abort_scan_effect:
  "abort_scan answer s = (r, s') \<Longrightarrow> s' = s\<lparr>sv_calls := sv_calls s @ [abort_call]\<rparr>"
  by (auto simp: abort_scan_def py_simps split: sum.splits exn.splits)

lemma sup_ok_calls: "sup_ok (s\<lparr>sv_calls := cs\<rparr>) = sup_ok s"
  by (simp add: sup_ok_def kept_def holders_def)

lemma sup_ok_closer: "sup_ok s \<Longrightarrow> in_hand c = in_hand (sv_closer s) \<Longrightarrow> sv_stopping s \<Longrightarrow> sup_ok (s\<lparr>sv_closer := c\<rparr>)"
  by (simp add: sup_ok_def kept_def holders_def)

lemma sup_ok_move:
  assumes "sup_ok s" and "waiting p = waiting (sv_place s)" and "abandoned p = []" and "abandoned (sv_place s) = []"
    and "running_of p = running_of (sv_place s)" and "death p = None" and "death (sv_place s) = None"
    and "filling p \<le> sv_batch_max s" and "leaving p \<longrightarrow> sv_stopping s" and "sv_place s \<noteq> NotStarted"
    and "\<And>e rs. p \<noteq> DiedFailing e rs"
  shows "sup_ok (move p s)"
proof -
  have "cancelled_under (move p s)" using assms(11) by (auto simp: cancelled_under_def move_def split: place.split)
  moreover have "sv_worker s \<or> sv_stopping s" using assms(1,10) by (simp add: sup_ok_def)
  ultimately show ?thesis using assms(1-9) by (auto simp: move_def sup_ok_def kept_def holders_def)
qed

lemma call_node_ok: "sup_ok s \<Longrightarrow> sv_place s = Calling live \<Longrightarrow> sup_ok (call_node live s)"
  using sup_ok_move [of "s\<lparr>sv_calls := sv_calls s @ [scan_call live]\<rparr>" "Scanning live"]
  by (simp add: sup_ok_calls call_node_def move_def)

lemma start_ok:
  assumes "sup_ok s" and "start answer s = (r, s')"
  shows "sup_ok s'"
proof (cases "sv_worker s")
  case True
  then show ?thesis using assms by (auto simp: start_def py_simps)
next
  case w: False
  let ?t = "s\<lparr>sv_calls := sv_calls s @ [abort_call]\<rparr>"
  obtain q t where a: "abort_scan answer s = (q, t)" by fastforce
  have t: "t = ?t" by (rule abort_scan_effect [OF a])
  have n: "sv_place s = NotStarted \<or> sv_stopping s" using assms(1) w by (auto simp: sup_ok_def)
  show ?thesis
  proof (cases q)
    case (Inl e)
    then have "s' = ?t" using assms(2) a t w by (simp add: start_def py_simps)
    then show ?thesis using assms(1) by (simp add: sup_ok_def kept_def holders_def)
  next
    case (Inr found)
    let ?u = "?t\<lparr>sv_orphans := sv_orphans s + (if found then 1 else 0), sv_worker := True,
        sv_place := (if sv_stopping s then sv_place s else Looping)\<rparr>"
    have "start answer s = (Inr (), ?u)" using a t w Inr by (simp add: start_def py_simps)
    then have s': "s' = ?u" using assms(2) by simp
    show ?thesis
    proof (cases "sv_stopping s")
      case True
      then have s'': "s' = ?t\<lparr>sv_orphans := sv_orphans s + (if found then 1 else 0), sv_worker := True\<rparr>" using s' by simp
      show ?thesis using assms(1) unfolding s'' by (simp add: sup_ok_def kept_def holders_def)
    next
      case False
      then show ?thesis using n assms(1) by (auto simp: s' sup_ok_defs)
    qed
  qed
qed

lemma close_flags_ok: "sup_ok s \<Longrightarrow> sup_ok (close_flags s)"
  by (auto simp: close_flags_def sup_ok_def kept_def holders_def)

lemma close_wake_ok: "sup_ok s \<Longrightarrow> sv_closer s = Flagged \<Longrightarrow> sup_ok (close_wake s)"
  by (simp add: close_wake_def sup_ok_def kept_def holders_def)

lemma close_join_ok: "sup_ok s \<Longrightarrow> sv_closer s = Aborted \<Longrightarrow> sup_ok (close_join s)"
  by (simp add: close_join_def sup_ok_def kept_def holders_def)

lemma close_abort_ok:
  assumes "sup_ok s" and "sv_closer s = Woken" and "close_abort answer s = (r, s')"
  shows "sup_ok (s'\<lparr>sv_closer := (case r of Inl e \<Rightarrow> CloseRaised e | Inr _ \<Rightarrow> Aborted)\<rparr>)"
proof -
  obtain q u where a: "abort_scan answer s = (q, u)" by fastforce
  let ?t = "if sv_in_flight s then s\<lparr>sv_calls := sv_calls s @ [abort_call]\<rparr> else s"
  have "s'\<lparr>sv_closer := c\<rparr> = ?t\<lparr>sv_closer := c\<rparr>" for c
    using assms(3) a abort_scan_effect [OF a]
    by (cases q; cases "sv_in_flight s"; cases r) (auto simp: close_abort_def py_simps)
  moreover have "sup_ok (?t\<lparr>sv_closer := c\<rparr>)" if "in_hand c = []" for c
  proof -
    have "sup_ok ?t" "sv_stopping ?t" "in_hand (sv_closer ?t) = []" using assms(1,2) sup_ok_calls by (auto simp: sup_ok_def)
    then show ?thesis using sup_ok_closer [of ?t c] that by simp
  qed
  ultimately show ?thesis by (simp split: sum.split)
qed

lemma keep_closer: "sv_closer s = c \<Longrightarrow> s\<lparr>sv_closer := c\<rparr> = s"
  by simp

lemma close_abort_closer: "close_abort answer s = (Inr (), s') \<Longrightarrow> sv_closer s' = Aborted"
  by (auto simp: close_abort_def py_simps split: if_splits prod.splits sum.splits)

lemma sup_step_ok:
  assumes "sup_step s s'" and "sup_ok s"
  shows "sup_ok s'"
  using assms
proof (induction rule: sup_step.induct)
  case (enter s spk)
  then show ?case by (simp add: sup_ok_def kept_def holders_def)
next
  case (put spk s r s')
  then show ?case using submit_put_ok by blast
next
  case (cancel i s)
  then show ?case using cancel_ok by blast
next
  case (start answer s r s')
  then show ?case using start_ok by blast
next
  case (first s)
  then show ?case using take_item_ok [of s Polling "[]" Draining] by (simp add: sup_ok_def)
next
  case (drain s b)
  then show ?case using take_item_ok [of s "Draining b" b Draining] by (simp add: sup_ok_def)
next
  case (late s b)
  then show ?case using take_item_ok [of s "Getting b" b Lingering] by (simp add: sup_ok_def)
next
  case (fail_looks s r rs)
  then show ?case by (simp add: fail_look_ok)
next
  case (fail_sets s r rs)
  then show ?case by (simp add: fail_set_ok)
next
  case (go_on s b)
  then show ?case by (cases "b = []") (simp_all add: sup_ok_move)
next
  case (execute s b live s')
  then show ?case using begin_batch_ok by fastforce
next
  case (execute_dies s b e s')
  then show ?case using begin_batch_ok by fastforce
next
  case (answered s live answer s')
  then show ?case using answer_ok [of s live answer "Inr ()" s'] by simp
next
  case (answer_kills s live answer e s')
  then show ?case using answer_ok [of s live answer "Inl e" s'] by simp
next
  case (close_aborts s answer s')
  then show ?case using close_abort_ok [of s answer "Inr ()" s'] close_abort_closer [of answer s s'] keep_closer [of s' Aborted] by simp
next
  case (close_abort_fails s answer e s')
  then show ?case using close_abort_ok [of s answer "Inl e" s'] by simp
qed (simp_all add: sup_ok_move call_node_ok close_flags_ok close_wake_ok close_join_ok drain_get_ok drain_look_ok drain_set_ok)

end
