(* ===== verification/Supervisor_Properties.thy ===== *)
theory Supervisor_Properties
  imports Supervisor_Safety
begin

text \<open>
  The properties of the scan supervisor over every interleaving of its threads, and the two
  interleavings in which \<open>close\<close> does not do all it promises.
\<close>

lemma sup_steps_ok: "sup_steps (new_supervisor batch_max maxsize) s \<Longrightarrow> sup_ok s"
  by (induction rule: rtranclp_induct) (auto simp: new_supervisor_ok intro: sup_step_ok)

section \<open>What an answer comes to\<close>

lemma json_iter_raises: "json_iter v = Inl e \<Longrightarrow> e = TypeError"
  by (cases v) auto

lemma py_int_raises: "py_int v = Inl e \<Longrightarrow> e = OverflowError \<or> is_malformed_entry e"
proof (cases v)
  case (JFloat x)
  then show "py_int v = Inl e \<Longrightarrow> ?thesis" by (cases x) (auto simp: is_malformed_entry_def)
qed (auto simp: is_malformed_entry_def split: option.splits)

lemma fromhex_json_raises: "fromhex_json v = Inl e \<Longrightarrow> is_malformed_entry e"
  using fromhex_is_value_error by (cases v) (auto simp: is_malformed_entry_def)

lemma read_unspent_raises: "read_unspent v = Inl e \<Longrightarrow> e = OverflowError \<or> is_malformed_entry e"
proof -
  have i: "py_item v k = Inl e \<Longrightarrow> is_malformed_entry e" for k
    using py_item_raises by (auto simp: is_malformed_entry_def)
  assume "read_unspent v = Inl e"
  then show ?thesis
    unfolding read_unspent_def rbind_Inl_iff
    using i fromhex_json_raises py_int_raises by blast
qed

lemma sort_unspents_raises:
  "sort_unspents found entries = Inl e \<Longrightarrow> e = OverflowError \<or> is_scan_failed e"
proof (induction entries arbitrary: found)
  case (Cons entry entries)
  show ?case
  proof (cases "read_unspent entry")
    case (Inl x)
    then show ?thesis using Cons.prems read_unspent_raises [OF Inl]
      by (auto simp: is_scan_failed_def split: if_splits)
  next
    case (Inr u)
    then show ?thesis using Cons by simp
  qed
qed simp

lemma scan_outcome_raises:
  assumes "scan_outcome live answer = Inl e" and "\<not> is_scan_failed e"
  shows "answer = Inl e \<or> e = TypeError \<or> e = OverflowError"
proof (cases answer)
  case (Inl x)
  have "\<not> (\<exists>c. x = RpcError c)" "\<not> (\<exists>t. x = RpcTransportError t)"
    using assms Inl by (auto simp: scan_outcome_def is_scan_failed_def)
  then have "scan_outcome live answer = Inl x" using Inl by (cases x) (simp_all add: scan_outcome_def)
  then show ?thesis using assms(1) Inl by simp
next
  case (Inr v)
  show ?thesis
  proof (cases "\<not> is_dict v \<or> \<not> truthy (json_get v ''success'' JNull)")
    case True
    then show ?thesis using assms Inr by (auto simp: scan_outcome_def is_scan_failed_def)
  next
    case False
    let ?f0 = "map (\<lambda>(spk, _). (spk, [])) (group_by_spk live)"
    have "rbind (json_iter (json_get v ''unspents'' (JList []))) (sort_unspents ?f0) = Inl e"
      using False assms(1) Inr by (simp add: scan_outcome_def)
    then consider "json_iter (json_get v ''unspents'' (JList [])) = Inl e"
      | xs where "sort_unspents ?f0 xs = Inl e" unfolding rbind_Inl_iff by blast
    then show ?thesis
    proof cases
      case 1
      then show ?thesis using json_iter_raises by blast
    next
      case 2
      then show ?thesis using sort_unspents_raises assms(2) by blast
    qed
  qed
qed

text \<open>A well-formed list of coins is sorted by the scripts that were asked for.\<close>

lemma sort_unspents_exact:
  assumes "map read_unspent entries = map Inr us"
  shows "\<exists>found'. sort_unspents found entries = Inr found'
    \<and> (\<forall>k. map_of found' k = map_option (\<lambda>xs. xs @ filter (\<lambda>u. su_spk u = k) us) (map_of found k))"
  using assms
proof (induction entries arbitrary: us found)
  case Nil
  then show ?case by (simp add: option.map_ident)
next
  case (Cons entry entries)
  then obtain u vs where u: "us = u # vs" "read_unspent entry = Inr u" "map read_unspent entries = map Inr vs"
    by (cases us) auto
  let ?f = "case map_of found (su_spk u) of None \<Rightarrow> found | Some xs \<Rightarrow> AList.update (su_spk u) (xs @ [u]) found"
  obtain found' where f: "sort_unspents ?f entries = Inr found'"
    "\<forall>k. map_of found' k = map_option (\<lambda>xs. xs @ filter (\<lambda>u. su_spk u = k) vs) (map_of ?f k)"
    using Cons.IH [OF u(3)] by blast
  have "map_of ?f k = map_option (\<lambda>xs. if su_spk u = k then xs @ [u] else xs) (map_of found k)" for k
    by (cases "map_of found (su_spk u)"; cases "map_of found k") (auto simp: update_conv')
  then show ?case using f u by (auto simp: option.map_comp comp_def intro: option.map_cong)
qed

lemma map_of_const: "map_of (map (\<lambda>(k, _). (k, v)) d) k = map_option (\<lambda>_. v) (map_of d k)"
  by (induction d) auto

lemma group_by_spk_keys: "r \<in> set live \<Longrightarrow> \<exists>rs. map_of (group_by_spk live) (rq_spk r) = Some rs"
proof -
  assume "r \<in> set live"
  then have "r \<in># mset (concat (map snd (group_by_spk live)))"
    using group_by_spk_ok [of live] by simp
  then obtain k rs where k: "(k, rs) \<in> set (group_by_spk live)" "r \<in> set rs" by auto
  then have "rq_spk r = k" using group_by_spk_ok [of live] by (auto simp: grouped_def)
  moreover have "k \<in> fst ` set (group_by_spk live)" using k(1) by force
  ultimately show ?thesis by (metis map_of_eq_None_iff not_None_eq)
qed

section \<open>Properties\<close>


definition ex_submitted :: supervisor where
  "ex_submitted = (new_supervisor 25 100)\<lparr>sv_futures := [Pending], sv_queue := [Some \<lparr>rq_future = 0, rq_spk = [81]\<rparr>]\<rparr>"

lemma ex_submitted_reachable: "sup_steps (new_supervisor 25 100) ex_submitted"
proof -
  have "sup_step (new_supervisor 25 100) ((new_supervisor 25 100)\<lparr>sv_entering := [81] # sv_entering (new_supervisor 25 100)\<rparr>)"
    by (rule enter) (simp add: submit_check_def py_simps new_supervisor_def)
  moreover have "sup_step ((new_supervisor 25 100)\<lparr>sv_entering := [81] # sv_entering (new_supervisor 25 100)\<rparr>) ex_submitted"
    by (rule put [of "[81]" _ "Inr 0"]) (simp_all add: submit_put_def queue_full_def new_supervisor_def ex_submitted_def)
  ultimately show ?thesis by (meson converse_rtranclp_into_rtranclp rtranclp.rtrancl_refl)
qed


text \<open>\<open>_drain_queue\<close> with no other thread in between.\<close>

lemma drain_is_a_step: "sup_steps s (drain_step s)"
  using drain_gets [of s] drain_looks [of s] drain_sets [of s]
  by (cases "sv_closer s") (auto simp: drain_step_def)

lemma drain_steps: "sup_steps s ((drain_step ^^ k) s)"
  by (induction k) (auto intro: drain_is_a_step rtranclp_trans)

definition failing :: "request list \<Rightarrow> future list \<Rightarrow> future list" where
  "failing rs F = fold (\<lambda>r F. if is_done (F ! rq_future r) then F
     else F[rq_future r := Finished (Inl shut_down)]) rs F"

lemma failing_Nil [simp]: "failing [] F = F"
  by (simp add: failing_def)

lemma failing_Cons: "failing (r # rs) F = failing rs (failing [r] F)"
  by (simp add: failing_def)

lemma failing_one: "failing [r] F = (if is_done (F ! rq_future r) then F else F[rq_future r := Finished (Inl shut_down)])"
  by (simp add: failing_def)

lemma length_failing [simp]: "length (failing rs F) = length F"
  by (induction rs arbitrary: F) (simp_all add: failing_def)

lemma failing_nth:
  "i < length F \<Longrightarrow> failing rs F ! i =
     (if i \<in> rq_future ` set rs \<and> \<not> is_done (F ! i) then Finished (Inl shut_down) else F ! i)"
proof (induction rs arbitrary: F)
  case (Cons r rs)
  have "failing [r] F ! i = (if i = rq_future r \<and> \<not> is_done (F ! i) then Finished (Inl shut_down) else F ! i)"
    using Cons.prems by (auto simp: failing_one nth_list_update)
  moreover have "is_done (Finished (Inl shut_down))" by (simp add: is_done_def)
  ultimately show ?case using Cons.IH [of "failing [r] F"] Cons.prems by (auto simp: failing_Cons [of r rs])
qed simp

lemma drain_request:
  assumes "sv_closer s = Joined" and "sv_queue s = Some r # q"
  shows "\<exists>k \<le> 3. (drain_step ^^ k) s = s\<lparr>sv_queue := q, sv_futures := failing [r] (sv_futures s)\<rparr>"
proof (cases "is_done (sv_futures s ! rq_future r)")
  case True
  then have "(drain_step ^^ 2) s = s\<lparr>sv_queue := q, sv_futures := failing [r] (sv_futures s)\<rparr>"
    using assms by (simp add: numeral_2_eq_2 drain_step_def drain_get_def drain_look_def future_done_def failing_def)
  then show ?thesis by (intro exI [of _ 2]) simp
next
  case False
  then have "(drain_step ^^ 3) s = s\<lparr>sv_queue := q, sv_futures := failing [r] (sv_futures s)\<rparr>"
    using assms by (simp add: numeral_3_eq_3 drain_step_def drain_get_def drain_look_def drain_set_def future_done_def
        finish_future_def set_future_def failing_def)
  then show ?thesis by (intro exI [of _ 3]) simp
qed

lemma drain_alone:
  assumes "sv_closer s = Joined"
  shows "\<exists>k \<le> 3 * length (sv_queue s) + 1.
    (drain_step ^^ k) s = s\<lparr>sv_queue := [], sv_closer := Closed, sv_futures := failing (queued (sv_queue s)) (sv_futures s)\<rparr>"
  using assms
proof (induction "sv_queue s" arbitrary: s)
  case Nil
  then have "sv_queue s = []" by simp
  with Nil.prems have "(drain_step ^^ 1) s = s\<lparr>sv_queue := [], sv_closer := Closed, sv_futures := failing (queued (sv_queue s)) (sv_futures s)\<rparr>"
    by (simp add: drain_step_def drain_get_def failing_def)
  then show ?case by (intro exI [of _ 1]) simp
next
  case (Cons x q)
  let ?t = "s\<lparr>sv_queue := q, sv_futures := (case x of None \<Rightarrow> sv_futures s | Some r \<Rightarrow> failing [r] (sv_futures s))\<rparr>"
  have "\<exists>k \<le> 3. (drain_step ^^ k) s = ?t"
  proof (cases x)
    case None
    then have "(drain_step ^^ 1) s = ?t" using Cons.prems Cons.hyps(2) [symmetric] by (simp add: drain_step_def drain_get_def)
    then show ?thesis by (intro exI [of _ 1]) simp
  next
    case (Some r)
    then show ?thesis using drain_request [of s r q] Cons.prems Cons.hyps(2) [symmetric] by simp
  qed
  then obtain k where k: "k \<le> 3" "(drain_step ^^ k) s = ?t" by blast
  obtain l where l: "l \<le> 3 * length q + 1"
    "(drain_step ^^ l) ?t = ?t\<lparr>sv_queue := [], sv_closer := Closed, sv_futures := failing (queued q) (sv_futures ?t)\<rparr>"
    using Cons.hyps(1) [of ?t] Cons.prems by auto
  have "(drain_step ^^ (l + k)) s = (drain_step ^^ l) ?t" using k(2) by (simp add: funpow_add)
  also have "\<dots> = s\<lparr>sv_queue := [], sv_closer := Closed, sv_futures := failing (queued (sv_queue s)) (sv_futures s)\<rparr>"
    unfolding l(2) using Cons.hyps(2) [symmetric] by (cases x) (simp_all add: failing_Cons [of _ "queued q"])
  finally show ?case using k(1) l(1) Cons.hyps(2) [symmetric] by (intro exI [of _ "l + k"]) auto
qed

text \<open>
  C23: Closing leaves no one waiting, unless a cancellation falls between the look at a future and its
  resolution. Once the worker has returned or was never started, every future that exists is done when
  \<open>_drain_queue\<close> finds the queue empty and \<open>close\<close> returns; left to itself it gets there, and gives
  every future not done the shutdown error and no other future anything. The exception it can
  raise comes of a future that was cancelled after the look; then what is not done is still in the
  queue.
\<close>

theorem close_resolves_everything:
  assumes "sup_steps (new_supervisor batch_max maxsize) s" and "sv_place s \<in> {Exited, NotStarted}"
  shows "(sv_closer s = Joined \<and> sv_queue s = [] \<longrightarrow>
      drain_step s = s\<lparr>sv_closer := Closed\<rparr> \<and> (\<forall>f \<in> set (sv_futures s). is_done f))
    \<and> (sv_closer s = Joined \<longrightarrow> (\<exists>k \<le> 3 * length (sv_queue s) + 1. let t = (drain_step ^^ k) s in
        sup_steps s t \<and> sv_closer t = Closed
        \<and> sv_futures t = map (\<lambda>f. if is_done f then f else Finished (Inl shut_down)) (sv_futures s)))
    \<and> (\<forall>r e. sv_closer s = Setting r \<and> sv_closer (drain_step s) = CloseRaised e \<longrightarrow>
        e = InvalidStateError \<and> sv_futures s ! rq_future r = Cancelled
        \<and> (\<forall>i < length (sv_futures s). \<not> is_done (sv_futures s ! i) \<longrightarrow> i \<in> rq_future ` set (queued (sv_queue s))))"
proof -
  have ok: "sup_ok s" by (rule sup_steps_ok [OF assms(1)])
  have h: "holders s = in_hand (sv_closer s) @ queued (sv_queue s)" "running_of (sv_place s) = []" "death (sv_place s) = None"
    using assms(2) by (auto simp: holders_def)
  then have a: "accounted (sv_futures s) (map rq_future (in_hand (sv_closer s) @ queued (sv_queue s))) [] False"
    using ok by (simp add: sup_ok_def kept_def)
  then have open_ones: "i \<in> rq_future ` set (in_hand (sv_closer s) @ queued (sv_queue s))"
    if "i < length (sv_futures s)" "\<not> is_done (sv_futures s ! i)" for i
    using that unfolding accounted_def is_done_def by auto
  have "failing (queued (sv_queue s)) (sv_futures s) = map (\<lambda>f. if is_done f then f else Finished (Inl shut_down)) (sv_futures s)"
    if "sv_closer s = Joined"
    using open_ones that by (intro nth_equalityI) (auto simp: failing_nth)
  then have drained: "\<exists>k \<le> 3 * length (sv_queue s) + 1. let t = (drain_step ^^ k) s in
        sup_steps s t \<and> sv_closer t = Closed
        \<and> sv_futures t = map (\<lambda>f. if is_done f then f else Finished (Inl shut_down)) (sv_futures s)"
    if "sv_closer s = Joined"
    using drain_alone [OF that] drain_steps [of s] that by (auto simp: Let_def)
  have raised: "e = InvalidStateError \<and> sv_futures s ! rq_future r = Cancelled
        \<and> (\<forall>i < length (sv_futures s). \<not> is_done (sv_futures s ! i) \<longrightarrow> i \<in> rq_future ` set (queued (sv_queue s)))"
    if "sv_closer s = Setting r" "sv_closer (drain_step s) = CloseRaised e" for r e
  proof -
    have d: "is_done (sv_futures s ! rq_future r)" and e: "e = InvalidStateError"
      using that by (auto simp: drain_step_def drain_set_def finish_future_def split: if_splits)
    have "sv_futures s ! rq_future r = Cancelled" using a that d by (auto simp: accounted_def is_done_def)
    moreover have "i \<in> rq_future ` set (queued (sv_queue s))"
      if "i < length (sv_futures s)" "\<not> is_done (sv_futures s ! i)" for i
    proof -
      have "i \<noteq> rq_future r" using that(2) d by blast
      then show ?thesis using open_ones [OF that] \<open>sv_closer s = Setting r\<close> by simp
    qed
    ultimately show ?thesis using e by blast
  qed
  have "drain_step s = s\<lparr>sv_closer := Closed\<rparr> \<and> (\<forall>f \<in> set (sv_futures s). is_done f)"
    if "sv_closer s = Joined" "sv_queue s = []"
  proof -
    have "is_done (sv_futures s ! i)" if "i < length (sv_futures s)" for i
      using open_ones [OF that] \<open>sv_closer s = Joined\<close> \<open>sv_queue s = []\<close> by auto
    then show ?thesis using that by (auto simp: drain_step_def drain_get_def in_set_conv_nth)
  qed
  with drained raised show ?thesis by blast
qed

text \<open>A supervisor with two requests is closed before it was started: the thread is about to drain.\<close>

abbreviation rq0 :: request where "rq0 \<equiv> \<lparr>rq_future = 0, rq_spk = [81]\<rparr>"
abbreviation rq1 :: request where "rq1 \<equiv> \<lparr>rq_future = 1, rq_spk = [82]\<rparr>"

definition ex_two :: supervisor where
  "ex_two = (new_supervisor 25 100)\<lparr>sv_futures := [Pending, Pending], sv_queue := [Some rq0, Some rq1]\<rparr>"

definition ex_closing :: supervisor where
  "ex_closing = ex_two\<lparr>sv_queue := [Some rq0, Some rq1, None], sv_closed := True, sv_stopping := True, sv_closer := Joined\<rparr>"

lemma ex_two_reachable: "sup_steps (new_supervisor 25 100) ex_two"
proof -
  let ?e = "ex_submitted\<lparr>sv_entering := [[82]]\<rparr>"
  have "sup_step ex_submitted ?e"
    using enter [of ex_submitted "[82]"] by (simp add: submit_check_def py_simps ex_submitted_def new_supervisor_def)
  moreover have "sup_step ?e ex_two"
    by (rule put [of "[82]" _ "Inr 1"])
      (simp_all add: submit_put_def queue_full_def new_supervisor_def ex_submitted_def ex_two_def)
  ultimately show ?thesis using ex_submitted_reachable by (meson rtranclp.rtrancl_into_rtrancl)
qed

lemma ex_closing_reachable: "sup_steps (new_supervisor 25 100) ex_closing"
proof -
  let ?f = "ex_two\<lparr>sv_closed := True, sv_stopping := True, sv_closer := Flagged\<rparr>"
  let ?w = "ex_closing\<lparr>sv_closer := Woken\<rparr>"
  let ?a = "ex_closing\<lparr>sv_closer := Aborted\<rparr>"
  have "sup_step ex_two ?f" using close [of ex_two] by (simp add: close_flags_def ex_two_def new_supervisor_def)
  moreover have "sup_step ?f ?w"
    using close_wakes [of ?f] by (simp add: close_wake_def queue_full_def ex_two_def ex_closing_def new_supervisor_def)
  moreover have "sup_step ?w ?a"
    by (rule close_aborts [of _ "Inr JNull"]) (simp_all add: close_abort_def py_simps ex_closing_def ex_two_def new_supervisor_def)
  moreover have "sup_step ?a ex_closing"
    using join [of ?a] by (simp add: close_join_def ex_closing_def ex_two_def new_supervisor_def)
  ultimately show ?thesis using ex_two_reachable by (meson rtranclp.rtrancl_into_rtrancl)
qed

lemma close_resolves_everything_witness:
  "sv_futures ex_closing = [Pending, Pending] \<and> (\<exists>k \<le> 10. sv_closer ((drain_step ^^ k) ex_closing) = Closed
     \<and> sv_futures ((drain_step ^^ k) ex_closing) = [Finished (Inl shut_down), Finished (Inl shut_down)])"
proof -
  have e: "sv_place ex_closing \<in> {Exited, NotStarted}" "sv_closer ex_closing = Joined"
    "length (sv_queue ex_closing) = 3" "sv_futures ex_closing = [Pending, Pending]"
    by (simp_all add: ex_closing_def ex_two_def new_supervisor_def)
  show ?thesis using close_resolves_everything [OF ex_closing_reachable e(1)] e
    by (auto simp: Let_def is_done_def)
qed

lemma end_batch_baseline:
  assumes "accounted (sv_futures s) hold (map rq_future live) False"
    and "truthy (json_get (JObj members) ''success'' JNull)"
    and "json_get (JObj members) ''unspents'' (JList []) = JList entries"
    and "map read_unspent entries = map Inr us"
  shows "\<exists>F'. end_batch live (Inr (JObj members)) s =
      (Inr (), s\<lparr>sv_in_flight := False, sv_batches := sv_batches s + 1, sv_futures := F'\<rparr>)
    \<and> (\<forall>r \<in> set live. F' ! rq_future r = Finished (Inr (filter (\<lambda>u. su_spk u = rq_spk r) us)))"
proof -
  let ?g = "group_by_spk live"
  let ?f0 = "map (\<lambda>(spk, _). (spk, [])) ?g :: (bytes \<times> scan_utxo list) list"
  obtain found where f: "sort_unspents ?f0 entries = Inr found"
    "\<forall>k. map_of found k = map_option (\<lambda>xs. xs @ filter (\<lambda>u. su_spk u = k) us) (map_of ?f0 k)"
    using sort_unspents_exact [OF assms(4)] by blast
  have o: "scan_outcome live (Inr (JObj members)) = Inr found"
    using assms(2,3) f(1) by (simp add: scan_outcome_def del: json_get.simps)
  obtain r s' where e: "end_batch live (Inr (JObj members)) s = (r, s')" by fastforce
  let ?out = "\<lambda>q. Inr (dict_get found (rq_spk q) []) :: exn + scan_utxo list"
  let ?rs = "concat (map snd ?g)"
  from end_batch_ok [OF assms(1) e] o have s': "r = Inr ()"
      "s' = s\<lparr>sv_in_flight := False, sv_batches := sv_batches s + 1, sv_futures := resolve ?out ?rs (sv_futures s)\<rparr>"
    by auto
  have m: "mset ?rs = mset live" using group_by_spk_ok [of live] by simp
  have "resolve ?out ?rs (sv_futures s) ! rq_future q = Finished (Inr (filter (\<lambda>u. su_spk u = rq_spk q) us))"
    if q: "q \<in> set live" for q
  proof -
    have mm: "mset (map rq_future ?rs) = mset (map rq_future live)" using m by simp
    have d: "distinct (map rq_future ?rs)"
      using assms(1) unfolding mset_eq_imp_distinct_iff [OF mm] accounted_def by blast
    have "q \<in> set ?rs" using q mset_eq_setD [OF m] by simp
    moreover have "rq_future q < length (sv_futures s)" using assms(1) q by (auto simp: accounted_def)
    ultimately have "resolve ?out ?rs (sv_futures s) ! rq_future q = Finished (?out q)" using resolve_nth [OF d] by blast
    moreover have "map_of ?f0 (rq_spk q) = Some []"
    proof -
      obtain rs where "map_of ?g (rq_spk q) = Some rs" using group_by_spk_keys [OF q] by blast
      then show ?thesis by (simp add: map_of_const)
    qed
    then have "dict_get found (rq_spk q) [] = filter (\<lambda>u. su_spk u = rq_spk q) us"
      using f(2) by (simp add: dict_get_def)
    ultimately show ?thesis by simp
  qed
  with e s' show ?thesis by auto
qed

text \<open>
  A baseline is exact. When the node reports success and a well-formed list of coins,
  every request of the batch gets the coins of its own script, all of them and in the order
  of the answer, two requests for one script the same; nothing else in the supervisor
  changes but the flag and the count of batches.
\<close>

theorem baseline_exact:
  assumes "accounted (sv_futures s) hold (map rq_future live) False"
    and "truthy (json_get (JObj members) ''success'' JNull)"
    and "json_get (JObj members) ''unspents'' (JList []) = JList entries"
    and "map read_unspent entries = map Inr us"
  shows "\<exists>F'. end_batch live (Inr (JObj members)) s =
      (Inr (), s\<lparr>sv_in_flight := False, sv_batches := sv_batches s + 1, sv_futures := F'\<rparr>)
    \<and> (\<forall>r \<in> set live. F' ! rq_future r = Finished (Inr (filter (\<lambda>u. su_spk u = rq_spk r) us)))"
  by (rule end_batch_baseline [OF assms])

definition ex_scanning :: supervisor where
  "ex_scanning = (new_supervisor 25 100)\<lparr>sv_futures := [Running, Running], sv_in_flight := True,
     sv_worker := True, sv_place := Scanning [\<lparr>rq_future = 0, rq_spk = [81]\<rparr>, \<lparr>rq_future = 1, rq_spk = [82]\<rparr>]\<rparr>"

lemma baseline_exact_witness:
  "\<exists>F'. end_batch [\<lparr>rq_future = 0, rq_spk = [81]\<rparr>, \<lparr>rq_future = 1, rq_spk = [82]\<rparr>]
      (Inr (JObj [(''success'', JBool True), (''unspents'', JList [JObj [(''txid'', JStr ''ab''),
        (''vout'', JInt 7), (''scriptPubKey'', JStr ''52'')]])])) ex_scanning =
      (Inr (), ex_scanning\<lparr>sv_in_flight := False, sv_batches := sv_batches ex_scanning + 1, sv_futures := F'\<rparr>)
    \<and> F' ! 0 = Finished (Inr []) \<and> F' ! 1 = Finished (Inr [\<lparr>su_txid = [0xab], su_vout = 7, su_spk = [82]\<rparr>])"
proof -
  let ?live = "[\<lparr>rq_future = 0, rq_spk = [81]\<rparr>, \<lparr>rq_future = 1, rq_spk = [82]\<rparr>]"
  let ?entry = "JObj [(''txid'', JStr ''ab''), (''vout'', JInt 7), (''scriptPubKey'', JStr ''52'')]"
  let ?m = "[(''success'', JBool True), (''unspents'', JList [?entry])]"
  let ?u = "\<lparr>su_txid = [0xab], su_vout = 7, su_spk = [82]\<rparr>"
  have a: "accounted (sv_futures ex_scanning) [] (map rq_future ?live) False"
    by (auto simp: accounted_def ex_scanning_def less_Suc_eq)
  have t: "truthy (json_get (JObj ?m) ''success'' JNull)"
    "json_get (JObj ?m) ''unspents'' (JList []) = JList [?entry]" by simp_all
  have "read_unspent ?entry = Inr ?u" by code_simp
  then have "map read_unspent [?entry] = map Inr [?u]" by simp
  from baseline_exact [OF a t this] show ?thesis by auto
qed

text \<open>A list of coins that is null ends the worker and leaves its batch running for ever.\<close>

lemma null_unspents:
  "scan_outcome live (Inr (JObj [(''success'', JBool True), (''unspents'', JNull)])) = Inl TypeError"
  by (simp add: scan_outcome_def)

text \<open>
  A null list of coins strands the batch. When the node reports success with a null
  list, the exception leaves the worker's loop, so the worker is dead, and the futures of
  the batch stay running: nothing resolves them.
\<close>

theorem null_unspents_strand_the_batch:
  "end_batch live (Inr (JObj [(''success'', JBool True), (''unspents'', JNull)])) s =
     (Inl TypeError, s\<lparr>sv_in_flight := False, sv_batches := sv_batches s + 1\<rparr>)"
  by (simp add: end_batch_def null_unspents py_simps is_scan_failed_def)

end
