(* ===== verification/Supervisor_Races.thy ===== *)
theory Supervisor_Races
  imports Supervisor_Properties
begin

text \<open>
  What the scan supervisor does not promise: runs in which one thread comes between two steps of
  another. A cancellation can end the worker in \<open>_fail\<close> or \<open>close\<close> in \<open>_drain_queue\<close>, a submission can
  come too late for \<open>close\<close>, a scan can begin after it or after its abort, and a malformed answer can end the worker.
\<close>

text \<open>A supervisor that has been started and has one request, and its way to the scan.\<close>

definition ex_started :: supervisor where
  "ex_started = (new_supervisor 25 100)\<lparr>sv_calls := [abort_call], sv_worker := True, sv_place := Looping\<rparr>"

lemma ex_started_reachable: "sup_steps (new_supervisor 25 100) ex_started"
proof -
  have "sup_step (new_supervisor 25 100) ex_started"
    by (rule start [of "Inr (JBool False)" _ "Inr ()"])
      (simp add: start_def abort_scan_def py_simps new_supervisor_def ex_started_def)
  then show ?thesis by simp
qed

definition ex_collected :: supervisor where
  "ex_collected = ex_started\<lparr>sv_futures := [Pending, Pending], sv_place := Getting [rq0, rq1]\<rparr>"

lemmas ex_defs = ex_collected_def ex_started_def ex_two_def new_supervisor_def

lemma ex_collected_reachable: "sup_steps (new_supervisor 25 100) ex_collected"
proof -
  let ?s = "ex_two\<lparr>sv_calls := [abort_call], sv_worker := True\<rparr>"
  let ?p = "\<lambda>q p. ?s\<lparr>sv_queue := q, sv_place := p\<rparr>"
  have "sup_step ex_two (?p [Some rq0, Some rq1] Looping)"
    by (rule start [of "Inr (JBool False)" _ "Inr ()"]) (simp add: start_def abort_scan_def py_simps ex_defs)
  moreover have "sup_step (?p [Some rq0, Some rq1] Looping) (?p [Some rq0, Some rq1] Polling)"
    using poll [of "?p [Some rq0, Some rq1] Looping"] by (simp add: move_def ex_defs)
  moreover have "sup_step (?p [Some rq0, Some rq1] Polling) (?p [Some rq1] (Draining [rq0]))"
    using first [of "?p [Some rq0, Some rq1] Polling"] by (simp add: take_item_def ex_defs)
  moreover have "sup_step (?p [Some rq1] (Draining [rq0])) (?p [] (Draining [rq0, rq1]))"
    using drain [of "?p [Some rq1] (Draining [rq0])" "[rq0]"] by (simp add: take_item_def ex_defs)
  moreover have "sup_step (?p [] (Draining [rq0, rq1])) (?p [] (Lingering [rq0, rq1]))"
    using drained [of "?p [] (Draining [rq0, rq1])" "[rq0, rq1]"] by (simp add: move_def ex_defs)
  moreover have "sup_step (?p [] (Lingering [rq0, rq1])) (?p [] (Getting [rq0, rq1]))"
    using linger [of "?p [] (Lingering [rq0, rq1])" "[rq0, rq1]"] by (simp add: move_def ex_defs)
  moreover have "?p [] (Getting [rq0, rq1]) = ex_collected" by (simp add: ex_defs)
  ultimately show ?thesis using ex_two_reachable by (metis (no_types, lifting) rtranclp.rtrancl_into_rtrancl)
qed

text \<open>
  A cancellation kills the stopping worker. The sentinel wakes the worker in the \<open>get\<close> of its
  window; in \<open>_fail\<close> it finds the first future not done, its caller cancels it, \<open>set_exception\<close>
  raises, and \<open>close\<close> ends with the second future pending in no one's hands.
\<close>

theorem cancel_strands_the_batch:
  "\<exists>s. sup_steps (new_supervisor 25 100) s \<and> sv_closer s = Closed \<and> sv_queue s = []
     \<and> sv_place s = DiedFailing InvalidStateError [rq0, rq1] \<and> sv_futures s = [Cancelled, Pending]"
proof -
  let ?k = "ex_collected\<lparr>sv_closed := True, sv_stopping := True\<rparr>"
  let ?p = "\<lambda>c p. ?k\<lparr>sv_closer := c, sv_place := p\<rparr>"
  let ?q = "\<lambda>c. ?k\<lparr>sv_futures := [Cancelled, Pending], sv_closer := c, sv_place := DiedFailing InvalidStateError [rq0, rq1]\<rparr>"
  let ?f = "?p Flagged (Getting [rq0, rq1])"
  let ?w = "?f\<lparr>sv_queue := [None], sv_closer := Woken\<rparr>"
  let ?c = "?p Woken (Resolving rq0 [rq1])"
  have "sup_step ex_collected ?f" using close [of ex_collected] by (simp add: close_flags_def ex_defs)
  moreover have "sup_step ?f ?w"
    using close_wakes [of ?f] by (simp add: close_wake_def queue_full_def ex_defs)
  moreover have "sup_step ?w (?p Woken (Collected [rq0, rq1]))"
    using late [of ?w "[rq0, rq1]"] by (simp add: take_item_def ex_defs)
  moreover have "sup_step (?p Woken (Collected [rq0, rq1])) (?p Woken (Failing [rq0, rq1]))"
    using stopped [of "?p Woken (Collected [rq0, rq1])" "[rq0, rq1]"] by (simp add: move_def ex_defs)
  moreover have "sup_step (?p Woken (Failing [rq0, rq1])) ?c"
    using fail_looks [of "?p Woken (Failing [rq0, rq1])" rq0 "[rq1]"]
    by (simp add: fail_look_def future_done_def is_done_def move_def ex_defs)
  moreover have "sup_step ?c (?c\<lparr>sv_futures := [Cancelled, Pending]\<rparr>)"
    using cancel [of 0 ?c] by (simp add: cancel_future_def set_future_def ex_defs)
  moreover have "sup_step (?c\<lparr>sv_futures := [Cancelled, Pending]\<rparr>) (?q Woken)"
    using fail_sets [of "?c\<lparr>sv_futures := [Cancelled, Pending]\<rparr>" rq0 "[rq1]"]
    by (simp add: fail_set_def finish_future_def is_done_def move_def ex_defs)
  ultimately have "sup_steps (new_supervisor 25 100) (?q Woken)"
    using ex_collected_reachable by (meson rtranclp.rtrancl_into_rtrancl)
  moreover have "sup_step (?q Woken) (?q Aborted)"
    by (rule close_aborts [of _ "Inr JNull"]) (simp_all add: close_abort_def py_simps ex_defs)
  moreover have "sup_step (?q Aborted) ((?q Joined)\<lparr>sv_worker := False\<rparr>)"
    using join [of "?q Aborted"] by (simp add: close_join_def ex_defs)
  moreover have "sup_step ((?q Joined)\<lparr>sv_worker := False\<rparr>) ((?q Closed)\<lparr>sv_worker := False\<rparr>)"
    using drain_gets [of "(?q Joined)\<lparr>sv_worker := False\<rparr>"] by (simp add: drain_get_def ex_defs)
  ultimately have "sup_steps (new_supervisor 25 100) ((?q Closed)\<lparr>sv_worker := False\<rparr>)"
    by (meson rtranclp.rtrancl_into_rtrancl)
  then show ?thesis by (intro exI [of _ "(?q Closed)\<lparr>sv_worker := False\<rparr>"]) (simp add: ex_defs)
qed

text \<open>
  A cancellation ends \<open>close\<close> before the queue is empty: the exception of \<open>set_exception\<close> leaves
  \<open>_drain_queue\<close>, the next request stays in the queue, and a second \<open>close\<close> returns at once.
\<close>

theorem cancel_ends_the_drain:
  "\<exists>s. sup_steps (new_supervisor 25 100) s \<and> sv_closer s = CloseRaised InvalidStateError
     \<and> sv_queue s = [Some rq1, None] \<and> sv_futures s = [Cancelled, Pending] \<and> close_flags s = s"
proof -
  let ?l = "ex_closing\<lparr>sv_queue := [Some rq1, None], sv_closer := Looking rq0\<rparr>"
  let ?s = "?l\<lparr>sv_closer := Setting rq0\<rparr>"
  let ?c = "?s\<lparr>sv_futures := [Cancelled, Pending]\<rparr>"
  let ?r = "?c\<lparr>sv_closer := CloseRaised InvalidStateError\<rparr>"
  have "sup_step ex_closing ?l"
    using drain_gets [of ex_closing] by (simp add: drain_get_def ex_closing_def ex_defs)
  moreover have "sup_step ?l ?s"
    using drain_looks [of ?l rq0] by (simp add: drain_look_def future_done_def is_done_def ex_closing_def ex_defs)
  moreover have "sup_step ?s ?c"
    using cancel [of 0 ?s] by (simp add: cancel_future_def set_future_def ex_closing_def ex_defs)
  moreover have "sup_step ?c ?r"
    using drain_sets [of ?c rq0] by (simp add: drain_set_def finish_future_def is_done_def ex_closing_def ex_defs)
  ultimately have "sup_steps (new_supervisor 25 100) ?r"
    using ex_closing_reachable by (meson rtranclp.rtrancl_into_rtrancl)
  then show ?thesis by (intro exI [of _ ?r]) (simp add: close_flags_def ex_closing_def)
qed

text \<open>
  Only the node can end a batch. If the worker has died of an exception in \<open>_execute\<close>, then an
  answer of the node makes a batch raise it: it came out of the RPC call itself, or the
  list of coins was no list (\<open>TypeError\<close>), or an output index was infinite (\<open>OverflowError\<close>).
\<close>

theorem worker_dies_of_answers_only:
  assumes "sup_steps (new_supervisor batch_max maxsize) s" and "sv_place s = Died e"
  shows "\<exists>live answer. scan_outcome live answer = Inl e \<and> (answer = Inl e \<or> e = TypeError \<or> e = OverflowError)"
proof -
  have "killing e" using sup_steps_ok [OF assms(1)] assms(2) by (simp add: sup_ok_def)
  then show ?thesis using scan_outcome_raises unfolding killing_def by blast
qed

lemma worker_dies_of_answers_only_witness:
  "\<exists>s live answer. sup_steps (new_supervisor 25 100) s \<and> sv_place s = Died TypeError
     \<and> scan_outcome live answer = Inl TypeError"
proof -
  let ?n = "new_supervisor 25 100"
  let ?r = "\<lparr>rq_future = 0, rq_spk = [81]\<rparr>"
  let ?e = "?n\<lparr>sv_entering := [[81]]\<rparr>"
  let ?s0 = "?n\<lparr>sv_futures := [Pending], sv_queue := [Some ?r]\<rparr>"
  let ?s1 = "?s0\<lparr>sv_calls := [abort_call], sv_worker := True, sv_place := Looping\<rparr>"
  let ?s2 = "?s1\<lparr>sv_queue := [], sv_place := Draining [?r]\<rparr>"
  let ?s5 = "?s2\<lparr>sv_place := Executing [?r]\<rparr>"
  let ?s6 = "?s5\<lparr>sv_futures := [Running], sv_in_flight := True, sv_calls := [abort_call, scan_call [?r]], sv_place := Scanning [?r]\<rparr>"
  let ?s7 = "?s6\<lparr>sv_in_flight := False, sv_batches := 1, sv_place := Died TypeError\<rparr>"
  have e: "sup_step ?n ?e"
    using enter [of ?n "[81]"] by (simp add: submit_check_def py_simps new_supervisor_def)
  have p: "sup_step ?e ?s0"
    by (rule put [of "[81]" _ "Inr 0"]) (simp_all add: submit_put_def queue_full_def new_supervisor_def)
  have a: "sup_step ?s0 ?s1"
    by (rule start [of "Inr (JBool False)" _ "Inr ()"]) (simp add: start_def abort_scan_def py_simps new_supervisor_def)
  have o: "sup_step ?s1 (?s1\<lparr>sv_place := Polling\<rparr>)"
    using poll [of ?s1] by (simp add: move_def new_supervisor_def)
  have f: "sup_step (?s1\<lparr>sv_place := Polling\<rparr>) ?s2"
    using first [of "?s1\<lparr>sv_place := Polling\<rparr>"] by (simp add: take_item_def new_supervisor_def)
  have d: "sup_step ?s2 (?s2\<lparr>sv_place := Lingering [?r]\<rparr>)"
    using drained [of ?s2 "[?r]"] by (simp add: move_def new_supervisor_def)
  have l: "sup_step (?s2\<lparr>sv_place := Lingering [?r]\<rparr>) (?s2\<lparr>sv_place := Collected [?r]\<rparr>)"
    using lingered [of "?s2\<lparr>sv_place := Lingering [?r]\<rparr>" "[?r]"] by (simp add: move_def)
  have g: "sup_step (?s2\<lparr>sv_place := Collected [?r]\<rparr>) ?s5"
    using go_on [of "?s2\<lparr>sv_place := Collected [?r]\<rparr>" "[?r]"] by (simp add: move_def new_supervisor_def)
  let ?c = "?s5\<lparr>sv_futures := [Running], sv_in_flight := True, sv_place := Calling [?r]\<rparr>"
  have x: "sup_step ?s5 ?c"
    using execute [of ?s5 "[?r]" "[?r]"] by (simp add: begin_batch_def set_running_def set_future_def py_simps move_def)
  have y: "sup_step ?c ?s6" using calls [of ?c "[?r]"] by (simp add: call_node_def)
  have k: "sup_step ?s6 ?s7"
    using answer_kills [of ?s6 "[?r]" "Inr (JObj [(''success'', JBool True), (''unspents'', JNull)])" TypeError]
    by (simp add: end_batch_def null_unspents py_simps is_scan_failed_def move_def new_supervisor_def)
  have r: "sup_steps ?n ?s7"
    using e p a o f d l g x y k by (meson converse_rtranclp_into_rtranclp rtranclp.rtrancl_refl)
  have "sv_place ?s7 = Died TypeError" by simp
  with r worker_dies_of_answers_only [OF r this] show ?thesis by blast
qed

text \<open>
  A submission can race with closing and be lost. \<open>submit\<close> looks at the closed flag
  before it puts the request: if the whole of \<open>close\<close> happens in between, the future it
  returns stays pending, with the worker gone and no one left to empty the queue.
\<close>

theorem late_submission_is_lost:
  "\<exists>s. sup_steps (new_supervisor 25 100) s \<and> sv_closer s = Closed \<and> sv_entering s = []
     \<and> sv_place s = Exited \<and> sv_futures s = [Pending]"
proof -
  let ?n = "new_supervisor 25 100"
  let ?s0 = "?n\<lparr>sv_calls := [abort_call], sv_worker := True, sv_place := Looping\<rparr>"
  let ?s1 = "?s0\<lparr>sv_entering := [[81]]\<rparr>"
  let ?f = "?s1\<lparr>sv_closed := True, sv_stopping := True, sv_closer := Flagged\<rparr>"
  let ?s2 = "?f\<lparr>sv_closer := Woken, sv_queue := [None]\<rparr>"
  let ?s3 = "?s2\<lparr>sv_place := Exited\<rparr>"
  let ?s4 = "?s3\<lparr>sv_closer := Aborted\<rparr>"
  let ?s5 = "?s4\<lparr>sv_closer := Joined, sv_worker := False\<rparr>"
  let ?d = "?s5\<lparr>sv_queue := []\<rparr>"
  let ?s6 = "?d\<lparr>sv_closer := Closed\<rparr>"
  let ?s7 = "?s6\<lparr>sv_entering := [], sv_futures := [Pending], sv_queue := [Some \<lparr>rq_future = 0, rq_spk = [81]\<rparr>]\<rparr>"
  have "sup_step ?n ?s0"
    by (rule start [of "Inr (JBool False)" _ "Inr ()"]) (simp add: start_def abort_scan_def py_simps new_supervisor_def)
  moreover have "sup_step ?s0 ?s1"
    using enter [of ?s0 "[81]"] by (simp add: submit_check_def py_simps new_supervisor_def)
  moreover have "sup_step ?s1 ?f"
    using close [of ?s1] by (simp add: close_flags_def new_supervisor_def)
  moreover have "sup_step ?f ?s2"
    using close_wakes [of ?f] by (simp add: close_wake_def queue_full_def new_supervisor_def)
  moreover have "sup_step ?s2 ?s3" using quit [of ?s2] by (simp add: move_def)
  moreover have "sup_step ?s3 ?s4"
    by (rule close_aborts [of _ "Inr JNull"]) (simp_all add: close_abort_def py_simps new_supervisor_def)
  moreover have "sup_step ?s4 ?s5" using join [of ?s4] by (simp add: close_join_def)
  moreover have "sup_step ?s5 ?d" using drain_gets [of ?s5] by (simp add: drain_get_def)
  moreover have "sup_step ?d ?s6" using drain_gets [of ?d] by (simp add: drain_get_def)
  moreover have "sup_step ?s6 ?s7"
    by (rule put [of "[81]" _ "Inr 0"]) (simp_all add: submit_put_def queue_full_def new_supervisor_def)
  ultimately have "sup_steps ?n ?s7" by (meson converse_rtranclp_into_rtranclp rtranclp.rtrancl_refl)
  then show ?thesis by (intro exI [of _ ?s7]) simp
qed

text \<open>
  A scan can start while the supervisor closes and outlive it. The worker looks at the
  stop flag before it raises the flag of a scan in flight; if \<open>close\<close> does both its checks
  in between, the scan starts afterwards and no abort follows it.
\<close>

theorem scan_outlives_close:
  "\<exists>s live. sup_steps (new_supervisor 25 100) s \<and> sv_closer s = Closed \<and> sv_place s = Scanning live
     \<and> last (sv_calls s) = scan_call live \<and> live \<noteq> []"
proof -
  let ?n = "new_supervisor 25 100"
  let ?r = "\<lparr>rq_future = 0, rq_spk = [81]\<rparr>"
  let ?e = "?n\<lparr>sv_entering := [[81]]\<rparr>"
  let ?s0 = "?n\<lparr>sv_futures := [Pending], sv_queue := [Some ?r]\<rparr>"
  let ?s1 = "?s0\<lparr>sv_calls := [abort_call], sv_worker := True, sv_place := Looping\<rparr>"
  let ?s2 = "?s1\<lparr>sv_queue := [], sv_place := Draining [?r]\<rparr>"
  let ?s5 = "?s2\<lparr>sv_place := Executing [?r]\<rparr>"
  let ?f = "?s5\<lparr>sv_closed := True, sv_stopping := True, sv_closer := Flagged\<rparr>"
  let ?s6 = "?f\<lparr>sv_closer := Woken, sv_queue := [None]\<rparr>"
  let ?s7 = "?s6\<lparr>sv_closer := Aborted\<rparr>"
  let ?s8 = "?s7\<lparr>sv_closer := Joined, sv_worker := False\<rparr>"
  let ?d = "?s8\<lparr>sv_queue := []\<rparr>"
  let ?s9 = "?d\<lparr>sv_closer := Closed\<rparr>"
  let ?t = "?s9\<lparr>sv_futures := [Running], sv_in_flight := True, sv_calls := [abort_call, scan_call [?r]], sv_place := Scanning [?r]\<rparr>"
  have "sup_step ?n ?e"
    using enter [of ?n "[81]"] by (simp add: submit_check_def py_simps new_supervisor_def)
  moreover have "sup_step ?e ?s0"
    by (rule put [of "[81]" _ "Inr 0"]) (simp_all add: submit_put_def queue_full_def new_supervisor_def)
  moreover have "sup_step ?s0 ?s1"
    by (rule start [of "Inr (JBool False)" _ "Inr ()"]) (simp add: start_def abort_scan_def py_simps new_supervisor_def)
  moreover have "sup_step ?s1 (?s1\<lparr>sv_place := Polling\<rparr>)"
    using poll [of ?s1] by (simp add: move_def new_supervisor_def)
  moreover have "sup_step (?s1\<lparr>sv_place := Polling\<rparr>) ?s2"
    using first [of "?s1\<lparr>sv_place := Polling\<rparr>"] by (simp add: take_item_def new_supervisor_def)
  moreover have "sup_step ?s2 (?s2\<lparr>sv_place := Lingering [?r]\<rparr>)"
    using drained [of ?s2 "[?r]"] by (simp add: move_def new_supervisor_def)
  moreover have "sup_step (?s2\<lparr>sv_place := Lingering [?r]\<rparr>) (?s2\<lparr>sv_place := Collected [?r]\<rparr>)"
    using lingered [of "?s2\<lparr>sv_place := Lingering [?r]\<rparr>" "[?r]"] by (simp add: move_def)
  moreover have "sup_step (?s2\<lparr>sv_place := Collected [?r]\<rparr>) ?s5"
    using go_on [of "?s2\<lparr>sv_place := Collected [?r]\<rparr>" "[?r]"] by (simp add: move_def new_supervisor_def)
  moreover have "sup_step ?s5 ?f"
    using close [of ?s5] by (simp add: close_flags_def new_supervisor_def)
  moreover have "sup_step ?f ?s6"
    using close_wakes [of ?f] by (simp add: close_wake_def queue_full_def new_supervisor_def)
  moreover have "sup_step ?s6 ?s7"
    by (rule close_aborts [of _ "Inr JNull"]) (simp_all add: close_abort_def py_simps new_supervisor_def)
  moreover have "sup_step ?s7 ?s8" using join [of ?s7] by (simp add: close_join_def)
  moreover have "sup_step ?s8 ?d" using drain_gets [of ?s8] by (simp add: drain_get_def)
  moreover have "sup_step ?d ?s9" using drain_gets [of ?d] by (simp add: drain_get_def)
  moreover have "sup_step ?s9 (?s9\<lparr>sv_futures := [Running], sv_in_flight := True, sv_place := Calling [?r]\<rparr>)"
    using execute [of ?s9 "[?r]" "[?r]"] by (simp add: begin_batch_def set_running_def set_future_def py_simps move_def)
  moreover have "sup_step (?s9\<lparr>sv_futures := [Running], sv_in_flight := True, sv_place := Calling [?r]\<rparr>) ?t"
    using calls [of "?s9\<lparr>sv_futures := [Running], sv_in_flight := True, sv_place := Calling [?r]\<rparr>" "[?r]"]
    by (simp add: call_node_def)
  ultimately have r: "sup_steps ?n ?t" by (meson converse_rtranclp_into_rtranclp rtranclp.rtrancl_refl)
  show ?thesis by (intro exI [of _ ?t] exI [of _ "[?r]"] conjI r) simp_all
qed

text \<open>
  An abort can come too early. The worker raises the flag of a scan in flight before it makes the call;
  a \<open>close\<close> in between aborts a scan that has not begun, and the scan begins behind it.
\<close>

theorem abort_comes_too_early:
  "\<exists>s live. sup_steps (new_supervisor 25 100) s \<and> sv_closer s = Aborted \<and> sv_place s = Scanning live
     \<and> sv_calls s = [abort_call, abort_call, scan_call live] \<and> live \<noteq> []"
proof -
  let ?b = "[rq0, rq1]"
  let ?p = "\<lambda>p. ex_collected\<lparr>sv_place := p\<rparr>"
  let ?c = "ex_collected\<lparr>sv_place := Calling ?b, sv_futures := [Running, Running], sv_in_flight := True\<rparr>"
  let ?f = "?c\<lparr>sv_closed := True, sv_stopping := True, sv_closer := Flagged\<rparr>"
  let ?w = "?f\<lparr>sv_closer := Woken, sv_queue := [None]\<rparr>"
  let ?a = "?w\<lparr>sv_closer := Aborted, sv_calls := [abort_call, abort_call]\<rparr>"
  let ?s = "?a\<lparr>sv_place := Scanning ?b, sv_calls := [abort_call, abort_call, scan_call ?b]\<rparr>"
  have "sup_step ex_collected (?p (Collected ?b))" using no_more [of ex_collected ?b] by (simp add: move_def ex_defs)
  moreover have "sup_step (?p (Collected ?b)) (?p (Executing ?b))"
    using go_on [of "?p (Collected ?b)" ?b] by (simp add: move_def ex_defs)
  moreover have "sup_step (?p (Executing ?b)) ?c"
    using execute [of "?p (Executing ?b)" ?b ?b]
    by (simp add: begin_batch_def set_running_def set_future_def py_simps move_def ex_defs)
  moreover have "sup_step ?c ?f" using close [of ?c] by (simp add: close_flags_def ex_defs)
  moreover have "sup_step ?f ?w" using close_wakes [of ?f] by (simp add: close_wake_def queue_full_def ex_defs)
  moreover have "sup_step ?w ?a"
    by (rule close_aborts [of _ "Inr (JBool False)"]) (simp_all add: close_abort_def abort_scan_def py_simps ex_defs)
  moreover have "sup_step ?a ?s" using calls [of ?a ?b] by (simp add: call_node_def ex_defs)
  ultimately have "sup_steps (new_supervisor 25 100) ?s"
    using ex_collected_reachable by (meson rtranclp.rtrancl_into_rtrancl)
  then show ?thesis by (intro exI [of _ ?s] exI [of _ ?b]) simp
qed

end
