(* ===== verification/Supervisor_Shutdown.thy ===== *)
theory Supervisor_Shutdown
  imports Supervisor_Races
begin

text \<open>
  How long the worker of the scan supervisor outlives the stop flag: a measure of its place
  that every step of its own lowers and no step of another thread changes.
\<close>

section \<open>Operations that leave the flags alone\<close>

definition steady :: "(supervisor, 'a) py \<Rightarrow> bool" where
  "steady m \<longleftrightarrow> (\<forall>s. sv_stopping (snd (m s)) = sv_stopping s \<and> sv_batch_max (snd (m s)) = sv_batch_max s
     \<and> sv_place (snd (m s)) = sv_place s)"

lemma steady_ret [intro]: "steady (ret x)" "steady (throw e)" "steady (gets f)"
  by (simp_all add: steady_def py_simps)

lemma steady_bind [intro]: "steady m \<Longrightarrow> (\<And>x. steady (f x)) \<Longrightarrow> steady (bind m f)"
  by (auto simp: steady_def bind_def split: prod.split sum.split) (metis snd_conv)+

lemma steady_for_each [intro]: "(\<And>x. steady (f x)) \<Longrightarrow> steady (for_each f xs)"
  by (induction xs) (auto simp: for_each_Cons intro!: steady_bind)

lemma steady_modify:
  "(\<And>s. sv_stopping (f s) = sv_stopping s \<and> sv_batch_max (f s) = sv_batch_max s \<and> sv_place (f s) = sv_place s)
     \<Longrightarrow> steady (modify f)"
  by (simp add: steady_def modify_def)

lemma steady_finish: "steady (finish_future out r)"
  by (simp add: steady_def finish_future_def set_future_def)

lemma steady_set_running: "steady (set_running r)"
  by (simp add: steady_def set_running_def set_future_def split: future.split)

lemma steady_start_running: "steady (start_running rs)"
  by (induction rs) (auto intro!: steady_bind steady_set_running)

lemma steady_fail_requests: "steady (fail_requests rs e)"
  unfolding fail_requests_def fail_one_def by (auto intro!: steady_bind steady_for_each steady_finish)

lemma steady_begin: "steady (begin_batch b)"
  unfolding begin_batch_def by (auto intro!: steady_bind steady_start_running steady_modify)

lemma steady_end: "steady (end_batch live answer)"
  unfolding end_batch_def
  by (auto intro!: steady_bind steady_modify steady_for_each steady_finish steady_fail_requests split: sum.split)

lemma steady_abort: "steady (abort_scan answer)"
  unfolding abort_scan_def by (auto intro!: steady_bind steady_modify split: sum.split exn.split)

lemma steadyD:
  "steady m \<Longrightarrow> m s = (r, s') \<Longrightarrow> sv_stopping s' = sv_stopping s \<and> sv_batch_max s' = sv_batch_max s \<and> sv_place s' = sv_place s"
  by (metis steady_def snd_conv)

section \<open>The measure\<close>

text \<open>The steps a worker at this place still makes once it has to stop.\<close>

fun steps_left :: "nat \<Rightarrow> place \<Rightarrow> nat" where
  "steps_left m Polling = 3 * (m - 1) + 7"
| "steps_left m (Draining b) = 3 * (m - length b) + 2 * length b + 4"
| "steps_left m (Getting b) = 2 * length b + 6"
| "steps_left m (Lingering b) = 2 * length b + 3"
| "steps_left m (Collected b) = 2 * length b + 2"
| "steps_left m (Resolving r b) = 2 * length b + 2"
| "steps_left m (Failing b) = 2 * length b + 1"
| "steps_left m (Executing b) = 4"
| "steps_left m (Calling b) = 3"
| "steps_left m (Scanning b) = 2"
| "steps_left m Looping = 1"
| "steps_left m NotStarted = 0"
| "steps_left m Exited = 0"
| "steps_left m (Died e) = 0"
| "steps_left m (DiedFailing e b) = 0"

definition worker_left :: "supervisor \<Rightarrow> nat" where
  "worker_left s = steps_left (sv_batch_max s) (sv_place s)"

lemma worker_left_bound:
  assumes "sup_ok s"
  shows "worker_left s \<le> 3 * max 1 (sv_batch_max s) + 4"
  using assms by (cases "sv_place s") (auto simp: worker_left_def sup_ok_def)

lemma start_stopping:
  assumes "start answer s = (r, s')" and "sv_stopping s"
  shows "sv_stopping s' \<and> sv_place s' = sv_place s \<and> sv_batch_max s' = sv_batch_max s"
proof (cases "sv_worker s")
  case True
  then show ?thesis using assms by (auto simp: start_def py_simps)
next
  case False
  obtain q t where a: "abort_scan answer s = (q, t)" by fastforce
  then show ?thesis using assms False steadyD [OF steady_abort a]
    by (cases q) (auto simp: start_def py_simps)
qed

lemma close_abort_steady:
  assumes "close_abort answer s = (r, s')"
  shows "sv_stopping s' = sv_stopping s \<and> sv_place s' = sv_place s \<and> sv_batch_max s' = sv_batch_max s"
proof -
  have "steady (close_abort answer)"
    unfolding close_abort_def by (auto intro!: steady_bind steady_abort steady_modify)
  from steadyD [OF this assms] show ?thesis by simp
qed

lemma finish_future_flags:
  "finish_future out r s = (q, s') \<Longrightarrow> sv_stopping s' = sv_stopping s \<and> sv_place s' = sv_place s \<and> sv_batch_max s' = sv_batch_max s"
  using steadyD [OF steady_finish, of out r s q s'] by simp

lemma drains_steady:
  "sv_stopping (drain_get s) = sv_stopping s" "sv_place (drain_get s) = sv_place s"
  "sv_stopping (drain_look r s) = sv_stopping s" "sv_place (drain_look r s) = sv_place s"
  "sv_stopping (drain_set r s) = sv_stopping s" "sv_place (drain_set r s) = sv_place s"
  "sv_batch_max (drain_get s) = sv_batch_max s" "sv_batch_max (drain_look r s) = sv_batch_max s"
  "sv_batch_max (drain_set r s) = sv_batch_max s"
  by (simp_all add: drain_get_def drain_look_def drain_set_def finish_future_def set_future_def split: list.split option.split)

lemma take_item_left:
  assumes "sv_queue s \<noteq> []" and "steps_left (sv_batch_max s) (Collected b) < worker_left s"
    and "\<And>r. steps_left (sv_batch_max s) (stay (b @ [r])) < worker_left s"
  shows "worker_left (take_item stay b s) < worker_left s"
  using assms unfolding worker_left_def
  by (cases "sv_queue s"; cases "hd (sv_queue s)") (auto simp: take_item_def)

lemma take_item_flags:
  "sv_stopping (take_item stay b s) = sv_stopping s" "sv_batch_max (take_item stay b s) = sv_batch_max s"
  by (simp_all add: take_item_def split: list.split option.split)

lemma fail_set_left:
  "sv_place s = Resolving r rs \<Longrightarrow> sv_stopping (fail_set r rs s) = sv_stopping s
    \<and> sv_batch_max (fail_set r rs s) = sv_batch_max s \<and> worker_left (fail_set r rs s) < worker_left s"
  by (simp add: fail_set_def finish_future_def set_future_def move_def worker_left_def)

lemma stopping_step:
  assumes "sup_step s s'" and "sv_stopping s"
  shows "sv_stopping s' \<and> sv_batch_max s' = sv_batch_max s \<and> (sv_place s' = sv_place s \<or> worker_left s' < worker_left s)"
  using assms
proof (cases rule: sup_step.cases)
  case (put spk r)
  then show ?thesis using assms(2) by (auto simp: submit_put_def Let_def split: if_splits)
next
  case (cancel i)
  then show ?thesis using assms(2) by (simp add: cancel_future_def set_future_def)
next
  case (start answer r)
  then show ?thesis using start_stopping assms(2) by simp
next
  case first
  then show ?thesis using assms(2) take_item_left [of s "[]" Draining]
    by (auto simp: take_item_flags worker_left_def)
next
  case (drain b)
  then show ?thesis using assms(2) take_item_left [of s b Draining]
    by (auto simp: take_item_flags worker_left_def)
next
  case (late b)
  then show ?thesis using assms(2) take_item_left [of s b Lingering]
    by (auto simp: take_item_flags worker_left_def)
next
  case (fail_looks r rs)
  then show ?thesis using assms(2) by (simp add: fail_look_def move_def worker_left_def)
next
  case (fail_sets r rs)
  then show ?thesis using assms(2) fail_set_left [of s r rs] by simp
next
  case (execute b live t)
  then show ?thesis using steadyD [OF steady_begin execute(3)] assms(2) by (simp add: move_def worker_left_def)
next
  case (execute_dies b e t)
  then show ?thesis using steadyD [OF steady_begin execute_dies(3)] assms(2) by (simp add: move_def worker_left_def)
next
  case (calls live)
  then show ?thesis using assms(2) by (simp add: call_node_def worker_left_def)
next
  case (answered live answer t)
  then show ?thesis using steadyD [OF steady_end answered(3)] assms(2) by (simp add: move_def worker_left_def)
next
  case (answer_kills live answer e t)
  then show ?thesis using steadyD [OF steady_end answer_kills(3)] assms(2) by (simp add: move_def worker_left_def)
next
  case (close_aborts answer)
  then show ?thesis using close_abort_steady assms(2) by simp
next
  case (close_abort_fails answer e t)
  then show ?thesis using close_abort_steady [OF close_abort_fails(3)] assms(2) by simp
qed (auto simp: move_def worker_left_def close_flags_def close_wake_def close_join_def drains_steady)

lemma stopping_worker_moves:
  assumes "sv_stopping s" and "worker_left s > 0"
  shows "\<exists>s'. sup_step s s' \<and> worker_left s' < worker_left s"
proof -
  have go: ?thesis if "sup_step s s'" "sv_place s' \<noteq> sv_place s" for s'
    using that stopping_step [OF that(1) assms(1)] by blast
  show ?thesis
  proof (cases "sv_place s")
    case Looping
    then show ?thesis using go [OF sup_step.quit] assms(1) by (simp add: move_def)
  next
    case Polling
    show ?thesis
    proof (cases "sv_queue s = []")
      case True
      then show ?thesis using go [OF sup_step.nothing [OF Polling]] Polling by (simp add: move_def)
    next
      case False
      then show ?thesis using go [OF sup_step.first [OF Polling]] Polling
        by (cases "sv_queue s"; cases "hd (sv_queue s)") (auto simp: take_item_def)
    qed
  next
    case (Draining b)
    show ?thesis
    proof (cases "length b < sv_batch_max s \<and> sv_queue s \<noteq> []")
      case True
      then show ?thesis using go [OF sup_step.drain [OF Draining]] Draining
        by (cases "sv_queue s"; cases "hd (sv_queue s)") (auto simp: take_item_def)
    next
      case False
      then show ?thesis using go [OF sup_step.drained [OF Draining]] Draining by (simp add: move_def)
    qed
  next
    case (Lingering b)
    then show ?thesis using go [OF sup_step.lingered [OF Lingering]] by (simp add: move_def)
  next
    case (Getting b)
    show ?thesis
    proof (cases "sv_queue s = []")
      case True
      then show ?thesis using go [OF sup_step.no_more [OF Getting]] Getting by (simp add: move_def)
    next
      case False
      then show ?thesis using go [OF sup_step.late [OF Getting]] Getting
        by (cases "sv_queue s"; cases "hd (sv_queue s)") (auto simp: take_item_def)
    qed
  next
    case (Collected b)
    then show ?thesis using go [OF sup_step.stopped [OF Collected assms(1)]] by (simp add: move_def)
  next
    case (Failing b)
    show ?thesis
    proof (cases b)
      case Nil
      then show ?thesis using go [OF sup_step.failed] Failing by (simp add: move_def)
    next
      case (Cons r rs)
      then show ?thesis using go [OF sup_step.fail_looks] Failing by (simp add: fail_look_def move_def)
    qed
  next
    case (Resolving r rs)
    then show ?thesis using fail_set_left [of s r rs] sup_step.fail_sets [OF Resolving] by blast
  next
    case (Executing b)
    obtain r t where b: "begin_batch b s = (r, t)" by fastforce
    then show ?thesis
      using go [OF sup_step.execute [OF Executing]] go [OF sup_step.execute_dies [OF Executing]] Executing
      by (cases r) (auto simp: move_def)
  next
    case (Calling live)
    then show ?thesis using go [OF sup_step.calls [OF Calling]] by (simp add: call_node_def)
  next
    case (Scanning live)
    obtain r t where b: "end_batch live (Inl (RpcTransportError [])) s = (r, t)" by fastforce
    then show ?thesis
      using go [OF sup_step.answered [OF Scanning]] go [OF sup_step.answer_kills [OF Scanning]] Scanning
      by (cases r) (auto simp: move_def)
  qed (use assms(2) in \<open>simp_all add: worker_left_def\<close>)
qed

section \<open>Property\<close>

text \<open>
  C24: stopping is bounded. Once the stop flag is set it stays set, no other thread can move
  the worker, every step of the worker brings it nearer to its end, a worker that has not
  ended can make such a step, and there are at most \<open>3 * batch_max + 4\<close> of them, one answer of
  the node among them: it may still take what is in the queue when it looked at the flag before,
  and fails what it has taken a future at a time.
\<close>

theorem shutdown_bounded:
  assumes "sup_steps (new_supervisor batch_max maxsize) s" and "sv_stopping s"
  shows "(\<forall>s'. sup_step s s' \<longrightarrow> sv_stopping s' \<and> (sv_place s' = sv_place s \<or> worker_left s' < worker_left s))
    \<and> (worker_left s > 0 \<longrightarrow> (\<exists>s'. sup_step s s' \<and> worker_left s' < worker_left s))
    \<and> (worker_left s = 0 \<longleftrightarrow> sv_place s \<in> {NotStarted, Exited} \<or> (\<exists>e. sv_place s = Died e)
        \<or> (\<exists>e rs. sv_place s = DiedFailing e rs))
    \<and> worker_left s \<le> 3 * max 1 (sv_batch_max s) + 4"
proof -
  have "worker_left s = 0 \<longleftrightarrow> sv_place s \<in> {NotStarted, Exited} \<or> (\<exists>e. sv_place s = Died e)
      \<or> (\<exists>e rs. sv_place s = DiedFailing e rs)"
    by (cases "sv_place s") (simp_all add: worker_left_def)
  moreover have "worker_left s \<le> 3 * max 1 (sv_batch_max s) + 4"
    by (rule worker_left_bound [OF sup_steps_ok [OF assms(1)]])
  moreover have "\<forall>s'. sup_step s s' \<longrightarrow> sv_stopping s' \<and> (sv_place s' = sv_place s \<or> worker_left s' < worker_left s)"
    using stopping_step [OF _ assms(2)] by blast
  ultimately show ?thesis using stopping_worker_moves [OF assms(2)] by blast
qed

definition ex_stopping :: supervisor where
  "ex_stopping = ex_collected\<lparr>sv_closed := True, sv_stopping := True, sv_closer := Flagged\<rparr>"

lemma shutdown_bounded_witness:
  "worker_left ex_stopping = 10 \<and> (\<exists>s'. sup_step ex_stopping s' \<and> worker_left s' < 10)"
proof -
  have "sup_step ex_collected ex_stopping"
    using close [of ex_collected] by (simp add: close_flags_def ex_stopping_def ex_defs)
  then have r: "sup_steps (new_supervisor 25 100) ex_stopping"
    using ex_collected_reachable by (meson rtranclp.rtrancl_into_rtrancl)
  have w: "sv_stopping ex_stopping" "worker_left ex_stopping = 10"
    by (simp_all add: ex_stopping_def ex_collected_def worker_left_def)
  with shutdown_bounded [OF r w(1)] show ?thesis by auto
qed

end
