(* ===== verification/Fake_Node.thy ===== *)
theory Fake_Node
  imports Supervisor_Properties Sha256 "HOL-Library.List_Lexorder" "HOL-Library.Product_Lexorder" "HOL-Library.Char_ord"
begin

text \<open>
  \<open>tools/fake_rpc.py\<close>: the node the service is developed against, a set of confirmed coins and
  one scan at a time. Its methods take their decoded parameters. The lemmas join it to the
  supervisor: a batch that this node answers ends with each request holding the coins of its
  own script.
\<close>

section \<open>The chain state\<close>

definition TIP_HEIGHT :: int where "TIP_HEIGHT = 961336"

text \<open>
  A set of coins is a list without duplicates. A scan is its start, its duration and whether it
  was aborted; times are in any unit.
\<close>

record fake_node =
  fk_utxos :: "(string \<times> (string \<times> int) list) list"
  fk_height :: int
  fk_scan :: "(int \<times> int \<times> bool) option"

definition fake_tip_hash :: "int \<Rightarrow> string" where
  "fake_tip_hash height = replicate 12 (CHR ''0'') @ drop 12 (hex (sha256 (ascii (int_str height))))"

definition add_coin :: "string \<times> string \<times> int \<Rightarrow> (string \<times> (string \<times> int) list) list \<Rightarrow> (string \<times> (string \<times> int) list) list" where
  "add_coin entry utxos = (case entry of (spk, txid, vout) \<Rightarrow>
     AList.update spk (List.insert (txid, vout) (dict_get utxos spk [])) utxos)"

definition load_utxos :: "(string \<times> string \<times> int) list \<Rightarrow> (string \<times> (string \<times> int) list) list" where
  "load_utxos entries = fold add_coin entries []"

definition new_fake_node :: "(string \<times> string \<times> int) list \<Rightarrow> fake_node" where
  "new_fake_node entries = \<lparr>fk_utxos = load_utxos entries, fk_height = TIP_HEIGHT, fk_scan = None\<rparr>"

definition fake_receive :: "(string \<times> string \<times> int) list \<Rightarrow> fake_node \<Rightarrow> fake_node" where
  "fake_receive entries n = n\<lparr>fk_utxos := fold add_coin entries (fk_utxos n)\<rparr>"

text \<open>A spent coin leaves every script that has it, and a script without coins leaves the set.\<close>

definition spend_coin :: "string \<times> int \<Rightarrow> (string \<times> (string \<times> int) list) list \<Rightarrow> (string \<times> (string \<times> int) list) list" where
  "spend_coin key utxos = concat (map (\<lambda>(spk, coins).
     if key \<in> set coins then (let rest = filter (\<lambda>c. c \<noteq> key) coins in if rest = [] then [] else [(spk, rest)])
     else [(spk, coins)]) utxos)"

fun fake_spend :: "(string \<times> int) list \<Rightarrow> fake_node \<Rightarrow> int \<times> fake_node" where
  "fake_spend [] n = (0, n)"
| "fake_spend (key # keys) n =
     (let found = int (length (filter (\<lambda>(spk, coins). key \<in> set coins) (fk_utxos n)));
          (spent, n') = fake_spend keys (n\<lparr>fk_utxos := spend_coin key (fk_utxos n)\<rparr>)
      in (found + spent, n'))"

definition fake_advance :: "int \<Rightarrow> fake_node \<Rightarrow> json \<times> fake_node" where
  "fake_advance blocks n =
     (let height = fk_height n + blocks
      in (JObj [(''blocks'', JInt height), (''bestblockhash'', JStr (fake_tip_hash height))], n\<lparr>fk_height := height\<rparr>))"

definition fake_utxos :: "fake_node \<Rightarrow> json" where
  "fake_utxos n = JList (concat (map (\<lambda>(spk, coins).
     map (\<lambda>(txid, vout). JObj [(''spk'', JStr spk), (''txid'', JStr txid), (''vout'', JInt vout)]) (sort coins))
     (sort_key fst (fk_utxos n))))"

definition fake_info :: "fake_node \<Rightarrow> json" where
  "fake_info n = JObj [(''chain'', JStr ''main''), (''blocks'', JInt (fk_height n)), (''headers'', JInt (fk_height n)),
     (''bestblockhash'', JStr (fake_tip_hash (fk_height n))), (''pruned'', JBool True), (''pruneheight'', JInt 932056),
     (''initialblockdownload'', JBool False), (''verificationprogress'', JFloat (Finite 4503149267407759 (- 52)))]"

section \<open>The scan\<close>

definition scan_done :: "int \<Rightarrow> fake_node \<Rightarrow> bool" where
  "scan_done now n = (case fk_scan n of None \<Rightarrow> False | Some (started, duration, _) \<Rightarrow> now - started \<ge> duration)"

text \<open>The start of a scan, refused while another runs.\<close>

definition scan_begin :: "int \<Rightarrow> int \<Rightarrow> fake_node \<Rightarrow> bool \<times> fake_node" where
  "scan_begin now delay n =
     (if fk_scan n \<noteq> None \<and> \<not> scan_done now n then (False, n)
      else (True, n\<lparr>fk_scan := Some (now, delay, False)\<rparr>))"

text \<open>What the waiting request makes of the state: on with it, give up, or wait on.\<close>

datatype scan_view = Through | GivenUp | Waiting

definition scan_look :: "int \<Rightarrow> fake_node \<Rightarrow> scan_view" where
  "scan_look now n =
     (if scan_done now n then Through
      else case fk_scan n of
          None \<Rightarrow> GivenUp
        | Some (_, _, aborted) \<Rightarrow> if aborted then GivenUp else Waiting)"

definition raw_spk :: "string \<Rightarrow> string option" where
  "raw_spk descriptor =
     (if take 4 descriptor = ''raw('' \<and> descriptor \<noteq> [] \<and> last descriptor = CHR '')''
      then Some (butlast (drop 4 descriptor)) else None)"

definition unspent_json :: "string \<Rightarrow> string \<Rightarrow> string \<times> int \<Rightarrow> json" where
  "unspent_json descriptor spk = (\<lambda>(txid, vout). JObj [(''txid'', JStr txid), (''vout'', JInt vout),
     (''scriptPubKey'', JStr spk), (''desc'', JStr descriptor), (''amount'', JFloat (Finite 1152921504606847 (- 60))),
     (''height'', JInt 900000)])"

definition snapshot :: "string list \<Rightarrow> fake_node \<Rightarrow> json list" where
  "snapshot descriptors n = concat (map (\<lambda>descriptor. case raw_spk descriptor of
       None \<Rightarrow> []
     | Some spk \<Rightarrow> map (unspent_json descriptor spk) (sort (dict_get (fk_utxos n) spk []))) descriptors)"

text \<open>\<open>amount\<close> is \<open>round(0.001 * n, 8)\<close> as a JSON number.\<close>

definition scan_result :: "(nat \<Rightarrow> json) \<Rightarrow> string list \<Rightarrow> fake_node \<Rightarrow> (string \<times> json) list" where
  "scan_result amount descriptors n =
     (let unspents = snapshot descriptors n
      in [(''success'', JBool True), (''txouts'', JInt 165813573), (''height'', JInt (fk_height n)),
          (''bestblock'', JStr (fake_tip_hash (fk_height n))), (''unspents'', JList unspents),
          (''total_amount'', amount (length unspents))])"

definition fake_abort :: "fake_node \<Rightarrow> bool \<times> fake_node" where
  "fake_abort n = (if fk_scan n = None then (False, n) else (True, n\<lparr>fk_scan := None\<rparr>))"

text \<open>A scan that nothing disturbs: it begins, its time passes, and the set at the end is reported.\<close>

definition fake_scan :: "(nat \<Rightarrow> json) \<Rightarrow> int \<Rightarrow> int \<Rightarrow> string list \<Rightarrow> fake_node \<Rightarrow> (int \<times> string + json) \<times> fake_node" where
  "fake_scan amount now delay descriptors n =
     (case scan_begin now delay n of
        (False, n) \<Rightarrow> (Inl (- 8, ''Scan already in progress, use action \"abort\" or \"status\"''), n)
      | (True, n) \<Rightarrow>
          (case scan_look (now + delay) n of
             Through \<Rightarrow> (let n = n\<lparr>fk_scan := None\<rparr> in (Inr (JObj (scan_result amount descriptors n)), n))
           | _ \<Rightarrow> (Inl (- 1, ''Scan aborted''), n)))"

text \<open>
  How far a scan has come: \<open>percent\<close> stands for \<open>int(elapsed / duration * 100)\<close>, which the code
  computes in floats, for a duration that is not zero.
\<close>

definition scan_progress :: "(int \<Rightarrow> int \<Rightarrow> int) \<Rightarrow> int \<Rightarrow> fake_node \<Rightarrow> int option" where
  "scan_progress percent now n =
     map_option (\<lambda>(started, duration, _). min 99 (percent (now - started) duration)) (fk_scan n)"

text \<open>The calls, with their parameters decoded, and what each is answered with.\<close>

datatype fake_call =
    GetBlockCount | GetBestBlockHash | Uptime | GetBlockchainInfo | GetRawMempool
  | FakeReceive "(string \<times> string \<times> int) list" | FakeSpend "(string \<times> int) list" | FakeAdvance int | FakeUtxos
  | ScanStart "string list" | ScanStatus | ScanAbort | OtherMethod string

type_synonym fake_outcome = "int \<times> string + json"

definition fake_handle ::
  "(nat \<Rightarrow> json) \<Rightarrow> (int \<Rightarrow> int \<Rightarrow> int) \<Rightarrow> int \<Rightarrow> int \<Rightarrow> fake_call \<Rightarrow> fake_node \<Rightarrow> fake_outcome \<times> fake_node" where
  "fake_handle amount percent now delay call n =
     (case call of
        GetBlockCount \<Rightarrow> (Inr (JInt (fk_height n)), n)
      | GetBestBlockHash \<Rightarrow> (Inr (JStr (fake_tip_hash (fk_height n))), n)
      | Uptime \<Rightarrow> (Inr (JInt 1800000), n)
      | GetBlockchainInfo \<Rightarrow> (Inr (fake_info n), n)
      | GetRawMempool \<Rightarrow> (Inr (JList []), n)
      | FakeReceive entries \<Rightarrow> (Inr (JBool True), fake_receive entries n)
      | FakeSpend keys \<Rightarrow> (let (spent, n') = fake_spend keys n in (Inr (JInt spent), n'))
      | FakeAdvance blocks \<Rightarrow> (let (v, n') = fake_advance blocks n in (Inr v, n'))
      | FakeUtxos \<Rightarrow> (Inr (fake_utxos n), n)
      | ScanStart descriptors \<Rightarrow> fake_scan amount now delay descriptors n
      | ScanStatus \<Rightarrow>
          (Inr (case scan_progress percent now n of None \<Rightarrow> JNull | Some pct \<Rightarrow> JObj [(''progress'', JInt pct)]), n)
      | ScanAbort \<Rightarrow> (let (aborted, n') = fake_abort n in (Inr (JBool aborted), n'))
      | OtherMethod name \<Rightarrow> (Inl (- 32601, ''Method not found: '' @ name), n))"

text \<open>The reply to a call, as \<open>do_POST\<close> writes it.\<close>

definition fake_reply :: "json \<Rightarrow> int \<times> string + json \<Rightarrow> reply" where
  "fake_reply req_id outcome =
     (let (result, error) = (case outcome of
          Inr result \<Rightarrow> (result, JNull)
        | Inl (code, message) \<Rightarrow> (JNull, JObj [(''code'', JInt code), (''message'', JStr message)]))
      in Answer (JObj [(''result'', result), (''error'', error), (''id'', req_id)]))"

section \<open>Lemmas\<close>

lemma raw_spk_raw [simp]: "raw_spk (CHR ''r'' # CHR ''a'' # CHR ''w'' # CHR ''('' # s @ '')'') = Some s"
  by (simp add: raw_spk_def)

text \<open>The descriptors of a batch's call.\<close>

definition batch_descriptors :: "request list \<Rightarrow> string list" where
  "batch_descriptors live = map (\<lambda>(spk, _). ''raw('' @ hex spk @ '')'') (group_by_spk live)"

lemma scan_call_descriptors: "scan_call live = [JStr ''start'', JList (map JStr (batch_descriptors live))]"
  by (simp add: scan_call_def batch_descriptors_def comp_def case_prod_unfold)

text \<open>Every coin has a transaction id in hexadecimal.\<close>

definition readable :: "fake_node \<Rightarrow> bool" where
  "readable n \<longleftrightarrow> (\<forall>(spk, coins) \<in> set (fk_utxos n). \<forall>(txid, vout) \<in> set coins. \<exists>b. fromhex txid = Inr b)"

definition node_coins :: "fake_node \<Rightarrow> bytes \<Rightarrow> (string \<times> int) list" where
  "node_coins n spk = sort (dict_get (fk_utxos n) (hex spk) [])"

definition baseline_coin :: "bytes \<Rightarrow> string \<times> int \<Rightarrow> scan_utxo" where
  "baseline_coin spk c = \<lparr>su_txid = rev (projr (fromhex (fst c))), su_vout = snd c, su_spk = spk\<rparr>"

lemma read_unspent_json:
  assumes "fromhex (fst c) = Inr b"
  shows "read_unspent (unspent_json d (hex spk) c) = Inr (baseline_coin spk c)"
  using assms by (cases c) (simp add: read_unspent_def unspent_json_def baseline_coin_def)

lemma readable_coins:
  assumes "readable n" and "c \<in> set (node_coins n spk)"
  shows "\<exists>b. fromhex (fst c) = Inr b"
proof -
  obtain coins where m: "map_of (fk_utxos n) (hex spk) = Some coins" "c \<in> set coins"
    using assms(2) by (cases "map_of (fk_utxos n) (hex spk)") (simp_all add: node_coins_def dict_get_def)
  from map_of_SomeD [OF m(1)] m(2) assms(1) show ?thesis by (fastforce simp: readable_def)
qed

lemma snapshot_batch:
  "snapshot (batch_descriptors live) n =
     concat (map (\<lambda>spk. map (unspent_json (''raw('' @ hex spk @ '')'') (hex spk)) (node_coins n spk)) (map fst (group_by_spk live)))"
  by (simp add: snapshot_def batch_descriptors_def node_coins_def comp_def case_prod_unfold)

lemma snapshot_reads:
  assumes "readable n"
  shows "map read_unspent (snapshot (batch_descriptors live) n) =
    map Inr (concat (map (\<lambda>spk. map (baseline_coin spk) (node_coins n spk)) (map fst (group_by_spk live))))"
proof -
  have "map read_unspent (map (unspent_json (''raw('' @ hex spk @ '')'') (hex spk)) (node_coins n spk))
      = map Inr (map (baseline_coin spk) (node_coins n spk))" for spk
    using readable_coins [OF assms, of _ spk] read_unspent_json by fastforce
  then have "map read_unspent (concat (map (\<lambda>spk. map (unspent_json (''raw('' @ hex spk @ '')'') (hex spk)) (node_coins n spk)) ks))
      = map Inr (concat (map (\<lambda>spk. map (baseline_coin spk) (node_coins n spk)) ks))" for ks
    by (induction ks) simp_all
  then show ?thesis unfolding snapshot_batch .
qed

lemma filter_group:
  assumes "distinct ks" and "k \<in> set ks"
  shows "filter (\<lambda>u. su_spk u = k) (concat (map (\<lambda>spk. map (baseline_coin spk) (f spk)) ks)) = map (baseline_coin k) (f k)"
  using assms
proof (induction ks)
  case (Cons x ks)
  have other: "filter (\<lambda>u. su_spk u = k) (map (baseline_coin x) cs) = (if x = k then map (baseline_coin x) cs else [])" for x cs
    by (induction cs) (auto simp: baseline_coin_def)
  have none: "filter (\<lambda>u. su_spk u = k) (concat (map (\<lambda>spk. map (baseline_coin spk) (f spk)) ks)) = []" if "k \<notin> set ks"
    using that by (induction ks) (auto simp: other)
  show ?case using Cons none by (cases "x = k") (auto simp: other)
qed simp

lemma fake_scan_alone:
  assumes "fk_scan n = None"
  shows "fst (fake_scan amount now delay ds n) = Inr (JObj (scan_result amount ds n))"
  using assms by (simp add: fake_scan_def scan_begin_def scan_look_def scan_done_def Let_def scan_result_def snapshot_def cong: option.case_cong)

text \<open>
  A request whose scan was aborted does not learn of it when another scan has begun before it
  looks: it waits on and takes the end of the other scan for its own.
\<close>

lemma aborted_start_waits_on:
  "let n1 = snd (scan_begin 0 10 (new_fake_node [])); n2 = snd (fake_abort n1); n3 = snd (scan_begin 1 10 n2)
   in scan_look 2 n2 = GivenUp \<and> scan_look 2 n3 = Waiting \<and> scan_look 11 n3 = Through"
  by (simp add: scan_begin_def fake_abort_def scan_look_def scan_done_def new_fake_node_def)

text \<open>
  Only the control methods move the chain: every call that a real node has leaves the coins and
  the height as they are, and what the supervisor can ask of it is answered in any state.
\<close>

lemma only_control_methods_move_the_chain:
  assumes "fake_handle amount percent now delay call n = (r, n')"
    and "\<And>entries. call \<noteq> FakeReceive entries" and "\<And>keys. call \<noteq> FakeSpend keys" and "\<And>k. call \<noteq> FakeAdvance k"
  shows "fk_utxos n' = fk_utxos n \<and> fk_height n' = fk_height n"
  using assms
  by (cases call) (auto simp: fake_handle_def fake_scan_def scan_begin_def fake_abort_def Let_def
      split: if_splits scan_view.splits)

lemma scan_methods_keep_one_scan:
  "fk_scan n \<noteq> None \<Longrightarrow> \<not> scan_done now n \<Longrightarrow>
   fake_handle amount percent now delay (ScanStart ds) n =
     (Inl (- 8, ''Scan already in progress, use action \"abort\" or \"status\"''), n)"
  by (simp add: fake_handle_def fake_scan_def scan_begin_def)

section \<open>Property\<close>

text \<open>
  C19: the supervisor gets the node's coins. When nothing disturbs the scan of a batch, the
  reply of the node goes through the RPC client and the supervisor without an exception, and
  every request of the batch holds the coins of its own script as the node has them, sorted,
  with their ids in internal order.
\<close>

theorem baseline_of_the_node:
  assumes "accounted (sv_futures s) hold (map rq_future live) False" and "fk_scan n = None" and "readable n"
  shows "\<exists>F'. end_batch live (decode_reply ''scantxoutset''
        (fake_reply req_id (fst (fake_scan amount now delay (batch_descriptors live) n)))) s =
      (Inr (), s\<lparr>sv_in_flight := False, sv_batches := sv_batches s + 1, sv_futures := F'\<rparr>)
    \<and> (\<forall>r \<in> set live. F' ! rq_future r = Finished (Inr (map (baseline_coin (rq_spk r)) (node_coins n (rq_spk r)))))"
proof -
  let ?ds = "batch_descriptors live" and ?ks = "map fst (group_by_spk live)"
  let ?m = "scan_result amount ?ds n"
  have d: "decode_reply ''scantxoutset'' (fake_reply req_id (fst (fake_scan amount now delay ?ds n))) = Inr (JObj ?m)"
    by (simp add: fake_scan_alone [OF assms(2)] fake_reply_def decode_reply_def Let_def)
  have m: "truthy (json_get (JObj ?m) ''success'' JNull)"
    "json_get (JObj ?m) ''unspents'' (JList []) = JList (snapshot ?ds n)"
    by (simp_all add: scan_result_def Let_def)
  have "distinct ?ks" using group_by_spk_ok [of live] by (simp add: grouped_def)
  moreover have "rq_spk r \<in> set ?ks" if "r \<in> set live" for r
    using group_by_spk_keys [OF that] by (auto dest: map_of_SomeD intro: rev_image_eqI)
  ultimately show ?thesis
    using end_batch_baseline [OF assms(1) m snapshot_reads [OF assms(3)]] filter_group [of ?ks _ "node_coins n"]
    unfolding d by auto
qed

definition ex_node_coins :: fake_node where
  "ex_node_coins = new_fake_node [(''52'', ''ab'', 7), (''52'', ''0f'', 0)]"

lemma baseline_of_the_node_witness:
  "\<exists>F'. end_batch [\<lparr>rq_future = 0, rq_spk = [81]\<rparr>, \<lparr>rq_future = 1, rq_spk = [82]\<rparr>] (decode_reply ''scantxoutset''
      (fake_reply (JInt 1) (fst (fake_scan (\<lambda>_. JNull) 0 186 (batch_descriptors
        [\<lparr>rq_future = 0, rq_spk = [81]\<rparr>, \<lparr>rq_future = 1, rq_spk = [82]\<rparr>]) ex_node_coins)))) ex_scanning =
      (Inr (), ex_scanning\<lparr>sv_in_flight := False, sv_batches := sv_batches ex_scanning + 1, sv_futures := F'\<rparr>)
    \<and> F' ! 1 = Finished (Inr (map (baseline_coin [82]) (node_coins ex_node_coins [82])))"
proof -
  let ?live = "[\<lparr>rq_future = 0, rq_spk = [81]\<rparr>, \<lparr>rq_future = 1, rq_spk = [82]\<rparr>]"
  have a: "accounted (sv_futures ex_scanning) [] (map rq_future ?live) False"
    by (auto simp: accounted_def ex_scanning_def less_Suc_eq)
  have "fromhex ''ab'' = Inr [171]" "fromhex ''0f'' = Inr [15]" by code_simp+
  then have r: "readable ex_node_coins" "fk_scan ex_node_coins = None"
    by (simp_all add: ex_node_coins_def new_fake_node_def load_utxos_def add_coin_def readable_def dict_get_def)
  from baseline_of_the_node [OF a r(2,1)] obtain F' where
    e: "end_batch ?live (decode_reply ''scantxoutset''
      (fake_reply (JInt 1) (fst (fake_scan (\<lambda>_. JNull) 0 186 (batch_descriptors ?live) ex_node_coins)))) ex_scanning =
      (Inr (), ex_scanning\<lparr>sv_in_flight := False, sv_batches := sv_batches ex_scanning + 1, sv_futures := F'\<rparr>)"
    and b: "\<forall>r \<in> set ?live. F' ! rq_future r = Finished (Inr (map (baseline_coin (rq_spk r)) (node_coins ex_node_coins (rq_spk r))))"
    by blast
  from b have "F' ! 1 = Finished (Inr (map (baseline_coin [82]) (node_coins ex_node_coins [82])))" by simp
  with e show ?thesis by blast
qed

end
