(* ===== verification/Subscribe.thy ===== *)
theory Subscribe
  imports Service
begin

text \<open>
  \<open>subscribe.py\<close>: the two sockets drained into the matching loop. What a pass finds on a
  socket, until the socket has nothing ready, is an argument, a list of multipart messages;
  what is handled is the \<open>StreamIngest\<close> of Ingest.thy. The lemmas show that a pass is a run of
  the ingest over the messages that decode, in the order of the sockets.
\<close>

definition DEFAULT_RCVHWM :: int where "DEFAULT_RCVHWM = 50000"
definition TOPIC_PARTS :: nat where "TOPIC_PARTS = 3"

text \<open>\<open>sb_emitted\<close> is the calls of the \<open>on_match\<close> callback.\<close>

record 'g subscriber =
  sb_ingest :: 'g
  sb_stopping :: bool
  sb_malformed :: int
  sb_emitted :: "match list list"

definition new_subscriber :: "'g \<Rightarrow> 'g subscriber" where
  "new_subscriber g = \<lparr>sb_ingest = g, sb_stopping = False, sb_malformed = 0, sb_emitted = []\<rparr>"

text \<open>\<open>topic.decode("ascii")\<close>\<close>

definition decode_ascii :: "bytes \<Rightarrow> exn + string" where
  "decode_ascii b = (if \<exists>x \<in> set b. 128 \<le> unat x then Inl UnicodeDecodeError
                     else Inr (map (\<lambda>x. char_of (unat x)) b))"

definition decode_parts :: "bytes list \<Rightarrow> exn + stream_message" where
  "decode_parts parts = (case parts of
     [topic, body, seq] \<Rightarrow>
       rbind (decode_ascii topic) (\<lambda>t. rbind (parse_seq_part seq) (\<lambda>n.
       Inr \<lparr>msg_topic = t, msg_body = body, msg_seq = n\<rparr>))
   | _ \<Rightarrow> Inl (ValueError ''not three parts''))"

definition count_malformed :: "'g subscriber \<Rightarrow> 'g subscriber" where
  "count_malformed s = s\<lparr>sb_malformed := sb_malformed s + 1\<rparr>"

definition sub_receive :: "bytes list \<Rightarrow> ('g subscriber, stream_message option) py" where
  "sub_receive parts =
     (if length parts \<noteq> TOPIC_PARTS then bind (modify count_malformed) (\<lambda>_. ret None)
      else case decode_parts parts of
          Inr msg \<Rightarrow> ret (Some msg)
        | Inl e \<Rightarrow> if is_value_error e then bind (modify count_malformed) (\<lambda>_. ret None) else throw e)"

definition on_ingest :: "('g, 'a) py \<Rightarrow> ('g subscriber, 'a) py" where
  "on_ingest m = (\<lambda>s. case m (sb_ingest s) of (r, g) \<Rightarrow> (r, s\<lparr>sb_ingest := g\<rparr>))"

definition emit_matches :: "bool \<Rightarrow> match list \<Rightarrow> 'g subscriber \<Rightarrow> 'g subscriber" where
  "emit_matches on_match ms s =
     (if ms \<noteq> [] \<and> on_match then s\<lparr>sb_emitted := sb_emitted s @ [ms]\<rparr> else s)"

text \<open>The body of the inner loop of \<open>poll_once\<close>, and the loop over both sockets.\<close>

definition sub_one :: "(stream_message \<Rightarrow> ('g, match list) py) \<Rightarrow> bool \<Rightarrow> bytes list \<Rightarrow> ('g subscriber, unit) py" where
  "sub_one hdl on_match parts =
     bind (sub_receive parts) (\<lambda>message. case message of
         None \<Rightarrow> ret ()
       | Some msg \<Rightarrow> bind (on_ingest (hdl msg)) (\<lambda>ms. modify (emit_matches on_match ms)))"

definition poll_once :: "(stream_message \<Rightarrow> ('g, match list) py) \<Rightarrow> bool \<Rightarrow> bytes list list \<Rightarrow> bytes list list
    \<Rightarrow> ('g subscriber, nat) py" where
  "poll_once hdl on_match blocks txs =
     bind (for_each (sub_one hdl on_match) blocks) (\<lambda>_.
     bind (for_each (sub_one hdl on_match) txs) (\<lambda>_.
     ret (length blocks + length txs)))"

text \<open>
  \<open>run\<close> over the passes it makes, each with whether \<open>stop\<close> was called meanwhile. The loop ends with
  the pass in which it was; a list in none of whose passes it was is the beginning of a run that goes on, and what
  \<open>sub_loop\<close> leaves is what the run has done by then.
\<close>

fun sub_loop :: "(stream_message \<Rightarrow> ('g, match list) py) \<Rightarrow> bool \<Rightarrow> (bytes list list \<times> bytes list list \<times> bool) list
    \<Rightarrow> ('g subscriber, unit) py" where
  "sub_loop hdl on_match [] = ret ()"
| "sub_loop hdl on_match ((blocks, txs, stop) # passes) =
     bind (gets sb_stopping) (\<lambda>stopping.
     if stopping then ret ()
     else bind (poll_once hdl on_match blocks txs) (\<lambda>_.
       bind (modify (\<lambda>s. if stop then s\<lparr>sb_stopping := True\<rparr> else s)) (\<lambda>_.
       sub_loop hdl on_match passes)))"

definition sub_run :: "(stream_message \<Rightarrow> ('g, match list) py) \<Rightarrow> bool \<Rightarrow> (bytes list list \<times> bytes list list \<times> bool) list
    \<Rightarrow> ('g subscriber, unit) py" where
  "sub_run hdl on_match passes = bind (modify (\<lambda>s. s\<lparr>sb_stopping := False\<rparr>)) (\<lambda>_. sub_loop hdl on_match passes)"

section \<open>A pass is a run over what decodes\<close>

definition decoded :: "bytes list list \<Rightarrow> stream_message list" where
  "decoded raws = concat (map (\<lambda>parts. case decode_parts parts of Inr m \<Rightarrow> [m] | Inl _ \<Rightarrow> []) raws)"

definition undecodable :: "bytes list list \<Rightarrow> nat" where
  "undecodable raws = length (filter (\<lambda>parts. \<not> (\<exists>m. decode_parts parts = Inr m)) raws)"

lemma decode_parts_errors: "decode_parts parts = Inl e \<Longrightarrow> is_value_error e"
  by (auto simp: decode_parts_def rbind_Inl_iff decode_ascii_def parse_seq_part_def split: list.splits if_splits)

lemma decode_parts_three: "decode_parts parts = Inr m \<Longrightarrow> length parts = 3"
  by (auto simp: decode_parts_def split: list.splits)

lemma sub_receive_run:
  "sub_receive parts s = (case decode_parts parts of
     Inr m \<Rightarrow> (Inr (Some m), s) | Inl _ \<Rightarrow> (Inr None, count_malformed s))"
  using decode_parts_errors decode_parts_three
  by (auto simp: sub_receive_def TOPIC_PARTS_def py_simps split: sum.split)

text \<open>Draining raw messages: the ingest sees the decoded ones, the rest is counted.\<close>

lemma drain_run:
  assumes "run W hook (decoded raws) (sb_ingest s) = (Inr ms, g)"
  shows "\<exists>s'. for_each (sub_one (handle W hook) True) raws s = (Inr (), s')
    \<and> sb_ingest s' = g \<and> concat (sb_emitted s') = concat (sb_emitted s) @ ms
    \<and> sb_malformed s' = sb_malformed s + int (undecodable raws) \<and> sb_stopping s' = sb_stopping s"
  using assms
proof (induction raws arbitrary: s ms)
  case Nil
  then show ?case by (simp add: decoded_def undecodable_def ret_def)
next
  case (Cons parts raws)
  show ?case
  proof (cases "decode_parts parts")
    case (Inl e)
    have "run W hook (decoded raws) (sb_ingest (count_malformed s)) = (Inr ms, g)"
      using Cons.prems Inl by (simp add: decoded_def count_malformed_def)
    from Cons.IH [OF this] show ?thesis using Inl
      by (auto simp: for_each_Cons bind_def sub_one_def sub_receive_run ret_def count_malformed_def undecodable_def)
  next
    case (Inr msg)
    obtain ns ks g1 where h: "handle W hook msg (sb_ingest s) = (Inr ns, g1)"
        "run W hook (decoded raws) g1 = (Inr ks, g)" "ms = ns @ ks"
      using Cons.prems Inr by (auto simp: decoded_def run_Cons bind_returns_iff ret_def)
    let ?s = "emit_matches True ns (s\<lparr>sb_ingest := g1\<rparr>)"
    have e: "sb_ingest ?s = g1" "concat (sb_emitted ?s) = concat (sb_emitted s) @ ns"
      "sb_malformed ?s = sb_malformed s" "sb_stopping ?s = sb_stopping s"
      by (simp_all add: emit_matches_def)
    have "sub_one (handle W hook) True parts s = (Inr (), ?s)"
      using Inr h(1) by (simp add: sub_one_def bind_def sub_receive_run on_ingest_def modify_def)
    moreover have "run W hook (decoded raws) (sb_ingest ?s) = (Inr ks, g)" using h(2) e(1) by simp
    note Cons.IH [OF this]
    ultimately show ?thesis using Inr e h(3) by (auto simp: for_each_Cons bind_def undecodable_def)
  qed
qed

lemma decoded_append: "decoded (xs @ ys) = decoded xs @ decoded ys"
  by (simp add: decoded_def)

lemma undecodable_append: "undecodable (xs @ ys) = undecodable xs + undecodable ys"
  by (simp add: undecodable_def)

lemma poll_once_flat:
  "poll_once hdl on_match blocks txs =
     bind (for_each (sub_one hdl on_match) (blocks @ txs)) (\<lambda>_. ret (length (blocks @ txs)))"
  by (simp add: poll_once_def for_each_append bind_bind)

text \<open>The loop: what it receives until \<open>stop\<close> is noticed, which is after the pass in which it was called.\<close>

fun attended :: "(bytes list list \<times> bytes list list \<times> bool) list \<Rightarrow> bytes list list" where
  "attended [] = []"
| "attended ((blocks, txs, stop) # passes) = blocks @ txs @ (if stop then [] else attended passes)"

lemma run_append:
  "run W hook (xs @ ys) = bind (run W hook xs) (\<lambda>ms. bind (run W hook ys) (\<lambda>ns. ret (ms @ ns)))"
  by (induction xs) (simp_all add: run_Cons bind_bind)

lemma run_append_returns:
  assumes "run W hook (xs @ ys) g = (Inr ms, h)"
  obtains ms1 ms2 g1 where "run W hook xs g = (Inr ms1, g1)" and "run W hook ys g1 = (Inr ms2, h)" and "ms = ms1 @ ms2"
  using assms by (auto simp: run_append bind_returns_iff ret_def)

lemma loop_run:
  assumes "run W hook (decoded (attended passes)) (sb_ingest s) = (Inr ms, g)" and "\<not> sb_stopping s"
  shows "\<exists>s'. sub_loop (handle W hook) True passes s = (Inr (), s')
    \<and> sb_ingest s' = g \<and> concat (sb_emitted s') = concat (sb_emitted s) @ ms
    \<and> sb_malformed s' = sb_malformed s + int (undecodable (attended passes))"
  using assms
proof (induction passes arbitrary: s ms)
  case Nil
  then show ?case by (simp add: decoded_def undecodable_def ret_def)
next
  case (Cons pass passes)
  obtain blocks txs stop where p: "pass = (blocks, txs, stop)" by (cases pass)
  let ?rest = "if stop then [] else attended passes"
  have "run W hook (decoded (blocks @ txs) @ decoded ?rest) (sb_ingest s) = (Inr ms, g)"
    using Cons.prems(1) by (simp add: p decoded_append)
  then obtain ms1 ms2 g1 where r: "run W hook (decoded (blocks @ txs)) (sb_ingest s) = (Inr ms1, g1)"
    "run W hook (decoded ?rest) g1 = (Inr ms2, g)" "ms = ms1 @ ms2"
    by (rule run_append_returns)
  from drain_run [OF r(1)] obtain t where t: "poll_once (handle W hook) True blocks txs s = (Inr (length (blocks @ txs)), t)"
    "sb_ingest t = g1" "concat (sb_emitted t) = concat (sb_emitted s) @ ms1"
    "sb_malformed t = sb_malformed s + int (undecodable (blocks @ txs))" "\<not> sb_stopping t"
    using Cons.prems(2) by (auto simp: poll_once_flat bind_def ret_def)
  show ?case
  proof (cases stop)
    case True
    have g: "g1 = g" "ms2 = []" using r(2) True by (simp_all add: decoded_def ret_def)
    have "sub_loop (handle W hook) True (pass # passes) s = sub_loop (handle W hook) True passes (t\<lparr>sb_stopping := True\<rparr>)"
      using Cons.prems(2) t(1) True by (simp add: p py_simps)
    also have "\<dots> = (Inr (), t\<lparr>sb_stopping := True\<rparr>)" by (cases passes) (auto simp: py_simps split: prod.split)
    finally show ?thesis using t g r(3) True by (simp add: p)
  next
    case False
    have "sub_loop (handle W hook) True (pass # passes) s = sub_loop (handle W hook) True passes t"
      using Cons.prems(2) t(1) False by (simp add: p py_simps)
    moreover have "run W hook (decoded (attended passes)) (sb_ingest t) = (Inr ms2, g)" using r(2) t(2) False by simp
    note Cons.IH [OF this t(5)]
    ultimately show ?thesis using t r(3) False by (auto simp: p undecodable_append)
  qed
qed

section \<open>Properties\<close>

text \<open>
  The loop over the sockets is a run of the ingest. Whatever arrives, if the run over the
  messages that decode, of each pass the blocks first and up to the pass in which \<open>stop\<close> is
  called, returns its matches, then the loop returns, the ingest is where the run leaves it,
  the callback has got exactly those matches in order, and every other message was counted
  and skipped.
\<close>

theorem loop_is_a_run:
  assumes "run W hook (decoded (attended passes)) (sb_ingest s) = (Inr ms, g)"
  shows "\<exists>s'. sub_run (handle W hook) True passes s = (Inr (), s')
    \<and> sb_ingest s' = g \<and> concat (sb_emitted s') = concat (sb_emitted s) @ ms
    \<and> sb_malformed s' = sb_malformed s + int (undecodable (attended passes))"
  using loop_run [of W hook passes "s\<lparr>sb_stopping := False\<rparr>"] assms by (simp add: sub_run_def py_simps)

lemma loop_is_a_run_witness:
  "\<exists>s'. sub_run (handle mem_ops None) True [([[ascii ''rawblock'', []]], [[ascii ''hashtx'', [], zeros 4]], True)]
      (new_subscriber (ex_ingest ())) = (Inr (), s') \<and> sb_malformed s' = 1"
proof -
  let ?m = "\<lparr>msg_topic = ''hashtx'', msg_body = [], msg_seq = 0\<rparr>"
  have d: "decode_parts [ascii ''rawblock'', []] = Inl (ValueError ''not three parts'')"
    "decode_parts [ascii ''hashtx'', [], zeros 4] = Inr ?m" by code_simp+
  have u: "undecodable ([[ascii ''rawblock'', []]] @ [[ascii ''hashtx'', [], zeros 4]]) = 1"
    by (simp add: undecodable_def d)
  have "decoded ([[ascii ''rawblock'', []]] @ [[ascii ''hashtx'', [], zeros 4]]) = [?m]"
    by (simp add: decoded_def d)
  moreover obtain ms g where "run mem_ops None [?m] (ex_ingest ()) = (Inr ms, g)"
  proof -
    have "msg_topic ?m \<noteq> TOPIC_BLOCK" "seq_in_range ?m" "small ?m"
      by (simp_all add: TOPIC_BLOCK_def seq_in_range_def UINT32_def small_def)
    then obtain ms g where "handle mem_ops None ?m (ex_ingest ()) = (Inr ms, g)" using handle_other_blind by metis
    then show thesis by (intro that) (simp add: run_Cons bind_def ret_def)
  qed
  moreover have a: "attended [([[ascii ''rawblock'', []]], [[ascii ''hashtx'', [], zeros 4]], True)]
      = [[ascii ''rawblock'', []]] @ [[ascii ''hashtx'', [], zeros 4]]" by simp
  ultimately have "run mem_ops None (decoded (attended [([[ascii ''rawblock'', []]], [[ascii ''hashtx'', [], zeros 4]], True)]))
      (sb_ingest (new_subscriber (ex_ingest ()))) = (Inr ms, g)" by (simp add: new_subscriber_def)
  from loop_is_a_run [OF this] u [folded a] show ?thesis by (auto simp: new_subscriber_def)
qed

end
