(* ===== verification/Channels.thy ===== *)
theory Channels
  imports Rpc
begin

text \<open>
  \<open>channels/base.py\<close> and \<open>channels/email.py\<close>: what an alert may say, and the delivery of one
  over SMTP. How the SMTP session ends is an argument, the class of the exception
  \<open>smtplib\<close> raised; so is \<open>str.lower\<close>, which depends on Unicode's tables. The lemmas show that
  the template shows in the last words of a body whatever the label is, that a validated
  destination never makes \<open>send\<close> raise, and what is retried.
\<close>

section \<open>The contract\<close>

datatype privacy_class = E2E_PRIVATE | ENDPOINT_TRUSTED | PROVIDER_READS
datatype alert_direction = Outgoing | Incoming
datatype alert_kind = MOVEMENT | TEST_FIRE | LOW_BALANCE | WATCH_STOPPED | HEARTBEAT

record alert =
  al_kind :: alert_kind
  al_label :: py_str
  al_chain :: py_str
  al_direction :: "alert_direction option"
  al_fired_at :: int

record delivery_result =
  dr_ok :: bool
  dr_retriable :: bool
  dr_detail :: string

text \<open>
  The contract of \<open>Channel.send\<close>: a channel that may not return, and the words its result may
  carry into a log. They depend on how the delivery went and on nothing else; in particular
  not on the destination and the alert. A success is final and says nothing.
\<close>

locale channel =
  fixes send :: "'d \<Rightarrow> alert \<Rightarrow> 'e \<Rightarrow> (exn + delivery_result) option"
    and words :: "'e \<Rightarrow> string set"
  assumes detail_words: "send dest a env = Some (Inr res) \<Longrightarrow> dr_detail res \<in> words env"
    and success_final: "send dest a env = Some (Inr res) \<Longrightarrow> dr_ok res \<Longrightarrow> \<not> dr_retriable res \<and> dr_detail res = []"
begin

lemma detail_is_not: "send dest a env = Some (Inr res) \<Longrightarrow> s \<notin> words env \<Longrightarrow> dr_detail res \<noteq> s"
  using detail_words by blast

lemma retried_failed: "send dest a env = Some (Inr res) \<Longrightarrow> dr_retriable res \<Longrightarrow> \<not> dr_ok res"
  using success_final by blast

end

section \<open>The body of an email\<close>

text \<open>\<open>f'"{label}" ({chain})'\<close>\<close>

definition quoted :: "alert \<Rightarrow> py_str" where
  "quoted a = [34] @ al_label a @ [34] @ lit '' ('' @ al_chain a @ lit '')''"

definition newlines :: py_str where "newlines = [10, 10]"
definition em_dash :: py_str where "em_dash = [8212]"

definition email_render_body :: "alert \<Rightarrow> py_str" where
  "email_render_body a = (case al_kind a of
     MOVEMENT \<Rightarrow>
       if al_direction a = Some Incoming
       then quoted a @ lit '' received a deposit.'' @ newlines @ lit ''Informational only '' @ em_dash
         @ lit '' this is not an emergency.''
       else quoted a @ lit '' has moved.'' @ newlines
         @ lit ''If you hold other seeds or devices, this is the moment to check them '' @ em_dash
         @ lit '' attackers sweep sequentially, and this watch may not be the only one at risk.''
   | TEST_FIRE \<Rightarrow> lit ''This confirms delivery is working for '' @ quoted a @ lit ''.'' @ newlines
       @ lit ''No action needed.''
   | LOW_BALANCE \<Rightarrow> lit ''The balance funding alerts for '' @ quoted a @ lit '' is running low.'' @ newlines
       @ lit ''Top it up so this watch does not stop.''
   | WATCH_STOPPED \<Rightarrow> lit ''The watch '' @ quoted a @ lit '' has stopped.'' @ newlines
       @ lit ''It is no longer being monitored until you re-arm it.''
   | HEARTBEAT \<Rightarrow> lit ''All quiet for '' @ quoted a @ lit ''. No movement since the last check.'')"

section \<open>Configuration\<close>

definition SUBJECT :: string where "SUBJECT = ''cold.watch alert''"
definition SMTP_DEFAULT_PORT :: string where "SMTP_DEFAULT_PORT = ''465''"
definition SMTP_ENV_HOST :: string where "SMTP_ENV_HOST = ''COLDWATCH_SMTP_HOST''"
definition SMTP_ENV_PORT :: string where "SMTP_ENV_PORT = ''COLDWATCH_SMTP_PORT''"
definition SMTP_ENV_USER :: string where "SMTP_ENV_USER = ''COLDWATCH_SMTP_USER''"
definition SMTP_ENV_PASSWORD :: string where "SMTP_ENV_PASSWORD = ''COLDWATCH_SMTP_PASSWORD''"
definition SMTP_ENV_PASSWORD_FILE :: string where "SMTP_ENV_PASSWORD_FILE = ''COLDWATCH_SMTP_PASSWORD_FILE''"
definition SMTP_ENV_FROM_ADDR :: string where "SMTP_ENV_FROM_ADDR = ''COLDWATCH_SMTP_FROM''"
definition SMTP_CREDENTIAL_NAME :: string where "SMTP_CREDENTIAL_NAME = ''smtp-password''"

definition smtp_read_secret :: "world \<Rightarrow> py_str \<Rightarrow> exn + py_str" where
  "smtp_read_secret = read_secret_as MissingConfig"

definition smtp_read_password :: "world \<Rightarrow> exn + py_str" where
  "smtp_read_password =
     read_credential_as MissingConfig ENV_SYSTEMD_CREDENTIALS SMTP_CREDENTIAL_NAME
       SMTP_ENV_PASSWORD_FILE SMTP_ENV_PASSWORD"

record email_channel =
  em_host :: py_str
  em_port :: int
  em_user :: py_str
  em_password :: py_str
  em_from_addr :: py_str

definition need_env :: "world \<Rightarrow> string \<Rightarrow> exn + py_str" where
  "need_env w name = (case env_set w name of
     None \<Rightarrow> Inl (MissingConfig ''is not set'' (lit name)) | Some v \<Rightarrow> Inr v)"

definition email_from_env :: "world \<Rightarrow> exn + email_channel" where
  "email_from_env w =
     rbind (need_env w SMTP_ENV_USER) (\<lambda>user.
     rbind (need_env w SMTP_ENV_FROM_ADDR) (\<lambda>from_addr.
     rbind (need_env w SMTP_ENV_HOST) (\<lambda>host.
     rbind (int_of_text (env_or w SMTP_ENV_PORT (lit SMTP_DEFAULT_PORT))) (\<lambda>port.
     rbind (smtp_read_password w) (\<lambda>password.
     Inr \<lparr>em_host = host, em_port = port, em_user = user, em_password = password, em_from_addr = from_addr\<rparr>)))))"

text \<open>What \<open>repr\<close> shows.\<close>

definition email_repr :: "email_channel \<Rightarrow> py_str \<times> int \<times> py_str" where
  "email_repr c = (em_host c, em_port c, em_from_addr c)"

section \<open>Destinations\<close>

text \<open>\<open>str.isspace\<close>, which is also what \<open>\s\<close> matches.\<close>

definition is_uspace :: "nat \<Rightarrow> bool" where
  "is_uspace c \<longleftrightarrow> 9 \<le> c \<and> c \<le> 13 \<or> 28 \<le> c \<and> c \<le> 32 \<or> c \<in> {133, 160, 5760, 8232, 8233, 8239, 8287, 12288}
     \<or> 8192 \<le> c \<and> c \<le> 8202"

definition ustrip :: "py_str \<Rightarrow> py_str" where
  "ustrip s = rev (dropWhile is_uspace (rev (dropWhile is_uspace s)))"

text \<open>
  \<open>^[^@\s]+@[^@\s]+\.[^@\s]+$\<close>: one at sign with something before it, no white space, and a
  dot after it that is neither the first nor the last character there. (\<open>$\<close> also matches
  before a final newline, which \<open>strip\<close> has removed.)
\<close>

definition addr_match :: "py_str \<Rightarrow> bool" where
  "addr_match s \<longleftrightarrow>
     (let local = takeWhile (\<lambda>c. c \<noteq> 64) s; rest = dropWhile (\<lambda>c. c \<noteq> 64) s in
      local \<noteq> [] \<and> rest \<noteq> [] \<and> (\<forall>c \<in> set s. \<not> is_uspace c) \<and> 64 \<notin> set (tl rest)
      \<and> (\<exists>i \<in> set [1..<length (tl rest) - 1]. tl rest ! i = 46))"

definition email_validate_dest :: "(py_str \<Rightarrow> py_str) \<Rightarrow> py_str \<Rightarrow> exn + py_str" where
  "email_validate_dest lower raw =
     (let candidate = ustrip raw in
      if candidate = [] \<or> \<not> addr_match candidate then Inl (ValueError ''not a valid email address'')
      else Inr (lower candidate))"

section \<open>Sending\<close>

datatype smtp_end =
    Delivered
  | RecipientsRefused
  | NotSupported
  | ResponseCode int
  | OtherSmtpError string
  | SocketError string

definition result :: "bool \<Rightarrow> bool \<Rightarrow> string \<Rightarrow> delivery_result" where
  "result ok retriable detail = \<lparr>dr_ok = ok, dr_retriable = retriable, dr_detail = detail\<rparr>"

text \<open>
  A header value with a line break is refused by \<open>EmailMessage\<close>, and \<open>set_content\<close> encodes
  the body. Both happen before the \<open>try\<close>.
\<close>

definition email_send :: "email_channel \<Rightarrow> py_str \<Rightarrow> alert \<Rightarrow> smtp_end \<Rightarrow> exn + delivery_result" where
  "email_send c dest a session =
     (if \<exists>x \<in> set (em_from_addr c) \<union> set dest. x = 10 \<or> x = 13
      then Inl (ValueError ''Header values may not contain linefeed or carriage return characters'')
      else rbind (utf8_encode (email_render_body a)) (\<lambda>_.
        Inr (case session of
            Delivered \<Rightarrow> result True False []
          | RecipientsRefused \<Rightarrow> result False False ''recipient refused''
          | NotSupported \<Rightarrow> result False False ''SMTPNotSupportedError''
          | ResponseCode code \<Rightarrow> result False (code < 500) (''smtp '' @ int_str code)
          | OtherSmtpError t \<Rightarrow> result False True t
          | SocketError t \<Rightarrow> result False True t)))"

text \<open>The words of an email's result, by how the session ended.\<close>

fun smtp_words :: "smtp_end \<Rightarrow> string set" where
  "smtp_words Delivered = {[]}"
| "smtp_words RecipientsRefused = {''recipient refused''}"
| "smtp_words NotSupported = {''SMTPNotSupportedError''}"
| "smtp_words (ResponseCode code) = {''smtp '' @ int_str code}"
| "smtp_words (OtherSmtpError t) = {t}"
| "smtp_words (SocketError t) = {t}"

lemma email_send_Inr:
  "email_send c dest a session = Inr res \<Longrightarrow>
     dr_detail res \<in> smtp_words session \<and> (dr_ok res \<longleftrightarrow> session = Delivered)
     \<and> (dr_ok res \<longrightarrow> \<not> dr_retriable res \<and> dr_detail res = [])"
  by (cases session) (auto simp: email_send_def result_def rbind_Inr_iff split: if_splits)

interpretation email: channel "\<lambda>dest a session. Some (email_send c dest a session)" smtp_words for c
  by unfold_locales (use email_send_Inr in auto)

section \<open>Properties\<close>

text \<open>What a body announces: the kind, with arrivals apart from everything else that moved.\<close>

definition announces :: "alert \<Rightarrow> alert_kind \<times> bool" where
  "announces a = (al_kind a, al_kind a = MOVEMENT \<and> al_direction a = Some Incoming)"

definition ending :: "py_str \<Rightarrow> py_str" where
  "ending s = take 10 (rev s)"

lemma ending_append: "length u \<ge> 10 \<Longrightarrow> ending (s @ u) = ending u"
  by (simp add: ending_def)

definition ending_of :: "alert_kind \<times> bool \<Rightarrow> py_str" where
  "ending_of k = rev (lit (case k of
     (MOVEMENT, True) \<Rightarrow> ''emergency.'' | (MOVEMENT, False) \<Rightarrow> ''e at risk.'' | (TEST_FIRE, _) \<Rightarrow> ''on needed.''
   | (LOW_BALANCE, _) \<Rightarrow> '' not stop.'' | (WATCH_STOPPED, _) \<Rightarrow> ''re-arm it.'' | (HEARTBEAT, _) \<Rightarrow> ''ast check.''))"

lemma email_ending: "ending (email_render_body a) = ending_of (announces a)"
  by (cases "al_kind a"; cases "al_direction a = Some Incoming")
     (simp_all add: email_render_body_def ending_def ending_of_def announces_def lit_def newlines_def em_dash_def)

text \<open>
  No label can make one announcement read as another. Whatever the labels and the chains,
  the bodies of two alerts that announce different things differ; in particular an alarm
  never reads as a deposit.
\<close>

theorem email_bodies_distinct:
  assumes "email_render_body a = email_render_body b"
  shows "al_kind a = al_kind b \<and>
    (al_kind a = MOVEMENT \<longrightarrow> (al_direction a = Some Incoming \<longleftrightarrow> al_direction b = Some Incoming))"
proof -
  have "ending_of (announces a) = ending_of (announces b)"
    using assms by (simp flip: email_ending)
  then have "announces a = announces b"
    by (cases "announces a"; cases "announces b"; cases "fst (announces a)"; cases "fst (announces b)")
       (auto simp: ending_of_def lit_def announces_def split: bool.splits)
  then show ?thesis by (auto simp: announces_def)
qed

definition ex_alert :: "alert_direction option \<Rightarrow> alert" where
  "ex_alert d = \<lparr>al_kind = MOVEMENT, al_label = lit ''cold'', al_chain = lit ''btc'', al_direction = d, al_fired_at = 0\<rparr>"

lemma email_bodies_distinct_witness:
  "email_render_body (ex_alert None) \<noteq> email_render_body (ex_alert (Some Incoming))"
  using email_bodies_distinct [of "ex_alert None" "ex_alert (Some Incoming)"] by (auto simp: ex_alert_def)

text \<open>
  A destination that was accepted at enrolment never makes sending raise. If \<open>lower\<close>
  brings in no line break, the sender's address has none and the label and the chain are
  proper texts, \<open>send\<close> returns a result however the session ends; it is a success exactly
  when the message was delivered, and worth a retry exactly for the responses below 500 and
  the failures that are not a verdict.
\<close>

theorem accepted_destinations_send:
  assumes "email_validate_dest lower raw = Inr dest"
    and "\<And>s. (\<forall>x \<in> set s. x \<noteq> 10 \<and> x \<noteq> 13) \<Longrightarrow> (\<forall>x \<in> set (lower s). x \<noteq> 10 \<and> x \<noteq> 13)"
    and "\<forall>x \<in> set (em_from_addr c). x \<noteq> 10 \<and> x \<noteq> 13"
    and "is_text (al_label a)" and "is_text (al_chain a)"
  shows "\<exists>res. email_send c dest a session = Inr res \<and> (dr_ok res \<longleftrightarrow> session = Delivered)
    \<and> (dr_retriable res \<longleftrightarrow> (\<exists>t. session = OtherSmtpError t \<or> session = SocketError t)
         \<or> (\<exists>code < 500. session = ResponseCode code))"
proof -
  from assms(1) have "addr_match (ustrip raw)" and d: "dest = lower (ustrip raw)"
    by (auto simp: email_validate_dest_def Let_def split: if_splits)
  then have "\<forall>x \<in> set (ustrip raw). \<not> is_uspace x" by (simp add: addr_match_def Let_def)
  moreover have "is_uspace 10" "is_uspace 13" by (simp_all add: is_uspace_def)
  ultimately have "\<forall>x \<in> set (ustrip raw). x \<noteq> 10 \<and> x \<noteq> 13" by blast
  then have h: "\<not> (\<exists>x \<in> set (em_from_addr c) \<union> set dest. x = 10 \<or> x = 13)"
    using assms(2,3) unfolding d by blast
  have "is_text (quoted a)" using assms(4,5) by (simp add: quoted_def is_scalar_def is_surrogate_def)
  moreover have "is_text newlines" "is_text em_dash"
    by (simp_all add: newlines_def em_dash_def is_scalar_def is_surrogate_def)
  ultimately have "is_text (email_render_body a)"
    by (simp add: email_render_body_def split: alert_kind.split)
  then obtain b where "utf8_encode (email_render_body a) = Inr b" using utf8_roundtrip by blast
  then show ?thesis unfolding email_send_def if_not_P [OF h]
    by (cases session) (simp_all add: result_def)
qed

definition ex_email :: email_channel where
  "ex_email = \<lparr>em_host = lit ''h'', em_port = 465, em_user = lit ''u'', em_password = lit ''p'', em_from_addr = lit ''a@b.c''\<rparr>"

lemma accepted_destinations_send_witness:
  "\<exists>res. email_send ex_email (lit ''x@y.z'') (ex_alert None) (ResponseCode 451) = Inr res \<and> dr_retriable res"
proof -
  have "email_validate_dest (\<lambda>s. s) (lit '' x@y.z '') = Inr (lit ''x@y.z'')"
    by (simp add: email_validate_dest_def ustrip_def addr_match_def is_uspace_def lit_def Let_def)
  moreover have "\<forall>x \<in> set (em_from_addr ex_email). x \<noteq> 10 \<and> x \<noteq> 13"
    by (simp add: ex_email_def lit_def)
  moreover have "is_text (al_label (ex_alert None))" "is_text (al_chain (ex_alert None))"
    by (simp_all add: ex_alert_def)
  ultimately show ?thesis
    using accepted_destinations_send [of "\<lambda>s. s" "lit '' x@y.z ''" "lit ''x@y.z''" ex_email "ex_alert None" "ResponseCode 451"]
    by auto
qed

end
