(* ===== verification/Bech32.thy ===== *)
theory Bech32
  imports Utf8
begin

text \<open>
  \<open>channels/nostr/bech32.py\<close>: the bech32 encoding of \<open>npub\<close> identities. A string is a list
  of code points. The lemmas take the checksum apart: feeding one symbol is linear over
  exclusive or, so the six symbols the encoder appends are the only ones the decoder accepts,
  and one wrong symbol never passes; and they describe the regrouping of bits by the number
  the groups spell.
\<close>

unbundle bit_operations_syntax

definition CHARSET :: py_str where
  "CHARSET = lit ''qpzry9x8gf2tvdw0s3jn54khce6mua7l''"

definition GENERATOR :: "int list" where
  "GENERATOR = [0x3B6A57B2, 0x26508E6D, 0x1EA119FA, 0x3D4233DD, 0x2A1462B3]"

text \<open>One round of the loop of \<open>_polymod\<close>, and the loop.\<close>

definition poly_feed :: "int \<Rightarrow> int \<Rightarrow> int" where
  "poly_feed chk v =
     (let top = drop_bit 25 chk;
          chk = push_bit 5 (chk AND 0x1FFFFFF) XOR v
      in fold (\<lambda>i chk. if drop_bit i top AND 1 \<noteq> 0 then chk XOR GENERATOR ! i else chk) [0..<5] chk)"

definition polymod :: "int list \<Rightarrow> int" where
  "polymod values = fold (\<lambda>v chk. poly_feed chk v) values 1"

definition hrp_expand :: "py_str \<Rightarrow> int list" where
  "hrp_expand hrp = map (\<lambda>c. drop_bit 5 (int c)) hrp @ [0] @ map (\<lambda>c. int c AND 31) hrp"

definition create_checksum :: "py_str \<Rightarrow> int list \<Rightarrow> int list" where
  "create_checksum hrp data =
     (let p = polymod (hrp_expand hrp @ data @ [0, 0, 0, 0, 0, 0]) XOR 1
      in map (\<lambda>i. drop_bit (5 * (5 - i)) p AND 31) [0..<6])"

definition verify_checksum :: "py_str \<Rightarrow> int list \<Rightarrow> bool" where
  "verify_checksum hrp data \<longleftrightarrow> polymod (hrp_expand hrp @ data) = 1"

text \<open>
  The inner loop of \<open>_convertbits\<close>: the groups it appends and the bits left. The program
  calls it with positive group sizes only; with zero it would not end.
\<close>

function emit :: "nat \<Rightarrow> int \<Rightarrow> nat \<Rightarrow> int list \<times> nat" where
  "emit tobits acc bits =
     (if tobits = 0 \<or> bits < tobits then ([], bits)
      else let r = emit tobits acc (bits - tobits)
           in ((drop_bit (bits - tobits) acc AND (2 ^ tobits - 1)) # fst r, snd r))"
  by auto
termination by (relation "measure (\<lambda>(_, _, bits). bits)") auto

declare emit.simps [simp del]

fun convert_loop :: "nat \<Rightarrow> nat \<Rightarrow> int \<Rightarrow> nat \<Rightarrow> int list \<Rightarrow> int list \<Rightarrow> (int \<times> nat \<times> int list) option" where
  "convert_loop frombits tobits acc bits out [] = Some (acc, bits, out)"
| "convert_loop frombits tobits acc bits out (value # rest) =
     (if drop_bit frombits value \<noteq> 0 then None
      else let acc = push_bit frombits acc OR value;
               r = emit tobits acc (bits + frombits)
           in convert_loop frombits tobits acc (snd r) (out @ fst r) rest)"

definition convertbits :: "nat \<Rightarrow> nat \<Rightarrow> bool \<Rightarrow> int list \<Rightarrow> int list option" where
  "convertbits frombits tobits pad data =
     (case convert_loop frombits tobits 0 0 [] data of
        None \<Rightarrow> None
      | Some (acc, bits, out) \<Rightarrow>
          let last_group = push_bit (tobits - bits) acc AND (2 ^ tobits - 1)
          in if pad then Some (if bits \<noteq> 0 then out @ [last_group] else out)
             else if bits \<ge> frombits \<or> last_group \<noteq> 0 then None
             else Some out)"

definition bech32_encode :: "py_str \<Rightarrow> int list \<Rightarrow> py_str" where
  "bech32_encode hrp data =
     hrp @ [of_char CHR ''1''] @ map (\<lambda>d. CHARSET ! nat d) (data @ create_checksum hrp data)"

text \<open>\<open>str.lower\<close> and \<open>str.upper\<close> on the printable ASCII characters.\<close>

definition lower_char :: "nat \<Rightarrow> nat" where
  "lower_char c = (if 65 \<le> c \<and> c \<le> 90 then c + 32 else c)"

definition upper_char :: "nat \<Rightarrow> nat" where
  "upper_char c = (if 97 \<le> c \<and> c \<le> 122 then c - 32 else c)"

text \<open>\<open>s.rfind(c)\<close>, with None for -1, and \<open>s.index(c)\<close>.\<close>

fun rfind :: "nat \<Rightarrow> py_str \<Rightarrow> nat option" where
  "rfind c [] = None"
| "rfind c (x # xs) = (case rfind c xs of
     Some i \<Rightarrow> Some (Suc i)
   | None \<Rightarrow> if x = c then Some 0 else None)"

fun str_index :: "py_str \<Rightarrow> nat \<Rightarrow> exn + nat" where
  "str_index [] c = Inl (ValueError ''substring not found'')"
| "str_index (x # xs) c = (if x = c then Inr 0 else rbind (str_index xs c) (\<lambda>i. Inr (Suc i)))"

fun charset_values :: "py_str \<Rightarrow> exn + int list" where
  "charset_values [] = Inr []"
| "charset_values (c # cs) =
     rbind (str_index CHARSET c) (\<lambda>d. rbind (charset_values cs) (\<lambda>ds. Inr (int d # ds)))"

definition bech32_decode :: "py_str \<Rightarrow> exn + (py_str \<times> int list)" where
  "bech32_decode s0 =
     (if \<exists>c \<in> set s0. c < 33 \<or> c > 126 then Inl (ValueError ''invalid bech32 character'')
      else if map lower_char s0 \<noteq> s0 \<and> map upper_char s0 \<noteq> s0
      then Inl (ValueError ''mixed-case bech32 string'')
      else let s = map lower_char s0 in
        case rfind (of_char CHR ''1'') s of
          None \<Rightarrow> Inl (ValueError ''no bech32 separator'')
        | Some pos \<Rightarrow>
            if pos < 1 \<or> pos + 7 > length s then Inl (ValueError ''no bech32 separator'')
            else case charset_values (drop (pos + 1) s) of
                Inl _ \<Rightarrow> Inl (ValueError ''invalid bech32 data character'')
              | Inr data \<Rightarrow>
                  if \<not> verify_checksum (take pos s) data
                  then Inl (ValueError ''invalid bech32 checksum'')
                  else Inr (take pos s, take (length data - 6) data))"

definition NPUB :: py_str where "NPUB = lit ''npub''"

definition encode_npub :: "bytes \<Rightarrow> exn + py_str" where
  "encode_npub pubkey =
     (if length pubkey \<noteq> 32 then Inl (ValueError ''pubkey must be 32 bytes'')
      else case convertbits 8 5 True (map uint pubkey) of
        None \<Rightarrow> Inl AssertionError
      | Some words \<Rightarrow> Inr (bech32_encode NPUB words))"

definition decode_npub :: "py_str \<Rightarrow> exn + bytes" where
  "decode_npub npub =
     rbind (bech32_decode npub) (\<lambda>(hrp, data).
       if hrp \<noteq> NPUB then Inl (ValueError ''not an npub'')
       else case convertbits 5 8 False data of
         None \<Rightarrow> Inl (ValueError ''npub does not decode to a 32-byte key'')
       | Some decoded \<Rightarrow>
           if length decoded \<noteq> 32 then Inl (ValueError ''npub does not decode to a 32-byte key'')
           else Inr (map word_of_int decoded))"

section \<open>The checksum is linear\<close>

definition sel :: "bool \<Rightarrow> int \<Rightarrow> int" where
  "sel b g = (if b then g else 0)"

definition gen :: "int \<Rightarrow> int" where
  "gen t = sel (bit t 0) 0x3B6A57B2 XOR sel (bit t 1) 0x26508E6D XOR sel (bit t 2) 0x1EA119FA
     XOR sel (bit t 3) 0x3D4233DD XOR sel (bit t 4) 0x2A1462B3"

lemma sel_if: "(if b then c XOR g else c) = c XOR sel b g"
  by (simp add: sel_def)

lemma sel_xor: "sel (a \<noteq> b) g = sel a g XOR sel b g"
  by (simp add: sel_def)

lemma odd_drop_bit: "drop_bit i (t :: int) AND 1 \<noteq> 0 \<longleftrightarrow> bit t i"
  by (simp add: and_one_eq bit_iff_odd_drop_bit mod_2_eq_odd)

lemma low25: "(c :: int) AND 0x1FFFFFF = take_bit 25 c"
  by (simp add: take_bit_eq_mask mask_eq_exp_minus_1)

lemma poly_feed_eq: "poly_feed c v = push_bit 5 (take_bit 25 c) XOR v XOR gen (drop_bit 25 c)"
proof -
  have u: "[0..<5] = [0, 1, 2, 3, 4 :: nat]" by code_simp
  show ?thesis
    unfolding poly_feed_def Let_def low25 odd_drop_bit u sel_if
    by (simp add: GENERATOR_def gen_def xor.assoc)
qed

lemma gen_xor: "gen (a XOR b) = gen a XOR gen b"
  by (simp only: gen_def bit_xor_iff sel_xor ac_simps)

lemma poly_feed_xor: "poly_feed (c XOR c') (v XOR v') = poly_feed c v XOR poly_feed c' v'"
  by (simp only: poly_feed_eq take_bit_xor push_bit_xor drop_bit_xor gen_xor ac_simps)

text \<open>\<open>run c vs\<close>: the state after the symbols \<open>vs\<close> from the state \<open>c\<close>.\<close>

definition run_poly :: "int \<Rightarrow> int list \<Rightarrow> int" where
  "run_poly c vs = fold (\<lambda>v chk. poly_feed chk v) vs c"

lemma run_poly_simps [simp]:
  "run_poly c [] = c" "run_poly c (v # vs) = run_poly (poly_feed c v) vs"
  "run_poly c (vs @ ws) = run_poly (run_poly c vs) ws"
  by (simp_all add: run_poly_def)

lemma polymod_run: "polymod vs = run_poly 1 vs"
  by (simp add: polymod_def run_poly_def)

lemma run_poly_xor:
  "length vs = length ws \<Longrightarrow> run_poly (c XOR d) (map2 (XOR) vs ws) = run_poly c vs XOR run_poly d ws"
  by (induction vs ws arbitrary: c d rule: list_induct2) (simp_all add: poly_feed_xor)

section \<open>Groups of bits spell a number\<close>

definition spell :: "nat \<Rightarrow> int list \<Rightarrow> int" where
  "spell b ds = foldl (\<lambda>a d. 2 ^ b * a + d) 0 ds"

definition groups :: "nat \<Rightarrow> int list \<Rightarrow> bool" where
  "groups b ds \<longleftrightarrow> (\<forall>d \<in> set ds. 0 \<le> d \<and> d < 2 ^ b)"

lemma spell_simps [simp]:
  "spell b [] = 0" "spell b (ds @ [d]) = 2 ^ b * spell b ds + d"
  by (simp_all add: spell_def)

lemma groups_simps [simp]:
  "groups b []" "groups b (d # ds) \<longleftrightarrow> 0 \<le> d \<and> d < 2 ^ b \<and> groups b ds"
  "groups b (ds @ es) \<longleftrightarrow> groups b ds \<and> groups b es"
  by (auto simp: groups_def)

lemma spell_append: "spell b (ds @ es) = 2 ^ (b * length es) * spell b ds + spell b es"
  by (induction es rule: rev_induct)
     (simp_all del: append_assoc add: append_assoc [symmetric] algebra_simps power_add)

lemma spell_Cons: "spell b (d # ds) = 2 ^ (b * length ds) * d + spell b ds"
  using spell_append [of b "[d]" ds] by (simp add: spell_def)

lemma spell_bounds: "groups b ds \<Longrightarrow> 0 \<le> spell b ds \<and> spell b ds < 2 ^ (b * length ds)"
proof (induction ds rule: rev_induct)
  case Nil
  then show ?case by simp
next
  case (snoc d ds)
  then have "0 \<le> d" "d < 2 ^ b" "0 \<le> spell b ds" "spell b ds + 1 \<le> 2 ^ (b * length ds)" by auto
  moreover from this have "2 ^ b * (spell b ds + 1) \<le> 2 ^ b * (2 ^ (b * length ds) :: int)"
    by (intro mult_left_mono) auto
  ultimately show ?case by (simp add: power_add algebra_simps)
qed

lemma digit_split:
  fixes d :: int
  assumes "0 \<le> d" "d < m" "0 \<le> e" "e < m" "m * a + d = m * b + e"
  shows "a = b \<and> d = e"
proof -
  have "(m * a + d) div m = a" "(m * b + e) div m = b" using assms(1-4) by simp_all
  with assms(5) have "a = b" by metis
  with assms(5) show ?thesis by simp
qed

lemma low_mask: "(x :: int) AND (2 ^ t - 1) = x mod 2 ^ t"
  by (simp add: take_bit_eq_mask mask_eq_exp_minus_1 flip: take_bit_eq_mod)

lemma spell_inject:
  "length ds = length es \<Longrightarrow> groups b ds \<Longrightarrow> groups b es \<Longrightarrow> spell b ds = spell b es \<Longrightarrow> ds = es"
proof (induction ds es rule: rev_induct2)
  case (4 d ds e es)
  then show ?case using digit_split [of d "2 ^ b" e "spell b ds" "spell b es"] by simp
qed simp_all

lemma emit_spec:
  assumes "0 < t" and "0 \<le> acc"
  shows "snd (emit t acc bits) = bits mod t \<and> length (fst (emit t acc bits)) = bits div t
    \<and> groups t (fst (emit t acc bits))
    \<and> spell t (fst (emit t acc bits)) = (acc div 2 ^ (bits mod t)) mod 2 ^ (t * (bits div t))"
proof (induction bits rule: less_induct)
  case (less bits)
  show ?case
  proof (cases "bits < t")
    case True
    then show ?thesis using assms by (simp add: emit.simps)
  next
    case False
    let ?n = "bits - t"
    let ?x = "acc div 2 ^ (bits mod t)"
    have n: "?n mod t = bits mod t" "bits div t = Suc (?n div t)"
      using False assms(1) by (simp_all add: le_mod_geq le_div_geq)
    have IH: "snd (emit t acc ?n) = bits mod t" "length (fst (emit t acc ?n)) = ?n div t"
      "groups t (fst (emit t acc ?n))" "spell t (fst (emit t acc ?n)) = ?x mod 2 ^ (t * (?n div t))"
      using less [of ?n] False assms(1) by (simp_all add: n(1))
    have d: "drop_bit ?n acc AND (2 ^ t - 1) = (?x div 2 ^ (t * (?n div t))) mod 2 ^ t"
    proof -
      have "?n = bits mod t + t * (?n div t)" using n(1) by (metis add.commute mult_div_mod_eq)
      then have "acc div 2 ^ ?n = ?x div 2 ^ (t * (?n div t))"
        by (metis power_add zdiv_zmult2_eq zero_le_numeral zero_le_power)
      then show ?thesis by (simp add: drop_bit_eq_div low_mask)
    qed
    have "?x mod (2 ^ (t * (?n div t)) * 2 ^ t) =
        2 ^ (t * (?n div t)) * ((?x div 2 ^ (t * (?n div t))) mod 2 ^ t) + ?x mod 2 ^ (t * (?n div t))"
      by (rule zmod_zmult2_eq) simp
    then show ?thesis using False assms(1) IH d
      by (subst (1 2 3 4) emit.simps) (simp add: Let_def n(2) spell_Cons power_add algebra_simps)
  qed
qed

text \<open>What the outer loop of \<open>_convertbits\<close> leaves, and when it gives up.\<close>

lemma push_or: "0 \<le> v \<Longrightarrow> v < 2 ^ n \<Longrightarrow> push_bit n a OR v = 2 ^ n * a + (v :: int)"
  using concat_bit_eq [of n v a]
  by (simp add: concat_bit_def take_bit_int_eq_self push_bit_eq_mult or.commute mult.commute)

lemma drop_bit_zero_iff: "drop_bit n (v :: int) = 0 \<longleftrightarrow> 0 \<le> v \<and> v < 2 ^ n"
proof -
  have "\<not> (v \<le> 0 \<and> 2 ^ n < v)" using zero_less_power [of "2 :: int" n] by linarith
  then show ?thesis by (auto simp: drop_bit_eq_div zdiv_eq_0_iff)
qed

lemma convert_loop_spec:
  assumes "0 < t" and "groups f data" and "0 \<le> acc" and "bits < t" and "groups t out"
    and "spell t out = acc div 2 ^ bits"
  shows "\<exists>acc' bits' out'. convert_loop f t acc bits out data = Some (acc', bits', out')
    \<and> acc' = 2 ^ (f * length data) * acc + spell f data \<and> bits' < t
    \<and> t * length out' + bits' = t * length out + bits + f * length data
    \<and> groups t out' \<and> spell t out' = acc' div 2 ^ bits'"
  using assms(2-)
proof (induction data arbitrary: acc bits out)
  case Nil
  then show ?case by simp
next
  case (Cons v data)
  let ?acc = "2 ^ f * acc + v" and ?b = "bits + f"
  let ?r = "emit t ?acc ?b"
  have v: "0 \<le> v" "v < 2 ^ f" "groups f data" using Cons.prems(1) by simp_all
  have acc: "0 \<le> ?acc" using Cons.prems(2) v by simp
  note e = emit_spec [OF assms(1) acc, of ?b]
  have len: "t * (?b div t) + ?b mod t = ?b" by simp
  have "spell t out = ?acc div 2 ^ ?b"
  proof -
    have "?acc div 2 ^ f = acc" using v by simp
    then have "acc div 2 ^ bits = ?acc div (2 ^ f * 2 ^ bits)"
      by (metis zdiv_zmult2_eq zero_le_numeral zero_le_power)
    then show ?thesis using Cons.prems(5) by (simp add: power_add mult.commute)
  qed
  also have "\<dots> = ?acc div 2 ^ (?b mod t) div 2 ^ (t * (?b div t))"
    by (metis add.commute len power_add zdiv_zmult2_eq zero_le_numeral zero_le_power)
  finally have "spell t (out @ fst ?r) = ?acc div 2 ^ (snd ?r)"
    using e by (simp add: spell_append)
  moreover have "groups t (out @ fst ?r)" "snd ?r < t" using e Cons.prems(4) assms(1) by simp_all
  ultimately obtain acc' bits' out' where r:
    "convert_loop f t ?acc (snd ?r) (out @ fst ?r) data = Some (acc', bits', out')"
    "acc' = 2 ^ (f * length data) * ?acc + spell f data" "bits' < t"
    "t * length out' + bits' = t * length (out @ fst ?r) + snd ?r + f * length data"
    "groups t out'" "spell t out' = acc' div 2 ^ bits'"
    using Cons.IH [OF v(3) acc] by blast
  have "acc' = 2 ^ (f * length (v # data)) * acc + spell f (v # data)"
    by (simp add: r(2) spell_Cons power_add algebra_simps)
  moreover have "t * length out' + bits' = t * length out + bits + f * length (v # data)"
    using r(4) e len by (simp add: algebra_simps)
  moreover have "convert_loop f t acc bits out (v # data) = Some (acc', bits', out')"
    using r(1) v by (simp add: push_or drop_bit_zero_iff Let_def)
  ultimately show ?case using r(3,5,6) by blast
qed

lemma convert_loop_groups: "convert_loop f t acc bits out data = Some r \<Longrightarrow> groups f data"
  by (induction data arbitrary: acc bits out) (auto simp: drop_bit_zero_iff Let_def split: if_splits)

text \<open>
  Regrouping with padding spells the number shifted up to a whole group; regrouping without
  succeeds exactly when less than a group is left over and it is zero.
\<close>

lemma pad_group:
  assumes "bits < t"
  shows "push_bit (t - bits) (acc :: int) AND (2 ^ t - 1) = 2 ^ (t - bits) * (acc mod 2 ^ bits)"
proof -
  have "(2 :: int) ^ t = 2 ^ (t - bits) * 2 ^ bits" using assms by (simp flip: power_add)
  then have "(2 ^ (t - bits) * acc) mod 2 ^ t = 2 ^ (t - bits) * (acc mod 2 ^ bits)"
    by (simp only: mult_mod_right)
  then show ?thesis by (simp add: low_mask push_bit_eq_mult mult.commute)
qed

lemma whole_and_rest: "t * q + r = n \<Longrightarrow> r < t \<Longrightarrow> r = n mod t \<and> q = n div (t :: nat)"
  by auto

lemma convertbits_pad:
  assumes "0 < t" and "groups f data" and "n = f * length data"
  shows "\<exists>ws. convertbits f t True data = Some ws \<and> groups t ws
    \<and> length ws = n div t + (if n mod t = 0 then 0 else 1)
    \<and> spell t ws = (if n mod t = 0 then 1 else 2 ^ (t - n mod t)) * spell f data"
proof -
  from convert_loop_spec [OF assms(1,2), of 0 0 "[]"] assms(1,3) obtain acc bits out where
    c: "convert_loop f t 0 0 [] data = Some (acc, bits, out)" "acc = spell f data" "bits < t"
      "t * length out + bits = n" "groups t out" "spell t out = acc div 2 ^ bits" by auto
  have b: "bits = n mod t" "length out = n div t" using whole_and_rest [OF c(4,3)] by simp_all
  show ?thesis
  proof (cases "bits = 0")
    case True
    then show ?thesis using c b by (simp add: convertbits_def)
  next
    case False
    let ?g = "push_bit (t - bits) acc AND (2 ^ t - 1)"
    have g: "?g = 2 ^ (t - bits) * (acc mod 2 ^ bits)" by (rule pad_group [OF c(3)])
    have "2 ^ t * (acc div 2 ^ bits) + ?g = 2 ^ (t - bits) * acc"
    proof -
      have "(2 :: int) ^ t = 2 ^ (t - bits) * 2 ^ bits" using c(3) by (simp flip: power_add)
      then have "2 ^ t * (acc div 2 ^ bits) + ?g =
          2 ^ (t - bits) * (2 ^ bits * (acc div 2 ^ bits) + acc mod 2 ^ bits)"
        unfolding g by (simp only: algebra_simps)
      then show ?thesis by simp
    qed
    moreover have "0 \<le> ?g" "?g < 2 ^ t" by (simp_all add: low_mask)
    ultimately show ?thesis using c b False by (simp add: convertbits_def Let_def)
  qed
qed

lemma convertbits_exact:
  assumes "0 < t" and "n = f * length data"
  shows "convertbits f t False data = Some ws \<longleftrightarrow> groups f data \<and> n mod t < f \<and> groups t ws
    \<and> length ws = n div t \<and> 2 ^ (n mod t) * spell t ws = spell f data"
proof (cases "groups f data")
  case False
  then have "convert_loop f t 0 0 [] data = None" using convert_loop_groups by (metis option.exhaust)
  then show ?thesis using False by (simp add: convertbits_def)
next
  case True
  from convert_loop_spec [OF assms(1) True, of 0 0 "[]"] assms obtain acc bits out where
    c: "convert_loop f t 0 0 [] data = Some (acc, bits, out)" "acc = spell f data" "bits < t"
      "t * length out + bits = n" "groups t out" "spell t out = acc div 2 ^ bits" by auto
  have b: "bits = n mod t" "length out = n div t" using whole_and_rest [OF c(4,3)] by simp_all
  have z: "push_bit (t - bits) acc AND (2 ^ t - 1) = 0 \<longleftrightarrow> 2 ^ bits * (acc div 2 ^ bits) = acc"
    unfolding pad_group [OF c(3)] by (simp add: minus_mod_eq_mult_div [symmetric])
  have u: "2 ^ bits * spell t ws = acc \<longleftrightarrow> spell t ws = acc div 2 ^ bits \<and> 2 ^ bits * (acc div 2 ^ bits) = acc"
    by auto
  have w: "length ws = length out \<and> groups t ws \<and> spell t ws = acc div 2 ^ bits \<longleftrightarrow> ws = out"
    using spell_inject [of ws out t] c(5,6) by auto
  have "convertbits f t False data =
      (if f \<le> bits \<or> push_bit (t - bits) acc AND (2 ^ t - 1) \<noteq> 0 then None else Some out)"
    using c(1) by (simp add: convertbits_def Let_def)
  then have "convertbits f t False data = Some ws \<longleftrightarrow>
      bits < f \<and> 2 ^ bits * (acc div 2 ^ bits) = acc \<and> ws = out"
    unfolding z by auto
  then show ?thesis unfolding w [symmetric] b [symmetric] c(2) [symmetric] u using True by blast
qed

section \<open>The only checksum that passes\<close>

lemma gen_30: "take_bit 30 (gen t) = gen t"
proof -
  have "take_bit 30 (sel b g) = sel b (take_bit 30 g)" for b g by (simp add: sel_def)
  then show ?thesis by (simp add: gen_def take_bit_xor)
qed

lemma poly_feed_30:
  assumes "0 \<le> v" and "v < 32"
  shows "0 \<le> poly_feed c v \<and> poly_feed c v < 2 ^ 30"
proof -
  have "take_bit 30 v = v" using assms by (simp add: take_bit_int_eq_self)
  then have "take_bit 30 (poly_feed c v) = poly_feed c v"
    by (simp add: poly_feed_eq take_bit_xor gen_30 take_bit_push_bit)
  then show ?thesis by (simp only: take_bit_int_eq_self_iff)
qed

lemma run_poly_30:
  "groups 5 vs \<Longrightarrow> 0 \<le> c \<Longrightarrow> c < 2 ^ 30 \<Longrightarrow> 0 \<le> run_poly c vs \<and> run_poly c vs < 2 ^ 30"
proof (induction vs arbitrary: c)
  case (Cons v vs)
  then have "0 \<le> v" "v < 32" by simp_all
  from Cons.IH [of "poly_feed c v"] poly_feed_30 [OF this, of c] Cons.prems show ?case by simp
qed simp

lemma poly_feed_small:
  assumes "0 \<le> c" and "c < 2 ^ 25" and "0 \<le> v" and "v < 32"
  shows "poly_feed c v = 2 ^ 5 * c + v"
proof -
  have "take_bit 25 c = c" using assms by (simp add: take_bit_int_eq_self)
  moreover have "drop_bit 25 c = 0" using assms by (simp add: drop_bit_zero_iff)
  moreover have "gen 0 = 0" by (simp add: gen_def sel_def)
  moreover have v: "take_bit 5 v = v" using assms by (simp add: take_bit_int_eq_self)
  have "push_bit 5 c XOR v = push_bit 5 c OR v"
  proof (rule bit_eqI)
    fix n
    have "\<not> bit v n" if "5 \<le> n"
      using that bit_take_bit_iff [of 5 v n] v by simp
    then show "bit (push_bit 5 c XOR v) n = bit (push_bit 5 c OR v) n"
      by (auto simp: bit_xor_iff bit_or_iff bit_push_bit_iff)
  qed
  ultimately show ?thesis using push_or [of v 5 c] assms(3,4) by (simp add: poly_feed_eq)
qed

lemma run_digits: "groups 5 ds \<Longrightarrow> length ds \<le> 6 \<Longrightarrow> run_poly 0 ds = spell 5 ds"
proof (induction ds rule: rev_induct)
  case (snoc d ds)
  then have "0 \<le> spell 5 ds \<and> spell 5 ds < 2 ^ (5 * length ds)" using spell_bounds by simp
  moreover have "(2 :: int) ^ (5 * length ds) \<le> 2 ^ 25" using snoc.prems by (intro power_increasing) auto
  ultimately show ?case using snoc poly_feed_small [of "spell 5 ds" d] by simp
qed simp

lemma checksum_emits: "create_checksum hrp data =
    fst (emit 5 (polymod (hrp_expand hrp @ data @ [0, 0, 0, 0, 0, 0]) XOR 1) 30)"
proof -
  have u: "[0..<6] = [0, 1, 2, 3, 4, 5 :: nat]" by code_simp
  show ?thesis by (simp add: create_checksum_def Let_def u emit.simps)
qed

definition ascii_hrp :: "py_str \<Rightarrow> bool" where
  "ascii_hrp hrp \<longleftrightarrow> (\<forall>c \<in> set hrp. c < 128)"

lemma groups_hrp: "ascii_hrp hrp \<Longrightarrow> groups 5 (hrp_expand hrp)"
proof -
  have a: "0 \<le> drop_bit 5 (int c) \<and> drop_bit 5 (int c) < 32" if "c < 128" for c
  proof -
    have "int c div 32 \<le> 127 div 32" using that by (intro zdiv_mono1) simp_all
    then show ?thesis by (simp add: drop_bit_eq_div)
  qed
  have b: "0 \<le> int c AND 31 \<and> int c AND 31 < 32" for c
    using low_mask [of "int c" 5] by simp
  assume "ascii_hrp hrp"
  then have "groups 5 (map (\<lambda>c. drop_bit 5 (int c)) hrp)" using a by (auto simp: groups_def ascii_hrp_def)
  moreover have "groups 5 (map (\<lambda>c. int c AND 31) hrp)" unfolding groups_def using b by auto
  ultimately show ?thesis by (simp add: hrp_expand_def)
qed

lemma xor_move: "a XOR b = (c :: int) \<longleftrightarrow> b = a XOR c"
proof
  assume "a XOR b = c"
  then have "a XOR c = (a XOR a) XOR b" by (simp only: xor.assoc)
  then show "b = a XOR c" by simp
next
  assume "b = a XOR c"
  then have "a XOR b = (a XOR a) XOR c" by (simp only: xor.assoc)
  then show "a XOR b = c" by simp
qed

lemma only_checksum:
  assumes "ascii_hrp hrp" and "groups 5 data" and "groups 5 es" and "length es = 6"
  shows "verify_checksum hrp (data @ es) \<longleftrightarrow> es = create_checksum hrp data"
proof -
  let ?z = "[0, 0, 0, 0, 0, 0] :: int list"
  let ?S = "run_poly 1 (hrp_expand hrp @ data)"
  let ?P = "run_poly ?S ?z"
  have g: "groups 5 (hrp_expand hrp @ data @ ?z)" using groups_hrp [OF assms(1)] assms(2) by simp
  have "0 \<le> ?P \<and> ?P < 2 ^ 30" using run_poly_30 [OF g, of 1] by simp
  then have "take_bit 30 ?P = ?P" by (simp add: take_bit_int_eq_self)
  then have "take_bit 30 (?P XOR 1) = ?P XOR 1" by (simp add: take_bit_xor)
  then have p: "0 \<le> ?P XOR 1 \<and> ?P XOR 1 < 2 ^ 30" by (simp only: take_bit_int_eq_self_iff)
  let ?c = "create_checksum hrp data"
  have "polymod (hrp_expand hrp @ data @ ?z) = ?P" by (simp add: polymod_run)
  then have c: "length ?c = 6" "groups 5 ?c" "spell 5 ?c = ?P XOR 1"
    using emit_spec [of 5 "?P XOR 1" 30] p by (simp_all add: checksum_emits)
  have z: "map2 (XOR) ?z es = es"
    using assms(4) by (auto simp: length_Suc_conv numeral_eq_Suc)
  have "run_poly ?S es = ?P XOR run_poly 0 es"
    using run_poly_xor [of ?z es ?S 0] assms(4) unfolding z by simp
  also have "run_poly 0 es = spell 5 es" using run_digits [OF assms(3)] assms(4) by simp
  finally have "verify_checksum hrp (data @ es) \<longleftrightarrow> ?P XOR spell 5 es = 1"
    by (simp add: verify_checksum_def polymod_run)
  also have "\<dots> \<longleftrightarrow> spell 5 es = ?P XOR 1"
    by (rule xor_move)
  also have "\<dots> \<longleftrightarrow> es = ?c"
    using spell_inject [of es ?c 5] c assms(3,4) by auto
  finally show ?thesis .
qed

section \<open>Characters\<close>

definition char_of_group :: "int \<Rightarrow> nat" where
  "char_of_group d = CHARSET ! nat d"

lemma charset_facts:
  "length CHARSET = 32" "distinct CHARSET"
  "\<forall>c \<in> set CHARSET. 33 \<le> c \<and> c \<le> 126 \<and> lower_char c = c \<and> c \<noteq> 49"
  by code_simp+

lemma str_index_iff: "distinct xs \<Longrightarrow> str_index xs c = Inr d \<longleftrightarrow> d < length xs \<and> xs ! d = c"
proof (induction xs arbitrary: d)
  case (Cons x xs)
  have step: "str_index (x # xs) c = Inr d \<longleftrightarrow>
      (if x = c then d = 0 else d \<noteq> 0 \<and> str_index xs c = Inr (d - 1))"
    by (cases "str_index xs c") auto
  have "x \<notin> set xs" "distinct xs" using Cons.prems by simp_all
  then show ?case unfolding step using Cons.IH [of "d - 1"] nth_mem [of "d - 1" xs]
    by (cases d) auto
qed simp

lemma charset_values_Cons:
  "charset_values (c # cs) = Inr (e # es) \<longleftrightarrow>
     0 \<le> e \<and> str_index CHARSET c = Inr (nat e) \<and> charset_values cs = Inr es"
  by (cases "str_index CHARSET c"; cases "charset_values cs") auto

lemma charset_values_iff: "charset_values cs = Inr ds \<longleftrightarrow> groups 5 ds \<and> cs = map char_of_group ds"
proof (induction cs arbitrary: ds)
  case Nil
  then show ?case by (auto simp: groups_def)
next
  case (Cons c cs)
  note idx = str_index_iff [OF charset_facts(2), of c, unfolded charset_facts(1)]
  show ?case
  proof (cases ds)
    case Nil
    then show ?thesis by (auto simp: rbind_Inr_iff)
  next
    case es: (Cons e es)
    have "0 \<le> e \<and> str_index CHARSET c = Inr (nat e) \<longleftrightarrow> 0 \<le> e \<and> e < 32 \<and> c = char_of_group e"
      unfolding idx char_of_group_def by auto
    moreover have "charset_values cs = Inr es \<longleftrightarrow> groups 5 es \<and> cs = map char_of_group es"
      by (rule Cons.IH)
    ultimately show ?thesis unfolding es charset_values_Cons by simp blast
  qed
qed

lemma char_of_group_ok:
  "0 \<le> d \<Longrightarrow> d < 32 \<Longrightarrow> 33 \<le> char_of_group d \<and> char_of_group d \<le> 126
     \<and> lower_char (char_of_group d) = char_of_group d \<and> char_of_group d \<noteq> 49"
  using charset_facts(1,3) nth_mem [of "nat d" CHARSET] by (simp add: char_of_group_def)

lemma rfind_None: "rfind c s = None \<longleftrightarrow> c \<notin> set s"
  by (induction s) (auto split: option.splits)

lemma rfind_last: "c \<notin> set ys \<Longrightarrow> rfind c (xs @ c # ys) = Some (length xs)"
  using rfind_None [of c ys] by (induction xs) simp_all

lemma rfind_Some: "rfind c s = Some i \<Longrightarrow> \<exists>ys zs. s = ys @ c # zs \<and> length ys = i"
proof (induction s arbitrary: i)
  case (Cons x s)
  show ?case
  proof (cases "rfind c s")
    case None
    then show ?thesis using Cons.prems by (auto split: if_splits)
  next
    case (Some j)
    then obtain ys zs where "s = ys @ c # zs" "length ys = j" using Cons.IH by blast
    then have "x # s = (x # ys) @ c # zs \<and> length (x # ys) = i" using Some Cons.prems by simp
    then show ?thesis by blast
  qed
qed simp

text \<open>A decoded string, symbol by symbol.\<close>

definition bech32_form :: "py_str \<Rightarrow> int list \<Rightarrow> py_str" where
  "bech32_form hrp vals = hrp @ 49 # map char_of_group vals"

lemma bech32_encode_form: "bech32_encode hrp data = bech32_form hrp (data @ create_checksum hrp data)"
  by (simp add: bech32_encode_def bech32_form_def char_of_group_def)

lemma bech32_decode_Inr:
  assumes "bech32_decode s = Inr (hrp, data)"
  shows "\<exists>es. map lower_char s = bech32_form hrp (data @ es) \<and> groups 5 data \<and> groups 5 es \<and> length es = 6
    \<and> verify_checksum hrp (data @ es) \<and> (map lower_char s = s \<or> map upper_char s = s)"
proof -
  let ?t = "map lower_char s"
  obtain pos vals where v: "rfind 49 ?t = Some pos" "\<not> (pos < 1 \<or> pos + 7 > length ?t)"
      "charset_values (drop (pos + 1) ?t) = Inr vals" "verify_checksum (take pos ?t) vals"
      "hrp = take pos ?t" "data = take (length vals - 6) vals" "?t = s \<or> map upper_char s = s"
    using assms by (auto simp: bech32_decode_def Let_def split: if_splits option.splits sum.splits)
  obtain ys zs where t: "?t = ys @ 49 # zs" "length ys = pos" using rfind_Some [OF v(1)] by blast
  have vals: "groups 5 vals" "zs = map char_of_group vals"
    using v(3) t by (simp_all add: charset_values_iff)
  let ?es = "drop (length vals - 6) vals"
  have "data @ ?es = vals" "hrp = ys" by (simp_all add: v(5,6) t)
  moreover have "length ?es = 6" using v(2) t vals(2) by simp
  moreover have "groups 5 data" "groups 5 ?es" using vals(1) by (metis \<open>data @ ?es = vals\<close> groups_simps(3))+
  moreover have "?t = bech32_form hrp vals" using t vals(2) \<open>hrp = ys\<close> by (simp add: bech32_form_def)
  ultimately show ?thesis using v(4,5,7) by metis
qed

lemma lower_printable: "33 \<le> lower_char c \<and> lower_char c \<le> 126 \<Longrightarrow> 33 \<le> c \<and> c \<le> 126"
  by (simp add: lower_char_def split: if_splits)

lemma npub_facts: "length NPUB = 4" "ascii_hrp NPUB" "\<forall>c \<in> set NPUB. 33 \<le> c \<and> c \<le> 126" "49 \<notin> set NPUB"
  by (simp_all add: NPUB_def lit_def ascii_hrp_def)

lemma bech32_decode_form:
  assumes "map lower_char s = bech32_form NPUB (data @ es)" and "groups 5 (data @ es)" and "length es = 6"
    and "verify_checksum NPUB (data @ es)" and "map lower_char s = s \<or> map upper_char s = s"
  shows "bech32_decode s = Inr (NPUB, data)"
proof -
  let ?vals = "data @ es" and ?t = "map lower_char s"
  have vals: "33 \<le> char_of_group d \<and> char_of_group d \<le> 126 \<and> char_of_group d \<noteq> 49" if "d \<in> set ?vals" for d
    using assms(2) that char_of_group_ok [of d] by (simp add: groups_def)
  have "33 \<le> c \<and> c \<le> 126" if "c \<in> set ?t" for c
    using that vals npub_facts(3) unfolding assms(1) bech32_form_def by auto
  then have "33 \<le> c \<and> c \<le> 126" if "c \<in> set s" for c
    using that lower_printable [of c] by simp
  then have printable: "\<not> (\<exists>c \<in> set s. c < 33 \<or> c > 126)" by (metis leD)
  have "49 \<notin> set (map char_of_group ?vals)" using vals by auto
  then have r: "rfind 49 ?t = Some 4"
    using rfind_last [of 49 "map char_of_group ?vals" NPUB] npub_facts(1) by (simp add: assms(1) bech32_form_def)
  have "drop 5 ?t = map char_of_group ?vals" "take 4 ?t = NPUB" "11 \<le> length ?t"
    using npub_facts(1) assms(3) by (simp_all add: assms(1) bech32_form_def)
  moreover from this(1) have "charset_values (drop 5 ?t) = Inr ?vals"
    using assms(2) by (simp only: charset_values_iff)
  ultimately show ?thesis using printable assms(3-5) r by (auto simp: bech32_decode_def Let_def)
qed

lemma uint_bytes: "groups 8 (map uint (k :: bytes))" "map word_of_int (map uint k) = k"
  using uint_byte_less by (auto simp: groups_def comp_def)

lemma bytes_of_groups:
  assumes "groups 8 ds"
  shows "map uint (map word_of_int ds :: bytes) = ds"
  using assms by (induction ds) simp_all

lemma encode_npub_Inr:
  "encode_npub k = Inr e \<longleftrightarrow> length k = 32 \<and> (\<exists>ws. groups 5 ws \<and> length ws = 52
     \<and> spell 5 ws = 2 ^ 4 * spell 8 (map uint k) \<and> e = bech32_form NPUB (ws @ create_checksum NPUB ws))"
proof (cases "length k = 32")
  case True
  from convertbits_pad [of 5 8 "map uint k" 256] uint_bytes(1) True obtain ws where
    w: "convertbits 8 5 True (map uint k) = Some ws" "groups 5 ws" "length ws = 52"
      "spell 5 ws = 2 ^ 4 * spell 8 (map uint k)" by auto
  have "vs = ws" if "groups 5 vs" "length vs = 52" "spell 5 vs = 2 ^ 4 * spell 8 (map uint k)" for vs
    using spell_inject [of vs ws 5] that w(2-4) by simp
  moreover have "encode_npub k = Inr (bech32_form NPUB (ws @ create_checksum NPUB ws))"
    using True w(1) by (simp add: encode_npub_def bech32_encode_form)
  ultimately show ?thesis using True w(2-4) by (metis sum.inject(2))
qed (simp add: encode_npub_def)

lemma fifty_two: "5 * l mod 8 < 5 \<and> 5 * l div 8 = 32 \<longleftrightarrow> l = (52 :: nat)"
proof
  assume a: "5 * l mod 8 < 5 \<and> 5 * l div 8 = 32"
  have "32 * 8 + 5 * l mod 8 = 5 * l" using a div_mult_mod_eq [of "5 * l" 8] by simp
  moreover define m where "m = 5 * l mod 8"
  ultimately have "256 + m = 5 * l" "m < 5" using a by simp_all
  then have "256 \<le> 5 * l" "5 * l \<le> 260" by simp_all
  then show "l = 52" by simp
qed simp

lemma decode_words:
  "convertbits 5 8 False data = Some ds \<and> length ds = 32 \<longleftrightarrow>
     groups 5 data \<and> length data = 52 \<and> groups 8 ds \<and> length ds = 32 \<and> 2 ^ 4 * spell 8 ds = spell 5 data"
proof -
  let ?n = "5 * length data"
  note n = fifty_two [of "length data"]
  then show ?thesis unfolding convertbits_exact [of 8 ?n 5 data ds, OF _ refl, simplified] using n by auto
qed

lemma create_checksum_ok:
  assumes "ascii_hrp hrp" and "groups 5 data"
  shows "groups 5 (create_checksum hrp data) \<and> length (create_checksum hrp data) = 6
    \<and> verify_checksum hrp (data @ create_checksum hrp data)"
proof -
  have g: "groups 5 (hrp_expand hrp @ data @ [0, 0, 0, 0, 0, 0])" using groups_hrp [OF assms(1)] assms(2) by simp
  have "0 \<le> polymod (hrp_expand hrp @ data @ [0, 0, 0, 0, 0, 0])"
    using run_poly_30 [OF g, of 1] by (simp add: polymod_run)
  then have "groups 5 (create_checksum hrp data) \<and> length (create_checksum hrp data) = 6"
    using emit_spec [of 5 _ 30] by (simp add: checksum_emits)
  with only_checksum [OF assms, of "create_checksum hrp data"] show ?thesis by simp
qed

lemma decode_npub_iff:
  "decode_npub s = Inr k \<longleftrightarrow>
     encode_npub k = Inr (map lower_char s) \<and> (map lower_char s = s \<or> map upper_char s = s)"
proof
  assume "decode_npub s = Inr k"
  then obtain data ds where d: "bech32_decode s = Inr (NPUB, data)" "convertbits 5 8 False data = Some ds"
      "length ds = 32" "k = map word_of_int ds"
    by (auto simp: decode_npub_def rbind_Inr_iff split: if_splits option.splits)
  from bech32_decode_Inr [OF d(1)] obtain es where
    e: "map lower_char s = bech32_form NPUB (data @ es)" "groups 5 data" "groups 5 es" "length es = 6"
      "verify_checksum NPUB (data @ es)" "map lower_char s = s \<or> map upper_char s = s" by blast
  have "es = create_checksum NPUB data" using only_checksum npub_facts(2) e by blast
  moreover have w: "length data = 52" "groups 8 ds" "2 ^ 4 * spell 8 ds = spell 5 data"
    using decode_words [of data ds] d(2,3) by auto
  moreover have "map uint k = ds" unfolding d(4) by (rule bytes_of_groups [OF w(2)])
  moreover from this have "length k = 32" using d(3) by (metis length_map)
  ultimately have "encode_npub k = Inr (map lower_char s)"
    unfolding encode_npub_Inr e(1) using e(2) by auto
  with e(6) show "encode_npub k = Inr (map lower_char s) \<and> (map lower_char s = s \<or> map upper_char s = s)" by blast
next
  assume a: "encode_npub k = Inr (map lower_char s) \<and> (map lower_char s = s \<or> map upper_char s = s)"
  then obtain ws where w: "length k = 32" "groups 5 ws" "length ws = 52"
      "spell 5 ws = 2 ^ 4 * spell 8 (map uint k)"
      "map lower_char s = bech32_form NPUB (ws @ create_checksum NPUB ws)"
    unfolding encode_npub_Inr by blast
  from create_checksum_ok [OF npub_facts(2) w(2)] bech32_decode_form [OF w(5)] a w(2)
  have "bech32_decode s = Inr (NPUB, ws)" by simp
  moreover have "convertbits 5 8 False ws = Some (map uint k)"
    using decode_words [of ws "map uint k"] w uint_bytes(1) by simp
  ultimately show "decode_npub s = Inr k" using w(1) uint_bytes(2) by (simp add: decode_npub_def)
qed

lemma encode_npub_lower: "encode_npub k = Inr e \<Longrightarrow> map lower_char e = e"
proof -
  assume "encode_npub k = Inr e"
  then obtain ws where w: "groups 5 ws" "e = bech32_form NPUB (ws @ create_checksum NPUB ws)"
    unfolding encode_npub_Inr by blast
  have "groups 5 (ws @ create_checksum NPUB ws)"
    using w(1) create_checksum_ok [OF npub_facts(2) w(1)] by simp
  then have "map lower_char (map char_of_group (ws @ create_checksum NPUB ws)) =
      map char_of_group (ws @ create_checksum NPUB ws)"
    unfolding map_map by (intro map_cong refl) (auto simp: groups_def char_of_group_ok)
  moreover have "map lower_char NPUB = NPUB" "lower_char 49 = 49" by code_simp+
  ultimately show ?thesis by (simp add: w(2) bech32_form_def)
qed

section \<open>One wrong symbol\<close>

lemma feed_kernel:
  assumes "0 \<le> c" and "c < 2 ^ 30" and "poly_feed c 0 = 0"
  shows "c = 0"
proof -
  let ?t = "drop_bit 25 c"
  have low: "\<forall>n \<in> set [1..<32]. take_bit 5 (gen (int n)) \<noteq> 0" by code_simp
  have t: "0 \<le> ?t" "?t < 32" using assms(1,2) by (simp_all add: drop_bit_eq_div)
  have "gen ?t = push_bit 5 (take_bit 25 c)"
    using assms(3) xor_move [of "push_bit 5 (take_bit 25 c)" "gen ?t" 0] by (simp add: poly_feed_eq)
  then have z: "take_bit 5 (gen ?t) = 0" by (simp add: take_bit_push_bit)
  have "?t = 0"
  proof (rule ccontr)
    assume "?t \<noteq> 0"
    then have "nat ?t \<noteq> 0" "nat ?t < 32" using t by linarith+
    then have "nat ?t \<in> set [1..<32]" by (simp del: nat_eq_iff)
    with low have "take_bit 5 (gen (int (nat ?t))) \<noteq> 0" by blast
    then show False using z t(1) by simp
  qed
  then have c: "take_bit 25 c = c" using assms(1)
    by (metis add.right_neutral bits_ident push_bit_of_0 add.commute)
  with assms(3) \<open>?t = 0\<close> have "push_bit 5 c = 0" by (simp add: poly_feed_eq gen_def sel_def)
  then show ?thesis by simp
qed

lemma xor_30:
  assumes "0 \<le> c" "c < 2 ^ 30" "0 \<le> d" "d < (2 ^ 30 :: int)"
  shows "0 \<le> c XOR d \<and> c XOR d < 2 ^ 30"
proof -
  have "take_bit 30 (c XOR d) = c XOR d" using assms by (simp add: take_bit_xor take_bit_int_eq_self)
  then show ?thesis by (simp only: take_bit_int_eq_self_iff)
qed

lemma run_poly_inject:
  assumes "groups 5 vs" and "0 \<le> c" "c < 2 ^ 30" and "0 \<le> d" "d < 2 ^ 30" and "run_poly c vs = run_poly d vs"
  shows "c = d"
  using assms
proof (induction vs arbitrary: c d)
  case (Cons v vs)
  have v: "0 \<le> v" "v < 32" "groups 5 vs" using Cons.prems(1) by simp_all
  have "poly_feed c v = poly_feed d v"
    using Cons.IH [OF v(3)] poly_feed_30 [OF v(1,2)] Cons.prems(6) by simp
  then have "poly_feed (c XOR d) 0 = 0" using poly_feed_xor [of c d v v] by simp
  then have "c XOR d = 0" using feed_kernel xor_30 [OF Cons.prems(2-5)] by blast
  then show ?case using xor_move [of c d 0] by simp
qed simp

lemma one_symbol:
  assumes "groups 5 (xs @ v # ys)" and "groups 5 (xs @ w # ys)"
    and "verify_checksum NPUB (xs @ v # ys)" and "verify_checksum NPUB (xs @ w # ys)"
  shows "v = w"
proof -
  let ?A = "run_poly 1 (hrp_expand NPUB @ xs)"
  have "run_poly (poly_feed ?A v) ys = run_poly (poly_feed ?A w) ys"
    using assms(3,4) by (simp add: verify_checksum_def polymod_run)
  then have "poly_feed ?A v = poly_feed ?A w"
    using run_poly_inject [of ys "poly_feed ?A v" "poly_feed ?A w"] poly_feed_30 assms(1,2) by simp
  then have "poly_feed 0 (v XOR w) = 0" using poly_feed_xor [of ?A ?A v w] by simp
  then have "v XOR w = 0" by (simp add: poly_feed_eq gen_def sel_def)
  then show ?thesis using xor_move [of v w 0] by simp
qed

lemma char_of_group_inject:
  assumes "groups 5 vs" and "groups 5 ws" and "map char_of_group vs = map char_of_group ws"
  shows "vs = ws"
proof -
  have "charset_values (map char_of_group vs) = Inr vs" "charset_values (map char_of_group vs) = Inr ws"
    using assms by (simp_all only: charset_values_iff)
  then show ?thesis by simp
qed

lemma decoded_form:
  assumes "decode_npub s = Inr k"
  shows "\<exists>vals. map lower_char s = bech32_form NPUB vals \<and> groups 5 vals \<and> verify_checksum NPUB vals"
proof -
  obtain ws where w: "groups 5 ws" "map lower_char s = bech32_form NPUB (ws @ create_checksum NPUB ws)"
    using assms unfolding decode_npub_iff encode_npub_Inr by blast
  with create_checksum_ok [OF npub_facts(2) w(1)] show ?thesis
    by (intro exI [of _ "ws @ create_checksum NPUB ws"]) simp
qed

lemma form_split:
  assumes "bech32_form NPUB vals = p @ c # q" and "5 \<le> length p"
  shows "\<exists>xs v ys. vals = xs @ v # ys \<and> drop 5 p = map char_of_group xs \<and> c = char_of_group v
    \<and> q = map char_of_group ys"
proof -
  have "map char_of_group vals = drop 5 (p @ c # q)"
    using npub_facts(1) by (simp add: bech32_form_def flip: assms(1))
  also have "\<dots> = drop 5 p @ c # q" using assms(2) by simp
  finally show ?thesis by (auto simp: map_eq_append_conv Cons_eq_map_conv append_eq_map_conv)
qed

lemma npub_decodes:
  assumes "length k = 32"
  shows "\<exists>s. encode_npub k = Inr s \<and> decode_npub s = Inr k \<and> length s = 63"
proof -
  from convertbits_pad [of 5 8 "map uint k" 256] uint_bytes(1) assms obtain ws where
    w: "convertbits 8 5 True (map uint k) = Some ws" "groups 5 ws" "length ws = 52" by auto
  then have e: "encode_npub k = Inr (bech32_form NPUB (ws @ create_checksum NPUB ws))"
    using assms by (simp add: encode_npub_def bech32_encode_form)
  moreover have "length (bech32_form NPUB (ws @ create_checksum NPUB ws)) = 63"
    using create_checksum_ok [OF npub_facts(2) w(2)] w(3) by (simp add: bech32_form_def npub_facts)
  ultimately show ?thesis using decode_npub_iff [of "bech32_form NPUB (ws @ create_checksum NPUB ws)" k]
      encode_npub_lower [OF e] by simp
qed

section \<open>Properties\<close>

text \<open>
  C6: Decoding accepts exactly the encodings. A string decodes to a key when its lower-case
  form is what the key encodes to and its letters are all of one case; nothing else decodes,
  so every key has one \<open>npub\<close>.
\<close>

theorem npub_exact:
  "decode_npub s = Inr k \<longleftrightarrow>
     encode_npub k = Inr (map lower_char s) \<and> (map lower_char s = s \<or> map upper_char s = s)"
  by (rule decode_npub_iff)

text \<open>
  Every 32-byte key has an \<open>npub\<close> of 63 characters, and reading it back gives the key.
\<close>

theorem npub_roundtrip:
  assumes "length k = 32"
  shows "\<exists>s. encode_npub k = Inr s \<and> decode_npub s = Inr k \<and> length s = 63"
  by (rule npub_decodes [OF assms])

lemma npub_roundtrip_witness: "\<exists>s. encode_npub (zeros 32) = Inr s \<and> decode_npub s = Inr (zeros 32)"
  using npub_roundtrip [of "zeros 32"] by auto

text \<open>
  C31: A mistyped character never yields another key. If two strings that differ in one place
  both decode, the two characters there are the same letter.
\<close>

theorem npub_typo_detected:
  assumes "decode_npub (p @ c # q) = Inr k" and "decode_npub (p @ d # q) = Inr l"
  shows "lower_char c = lower_char d"
proof -
  let ?L = "map lower_char"
  obtain vals where v: "?L (p @ c # q) = bech32_form NPUB vals" "groups 5 vals" "verify_checksum NPUB vals"
    using decoded_form [OF assms(1)] by blast
  obtain wals where w: "?L (p @ d # q) = bech32_form NPUB wals" "groups 5 wals" "verify_checksum NPUB wals"
    using decoded_form [OF assms(2)] by blast
  show ?thesis
  proof (cases "5 \<le> length p")
    case True
    obtain xs a ys where x: "vals = xs @ a # ys" "drop 5 (?L p) = map char_of_group xs"
        "lower_char c = char_of_group a" "?L q = map char_of_group ys"
      using form_split [of vals "?L p" "lower_char c" "?L q"] v(1) True by auto
    obtain us b zs where u: "wals = us @ b # zs" "drop 5 (?L p) = map char_of_group us"
        "lower_char d = char_of_group b" "?L q = map char_of_group zs"
      using form_split [of wals "?L p" "lower_char d" "?L q"] w(1) True by auto
    have "us = xs" "zs = ys"
      using char_of_group_inject [of us xs] char_of_group_inject [of zs ys] x u v(2) w(2) by simp_all
    then have "a = b" using one_symbol [of xs a ys b] x(1) u(1) v w by simp
    then show ?thesis using x(3) u(3) by simp
  next
    case False
    have n: "bech32_form NPUB us ! length p = (NPUB @ [49]) ! length p" for us
      using False npub_facts(1) by (simp add: bech32_form_def nth_append)
    have "lower_char c = ?L (p @ c # q) ! length p" "lower_char d = ?L (p @ d # q) ! length p"
      by (simp_all add: nth_append)
    then show ?thesis unfolding v(1) w(1) n by simp
  qed
qed

lemma npub_typo_detected_witness:
  "\<exists>s. encode_npub (zeros 32) = Inr s \<and> \<not> (\<exists>d l. decode_npub (d # tl s) = Inr l \<and> lower_char d \<noteq> lower_char (hd s))"
proof -
  obtain s where s: "encode_npub (zeros 32) = Inr s" "decode_npub s = Inr (zeros 32)" "length s = 63"
    using npub_decodes [of "zeros 32"] by auto
  then have "decode_npub ([] @ hd s # tl s) = Inr (zeros 32)" by (cases s) simp_all
  from npub_typo_detected [OF this] s(1) show ?thesis by (metis append_Nil)
qed

end
