(* ===== verification/Json_Text.thy ===== *)
theory Json_Text
  imports Utf8
begin

text \<open>
  \<open>json.dumps(v, ensure_ascii=False, separators=(",", ":"))\<close>, as the Nostr modules call it: on
  integers, texts, lists and dictionaries. The lemmas show that the text determines the value,
  so that what is hashed or encrypted is one event and no other.
\<close>

datatype jval = JVInt int | JVStr py_str | JVList "jval list" | JVObj "(py_str \<times> jval) list"

section \<open>Writing\<close>

definition hex_code :: "nat \<Rightarrow> nat" where
  "hex_code n = (if n < 10 then 48 + n else 87 + n)"

text \<open>The escapes of a JSON string: the short ones, and \<open>\u00XX\<close> for the other controls.\<close>

definition esc_char :: "nat \<Rightarrow> py_str" where
  "esc_char n =
     (if n = 34 then [92, 34] else if n = 92 then [92, 92] else if n = 10 then [92, 110]
      else if n = 13 then [92, 114] else if n = 9 then [92, 116] else if n = 8 then [92, 98]
      else if n = 12 then [92, 102]
      else if n < 32 then [92, 117, 48, 48, hex_code (n div 16), hex_code (n mod 16)]
      else [n])"

definition quote_str :: "py_str \<Rightarrow> py_str" where
  "quote_str s = [34] @ concat (map esc_char s) @ [34]"

fun dumps :: "jval \<Rightarrow> py_str"
  and dumps_items :: "jval list \<Rightarrow> py_str"
  and dumps_members :: "(py_str \<times> jval) list \<Rightarrow> py_str" where
  "dumps (JVInt i) = lit (int_str i)"
| "dumps (JVStr s) = quote_str s"
| "dumps (JVList vs) = [91] @ dumps_items vs @ [93]"
| "dumps (JVObj ms) = [123] @ dumps_members ms @ [125]"
| "dumps_items [] = []"
| "dumps_items [v] = dumps v"
| "dumps_items (v # w # vs) = dumps v @ [44] @ dumps_items (w # vs)"
| "dumps_members [] = []"
| "dumps_members [(k, v)] = quote_str k @ [58] @ dumps v"
| "dumps_members ((k, v) # m # ms) = quote_str k @ [58] @ dumps v @ [44] @ dumps_members (m # ms)"

section \<open>A character, a text, a number\<close>

definition hex_of_code :: "nat \<Rightarrow> nat" where
  "hex_of_code c = (if c < 58 then c - 48 else c - 87)"

lemma hex_of_code [simp]: "n < 16 \<Longrightarrow> hex_of_code (hex_code n) = n"
  by (auto simp: hex_of_code_def hex_code_def)

text \<open>Reading one character back.\<close>

definition read_char :: "py_str \<Rightarrow> nat \<times> py_str" where
  "read_char s = (case s of
     a # c # rest \<Rightarrow>
       if a \<noteq> 92 then (a, c # rest)
       else if c = 110 then (10, rest) else if c = 114 then (13, rest) else if c = 116 then (9, rest)
       else if c = 98 then (8, rest) else if c = 102 then (12, rest)
       else if c = 117 then (16 * hex_of_code (rest ! 2) + hex_of_code (rest ! 3), drop 4 rest)
       else (c, rest)
   | [c] \<Rightarrow> (c, []) | [] \<Rightarrow> (0, []))"

lemma read_esc: "read_char (esc_char n @ x) = (n, x)"
proof (cases "n < 32 \<and> n \<notin> {8, 9, 10, 12, 13}")
  case True
  then have "n div 16 < 16" by (simp add: less_mult_imp_div_less)
  then show ?thesis using True by (simp add: esc_char_def read_char_def)
next
  case False
  then show ?thesis by (auto simp: esc_char_def read_char_def split: list.split)
qed

lemma esc_prefix: "esc_char c @ x = esc_char d @ y \<Longrightarrow> c = d \<and> x = y"
  by (metis read_esc Pair_inject)

lemma esc_not_quote: "esc_char c @ x \<noteq> 34 # y"
  by (simp add: esc_char_def)

lemma quote_prefix: "quote_str s @ x = quote_str t @ y \<Longrightarrow> s = t \<and> x = y"
proof -
  assume "quote_str s @ x = quote_str t @ y"
  then have "concat (map esc_char s) @ 34 # x = concat (map esc_char t) @ 34 # y" by (simp add: quote_str_def)
  then show ?thesis
  proof (induction s arbitrary: t)
    case Nil
    then show ?case using esc_not_quote by (cases t) (auto, metis)
  next
    case (Cons c s)
    show ?case
    proof (cases t)
      case Nil
      then show ?thesis using Cons.prems esc_not_quote by auto
    next
      case (Cons d t')
      then have "esc_char c @ (concat (map esc_char s) @ 34 # x) = esc_char d @ (concat (map esc_char t') @ 34 # y)"
        using Cons.prems by simp
      then have "c = d" "concat (map esc_char s) @ 34 # x = concat (map esc_char t') @ 34 # y"
        using esc_prefix by blast+
      then show ?thesis using Cons Cons.IH by simp
    qed
  qed
qed

definition dec_value :: "py_str \<Rightarrow> nat" where
  "dec_value s = foldl (\<lambda>a c. 10 * a + (c - 48)) 0 s"

abbreviation dec_digit :: "nat \<Rightarrow> bool" where
  "dec_digit c \<equiv> 48 \<le> c \<and> c \<le> 57"

lemma digit_char: "n < 10 \<Longrightarrow> of_char (''0123456789'' ! n) = 48 + n"
proof -
  have "\<forall>n \<in> set [0..<10]. of_char (''0123456789'' ! n) = 48 + n" by code_simp
  then show "n < 10 \<Longrightarrow> of_char (''0123456789'' ! n) = 48 + n" by simp
qed

lemma nat_str_digits:
  "dec_value (lit (nat_str n)) = n \<and> (\<forall>c \<in> set (lit (nat_str n)). dec_digit c) \<and> lit (nat_str n) \<noteq> []"
proof (induction n rule: nat_str.induct)
  case (1 n)
  show ?case
  proof (cases "n < 10")
    case True
    then show ?thesis by (simp add: nat_str.simps [of n] lit_def dec_value_def digit_char)
  next
    case False
    have "lit (nat_str n) = lit (nat_str (n div 10)) @ [48 + n mod 10]"
      using False digit_char [of "n mod 10"] by (simp add: nat_str.simps [of n] lit_def)
    with 1 [OF False] show ?thesis by (simp add: dec_value_def)
  qed
qed

text \<open>What may follow a value: nothing, or a character that is no digit.\<close>

definition ends :: "py_str \<Rightarrow> bool" where
  "ends r \<longleftrightarrow> r = [] \<or> \<not> dec_digit (hd r)"

lemma ends_Cons [simp]: "ends (c # r) \<longleftrightarrow> \<not> dec_digit c"
  by (simp add: ends_def)

lemma ends_Nil [simp]: "ends []"
  by (simp add: ends_def)

lemma nat_str_prefix:
  assumes "lit (nat_str n) @ x = lit (nat_str m) @ y" and "ends x" and "ends y"
  shows "n = m \<and> x = y"
proof -
  have t: "takeWhile dec_digit (lit (nat_str k) @ z) = lit (nat_str k)" if "ends z" for k z
  proof -
    have "takeWhile dec_digit z = []" using that by (cases z) (auto simp: ends_def)
    then show ?thesis using nat_str_digits [of k] by (simp add: takeWhile_append2)
  qed
  from t [OF assms(2), of n] t [OF assms(3), of m] assms(1) have "lit (nat_str n) = lit (nat_str m)" by simp
  then have "n = m" using nat_str_digits [of n] nat_str_digits [of m] by metis
  then show ?thesis using assms(1) by simp
qed

section \<open>The text determines the value\<close>

lemma lit_append: "lit (s @ t) = lit s @ lit t"
  by (simp add: lit_def)

lemma nat_str_head: "\<exists>c t. lit (nat_str n) = c # t \<and> dec_digit c"
  using nat_str_digits [of n] by (cases "lit (nat_str n)") auto

lemma lit_int_str: "lit (int_str i) = (if i < 0 then [45] else []) @ lit (nat_str (nat \<bar>i\<bar>))"
proof -
  have "lit ''-'' = [45]" by code_simp
  then have "lit (''-'' @ s) = [45] @ lit s" for s by (simp only: lit_append)
  then show ?thesis by (simp add: int_str_def)
qed

lemma int_str_head: "\<exists>c t. lit (int_str i) = c # t \<and> (dec_digit c \<or> c = 45)"
  using nat_str_head [of "nat \<bar>i\<bar>"] by (auto simp: lit_int_str)

lemma int_str_prefix:
  assumes "lit (int_str i) @ x = lit (int_str j) @ y" and "ends x" and "ends y"
  shows "i = j \<and> x = y"
proof -
  let ?s = "\<lambda>i. (if i < 0 then [45] else []) :: py_str" and ?n = "\<lambda>i :: int. lit (nat_str (nat \<bar>i\<bar>))"
  have e: "?s i @ ?n i @ x = ?s j @ ?n j @ y" using assms(1) by (simp add: lit_int_str)
  obtain c t where c: "?n i = c # t" "dec_digit c" using nat_str_head by blast
  obtain d u where d: "?n j = d # u" "dec_digit d" using nat_str_head by blast
  have sign: "(i < 0) = (j < 0)"
    using arg_cong [OF e, of hd] c d by (cases "i < 0"; cases "j < 0") simp_all
  then have "?n i @ x = ?n j @ y" using e by simp
  then have "nat \<bar>i\<bar> = nat \<bar>j\<bar> \<and> x = y" using assms(2,3) by (rule nat_str_prefix)
  with sign show ?thesis by linarith
qed

text \<open>The first character tells what kind of value follows.\<close>

fun lead :: "jval \<Rightarrow> nat \<Rightarrow> bool" where
  "lead (JVInt i) c \<longleftrightarrow> dec_digit c \<or> c = 45"
| "lead (JVStr s) c \<longleftrightarrow> c = 34"
| "lead (JVList vs) c \<longleftrightarrow> c = 91"
| "lead (JVObj ms) c \<longleftrightarrow> c = 123"

lemma dumps_lead: "\<exists>c t. dumps v = c # t \<and> lead v c"
  using int_str_head by (cases v) (auto simp: quote_str_def)

lemma dumps_not: "dumps v @ x \<noteq> 93 # y"
  using dumps_lead [of v] by (cases v) auto

lemma same_kind:
  assumes "dumps v @ x = dumps w @ y"
  shows "(\<exists>i j. v = JVInt i \<and> w = JVInt j) \<or> (\<exists>s t. v = JVStr s \<and> w = JVStr t)
    \<or> (\<exists>vs ws. v = JVList vs \<and> w = JVList ws) \<or> (\<exists>ms ns. v = JVObj ms \<and> w = JVObj ns)"
proof -
  obtain c t where "dumps v = c # t" "lead v c" using dumps_lead by blast
  moreover obtain d u where "dumps w = d # u" "lead w d" using dumps_lead by blast
  ultimately show ?thesis using assms by (cases v; cases w) auto
qed

lemma quote_not: "quote_str k @ x \<noteq> 125 # y"
  by (simp add: quote_str_def)

definition more :: "'a list \<Rightarrow> py_str \<Rightarrow> py_str" where
  "more vs t = (if vs = [] then [] else 44 # t)"

lemma dumps_items_Cons: "dumps_items (v # vs) = dumps v @ more vs (dumps_items vs)"
  by (cases vs) (simp_all add: more_def)

lemma dumps_members_Cons: "dumps_members ((k, v) # ms) = quote_str k @ 58 # dumps v @ more ms (dumps_members ms)"
  by (cases ms) (simp_all add: more_def)

lemma ends_more: "ends (more vs t @ 93 # x)" "ends (more vs t @ 125 # x)"
  by (simp_all add: more_def)

lemma more_inject:
  assumes "more vs s @ c # x = more ws t @ c # y" and "c \<noteq> 44"
  shows "vs = [] \<and> ws = [] \<and> x = y \<or> vs \<noteq> [] \<and> ws \<noteq> [] \<and> s @ c # x = t @ c # y"
  using assms by (auto simp: more_def split: if_splits)

lemma items_prefix:
  assumes "\<And>v w x y. v \<in> set vs \<Longrightarrow> dumps v @ x = dumps w @ y \<Longrightarrow> ends x \<Longrightarrow> ends y \<Longrightarrow> v = w \<and> x = y"
    and "dumps_items vs @ 93 # x = dumps_items ws @ 93 # y"
  shows "vs = ws \<and> x = y"
  using assms
proof (induction vs arbitrary: ws)
  case Nil
  show ?case
  proof (cases ws)
    case (Cons w ws')
    then show ?thesis using Nil.prems(2) dumps_not [of w _ x] by (simp add: dumps_items_Cons) metis
  qed (use Nil.prems(2) in simp)
next
  case (Cons v vs)
  show ?case
  proof (cases ws)
    case Nil
    then show ?thesis using Cons.prems(2) dumps_not [of v] by (simp add: dumps_items_Cons)
  next
    case (Cons w ws')
    then have "dumps v @ (more vs (dumps_items vs) @ 93 # x) = dumps w @ (more ws' (dumps_items ws') @ 93 # y)"
      using Cons.prems(2) by (simp add: dumps_items_Cons)
    from Cons.prems(1) [OF _ this ends_more(1) ends_more(1)]
    have e: "v = w" "more vs (dumps_items vs) @ 93 # x = more ws' (dumps_items ws') @ 93 # y" by simp_all
    have ih: "vs = ws' \<and> x = y" if "dumps_items vs @ 93 # x = dumps_items ws' @ 93 # y"
      by (rule Cons.IH [OF Cons.prems(1) that]) simp_all
    from more_inject [OF e(2)] ih show ?thesis using \<open>ws = w # ws'\<close> e(1) by auto
  qed
qed

lemma members_prefix:
  assumes "\<And>v w x y. v \<in> snd ` set ms \<Longrightarrow> dumps v @ x = dumps w @ y \<Longrightarrow> ends x \<Longrightarrow> ends y \<Longrightarrow> v = w \<and> x = y"
    and "dumps_members ms @ 125 # x = dumps_members ns @ 125 # y"
  shows "ms = ns \<and> x = y"
  using assms
proof (induction ms arbitrary: ns)
  case Nil
  show ?case
  proof (cases ns)
    case (Cons n ns')
    then show ?thesis using Nil.prems(2) quote_not [of "fst n" _ x] by (cases n) (simp add: dumps_members_Cons, metis)
  qed (use Nil.prems(2) in simp)
next
  case (Cons m ms)
  obtain k v where m: "m = (k, v)" by (cases m)
  show ?case
  proof (cases ns)
    case Nil
    then show ?thesis using Cons.prems(2) quote_not [of k] by (simp add: m dumps_members_Cons)
  next
    case (Cons n ns')
    obtain l w where n: "n = (l, w)" by (cases n)
    have "quote_str k @ (58 # dumps v @ more ms (dumps_members ms) @ 125 # x)
        = quote_str l @ (58 # dumps w @ more ns' (dumps_members ns') @ 125 # y)"
      using Cons.prems(2) Cons by (simp add: m n dumps_members_Cons)
    from quote_prefix [OF this] have kl: "k = l"
      and d: "dumps v @ (more ms (dumps_members ms) @ 125 # x) = dumps w @ (more ns' (dumps_members ns') @ 125 # y)"
      by simp_all
    from Cons.prems(1) [OF _ d ends_more(2) ends_more(2)] have e: "v = w"
      "more ms (dumps_members ms) @ 125 # x = more ns' (dumps_members ns') @ 125 # y" by (simp_all add: m)
    have ih: "ms = ns' \<and> x = y" if "dumps_members ms @ 125 # x = dumps_members ns' @ 125 # y"
      by (rule Cons.IH [OF Cons.prems(1) that]) simp_all
    from more_inject [OF e(2)] ih show ?thesis using \<open>ns = n # ns'\<close> e(1) kl by (auto simp: m n)
  qed
qed

lemma dumps_prefix:
  "dumps v @ x = dumps w @ y \<Longrightarrow> ends x \<Longrightarrow> ends y \<Longrightarrow> v = w \<and> x = y"
proof (induction v arbitrary: w x y)
  case (JVInt i)
  obtain j where "w = JVInt j" using same_kind [OF JVInt(1)] by auto
  with JVInt show ?case using int_str_prefix [of i x j y] by simp
next
  case (JVStr s)
  obtain t where "w = JVStr t" using same_kind [OF JVStr(1)] by auto
  with JVStr show ?case using quote_prefix [of s x t y] by simp
next
  case (JVList vs)
  obtain ws where w: "w = JVList ws" using same_kind [OF JVList.prems(1)] by auto
  then have "dumps_items vs @ 93 # x = dumps_items ws @ 93 # y" using JVList.prems(1) by simp
  from items_prefix [OF JVList.IH this] show ?case by (simp add: w)
next
  case (JVObj ms)
  obtain ns where w: "w = JVObj ns" using same_kind [OF JVObj.prems(1)] by auto
  then have e: "dumps_members ms @ 125 # x = dumps_members ns @ 125 # y" using JVObj.prems(1) by simp
  have "v = w \<and> x = y" if "v \<in> snd ` set ms" "dumps v @ x = dumps w @ y" "ends x" "ends y" for v w x y
  proof -
    obtain k where k: "(k, v) \<in> set ms" using \<open>v \<in> snd ` set ms\<close> by force
    have "v \<in> Basic_BNFs.snds (k, v)" by simp
    from JVObj.IH [OF k this that(2-4)] show ?thesis .
  qed
  from members_prefix [OF this e] show ?case by (simp add: w)
qed

lemma dumps_inject: "dumps v = dumps w \<longleftrightarrow> v = w"
  using dumps_prefix [of v "[]" w "[]"] by auto

section \<open>The text of a value whose texts are proper\<close>

fun jtext :: "jval \<Rightarrow> bool" where
  "jtext (JVInt i) \<longleftrightarrow> True"
| "jtext (JVStr s) \<longleftrightarrow> is_text s"
| "jtext (JVList vs) \<longleftrightarrow> (\<forall>v \<in> set vs. jtext v)"
| "jtext (JVObj ms) \<longleftrightarrow> (\<forall>m \<in> set ms. is_text (fst m) \<and> jtext (snd m))"

lemma is_scalar_ascii [simp]: "n < 128 \<Longrightarrow> is_scalar n"
  by (simp add: is_scalar_def is_surrogate_def)

lemma is_text_esc: "is_scalar n \<Longrightarrow> is_text (esc_char n)"
  by (auto simp: esc_char_def hex_code_def)

lemma is_text_quote: "is_text s \<Longrightarrow> is_text (quote_str s)"
  using is_text_esc by (auto simp: quote_str_def is_text_def)

lemma is_text_items: "(\<And>v. v \<in> set vs \<Longrightarrow> is_text (dumps v)) \<Longrightarrow> is_text (dumps_items vs)"
  by (induction vs) (auto simp: dumps_items_Cons more_def)

lemma is_text_members:
  "(\<And>m. m \<in> set ms \<Longrightarrow> is_text (fst m) \<and> is_text (dumps (snd m))) \<Longrightarrow> is_text (dumps_members ms)"
proof (induction ms)
  case (Cons m ms)
  obtain k v where m: "m = (k, v)" by (cases m)
  have "is_text k \<and> is_text (dumps v)" using Cons.prems [of m] by (simp add: m)
  moreover have "is_text (dumps_members ms)" using Cons by simp
  ultimately show ?case by (simp add: m dumps_members_Cons more_def is_text_quote)
qed simp

lemma is_text_dumps: "jtext v \<Longrightarrow> is_text (dumps v)"
proof (induction v)
  case (JVList vs)
  then show ?case using is_text_items [of vs] by auto
next
  case (JVObj ms)
  have "is_text (dumps_members ms)"
  proof (rule is_text_members)
    fix m assume m: "m \<in> set ms"
    have "snd m \<in> Basic_BNFs.snds m" by (cases m) simp
    with JVObj m show "is_text (fst m) \<and> is_text (dumps (snd m))" by auto
  qed
  then show ?case by simp
qed (simp_all add: is_text_quote)

end
