(* ===== verification/Nip44.thy ===== *)
theory Nip44
  imports Keys Chacha20 Base64
begin

text \<open>
  \<open>channels/nostr/nip44.py\<close>: the encrypted payloads of NIP-44 version 2. The elliptic-curve
  operations are \<open>coincurve\<close>'s and arrive as a parameter; everything after the shared secret
  is computed. \<open>math.floor(math.log2(n))\<close> is the integer logarithm, which it is for every
  length a prefix can hold. The lemmas show the round trip, the bounds of the padding, that
  opening raises nothing but \<open>ValueError\<close>, and that nothing unauthenticated is opened.
\<close>

definition NIP44_VERSION :: byte where "NIP44_VERSION = 2"
definition MIN_PAYLOAD_CHARS :: nat where "MIN_PAYLOAD_CHARS = 132"
definition MIN_DECODED_BYTES :: nat where "MIN_DECODED_BYTES = 99"
definition EXTENDED_PREFIX_THRESHOLD :: int where "EXTENDED_PREFIX_THRESHOLD = 65536"
definition MAX_PLAINTEXT_SIZE :: int where "MAX_PLAINTEXT_SIZE = 0xFFFFFFFF"

definition nip44_extract :: "bytes \<Rightarrow> bytes \<Rightarrow> bytes" where
  "nip44_extract salt ikm = hmac_sha256 salt ikm"

text \<open>The loop of \<open>_hkdf_expand\<close> is that of \<open>match/keys.py\<close>, without the bound on the length.\<close>

definition nip44_expand :: "bytes \<Rightarrow> bytes \<Rightarrow> nat \<Rightarrow> exn + bytes" where
  "nip44_expand prk info len = hkdf_expand prk info len [] [] 1"

text \<open>
  What the module uses of \<open>coincurve\<close>: \<open>PrivateKey(b).secret\<close>, \<open>PublicKey(b)\<close>,
  \<open>point.multiply(s)\<close> and \<open>point.format(compressed=True)\<close>.
\<close>

record 'p curve =
  private_secret :: "bytes \<Rightarrow> exn + bytes"
  public_key :: "bytes \<Rightarrow> exn + 'p"
  multiply :: "'p \<Rightarrow> bytes \<Rightarrow> exn + 'p"
  format_compressed :: "'p \<Rightarrow> bytes"

definition get_conversation_key :: "'p curve \<Rightarrow> string \<Rightarrow> string \<Rightarrow> exn + bytes" where
  "get_conversation_key C privkey_hex pubkey_hex =
     rbind (rbind (fromhex privkey_hex) (private_secret C)) (\<lambda>secret.
     rbind (rbind (fromhex pubkey_hex) (\<lambda>x. public_key C (2 # x))) (\<lambda>point_b.
     rbind (multiply C point_b secret) (\<lambda>shared_point.
     Inr (nip44_extract (ascii ''nip44-v2'') (slice 1 33 (format_compressed C shared_point))))))"

definition get_message_keys :: "bytes \<Rightarrow> bytes \<Rightarrow> exn + (bytes \<times> bytes \<times> bytes)" where
  "get_message_keys conversation_key nonce =
     (if length conversation_key \<noteq> 32 then Inl (ValueError ''invalid conversation_key length'')
      else if length nonce \<noteq> 32 then Inl (ValueError ''invalid nonce length'')
      else rbind (nip44_expand conversation_key nonce 76) (\<lambda>keys.
        Inr (slice 0 32 keys, slice 32 44 keys, slice 44 76 keys)))"

fun ilog2 :: "nat \<Rightarrow> nat" where
  "ilog2 n = (if n < 2 then 0 else Suc (ilog2 (n div 2)))"

declare ilog2.simps [simp del]

definition calc_padded_len :: "nat \<Rightarrow> nat" where
  "calc_padded_len unpadded_len =
     (if unpadded_len \<le> 32 then 32
      else let next_power = 2 ^ (ilog2 (unpadded_len - 1) + 1);
               chunk = (if next_power \<le> 256 then 32 else next_power div 8)
           in chunk * ((unpadded_len - 1) div chunk + 1))"

definition nip44_pad :: "py_str \<Rightarrow> exn + bytes" where
  "nip44_pad plaintext =
     rbind (utf8_encode plaintext) (\<lambda>unpadded.
     let unpadded_len = int (length unpadded) in
     if unpadded_len < 1 \<or> unpadded_len > MAX_PLAINTEXT_SIZE
     then Inl (ValueError ''invalid plaintext length'')
     else let prefix = (if unpadded_len \<ge> EXTENDED_PREFIX_THRESHOLD
                        then [0, 0] @ to_be 4 unpadded_len else to_be 2 unpadded_len)
          in Inr (prefix @ unpadded @ zeros (calc_padded_len (length unpadded) - length unpadded)))"

definition nip44_unpad :: "bytes \<Rightarrow> exn + py_str" where
  "nip44_unpad padded =
     (let first_two = be_int (slice 0 2 padded) in
      rbind (if first_two = 0 then
               if length padded < 6 then Inl (ValueError ''invalid padding'')
               else let unpadded_len = be_int (slice 2 6 padded) in
                 if unpadded_len < EXTENDED_PREFIX_THRESHOLD then Inl (ValueError ''invalid padding'')
                 else Inr (nat unpadded_len, 6)
             else Inr (nat first_two, 2)) (\<lambda>(unpadded_len, prefix_len).
      let unpadded = slice prefix_len (prefix_len + unpadded_len) padded in
      if unpadded_len = 0 \<or> length unpadded \<noteq> unpadded_len
         \<or> length padded \<noteq> prefix_len + calc_padded_len unpadded_len
      then Inl (ValueError ''invalid padding'')
      else utf8_decode unpadded))"

definition hmac_aad :: "bytes \<Rightarrow> bytes \<Rightarrow> bytes \<Rightarrow> exn + bytes" where
  "hmac_aad key message aad =
     (if length aad \<noteq> 32 then Inl (ValueError ''AAD must be 32 bytes'')
      else Inr (hmac_sha256 key (aad @ message)))"

definition nip44_encrypt :: "py_str \<Rightarrow> bytes \<Rightarrow> bytes \<Rightarrow> exn + py_str" where
  "nip44_encrypt plaintext conversation_key nonce =
     rbind (get_message_keys conversation_key nonce) (\<lambda>(chacha_key, chacha_nonce, hmac_key).
     rbind (nip44_pad plaintext) (\<lambda>padded.
     rbind (chacha20_xor chacha_key chacha_nonce padded 0) (\<lambda>ciphertext.
     rbind (hmac_aad hmac_key ciphertext nonce) (\<lambda>mac.
     Inr (b64encode ([NIP44_VERSION] @ nonce @ ciphertext @ mac))))))"

definition decode_payload :: "py_str \<Rightarrow> exn + (bytes \<times> bytes \<times> bytes)" where
  "decode_payload payload =
     (if length payload = 0 \<or> hd payload = of_char CHR ''#''
      then Inl (ValueError ''unsupported encryption version'')
      else if length payload < MIN_PAYLOAD_CHARS then Inl (ValueError ''invalid payload size'')
      else rbind (b64decode payload) (\<lambda>data.
        if length data < MIN_DECODED_BYTES then Inl (ValueError ''invalid data size'')
        else if data ! 0 \<noteq> NIP44_VERSION then Inl (ValueError ''unsupported encryption version'')
        else Inr (slice 1 33 data, slice 33 (length data - 32) data, drop (length data - 32) data)))"

definition nip44_decrypt :: "py_str \<Rightarrow> bytes \<Rightarrow> exn + py_str" where
  "nip44_decrypt payload conversation_key =
     rbind (decode_payload payload) (\<lambda>(nonce, ciphertext, mac).
     rbind (get_message_keys conversation_key nonce) (\<lambda>(chacha_key, chacha_nonce, hmac_key).
     rbind (hmac_aad hmac_key ciphertext nonce) (\<lambda>calculated_mac.
     if calculated_mac \<noteq> mac then Inl (ValueError ''invalid MAC'')
     else rbind (chacha20_xor chacha_key chacha_nonce ciphertext 0) nip44_unpad)))"

section \<open>The message keys\<close>

lemma message_keys:
  assumes "length ck = 32" and "length nonce = 32"
  shows "\<exists>k n h. get_message_keys ck nonce = Inr (k, n, h) \<and> length k = 32 \<and> length n = 12 \<and> length h = 32"
proof -
  from hkdf_expand_from [of 76 0 ck nonce] obtain m where
    m: "76 \<le> 32 * m" "hkdf_expand ck nonce 76 [] [] 1 = Inr (take 76 (hkdf_stream ck nonce m))"
    by (auto simp: hkdf_stream_def)
  then have "length (take 76 (hkdf_stream ck nonce m)) = 76" by simp
  with m(2) assms show ?thesis by (simp add: get_message_keys_def nip44_expand_def)
qed

section \<open>Padding\<close>

lemma ilog2_bounds: "0 < n \<Longrightarrow> 2 ^ ilog2 n \<le> n \<and> n < 2 ^ (ilog2 n + 1)"
proof (induction n rule: ilog2.induct)
  case (1 n)
  show ?case
  proof (cases "n < 2")
    case True
    with 1 show ?thesis by (simp add: ilog2.simps)
  next
    case False
    have h: "n div 2 * 2 \<le> n" "n < (n div 2 + 1) * 2" by auto
    from 1 False have "2 ^ ilog2 (n div 2) \<le> n div 2" "n div 2 + 1 \<le> 2 ^ (ilog2 (n div 2) + 1)" by auto
    with h False show ?thesis by (subst (1 2) ilog2.simps) simp
  qed
qed

lemma round_up:
  assumes "0 < c" and "0 < n"
  shows "n \<le> c * ((n - 1) div c + 1) \<and> c * ((n - 1) div c + 1) < n + (c :: nat)"
proof -
  have "c * ((n - 1) div c) + (n - 1) mod c = n - 1" "(n - 1) mod c < c" using assms(1) by simp_all
  then show ?thesis using assms(2) by (simp only: distrib_left) linarith
qed

text \<open>The chunk is 32 or an eighth of the next power of two, and the padding rounds up to it.\<close>

lemma padded_len:
  assumes "32 < n"
  shows "\<exists>chunk. 32 dvd chunk \<and> 0 < chunk \<and> chunk \<le> max 32 (n div 4) \<and> chunk dvd calc_padded_len n
    \<and> n \<le> calc_padded_len n \<and> calc_padded_len n < n + chunk"
proof -
  let ?e = "ilog2 (n - 1)"
  let ?np = "2 ^ (?e + 1) :: nat"
  let ?c = "if ?np \<le> 256 then 32 else ?np div 8"
  have b: "2 ^ ?e \<le> n - 1" "n - 1 < ?np" using ilog2_bounds [of "n - 1"] assms by simp_all
  have c: "32 dvd ?c \<and> 0 < ?c \<and> ?c \<le> max 32 (n div 4)"
  proof (cases "?np \<le> 256")
    case True
    then show ?thesis by simp
  next
    case False
    have "?np \<le> 2 ^ 8" if "?e \<le> 7" using that by (intro power_increasing) simp_all
    with False have "7 < ?e" by fastforce
    then obtain k where k: "?e = Suc k + 7" by (metis less_iff_Suc_add add.commute add_Suc)
    have "?np = 8 * (32 * 2 ^ k * 2)" unfolding k by (simp add: power_add)
    then have "?np div 8 = 32 * 2 ^ k * 2" by (metis nonzero_mult_div_cancel_left zero_neq_numeral)
    moreover have "?np div 8 \<le> n div 4"
    proof -
      have "?np div 8 = 2 ^ ?e div 4" by simp
      also have "\<dots> \<le> (n - 1) div 4" using b(1) by (rule div_le_mono)
      also have "\<dots> \<le> n div 4" by (intro div_le_mono) simp
      finally show ?thesis .
    qed
    ultimately show ?thesis using False by simp
  qed
  have p: "calc_padded_len n = ?c * ((n - 1) div ?c + 1)" using assms by (simp add: calc_padded_len_def Let_def)
  have "n \<le> calc_padded_len n" "calc_padded_len n < n + ?c"
    using round_up [of ?c n] c assms unfolding p by simp_all
  moreover have "?c dvd calc_padded_len n" unfolding p by simp
  ultimately show ?thesis using c by blast
qed

lemma padded_len_ge: "n \<le> calc_padded_len n" "32 \<le> calc_padded_len n"
proof -
  show "n \<le> calc_padded_len n"
    using padded_len [of n] by (cases "n \<le> 32") (auto simp: calc_padded_len_def)
  then show "32 \<le> calc_padded_len n" by (cases "n \<le> 32") (auto simp: calc_padded_len_def)
qed

text \<open>What a valid text is padded to, and that it comes off again.\<close>

lemma pad_unpad:
  assumes "is_text s" and "utf8_encode s = Inr b" and "0 < length b" and "length b < 2 ^ 32"
  shows "\<exists>p. nip44_pad s = Inr p \<and> nip44_unpad p = Inr s \<and> 34 \<le> length p"
proof -
  let ?n = "length b"
  let ?z = "zeros (calc_padded_len ?n - ?n)"
  have d: "utf8_decode b = Inr s" using utf8_roundtrip [OF assms(1)] assms(2) by simp
  have l: "length (b @ ?z) = calc_padded_len ?n" using padded_len_ge(1) [of ?n] by simp
  show ?thesis
  proof (cases "int ?n < EXTENDED_PREFIX_THRESHOLD")
    case True
    let ?p = "to_be 2 (int ?n) @ b @ ?z"
    have "be_int (slice 0 2 ?p) = int ?n" using True by (simp add: slice_def EXTENDED_PREFIX_THRESHOLD_def)
    moreover have "slice 2 (2 + ?n) ?p = b" by (rule slice_append_exact) simp_all
    moreover have "length ?p = 2 + calc_padded_len ?n" using l by simp
    ultimately have "nip44_unpad ?p = Inr s" using assms(3) d by (simp add: nip44_unpad_def Let_def)
    moreover have "nip44_pad s = Inr ?p"
      using assms True by (simp add: nip44_pad_def Let_def MAX_PLAINTEXT_SIZE_def)
    ultimately show ?thesis using padded_len_ge(2) [of ?n] l by auto
  next
    case False
    let ?p = "([0, 0] @ to_be 4 (int ?n)) @ b @ ?z"
    have "be_int (slice 0 2 ?p) = 0" by (simp add: slice_def be_int_def)
    moreover have "slice 2 6 ?p = to_be 4 (int ?n)" by (simp add: slice_def)
    then have "be_int (slice 2 6 ?p) = int ?n" using assms(4) by simp
    moreover have "slice 6 (6 + ?n) ?p = b" by (rule slice_append_exact) simp_all
    moreover have "length ?p = 6 + calc_padded_len ?n" using l by simp
    ultimately have "nip44_unpad ?p = Inr s" using assms(3) d False by (simp add: nip44_unpad_def Let_def)
    moreover have "nip44_pad s = Inr ?p"
      using assms False by (simp add: nip44_pad_def Let_def MAX_PLAINTEXT_SIZE_def)
    ultimately show ?thesis using padded_len_ge(2) [of ?n] l by auto
  qed
qed

lemma payload_parts:
  assumes "length nonce = 32" and "length mac = 32"
  shows "slice 1 33 (v # nonce @ c @ mac) = nonce" "slice 33 (length (v # nonce @ c @ mac) - 32) (v # nonce @ c @ mac) = c"
    "drop (length (v # nonce @ c @ mac) - 32) (v # nonce @ c @ mac) = mac"
proof -
  have n: "length (v # nonce @ c @ mac) - 32 = Suc (32 + length c)" using assms by simp
  show "slice 1 33 (v # nonce @ c @ mac) = nonce" using assms(1) by (simp add: slice_def)
  show "slice 33 (length (v # nonce @ c @ mac) - 32) (v # nonce @ c @ mac) = c"
    unfolding n using assms(1) by (simp add: slice_def)
  show "drop (length (v # nonce @ c @ mac) - 32) (v # nonce @ c @ mac) = mac"
    unfolding n drop_Suc_Cons using assms(1) by simp
qed

section \<open>What opening can raise\<close>

lemma utf8_decode_errors: "value_errors (utf8_decode b)"
  by (induction b rule: utf8_decode.induct) (simp_all add: Let_def split: list.split)

lemma decode_payload_errors: "value_errors (decode_payload payload)"
proof -
  have "value_errors (b64decode payload)"
    using b64decode_raises [of payload] by (auto simp: value_errors_def)
  then show ?thesis by (auto simp: decode_payload_def intro!: value_errors_rbind)
qed

lemma message_keys_errors: "value_errors (get_message_keys ck nonce)"
  using message_keys [of ck nonce] by (cases "length ck = 32 \<and> length nonce = 32")
    (auto simp: get_message_keys_def value_errors_def)

lemma nip44_unpad_errors: "value_errors (nip44_unpad p)"
  by (auto simp: nip44_unpad_def Let_def utf8_decode_errors intro!: value_errors_rbind)

lemma nip44_decrypt_value_errors: "value_errors (nip44_decrypt payload ck)"
proof -
  have h: "value_errors (hmac_aad k m a)" for k m a by (simp add: hmac_aad_def)
  have c: "value_errors (chacha20_xor k n d i)" for k n d i by (simp add: chacha20_xor_def)
  show ?thesis unfolding nip44_decrypt_def
    by (intro value_errors_rbind decode_payload_errors)
       (auto intro!: value_errors_rbind message_keys_errors h c nip44_unpad_errors)
qed

lemma encrypt_decrypt_bytes:
  assumes "is_text s" and "utf8_encode s = Inr b" and "0 < length b" and "length b < 2 ^ 32"
    and "length ck = 32" and "length nonce = 32"
  shows "\<exists>payload. nip44_encrypt s ck nonce = Inr payload \<and> nip44_decrypt payload ck = Inr s"
proof -
  from pad_unpad [OF assms(1-4)] obtain p where
    p: "nip44_pad s = Inr p" "nip44_unpad p = Inr s" "34 \<le> length p" by blast
  obtain k n h where k: "get_message_keys ck nonce = Inr (k, n, h)" "length k = 32" "length n = 12"
    using message_keys [OF assms(5,6)] by blast
  from xor_chunks_involution [OF k(2,3), of 0 p] k(2,3) obtain c where
    c: "chacha20_xor k n p 0 = Inr c" "length c = length p" "chacha20_xor k n c 0 = Inr p"
    by (auto simp: chacha20_xor_def)
  let ?mac = "hmac_sha256 h (nonce @ c)"
  let ?data = "[NIP44_VERSION] @ nonce @ c @ ?mac"
  let ?payload = "b64encode ?data"
  have m: "hmac_aad h c nonce = Inr ?mac" using assms(6) by (simp add: hmac_aad_def)
  have e: "nip44_encrypt s ck nonce = Inr ?payload"
    by (simp add: nip44_encrypt_def k(1) p(1) c(1) m)
  have l: "99 \<le> length ?data" "length ?data = 65 + length c" using c(2) p(3) assms(6) by simp_all
  then have "132 \<le> length ?payload" unfolding length_b64encode by linarith
  moreover have "hd ?payload \<noteq> of_char CHR ''#''"
    using assms(6) by (cases nonce; cases "tl nonce") (simp_all add: NIP44_VERSION_def b64_char_def Let_def)
  moreover have "slice 1 33 ?data = nonce" "slice 33 (length ?data - 32) ?data = c" "drop (length ?data - 32) ?data = ?mac"
    using payload_parts [of nonce ?mac NIP44_VERSION c] assms(6) by simp_all
  ultimately have "decode_payload ?payload = Inr (nonce, c, ?mac)"
    using l(1) by (auto simp: decode_payload_def MIN_PAYLOAD_CHARS_def MIN_DECODED_BYTES_def Let_def)
  then have "nip44_decrypt ?payload ck = Inr s"
    by (simp add: nip44_decrypt_def k(1) m c(3) p(2))
  with e show ?thesis by blast
qed

lemma encrypt_decrypt:
  assumes "is_text s" and "s \<noteq> []" and "4 * length s < 2 ^ 32"
    and "length ck = 32" and "length nonce = 32"
  shows "\<exists>payload. nip44_encrypt s ck nonce = Inr payload \<and> nip44_decrypt payload ck = Inr s"
proof -
  obtain b where b: "utf8_encode s = Inr b" using utf8_roundtrip [OF assms(1)] by blast
  have "0 < length b" "length b < 2 ^ 32" using utf8_encode_length [OF b] assms(2,3) by (auto simp: Suc_le_eq)
  from encrypt_decrypt_bytes [OF assms(1) b this assms(4,5)] show ?thesis .
qed

lemma encrypted_opens:
  assumes "is_text s" and "nip44_encrypt s ck nonce = Inr payload"
  shows "nip44_decrypt payload ck = Inr s"
proof -
  obtain b where b: "utf8_encode s = Inr b" using utf8_roundtrip [OF assms(1)] by blast
  have l: "length ck = 32" "length nonce = 32" "0 < length b" "length b < 2 ^ 32"
    using assms(2) b by (auto simp: nip44_encrypt_def get_message_keys_def nip44_pad_def MAX_PLAINTEXT_SIZE_def
        rbind_Inr_iff Let_def split: if_splits)
  from encrypt_decrypt_bytes [OF assms(1) b l(3,4,1,2)] assms(2) show ?thesis by auto
qed

lemma encrypt_ascii: "nip44_encrypt s ck nonce = Inr payload \<Longrightarrow> c \<in> set payload \<Longrightarrow> c < 128"
  by (auto simp: nip44_encrypt_def rbind_Inr_iff b64encode_ascii simp del: b64encode.simps)

section \<open>Properties\<close>

text \<open>
  What is encrypted decrypts. Every text of up to \<open>2\<^sup>32 - 1\<close> bytes, the empty one apart,
  has a payload under any key and nonce of 32 bytes, and the key opens it.
\<close>

theorem nip44_roundtrip:
  assumes "is_text s" and "s \<noteq> []" and "4 * length s < 2 ^ 32"
    and "length ck = 32" and "length nonce = 32"
  shows "\<exists>payload. nip44_encrypt s ck nonce = Inr payload \<and> nip44_decrypt payload ck = Inr s"
  by (rule encrypt_decrypt [OF assms])

lemma nip44_roundtrip_witness:
  "\<exists>payload. nip44_encrypt [97] (zeros 32) (zeros 32) = Inr payload \<and> nip44_decrypt payload (zeros 32) = Inr [97]"
  using nip44_roundtrip [of "[97]" "zeros 32" "zeros 32"] by (simp add: is_text_def is_scalar_def is_surrogate_def)

text \<open>
  The padding hides the length within a quarter. The padded length is at least the
  length and 32, exceeds it by less than a quarter of it or less than 32, and is a multiple
  of 32.
\<close>

theorem padding_bounds:
  "n \<le> calc_padded_len n \<and> 32 dvd calc_padded_len n \<and> calc_padded_len n < n + max 32 (n div 4) + of_bool (n = 0)"
proof (cases "n \<le> 32")
  case True
  then show ?thesis by (auto simp: calc_padded_len_def)
next
  case False
  then show ?thesis using padded_len [of n] by (auto intro: dvd_trans)
qed

text \<open>
  Opening a payload returns a text or raises \<open>ValueError\<close>: whatever the payload and the
  key, no other exception escapes.
\<close>

theorem nip44_decrypt_errors:
  "case nip44_decrypt payload ck of Inr s \<Rightarrow> True | Inl e \<Rightarrow> is_value_error e"
  using nip44_decrypt_value_errors [of payload ck] by (simp add: value_errors_def split: sum.split)

text \<open>
  C33: Nothing unauthenticated is opened. A payload that opens is the base64 form of version 2,
  a nonce of 32 bytes, a ciphertext and the HMAC of nonce and ciphertext under the key that
  the conversation key and that nonce give.
\<close>

theorem nip44_opens_authentic:
  assumes "nip44_decrypt payload ck = Inr s"
  shows "\<exists>nonce c k n h. b64decode payload = Inr ([2] @ nonce @ c @ hmac_sha256 h (nonce @ c))
    \<and> length nonce = 32 \<and> get_message_keys ck nonce = Inr (k, n, h)"
proof -
  obtain nonce c mac k n h where d: "decode_payload payload = Inr (nonce, c, mac)"
      "get_message_keys ck nonce = Inr (k, n, h)" "hmac_aad h c nonce = Inr mac"
    using assms by (auto simp: nip44_decrypt_def rbind_Inr_iff split: if_splits)
  then obtain data where p: "b64decode payload = Inr data" "99 \<le> length data" "data ! 0 = 2"
      "nonce = slice 1 33 data" "c = slice 33 (length data - 32) data" "mac = drop (length data - 32) data"
    by (auto simp: decode_payload_def rbind_Inr_iff NIP44_VERSION_def MIN_DECODED_BYTES_def split: if_splits)
  have "data = slice 0 1 data @ slice 1 33 data @ slice 33 (length data - 32) data @ drop (length data - 32) data"
  proof -
    have "slice 33 (length data - 32) data @ drop (length data - 32) data = drop 33 data"
      using slice_concat [of 33 "length data - 32" "length data" data] p(2) by (simp add: slice_def)
    moreover have "slice 0 1 data @ slice 1 33 data = take 33 data"
      using slice_concat [of 0 1 33 data] by (simp add: slice_def)
    ultimately show ?thesis by (metis append.assoc append_take_drop_id)
  qed
  moreover have "slice 0 1 data = [2]" using p(2,3) by (cases data) (simp_all add: slice_def)
  moreover have "mac = hmac_sha256 h (nonce @ c)" "length nonce = 32"
    using d(3) by (auto simp: hmac_aad_def split: if_splits)
  ultimately show ?thesis using p d(2) by metis
qed

lemma nip44_opens_authentic_witness:
  "\<exists>payload nonce c h. nip44_decrypt payload (zeros 32) = Inr [97]
     \<and> b64decode payload = Inr ([2] @ nonce @ c @ hmac_sha256 h (nonce @ c))"
proof -
  obtain payload where p: "nip44_decrypt payload (zeros 32) = Inr [97]"
    using encrypt_decrypt [of "[97]" "zeros 32" "zeros 32"] by (auto simp: is_text_def is_scalar_def is_surrogate_def)
  with nip44_opens_authentic [OF p] show ?thesis by blast
qed

end
