(* ===== verification/Giftwrap.thy ===== *)
theory Giftwrap
  imports Json_Text Nip44
begin

text \<open>
  \<open>channels/nostr/nip01.py\<close> and \<open>channels/nostr/giftwrap.py\<close>: the identity of an event, its
  signature, and the three layers of a wrapped message. The clock, the random numbers and
  \<open>coincurve\<close> are arguments. The lemmas show that an id is the hash of one event only and that
  the recipient, and with his key alone, opens both layers and finds the message.
\<close>

section \<open>Events and signatures\<close>

text \<open>
  What the modules use of \<open>coincurve\<close> besides the curve: the x-only public key of a secret,
  \<open>sign_schnorr(digest, aux_randomness)\<close>, \<open>PublicKeyXOnly(b)\<close> and its \<open>verify\<close>.
\<close>

record 'x signer =
  xonly_of_secret :: "bytes \<Rightarrow> bytes"
  sign_schnorr :: "bytes \<Rightarrow> bytes \<Rightarrow> bytes \<Rightarrow> exn + bytes"
  xonly_key :: "bytes \<Rightarrow> exn + 'x"
  xonly_verify :: "'x \<Rightarrow> bytes \<Rightarrow> bytes \<Rightarrow> exn + bool"

record event =
  ev_id :: string
  ev_pubkey :: string
  ev_created_at :: int
  ev_kind :: int
  ev_tags :: "py_str list list"
  ev_content :: py_str
  ev_sig :: "string option"

definition tags_json :: "py_str list list \<Rightarrow> jval" where
  "tags_json tags = JVList (map (\<lambda>tag. JVList (map JVStr tag)) tags)"

definition serialize_for_id :: "string \<Rightarrow> int \<Rightarrow> int \<Rightarrow> py_str list list \<Rightarrow> py_str \<Rightarrow> exn + bytes" where
  "serialize_for_id pubkey_hex created_at kind tags content =
     utf8_encode (dumps (JVList [JVInt 0, JVStr (lit pubkey_hex), JVInt created_at, JVInt kind,
                                 tags_json tags, JVStr content]))"

definition event_id :: "string \<Rightarrow> int \<Rightarrow> int \<Rightarrow> py_str list list \<Rightarrow> py_str \<Rightarrow> exn + string" where
  "event_id pubkey_hex created_at kind tags content =
     rbind (serialize_for_id pubkey_hex created_at kind tags content) (\<lambda>b. Inr (hex (sha256 b)))"

definition private_key :: "'p curve \<Rightarrow> string \<Rightarrow> exn + bytes" where
  "private_key C privkey_hex = rbind (fromhex privkey_hex) (private_secret C)"

definition pubkey_hex_from_privkey :: "'p curve \<Rightarrow> 'x signer \<Rightarrow> string \<Rightarrow> exn + string" where
  "pubkey_hex_from_privkey C S privkey_hex =
     rbind (private_key C privkey_hex) (\<lambda>secret. Inr (hex (xonly_of_secret S secret)))"

definition sign_event_id :: "'p curve \<Rightarrow> 'x signer \<Rightarrow> string \<Rightarrow> string \<Rightarrow> bytes \<Rightarrow> exn + string" where
  "sign_event_id C S privkey_hex event_id_hex aux =
     rbind (private_key C privkey_hex) (\<lambda>secret.
     rbind (fromhex event_id_hex) (\<lambda>digest.
     rbind (sign_schnorr S secret digest aux) (\<lambda>sig. Inr (hex sig))))"

definition verify_event_sig :: "'x signer \<Rightarrow> string \<Rightarrow> string \<Rightarrow> string \<Rightarrow> exn + bool" where
  "verify_event_sig S pubkey_hex event_id_hex sig_hex =
     (case rbind (rbind (fromhex pubkey_hex) (xonly_key S)) (\<lambda>xonly.
           rbind (fromhex sig_hex) (\<lambda>sig.
           rbind (fromhex event_id_hex) (\<lambda>digest. xonly_verify S xonly sig digest))) of
        Inl e \<Rightarrow> if is_value_error e then Inr False else Inl e
      | Inr ok \<Rightarrow> Inr ok)"

section \<open>The three layers\<close>

definition TWO_DAYS_SECONDS :: int where "TWO_DAYS_SECONDS = 2 * 24 * 60 * 60"

text \<open>\<open>back\<close> is what \<open>randbelow(_TWO_DAYS_SECONDS + 1)\<close> drew.\<close>

definition random_past_timestamp :: "int \<Rightarrow> int \<Rightarrow> int" where
  "random_past_timestamp now back = now - back"

definition event_json :: "event \<Rightarrow> jval" where
  "event_json ev = JVObj ([(lit ''id'', JVStr (lit (ev_id ev))), (lit ''pubkey'', JVStr (lit (ev_pubkey ev))),
     (lit ''created_at'', JVInt (ev_created_at ev)), (lit ''kind'', JVInt (ev_kind ev)),
     (lit ''tags'', tags_json (ev_tags ev)), (lit ''content'', JVStr (ev_content ev))]
     @ (case ev_sig ev of None \<Rightarrow> [] | Some sig \<Rightarrow> [(lit ''sig'', JVStr (lit sig))]))"

definition canonical_event_json :: "event \<Rightarrow> py_str" where
  "canonical_event_json ev = dumps (event_json ev)"

text \<open>The random draws of one layer: how far back its time stamp lies, a nonce, and the signer's randomness.\<close>

record draws =
  dr_back :: int
  dr_nonce :: bytes
  dr_aux :: bytes

definition make_rumor :: "'p curve \<Rightarrow> 'x signer \<Rightarrow> int \<Rightarrow> string \<Rightarrow> string \<Rightarrow> py_str \<Rightarrow> int \<Rightarrow> exn + event" where
  "make_rumor C S now sender_privkey_hex recipient_pubkey_hex content kind =
     rbind (pubkey_hex_from_privkey C S sender_privkey_hex) (\<lambda>pubkey.
     let tags = [[lit ''p'', lit recipient_pubkey_hex]] in
     rbind (event_id pubkey now kind tags content) (\<lambda>rid.
     Inr \<lparr>ev_id = rid, ev_pubkey = pubkey, ev_created_at = now, ev_kind = kind, ev_tags = tags,
          ev_content = content, ev_sig = None\<rparr>))"

definition make_seal :: "'p curve \<Rightarrow> 'x signer \<Rightarrow> int \<Rightarrow> draws \<Rightarrow> event \<Rightarrow> string \<Rightarrow> string \<Rightarrow> exn + event" where
  "make_seal C S now d rumor sender_privkey_hex recipient_pubkey_hex =
     rbind (get_conversation_key C sender_privkey_hex recipient_pubkey_hex) (\<lambda>conversation_key.
     rbind (nip44_encrypt (canonical_event_json rumor) conversation_key (dr_nonce d)) (\<lambda>content.
     rbind (pubkey_hex_from_privkey C S sender_privkey_hex) (\<lambda>pubkey.
     let created_at = random_past_timestamp now (dr_back d) in
     rbind (event_id pubkey created_at 13 [] content) (\<lambda>seal_id.
     rbind (sign_event_id C S sender_privkey_hex seal_id (dr_aux d)) (\<lambda>sig.
     Inr \<lparr>ev_id = seal_id, ev_pubkey = pubkey, ev_created_at = created_at, ev_kind = 13, ev_tags = [],
          ev_content = content, ev_sig = Some sig\<rparr>)))))"

definition make_wrap :: "'p curve \<Rightarrow> 'x signer \<Rightarrow> int \<Rightarrow> draws \<Rightarrow> bytes \<Rightarrow> event \<Rightarrow> string \<Rightarrow> exn + event" where
  "make_wrap C S now d ephemeral seal recipient_pubkey_hex =
     (let ephemeral_privkey_hex = hex ephemeral in
      rbind (get_conversation_key C ephemeral_privkey_hex recipient_pubkey_hex) (\<lambda>conversation_key.
      rbind (nip44_encrypt (canonical_event_json seal) conversation_key (dr_nonce d)) (\<lambda>content.
      rbind (pubkey_hex_from_privkey C S ephemeral_privkey_hex) (\<lambda>pubkey.
      let created_at = random_past_timestamp now (dr_back d);
          tags = [[lit ''p'', lit recipient_pubkey_hex]] in
      rbind (event_id pubkey created_at 1059 tags content) (\<lambda>wrap_id.
      rbind (sign_event_id C S ephemeral_privkey_hex wrap_id (dr_aux d)) (\<lambda>sig.
      Inr \<lparr>ev_id = wrap_id, ev_pubkey = pubkey, ev_created_at = created_at, ev_kind = 1059, ev_tags = tags,
           ev_content = content, ev_sig = Some sig\<rparr>))))))"

section \<open>Lemmas\<close>

lemma map_JVStr [simp]: "map JVStr s = map JVStr t \<longleftrightarrow> s = t"
  by (simp add: inj_map_eq_map inj_def)

lemma tags_json_inject [simp]: "tags_json s = tags_json t \<longleftrightarrow> s = t"
  by (simp add: tags_json_def inj_map_eq_map inj_def)

definition tags_text :: "py_str list list \<Rightarrow> bool" where
  "tags_text tags \<longleftrightarrow> (\<forall>tag \<in> set tags. \<forall>s \<in> set tag. is_text s)"

lemma jtext_tags [simp]: "jtext (tags_json tags) \<longleftrightarrow> tags_text tags"
  by (simp add: tags_json_def tags_text_def)

lemma canonical_text:
  "tags_text (ev_tags ev) \<Longrightarrow> is_text (ev_content ev) \<Longrightarrow> is_text (canonical_event_json ev)"
  unfolding canonical_event_json_def event_json_def
  by (rule is_text_dumps) (auto split: option.split)

lemma event_json_inject: "event_json e = event_json f \<Longrightarrow> e = f"
  by (cases e; cases f) (auto simp: event_json_def split: option.splits)

lemma canonical_inject: "canonical_event_json e = canonical_event_json f \<longleftrightarrow> e = f"
  using event_json_inject by (auto simp: canonical_event_json_def dumps_inject)

text \<open>
  What \<open>coincurve\<close> documents: an x-only key of a secret has 32 bytes and is a point; the two
  secrets of two parties reach the same x coordinate from each other's keys; a signature has
  64 bytes and verifies.
\<close>

definition ecdh_agrees :: "'p curve \<Rightarrow> 'x signer \<Rightarrow> bytes \<Rightarrow> bytes \<Rightarrow> bool" where
  "ecdh_agrees C S s t \<longleftrightarrow>
     (\<exists>P Q X Y. public_key C (2 # xonly_of_secret S s) = Inr P \<and> public_key C (2 # xonly_of_secret S t) = Inr Q
        \<and> multiply C Q s = Inr X \<and> multiply C P t = Inr Y
        \<and> slice 1 33 (format_compressed C X) = slice 1 33 (format_compressed C Y))"

definition schnorr_verifies :: "'x signer \<Rightarrow> bytes \<Rightarrow> bytes \<Rightarrow> bytes \<Rightarrow> bool" where
  "schnorr_verifies S s digest aux \<longleftrightarrow>
     (\<exists>sig x. sign_schnorr S s digest aux = Inr sig \<and> length sig = 64
        \<and> xonly_key S (xonly_of_secret S s) = Inr x \<and> xonly_verify S x sig digest = Inr True)"

definition coincurve_laws :: "'p curve \<Rightarrow> 'x signer \<Rightarrow> bool" where
  "coincurve_laws C S \<longleftrightarrow>
     (\<forall>k s. private_secret C k = Inr s \<longrightarrow> length (xonly_of_secret S s) = 32
        \<and> (\<forall>l t. private_secret C l = Inr t \<longrightarrow> ecdh_agrees C S s t)
        \<and> (\<forall>digest aux. length digest = 32 \<longrightarrow> length aux = 32 \<longrightarrow> schnorr_verifies S s digest aux))"

lemma conversation_key_agrees:
  assumes "coincurve_laws C S" and "pubkey_hex_from_privkey C S a = Inr A" and "pubkey_hex_from_privkey C S b = Inr B"
  shows "\<exists>ck. get_conversation_key C a B = Inr ck \<and> get_conversation_key C b A = Inr ck \<and> length ck = 32"
proof -
  obtain k s where k: "fromhex a = Inr k" "private_secret C k = Inr s" "A = hex (xonly_of_secret S s)"
    using assms(2) by (auto simp: pubkey_hex_from_privkey_def private_key_def rbind_Inr_iff)
  obtain l t where l: "fromhex b = Inr l" "private_secret C l = Inr t" "B = hex (xonly_of_secret S t)"
    using assms(3) by (auto simp: pubkey_hex_from_privkey_def private_key_def rbind_Inr_iff)
  have "ecdh_agrees C S s t" using assms(1) k(2) l(2) unfolding coincurve_laws_def by blast
  then obtain P Q X Y where "public_key C (2 # xonly_of_secret S s) = Inr P" "public_key C (2 # xonly_of_secret S t) = Inr Q"
    "multiply C Q s = Inr X" "multiply C P t = Inr Y"
    "slice 1 33 (format_compressed C X) = slice 1 33 (format_compressed C Y)"
    unfolding ecdh_agrees_def by auto
  then show ?thesis by (simp add: get_conversation_key_def k l nip44_extract_def)
qed

lemma pubkey_length: "coincurve_laws C S \<Longrightarrow> pubkey_hex_from_privkey C S a = Inr A \<Longrightarrow> length A = 64"
  by (auto simp: coincurve_laws_def pubkey_hex_from_privkey_def private_key_def rbind_Inr_iff)

lemma signature_verifies:
  assumes "coincurve_laws C S" and "pubkey_hex_from_privkey C S a = Inr A" and "length digest = 32" and "length aux = 32"
  shows "\<exists>sig. sign_event_id C S a (hex digest) aux = Inr sig \<and> length sig = 128 \<and> verify_event_sig S A (hex digest) sig = Inr True"
proof -
  obtain k s where k: "fromhex a = Inr k" "private_secret C k = Inr s" "A = hex (xonly_of_secret S s)"
    using assms(2) by (auto simp: pubkey_hex_from_privkey_def private_key_def rbind_Inr_iff)
  have "schnorr_verifies S s digest aux" using assms k(2) unfolding coincurve_laws_def by blast
  then show ?thesis
    by (auto simp: schnorr_verifies_def sign_event_id_def verify_event_sig_def private_key_def k)
qed

lemma make_rumor_Inr:
  "make_rumor C S now sender recipient content kind = Inr rumor \<Longrightarrow>
     ev_tags rumor = [[lit ''p'', lit recipient]] \<and> ev_content rumor = content \<and> ev_kind rumor = kind
     \<and> pubkey_hex_from_privkey C S sender = Inr (ev_pubkey rumor)"
  by (auto simp: make_rumor_def rbind_Inr_iff Let_def)

lemma make_seal_Inr:
  assumes "make_seal C S now d rumor sender recipient = Inr seal"
  obtains ck where "get_conversation_key C sender recipient = Inr ck"
    and "nip44_encrypt (canonical_event_json rumor) ck (dr_nonce d) = Inr (ev_content seal)"
    and "pubkey_hex_from_privkey C S sender = Inr (ev_pubkey seal)" and "ev_tags seal = []"
  using assms by (auto simp: make_seal_def rbind_Inr_iff Let_def)

lemma make_wrap_Inr:
  assumes "make_wrap C S now d ephemeral seal recipient = Inr wrap"
  obtains ck where "get_conversation_key C (hex ephemeral) recipient = Inr ck"
    and "nip44_encrypt (canonical_event_json seal) ck (dr_nonce d) = Inr (ev_content wrap)"
    and "pubkey_hex_from_privkey C S (hex ephemeral) = Inr (ev_pubkey wrap)"
  using assms by (auto simp: make_wrap_def rbind_Inr_iff Let_def simp del: fromhex_hex)

lemma encrypted_text: "nip44_encrypt s ck nonce = Inr payload \<Longrightarrow> is_text payload"
  using encrypt_ascii by (auto simp: is_text_def)

section \<open>The size of a layer\<close>

lemma pad_length:
  assumes "utf8_encode s = Inr b" and "nip44_pad s = Inr p"
  shows "length p \<le> 39 + length b + length b div 4"
proof -
  have "calc_padded_len (length b) \<le> 33 + length b + length b div 4"
  proof (cases "length b \<le> 32")
    case True
    then show ?thesis by (simp add: calc_padded_len_def)
  next
    case False
    then obtain chunk where "chunk \<le> max 32 (length b div 4)" "calc_padded_len (length b) < length b + chunk"
      using padded_len [of "length b"] by auto
    then show ?thesis by linarith
  qed
  then show ?thesis using assms padded_len_ge(1) [of "length b"]
    by (auto simp: nip44_pad_def Let_def split: if_splits)
qed

lemma encrypt_returns:
  assumes "is_text s" and "s \<noteq> []" and "4 * length s < 2 ^ 32" and "length ck = 32" and "length nonce = 32"
  shows "\<exists>payload. nip44_encrypt s ck nonce = Inr payload \<and> length payload \<le> 10 * length s + 212"
proof -
  obtain payload where e: "nip44_encrypt s ck nonce = Inr payload" using encrypt_decrypt [OF assms] by blast
  obtain b where b: "utf8_encode s = Inr b" using utf8_roundtrip [OF assms(1)] by blast
  obtain k n h where k: "get_message_keys ck nonce = Inr (k, n, h)" "length k = 32" "length n = 12"
    using message_keys [OF assms(4,5)] by blast
  obtain p where p: "nip44_pad s = Inr p" using e by (auto simp: nip44_encrypt_def k(1) rbind_Inr_iff)
  obtain c where c: "chacha20_xor k n p 0 = Inr c" "length c = length p" using chacha20_xor_returns [OF k(2,3)] .
  have "length payload = 4 * ((65 + length c + 2) div 3)"
    using e assms(5) by (auto simp: nip44_encrypt_def k(1) p c(1) rbind_Inr_iff hmac_aad_def length_b64encode
        simp del: b64encode.simps split: if_splits)
  moreover define q where "q = (65 + length c + 2) div 3"
  moreover have "3 * q \<le> 67 + length p" unfolding q_def c(2) by simp
  ultimately have "length payload \<le> 134 + 2 * length p" by simp
  define r where "r = length b div 4"
  have "4 * r \<le> length b" unfolding r_def by simp
  with \<open>length payload \<le> _\<close> have "length payload \<le> 10 * length s + 212"
    using pad_length [OF b p, folded r_def] conjunct2 [OF utf8_encode_length [OF b]] by linarith
  with e show ?thesis by blast
qed

lemma quote_length: "length (quote_str s) \<le> 6 * length s + 2"
proof -
  have "length (concat (map esc_char s)) \<le> 6 * length s"
  proof (induction s)
    case (Cons c s)
    then show ?case by (simp add: esc_char_def)
  qed simp
  then show ?thesis by (simp add: quote_str_def)
qed

lemma nat_str_length: "n < 10 ^ k \<Longrightarrow> length (nat_str n) \<le> max 1 k"
proof (induction k arbitrary: n)
  case 0
  then show ?case by (simp add: nat_str.simps)
next
  case (Suc k)
  then have "n div 10 < 10 ^ k" by (simp add: less_mult_imp_div_less)
  from Suc.IH [OF this] have "length (nat_str (n div 10)) \<le> max 1 k" .
  moreover have "length (nat_str (n div 10)) \<le> Suc k" if "\<not> n < 10" using calculation Suc.prems that by (cases k) auto
  ultimately show ?case by (cases "k = 0") (use Suc.prems in \<open>auto simp: nat_str.simps [of n]\<close>)
qed

lemma length_lit [simp]: "length (lit s) = length s"
  by (simp add: lit_def)

lemma int_str_length: "\<bar>i\<bar> < 10 ^ 20 \<Longrightarrow> length (lit (int_str i)) \<le> 21"
  using nat_str_length [of "nat \<bar>i\<bar>" 20] by (auto simp: lit_int_str nat_less_iff)

definition handy :: "event \<Rightarrow> bool" where
  "handy ev \<longleftrightarrow> length (ev_id ev) = 64 \<and> length (ev_pubkey ev) = 64 \<and> \<bar>ev_created_at ev\<bar> < 10 ^ 20
     \<and> \<bar>ev_kind ev\<bar> < 10 ^ 20 \<and> (ev_tags ev = [] \<or> (\<exists>r. ev_tags ev = [[lit ''p'', r]] \<and> length r = 64))
     \<and> (\<forall>sig. ev_sig ev = Some sig \<longrightarrow> length sig = 128)"

lemma canonical_length:
  assumes "handy ev"
  shows "length (canonical_event_json ev) \<le> 6 * length (ev_content ev) + 3500"
proof -
  note q = quote_length [of "lit ''id''"] quote_length [of "lit ''pubkey''"] quote_length [of "lit ''created_at''"]
    quote_length [of "lit ''kind''"] quote_length [of "lit ''tags''"] quote_length [of "lit ''content''"]
    quote_length [of "lit ''sig''"] quote_length [of "lit (ev_id ev)"] quote_length [of "lit (ev_pubkey ev)"]
    quote_length [of "ev_content ev"] int_str_length [of "ev_created_at ev"] int_str_length [of "ev_kind ev"]
  have t: "length (dumps (tags_json (ev_tags ev))) \<le> 450"
    using assms quote_length [of "lit ''p''"] quote_length [of "hd (tl (hd (ev_tags ev)))"]
    by (auto simp: handy_def tags_json_def)
  have g: "length (quote_str (lit sig)) \<le> 770" if "ev_sig ev = Some sig" for sig
    using assms that quote_length [of "lit sig"] by (auto simp: handy_def)
  show ?thesis
    using assms q t g by (cases "ev_sig ev") (auto simp: handy_def canonical_event_json_def event_json_def)
qed

lemma handy_encrypts:
  assumes "handy ev" and "tags_text (ev_tags ev)" and "is_text (ev_content ev)"
    and "length (ev_content ev) \<le> 2 ^ 27" and "length ck = 32" and "length nonce = 32"
  shows "\<exists>payload. nip44_encrypt (canonical_event_json ev) ck nonce = Inr payload
    \<and> length payload \<le> 60 * length (ev_content ev) + 35212"
proof -
  have "canonical_event_json ev \<noteq> []" by (simp add: canonical_event_json_def event_json_def)
  moreover have "4 * length (canonical_event_json ev) < 2 ^ 32" using canonical_length [OF assms(1)] assms(4) by simp
  ultimately show ?thesis
    using encrypt_returns [OF canonical_text [OF assms(2,3)] _ _ assms(5,6)] canonical_length [OF assms(1)] by fastforce
qed

section \<open>Properties\<close>

text \<open>
  C32: An id is of one event. Two sets of fields that serialise to the same bytes, which are
  what is hashed, are the same, so a signature over an id is over these fields and no others.
\<close>

theorem event_id_commits:
  assumes "serialize_for_id p t k tags x = Inr b" and "serialize_for_id p' t' k' tags' x' = Inr b"
    and "tags_text tags" and "is_text x" and "tags_text tags'" and "is_text x'"
  shows "p = p' \<and> t = t' \<and> k = k' \<and> tags = tags' \<and> x = x'"
proof -
  let ?v = "\<lambda>p t k tags x. JVList [JVInt 0, JVStr (lit p), JVInt t, JVInt k, tags_json tags, JVStr x]"
  have "is_text (dumps (?v p t k tags x))" "is_text (dumps (?v p' t' k' tags' x'))"
    using assms(3-6) by (simp_all add: is_text_dumps del: dumps.simps)
  from utf8_inject [OF this] assms(1,2) have "dumps (?v p t k tags x) = dumps (?v p' t' k' tags' x')"
    by (simp add: serialize_for_id_def del: dumps.simps)
  then show ?thesis unfolding dumps_inject by simp
qed

lemma event_id_commits_witness:
  "\<not> (\<exists>b. serialize_for_id ''ab'' 1 14 [] [34] = Inr b \<and> serialize_for_id ''ab'' 1 14 [] [92, 34] = Inr b)"
  using event_id_commits [of "''ab''" 1 14 "[]" "[34]" _ "''ab''" 1 14 "[]" "[92, 34]"]
  by (auto simp: tags_text_def)

section \<open>The layers\<close>

lemma event_id_returns:
  assumes "tags_text tags" and "is_text x"
  shows "\<exists>digest. event_id p t k tags x = Inr (hex digest) \<and> length digest = 32"
proof -
  have "is_text (dumps (JVList [JVInt 0, JVStr (lit p), JVInt t, JVInt k, tags_json tags, JVStr x]))"
    using assms by (simp add: is_text_dumps del: dumps.simps)
  from utf8_roundtrip [OF this] show ?thesis
    by (auto simp: event_id_def serialize_for_id_def simp del: dumps.simps)
qed

lemma rumor_returns:
  assumes "coincurve_laws C S" and "pubkey_hex_from_privkey C S sender = Inr A" and "length recipient = 64"
    and "is_text content" and "\<bar>now\<bar> < 10 ^ 20"
  shows "\<exists>rumor. make_rumor C S now sender recipient content 14 = Inr rumor \<and> handy rumor
    \<and> tags_text (ev_tags rumor) \<and> ev_content rumor = content"
proof -
  have "tags_text [[lit ''p'', lit recipient]]" by (simp add: tags_text_def)
  from event_id_returns [OF this assms(4), of A now 14] pubkey_length [OF assms(1,2)] assms(2,3,5)
  show ?thesis by (auto simp: make_rumor_def handy_def tags_text_def)
qed

lemma seal_returns:
  assumes "coincurve_laws C S" and "pubkey_hex_from_privkey C S sender = Inr A"
    and "get_conversation_key C sender recipient = Inr ck" and "length ck = 32"
    and "handy rumor" and "tags_text (ev_tags rumor)" and "is_text (ev_content rumor)" and "length (ev_content rumor) \<le> 2 ^ 20"
    and "length (dr_nonce d) = 32" and "length (dr_aux d) = 32" and "\<bar>now - dr_back d\<bar> < 10 ^ 20"
  shows "\<exists>seal. make_seal C S now d rumor sender recipient = Inr seal \<and> handy seal \<and> ev_tags seal = []
    \<and> is_text (ev_content seal) \<and> length (ev_content seal) \<le> 2 ^ 27 \<and> ev_pubkey seal = A
    \<and> rbind (Inr ck) (nip44_decrypt (ev_content seal)) = Inr (canonical_event_json rumor)
    \<and> (\<exists>sig. ev_sig seal = Some sig \<and> verify_event_sig S A (ev_id seal) sig = Inr True)"
proof -
  obtain payload where p: "nip44_encrypt (canonical_event_json rumor) ck (dr_nonce d) = Inr payload"
    "length payload \<le> 60 * length (ev_content rumor) + 35212"
    using handy_encrypts [OF assms(5-7) _ assms(4,9)] assms(8) by auto
  have t: "is_text payload" using p(1) by (rule encrypted_text)
  obtain digest where i: "event_id A (now - dr_back d) 13 [] payload = Inr (hex digest)" "length digest = 32"
    using event_id_returns [of "[]" payload A "now - dr_back d" 13] t by (auto simp: tags_text_def)
  obtain sig where s: "sign_event_id C S sender (hex digest) (dr_aux d) = Inr sig" "length sig = 128"
    "verify_event_sig S A (hex digest) sig = Inr True"
    using signature_verifies [OF assms(1,2) i(2) assms(10)] by auto
  have "nip44_decrypt payload ck = Inr (canonical_event_json rumor)"
    using encrypted_opens [OF canonical_text [OF assms(6,7)] p(1)] .
  then show ?thesis
    using p t i s assms(2,3,8,11) pubkey_length [OF assms(1,2)]
    by (simp add: make_seal_def random_past_timestamp_def handy_def)
qed

lemma wrap_returns:
  assumes "coincurve_laws C S" and "pubkey_hex_from_privkey C S (hex ephemeral) = Inr E"
    and "get_conversation_key C (hex ephemeral) recipient = Inr ck" and "length ck = 32" and "length recipient = 64"
    and "handy seal" and "tags_text (ev_tags seal)" and "is_text (ev_content seal)" and "length (ev_content seal) \<le> 2 ^ 27"
    and "length (dr_nonce d) = 32" and "length (dr_aux d) = 32"
  shows "\<exists>wrap. make_wrap C S now d ephemeral seal recipient = Inr wrap \<and> ev_pubkey wrap = E
    \<and> rbind (Inr ck) (nip44_decrypt (ev_content wrap)) = Inr (canonical_event_json seal)
    \<and> (\<exists>sig. ev_sig wrap = Some sig \<and> verify_event_sig S E (ev_id wrap) sig = Inr True)"
proof -
  obtain payload where p: "nip44_encrypt (canonical_event_json seal) ck (dr_nonce d) = Inr payload"
    using handy_encrypts [OF assms(6-9,4,10)] by auto
  have t: "is_text payload" using p(1) by (rule encrypted_text)
  have "tags_text [[lit ''p'', lit recipient]]" by (simp add: tags_text_def)
  from event_id_returns [OF this t] obtain digest where
    i: "event_id E (now - dr_back d) 1059 [[lit ''p'', lit recipient]] payload = Inr (hex digest)" "length digest = 32"
    by blast
  obtain sig where s: "sign_event_id C S (hex ephemeral) (hex digest) (dr_aux d) = Inr sig"
    "verify_event_sig S E (hex digest) sig = Inr True"
    using signature_verifies [OF assms(1,2) i(2) assms(11)] by auto
  have "nip44_decrypt payload ck = Inr (canonical_event_json seal)"
    using encrypted_opens [OF canonical_text [OF assms(7,8)] p(1)] .
  then show ?thesis
    using p i s assms(2,3) by (simp add: make_wrap_def Let_def random_past_timestamp_def)
qed

lemma gift_wrap_chain:
  assumes "coincurve_laws C S" and "pubkey_hex_from_privkey C S reader = Inr recipient"
    and "pubkey_hex_from_privkey C S sender = Inr A" and "pubkey_hex_from_privkey C S (hex ephemeral) = Inr E"
    and "is_text content" and "length content \<le> 2 ^ 20" and "\<bar>now\<bar> < 10 ^ 20" and "\<bar>now' - dr_back d\<bar> < 10 ^ 20"
    and "length (dr_nonce d) = 32" and "length (dr_aux d) = 32" and "length (dr_nonce d') = 32" and "length (dr_aux d') = 32"
  shows "\<exists>rumor seal wrap. make_rumor C S now sender recipient content 14 = Inr rumor \<and> ev_content rumor = content
    \<and> make_seal C S now' d rumor sender recipient = Inr seal \<and> make_wrap C S now'' d' ephemeral seal recipient = Inr wrap
    \<and> rbind (get_conversation_key C reader E) (nip44_decrypt (ev_content wrap)) = Inr (canonical_event_json seal)
    \<and> rbind (get_conversation_key C reader A) (nip44_decrypt (ev_content seal)) = Inr (canonical_event_json rumor)
    \<and> (\<exists>sig. ev_sig seal = Some sig \<and> verify_event_sig S A (ev_id seal) sig = Inr True)
    \<and> (\<exists>sig. ev_sig wrap = Some sig \<and> verify_event_sig S E (ev_id wrap) sig = Inr True)
    \<and> ev_pubkey seal = A \<and> ev_pubkey wrap = E"
proof -
  note len = pubkey_length [OF assms(1,2)]
  obtain rumor where r: "make_rumor C S now sender recipient content 14 = Inr rumor" "handy rumor"
    "tags_text (ev_tags rumor)" "ev_content rumor = content"
    using rumor_returns [OF assms(1,3) len assms(5,7)] by auto
  obtain ck where ck: "get_conversation_key C sender recipient = Inr ck" "get_conversation_key C reader A = Inr ck" "length ck = 32"
    using conversation_key_agrees [OF assms(1,3,2)] by auto
  have "is_text (ev_content rumor)" "length (ev_content rumor) \<le> 2 ^ 20" using r(4) assms(5,6) by simp_all
  from seal_returns [OF assms(1,3) ck(1,3) r(2,3) this assms(9,10,8)] obtain seal where
    s: "make_seal C S now' d rumor sender recipient = Inr seal" "handy seal" "ev_tags seal = []" "is_text (ev_content seal)"
      "length (ev_content seal) \<le> 2 ^ 27" "ev_pubkey seal = A"
      "rbind (Inr ck) (nip44_decrypt (ev_content seal)) = Inr (canonical_event_json rumor)"
      "\<exists>sig. ev_sig seal = Some sig \<and> verify_event_sig S A (ev_id seal) sig = Inr True" by auto
  obtain ck' where ck': "get_conversation_key C (hex ephemeral) recipient = Inr ck'" "get_conversation_key C reader E = Inr ck'" "length ck' = 32"
    using conversation_key_agrees [OF assms(1,4,2)] by auto
  have "tags_text (ev_tags seal)" using s(3) by (simp add: tags_text_def)
  from wrap_returns [OF assms(1,4) ck'(1,3) len s(2) this s(4,5) assms(11,12)] obtain wrap where
    "make_wrap C S now'' d' ephemeral seal recipient = Inr wrap" "ev_pubkey wrap = E"
      "rbind (Inr ck') (nip44_decrypt (ev_content wrap)) = Inr (canonical_event_json seal)"
      "\<exists>sig. ev_sig wrap = Some sig \<and> verify_event_sig S E (ev_id wrap) sig = Inr True" by blast
  then show ?thesis unfolding ck(2) ck'(2) using r s by blast
qed

text \<open>
  C25: an alert reaches its recipient and no one has to be believed. Given the laws of
  \<open>coincurve\<close>, the three layers of any proper text of up to \<open>2\<^sup>20\<close> characters are made without
  an exception; the recipient's private key opens the wrap with the key on it and finds the
  seal, opens the seal with the service's key and finds the rumor with the text; and the seal
  verifies under the service's key, the wrap under the one-time key.
\<close>

theorem gift_wrap_delivers:
  assumes "coincurve_laws C S" and "pubkey_hex_from_privkey C S reader = Inr recipient"
    and "pubkey_hex_from_privkey C S sender = Inr A" and "pubkey_hex_from_privkey C S (hex ephemeral) = Inr E"
    and "is_text content" and "length content \<le> 2 ^ 20" and "\<bar>now\<bar> < 10 ^ 20" and "\<bar>now' - dr_back d\<bar> < 10 ^ 20"
    and "length (dr_nonce d) = 32" and "length (dr_aux d) = 32" and "length (dr_nonce d') = 32" and "length (dr_aux d') = 32"
  shows "\<exists>rumor seal wrap. make_rumor C S now sender recipient content 14 = Inr rumor \<and> ev_content rumor = content
    \<and> make_seal C S now' d rumor sender recipient = Inr seal \<and> make_wrap C S now'' d' ephemeral seal recipient = Inr wrap
    \<and> rbind (get_conversation_key C reader E) (nip44_decrypt (ev_content wrap)) = Inr (canonical_event_json seal)
    \<and> rbind (get_conversation_key C reader A) (nip44_decrypt (ev_content seal)) = Inr (canonical_event_json rumor)
    \<and> (\<exists>sig. ev_sig seal = Some sig \<and> verify_event_sig S A (ev_id seal) sig = Inr True)
    \<and> (\<exists>sig. ev_sig wrap = Some sig \<and> verify_event_sig S E (ev_id wrap) sig = Inr True)
    \<and> ev_pubkey seal = A \<and> ev_pubkey wrap = E"
  by (rule gift_wrap_chain [OF assms])

text \<open>
  A curve in which everything is the exclusive or of bytes and every signature is zero
  satisfies the laws.
\<close>

definition toy_curve :: "bytes curve" where
  "toy_curve = \<lparr>private_secret = (\<lambda>k. if length k = 32 then Inr k else Inl (ValueError ''secret'')),
     public_key = (\<lambda>k. Inr (tl k)), multiply = (\<lambda>p s. Inr (map2 (XOR) p s)), format_compressed = (\<lambda>p. 2 # p)\<rparr>"

definition toy_signer :: "bytes signer" where
  "toy_signer = \<lparr>xonly_of_secret = (\<lambda>s. s), sign_schnorr = (\<lambda>s d a. Inr (zeros 64)),
     xonly_key = Inr, xonly_verify = (\<lambda>x sig d. Inr (sig = zeros 64))\<rparr>"

lemma toy_laws: "coincurve_laws toy_curve toy_signer"
proof -
  have "map2 (XOR) s t = map2 (XOR) t s" for s t :: bytes
    by (subst zip_commute) (simp add: xor.commute case_prod_unfold)
  then show ?thesis
    by (simp add: coincurve_laws_def ecdh_agrees_def schnorr_verifies_def toy_curve_def toy_signer_def)
qed

lemma toy_pubkey: "length k = 32 \<Longrightarrow> pubkey_hex_from_privkey toy_curve toy_signer (hex k) = Inr (hex k)"
  by (simp add: pubkey_hex_from_privkey_def private_key_def toy_curve_def toy_signer_def)

definition ex_draws :: draws where
  "ex_draws = \<lparr>dr_back = 60, dr_nonce = zeros 32, dr_aux = zeros 32\<rparr>"

lemma gift_wrap_delivers_witness:
  "\<exists>rumor seal wrap. make_seal toy_curve toy_signer 1700000000 ex_draws rumor (hex (zeros 32)) (hex (zeros 32)) = Inr seal
    \<and> make_wrap toy_curve toy_signer 1700000000 ex_draws (zeros 32) seal (hex (zeros 32)) = Inr wrap
    \<and> ev_content rumor = lit ''moved''
    \<and> rbind (get_conversation_key toy_curve (hex (zeros 32)) (hex (zeros 32))) (nip44_decrypt (ev_content wrap))
        = Inr (canonical_event_json seal)"
proof -
  have p: "pubkey_hex_from_privkey toy_curve toy_signer (hex (zeros 32)) = Inr (hex (zeros 32))" by (simp add: toy_pubkey)
  have "is_text (lit ''moved'')" "length (lit ''moved'') \<le> 2 ^ 20" by (simp_all add: length_lit)
  moreover have "\<bar>1700000000 :: int\<bar> < 10 ^ 20" "\<bar>1700000000 - dr_back ex_draws\<bar> < 10 ^ 20"
    "length (dr_nonce ex_draws) = 32" "length (dr_aux ex_draws) = 32" by (simp_all add: ex_draws_def)
  ultimately show ?thesis
    using gift_wrap_delivers [OF toy_laws p p p, of "lit ''moved''" 1700000000 1700000000 ex_draws ex_draws 1700000000] by blast
qed

end
