(* ===== verification/Nostr_Channel.thy ===== *)
theory Nostr_Channel
  imports Channels Bech32 Giftwrap
begin

text \<open>
  \<open>channels/nostr/channel.py\<close>: wrapping an alert and delivering it to a list of relays.
  What a relay sends, when, and how a connection fails are arguments, and so are \<open>coincurve\<close>,
  the random numbers and the URL parser. A relay's frames are JSON values, as Json.thy has them.
  The lemmas show that waiting for a relay ends with the deadline whatever the relay sends,
  that no text of a relay reaches the result, and when a delivery succeeds or is retried.
\<close>

section \<open>Templates and configuration\<close>

definition nostr_dash :: py_str where "nostr_dash = lit ''--''"

definition nostr_render_body :: "alert \<Rightarrow> py_str" where
  "nostr_render_body a = (case al_kind a of
     MOVEMENT \<Rightarrow>
       if al_direction a = Some Incoming
       then quoted a @ lit '' received a deposit.'' @ newlines @ lit ''Informational only '' @ nostr_dash
         @ lit '' this is not an emergency.''
       else quoted a @ lit '' has moved.'' @ newlines
         @ lit ''If you hold other seeds or devices, this is the moment to check them '' @ nostr_dash
         @ lit '' attackers sweep sequentially, and this watch may not be the only one at risk.''
   | TEST_FIRE \<Rightarrow> lit ''This confirms delivery is working for '' @ quoted a @ lit ''.'' @ newlines
       @ lit ''No action needed.''
   | LOW_BALANCE \<Rightarrow> lit ''The balance funding alerts for '' @ quoted a @ lit '' is running low.'' @ newlines
       @ lit ''Top it up so this watch does not stop.''
   | WATCH_STOPPED \<Rightarrow> lit ''The watch '' @ quoted a @ lit '' has stopped.'' @ newlines
       @ lit ''It is no longer being monitored until you re-arm it.''
   | HEARTBEAT \<Rightarrow> lit ''All quiet for '' @ quoted a @ lit ''. No movement since the last check.'')"

definition ENV_PRIVKEY :: string where "ENV_PRIVKEY = ''COLDWATCH_NOSTR_PRIVKEY''"
definition ENV_PRIVKEY_FILE :: string where "ENV_PRIVKEY_FILE = ''COLDWATCH_NOSTR_PRIVKEY_FILE''"
definition ENV_RELAYS :: string where "ENV_RELAYS = ''COLDWATCH_NOSTR_RELAYS''"
definition NOSTR_CREDENTIAL_NAME :: string where "NOSTR_CREDENTIAL_NAME = ''nostr-privkey''"

definition nostr_read_secret :: "world \<Rightarrow> py_str \<Rightarrow> exn + py_str" where
  "nostr_read_secret = read_secret_as MissingConfig"

definition read_privkey :: "world \<Rightarrow> exn + py_str" where
  "read_privkey =
     read_credential_as MissingConfig ENV_SYSTEMD_CREDENTIALS NOSTR_CREDENTIAL_NAME ENV_PRIVKEY_FILE ENV_PRIVKEY"

definition KNOWN_NOTE_PREFIXES :: "string list" where
  "KNOWN_NOTE_PREFIXES = [''duplicate'', ''pow'', ''blocked'', ''rate-limited'', ''invalid'', ''restricted'', ''mute'', ''error'']"

definition PERMANENT_NOTE_PREFIXES :: "string list" where
  "PERMANENT_NOTE_PREFIXES = [''blocked'', ''invalid'', ''restricted'']"

section \<open>Construction\<close>

record nostr_channel =
  nc_privkey :: string
  nc_pubkey :: string
  nc_relays :: "py_str list"

definition starts_with :: "py_str \<Rightarrow> py_str \<Rightarrow> bool" where
  "starts_with prefix s \<longleftrightarrow> take (length prefix) s = prefix"

text \<open>
  \<open>urlsplit(relay)\<close>, its \<open>port\<close> and its \<open>hostname\<close>: a \<open>ValueError\<close>, or the host if there is one.
\<close>

type_synonym url_parser = "py_str \<Rightarrow> exn + py_str option"

definition check_relay_url :: "url_parser \<Rightarrow> py_str \<Rightarrow> exn + unit" where
  "check_relay_url urlsplit relay =
     (case urlsplit relay of
        Inl e \<Rightarrow> Inl (if is_value_error e then ValueError ''relay is not a valid URL'' else e)
      | Inr None \<Rightarrow> Inl (ValueError ''relay has no host'')
      | Inr (Some host) \<Rightarrow> if host = [] then Inl (ValueError ''relay has no host'') else Inr ())"

fun check_relays :: "url_parser \<Rightarrow> py_str list \<Rightarrow> exn + unit" where
  "check_relays urlsplit [] = Inr ()"
| "check_relays urlsplit (relay # relays) =
     (if \<not> starts_with (lit ''wss://'') relay then Inl (ValueError ''relay must be wss://'')
      else rbind (check_relay_url urlsplit relay) (\<lambda>_. check_relays urlsplit relays))"

definition fromhex_text :: "py_str \<Rightarrow> exn + bytes" where
  "fromhex_text s =
     (if \<forall>c \<in> set s. c < 256 then fromhex (map char_of s)
      else Inl (ValueError ''non-hexadecimal number found in fromhex() arg''))"

text \<open>
  \<open>pubkey_hex\<close> is \<open>nip01.pubkey_hex_from_privkey\<close>, \<open>pubkey_hex_from_privkey C S\<close> for a curve and
  a signer. A key that is valid hexadecimal has no character beyond Latin-1, so it is kept as
  its characters.
\<close>

definition new_nostr :: "url_parser \<Rightarrow> (string \<Rightarrow> exn + string) \<Rightarrow> py_str \<Rightarrow> py_str list \<Rightarrow> exn + nostr_channel" where
  "new_nostr urlsplit pubkey_hex privkey relays =
     (if relays = [] then Inl (MissingConfig ''at least one relay is required'' [])
      else rbind (check_relays urlsplit relays) (\<lambda>_.
        case fromhex_text privkey of
          Inl e \<Rightarrow> Inl (MissingConfig ''private key is not valid hex'' [])
        | Inr key \<Rightarrow>
            if length key \<noteq> 32 then Inl (MissingConfig ''private key must be 32 bytes'' [])
            else rbind (pubkey_hex (map char_of privkey)) (\<lambda>pubkey.
              Inr \<lparr>nc_privkey = map char_of privkey, nc_pubkey = pubkey, nc_relays = relays\<rparr>)))"

text \<open>\<open>s.split()\<close>: the runs of characters that are not white space.\<close>

function (sequential) usplit :: "py_str \<Rightarrow> py_str list" where
  "usplit [] = []"
| "usplit (c # s) =
     (if is_uspace c then usplit s
      else (c # takeWhile (\<lambda>x. \<not> is_uspace x) s) # usplit (dropWhile (\<lambda>x. \<not> is_uspace x) s))"
  by pat_completeness auto

termination
  by (relation "measure length") (simp_all add: le_imp_less_Suc length_dropWhile_le)

definition commas_to_spaces :: "py_str \<Rightarrow> py_str" where
  "commas_to_spaces s = map (\<lambda>c. if c = of_char CHR '','' then of_char CHR '' '' else c) s"

definition nostr_from_env :: "url_parser \<Rightarrow> (string \<Rightarrow> exn + string) \<Rightarrow> world \<Rightarrow> exn + nostr_channel" where
  "nostr_from_env urlsplit pubkey_hex w =
     (case env_set w ENV_RELAYS of
        None \<Rightarrow> Inl (MissingConfig ''is not set'' (lit ENV_RELAYS))
      | Some raw_relays \<Rightarrow>
          let relays = filter (\<lambda>r. r \<noteq> []) (usplit (commas_to_spaces raw_relays))
          in rbind (read_privkey w) (\<lambda>privkey. new_nostr urlsplit pubkey_hex privkey relays))"

definition nostr_repr :: "nostr_channel \<Rightarrow> string \<times> py_str list" where
  "nostr_repr c = (nc_pubkey c, nc_relays c)"

definition nostr_npub :: "nostr_channel \<Rightarrow> exn + py_str" where
  "nostr_npub c = rbind (fromhex (nc_pubkey c)) encode_npub"

definition nostr_validate_dest :: "'p curve \<Rightarrow> py_str \<Rightarrow> exn + string" where
  "nostr_validate_dest C raw =
     (case decode_npub (ustrip raw) of
        Inl e \<Rightarrow> Inl (if is_value_error e then ValueError ''not a valid npub'' else e)
      | Inr pubkey \<Rightarrow>
          (case public_key C (2 # pubkey) of
             Inl e \<Rightarrow> Inl (if is_value_error e then ValueError ''not a valid npub'' else e)
           | Inr _ \<Rightarrow> Inr (hex pubkey)))"

section \<open>One relay\<close>

text \<open>
  What \<open>_classify_note\<close> makes of a relay's note. A note is any JSON value; \<open>lower\<close> beyond the
  letters of ASCII never makes a known prefix of Latin-1 text.
\<close>

definition ascii_lower :: "char \<Rightarrow> char" where
  "ascii_lower c = char_of (lower_char (of_char c))"

definition classify_note :: "json \<Rightarrow> string" where
  "classify_note note =
     (case note of
        JStr s \<Rightarrow>
          let prefix = (if s = [] then [] else map ascii_lower (py_strip (takeWhile (\<lambda>c. c \<noteq> CHR '':'') s)))
          in if prefix \<in> set KNOWN_NOTE_PREFIXES then prefix else ''rejected''
      | _ \<Rightarrow> ''rejected'')"

text \<open>
  What \<open>recv\<close> and \<open>json.loads\<close> of it give: a value, a \<open>ValueError\<close>, a failed connection (an
  \<open>OSError\<close> or a \<open>WebSocketException\<close>, by the name of its type), or any other exception. The
  last one includes the \<open>RecursionError\<close> of a deeply nested frame.
\<close>

datatype recv_result = Frame json | Malformed | Broken string | Unforeseen exn

datatype relay_outcome = Published bool json | Failed string | Raised exn

text \<open>What the loop does with one frame: the verdict, or None to keep waiting.\<close>

definition judge_frame :: "string \<Rightarrow> json \<Rightarrow> (bool \<times> json) option" where
  "judge_frame eid frame =
     (case frame of
        JList xs \<Rightarrow>
          if xs = [] then None
          else if xs ! 0 = JStr ''OK'' \<and> length xs \<ge> 3 \<and> xs ! 1 = JStr eid
          then Some (xs ! 2 = JBool True, if length xs > 3 then xs ! 3 else JStr [])
          else if xs ! 0 = JStr ''CLOSED'' \<and> length xs \<ge> 2
          then Some (False, if length xs > 2 then xs ! 2 else JStr [])
          else None
      | _ \<Rightarrow> None)"

text \<open>
  The loop of \<open>_publish_to\<close> from its \<open>n\<close>-th round on: the clock before each \<open>recv\<close>, and what
  each \<open>recv\<close> gives. It need not end, so its result is optional.
\<close>

partial_function (option) wait_for_ok ::
  "string \<Rightarrow> int \<Rightarrow> (nat \<Rightarrow> int) \<Rightarrow> (nat \<Rightarrow> recv_result) \<Rightarrow> nat \<Rightarrow> relay_outcome option" where
  "wait_for_ok eid deadline clock recv n =
     (if clock n \<ge> deadline then Some (Failed ''WebSocketTimeoutException'')
      else case recv n of
          Malformed \<Rightarrow> Some (Published False (JStr ''malformed''))
        | Broken t \<Rightarrow> Some (Failed t)
        | Unforeseen e \<Rightarrow> Some (Raised e)
        | Frame frame \<Rightarrow> (case judge_frame eid frame of
              Some (ok, nt) \<Rightarrow> Some (Published ok nt)
            | None \<Rightarrow> wait_for_ok eid deadline clock recv (n + 1)))"

text \<open>
  A relay: connecting or sending fails, with an exception that \<open>send\<close> catches, by the name of
  its type, or with another one; or there are the clock and the frames, and \<open>close\<close> returns; or there
  are those and \<open>close\<close> raises, which takes the place of whatever the loop came to.
\<close>

datatype fault = Transport string | Foreign exn

datatype relay_session =
    Refused string
  | Unusable exn
  | Session int "nat \<Rightarrow> int" "nat \<Rightarrow> recv_result"
  | Unclosed fault int "nat \<Rightarrow> int" "nat \<Rightarrow> recv_result"

fun fault_outcome :: "fault \<Rightarrow> relay_outcome" where
  "fault_outcome (Transport t) = Failed t"
| "fault_outcome (Foreign e) = Raised e"

definition publish_to :: "string \<Rightarrow> relay_session \<Rightarrow> relay_outcome option" where
  "publish_to eid session =
     (case session of
        Refused t \<Rightarrow> Some (Failed t)
      | Unusable e \<Rightarrow> Some (Raised e)
      | Session deadline clock recv \<Rightarrow> wait_for_ok eid deadline clock recv 0
      | Unclosed f deadline clock recv \<Rightarrow>
          map_option (\<lambda>_. fault_outcome f) (wait_for_ok eid deadline clock recv 0))"

section \<open>All relays\<close>

fun try_relays :: "string \<Rightarrow> bool \<Rightarrow> string \<Rightarrow> relay_session list \<Rightarrow> (exn + delivery_result) option" where
  "try_relays eid any_retriable last_detail [] = Some (Inr (result False any_retriable last_detail))"
| "try_relays eid any_retriable last_detail (session # sessions) =
     (case publish_to eid session of
        None \<Rightarrow> None
      | Some (Raised e) \<Rightarrow> Some (Inl e)
      | Some (Failed t) \<Rightarrow> try_relays eid True t sessions
      | Some (Published ok nt) \<Rightarrow>
          if ok then Some (Inr (result True False []))
          else let prefix = classify_note nt
               in try_relays eid (any_retriable \<or> prefix \<notin> set PERMANENT_NOTE_PREFIXES) prefix sessions)"

text \<open>The loop of \<open>send\<close> over the sessions with the relays.\<close>

definition deliver :: "string \<Rightarrow> relay_session list \<Rightarrow> (exn + delivery_result) option" where
  "deliver eid sessions = try_relays eid False ''no relays configured'' sessions"

section \<open>Sending\<close>

text \<open>The clock readings and the random draws of one \<open>send\<close>.\<close>

record sending =
  sn_rumor_now :: int
  sn_seal_now :: int
  sn_seal_draws :: draws
  sn_wrap_now :: int
  sn_wrap_draws :: draws
  sn_ephemeral :: bytes

definition wrap_alert :: "'p curve \<Rightarrow> 'x signer \<Rightarrow> nostr_channel \<Rightarrow> sending \<Rightarrow> string \<Rightarrow> alert \<Rightarrow> exn + event" where
  "wrap_alert C S c sn dest a =
     rbind (make_rumor C S (sn_rumor_now sn) (nc_privkey c) dest (nostr_render_body a) 14) (\<lambda>rumor.
     rbind (make_seal C S (sn_seal_now sn) (sn_seal_draws sn) rumor (nc_privkey c) dest) (\<lambda>seal.
     make_wrap C S (sn_wrap_now sn) (sn_wrap_draws sn) (sn_ephemeral sn) seal dest))"

text \<open>What is sent to a relay, and a relay: what becomes of the session in which it gets that.\<close>

definition event_frame :: "event \<Rightarrow> py_str" where
  "event_frame ev = dumps (JVList [JVStr (lit ''EVENT''), event_json ev])"

type_synonym relay = "py_str \<Rightarrow> relay_session"

definition nostr_send :: "'p curve \<Rightarrow> 'x signer \<Rightarrow> nostr_channel \<Rightarrow> sending \<Rightarrow> string \<Rightarrow> alert \<Rightarrow> relay list
    \<Rightarrow> (exn + delivery_result) option" where
  "nostr_send C S c sn dest a relays =
     (case wrap_alert C S c sn dest a of
        Inl e \<Rightarrow> Some (Inl e)
      | Inr wrap \<Rightarrow> deliver (ev_id wrap) (map (\<lambda>relay. relay (event_frame wrap)) relays))"

section \<open>Lemmas\<close>

text \<open>The clock of a session reaches its deadline.\<close>

definition ticks :: "relay_session \<Rightarrow> bool" where
  "ticks session = (case session of
     Session deadline clock recv \<Rightarrow> \<exists>n. clock n \<ge> deadline
   | Unclosed f deadline clock recv \<Rightarrow> \<exists>n. clock n \<ge> deadline
   | _ \<Rightarrow> True)"

lemma wait_ends:
  assumes "clock (n + k) \<ge> deadline"
  shows "\<exists>r. wait_for_ok eid deadline clock recv n = Some r"
  using assms
proof (induction k arbitrary: n)
  case 0
  then show ?case by (simp add: wait_for_ok.simps)
next
  case (Suc k)
  then obtain r where "wait_for_ok eid deadline clock recv (Suc n) = Some r" by fastforce
  then show ?case
    by (subst wait_for_ok.simps) (auto split: recv_result.split option.split)
qed

lemma publish_ends: "ticks session \<Longrightarrow> \<exists>r. publish_to eid session = Some r"
  using wait_ends [where n = 0] by (cases session) (fastforce simp: ticks_def publish_to_def)+

text \<open>Transport failures carry the name of an exception: the one of the deadline, or a given one.\<close>

fun broken_names :: "relay_session \<Rightarrow> string set" where
  "broken_names (Refused t) = {t}"
| "broken_names (Unusable e) = {}"
| "broken_names (Unclosed f deadline clock recv) = (case f of Transport t \<Rightarrow> {t} | Foreign e \<Rightarrow> {})"
| "broken_names (Session deadline clock recv) = {''WebSocketTimeoutException''} \<union> {t. \<exists>n. recv n = Broken t}"

definition verdict :: "string \<Rightarrow> (nat \<Rightarrow> recv_result) \<Rightarrow> relay_outcome \<Rightarrow> bool" where
  "verdict eid recv r \<longleftrightarrow>
     (\<exists>t. r = Failed t \<and> (t = ''WebSocketTimeoutException'' \<or> (\<exists>m. recv m = Broken t)))
     \<or> (\<exists>m e. recv m = Unforeseen e \<and> r = Raised e)
     \<or> r = Published False (JStr ''malformed'')
     \<or> (\<exists>m frame ok nt. recv m = Frame frame \<and> judge_frame eid frame = Some (ok, nt) \<and> r = Published ok nt)"

lemma wait_verdict:
  assumes "wait_for_ok eid deadline clock recv n = Some r"
  shows "verdict eid recv r"
proof (rule wait_for_ok.raw_induct [OF _ assms], goal_cases)
  case (1 wait eid deadline clock recv n r)
  show ?case
  proof (cases "clock n \<ge> deadline")
    case True
    then show ?thesis using 1(2) by (auto simp: verdict_def)
  next
    case False
    show ?thesis
    proof (cases "recv n")
      case (Frame frame)
      show ?thesis
      proof (cases "judge_frame eid frame")
        case None
        then show ?thesis using 1 False Frame by simp
      next
        case (Some v)
        then have "r = Published (fst v) (snd v)" using 1(2) False Frame by (cases v) simp
        then show ?thesis using Frame Some unfolding verdict_def by (metis prod.collapse)
      qed
    qed (use 1(2) False in \<open>auto simp: verdict_def\<close>)
  qed
qed

lemma judge_true:
  "judge_frame eid frame = Some (True, note) \<Longrightarrow>
     \<exists>rest. frame = JList (JStr ''OK'' # JStr eid # JBool True # rest)"
proof (cases frame)
  case (JList xs)
  assume "judge_frame eid frame = Some (True, note)"
  then have x: "3 \<le> length xs" "xs ! 0 = JStr ''OK''" "xs ! 1 = JStr eid" "xs ! 2 = JBool True"
    using JList by (auto simp: judge_frame_def split: if_splits)
  then obtain a b c rest where "xs = a # b # c # rest" by (auto simp: Suc_le_length_iff numeral_eq_Suc)
  with x JList show ?thesis by simp
qed (simp_all add: judge_frame_def)

lemma classify_known: "classify_note note \<in> insert ''rejected'' (set KNOWN_NOTE_PREFIXES)"
  by (simp add: classify_note_def Let_def split: json.split)

lemma publish_true:
  assumes "publish_to eid session = Some (Published True note)"
  shows "\<exists>deadline clock recv m rest. session = Session deadline clock recv
    \<and> recv m = Frame (JList (JStr ''OK'' # JStr eid # JBool True # rest))"
proof (cases session)
  case (Unclosed f deadline clock recv)
  then show ?thesis using assms by (cases f) (auto simp: publish_to_def)
next
  case (Session deadline clock recv)
  then have "verdict eid recv (Published True note)" using assms wait_verdict by (auto simp: publish_to_def)
  then show ?thesis using Session judge_true unfolding verdict_def by fastforce
qed (use assms in \<open>simp_all add: publish_to_def\<close>)

lemma publish_failed: "publish_to eid session = Some (Failed t) \<Longrightarrow> t \<in> broken_names session"
proof (cases session)
  case (Session deadline clock recv)
  assume "publish_to eid session = Some (Failed t)"
  then have "verdict eid recv (Failed t)" using Session wait_verdict by (auto simp: publish_to_def)
  then show ?thesis using Session by (auto simp: verdict_def)
next
  case (Unclosed f deadline clock recv)
  then show "publish_to eid session = Some (Failed t) \<Longrightarrow> ?thesis" by (cases f) (auto simp: publish_to_def)
qed (auto simp: publish_to_def)

text \<open>
  An exception that is neither a connection failure nor a \<open>ValueError\<close> leaves \<open>send\<close>, and the
  relays after it are not tried. A frame of a few thousand opening brackets is enough: parsing
  it is a \<open>RecursionError\<close>.
\<close>

lemma deep_frame_stops_the_delivery:
  assumes "recv 0 = Unforeseen e" and "clock 0 < deadline"
  shows "deliver eid (Session deadline clock recv # sessions) = Some (Inl e)"
  using assms by (simp add: deliver_def publish_to_def wait_for_ok.simps)

text \<open>A \<open>close\<close> that fails undoes an acceptance: the event counts as not delivered to that relay.\<close>

lemma failed_close_hides_an_acceptance:
  assumes "recv 0 = Frame (JList [JStr ''OK'', JStr eid, JBool True])" and "clock 0 < deadline"
  shows "publish_to eid (Session deadline clock recv) = Some (Published True (JStr []))
    \<and> deliver eid [Unclosed (Transport t) deadline clock recv] = Some (Inr (result False True t))"
  using assms by (simp add: deliver_def publish_to_def wait_for_ok.simps judge_frame_def)

lemma deliver_ends:
  assumes "\<forall>session \<in> set sessions. ticks session"
  shows "\<exists>res. deliver eid sessions = Some res"
proof -
  have "\<exists>res. try_relays eid retriable detail sessions = Some res" for retriable detail
    using assms
  proof (induction sessions arbitrary: retriable detail)
    case (Cons session sessions)
    then have "ticks session" by simp
    then have "publish_to eid session \<noteq> None" using publish_ends [of session eid] by auto
    with Cons show ?case by (auto simp: Let_def split: option.split relay_outcome.split)
  qed simp
  then show ?thesis by (simp add: deliver_def)
qed

lemma deliver_detail_closed:
  assumes "deliver eid sessions = Some (Inr res)"
  shows "dr_detail res \<in> {[], ''rejected'', ''no relays configured''} \<union> set KNOWN_NOTE_PREFIXES
    \<union> (\<Union>session \<in> set sessions. broken_names session)"
proof -
  have "dr_detail res \<in> {[], ''rejected'', detail} \<union> set KNOWN_NOTE_PREFIXES \<union> (\<Union>session \<in> set sessions. broken_names session)"
    if "try_relays eid retriable detail sessions = Some (Inr res)" for retriable detail
    using that
  proof (induction sessions arbitrary: retriable detail)
    case Nil
    then show ?case by (auto simp: result_def)
  next
    case (Cons session sessions)
    show ?case
    proof (cases "publish_to eid session")
      case None
      then show ?thesis using Cons.prems by simp
    next
      case (Some r)
      show ?thesis
      proof (cases r)
        case (Raised e)
        then show ?thesis using Cons.prems Some by simp
      next
        case (Failed t)
        then have "t \<in> broken_names session" using Some publish_failed by blast
        then show ?thesis using Cons.IH [of True t] Cons.prems Some Failed by auto
      next
        case (Published ok nt)
        show ?thesis
        proof (cases ok)
          case True
          then show ?thesis using Cons.prems Some Published by (auto simp: result_def)
        next
          case False
          then show ?thesis using Cons.IH [of _ "classify_note nt"] Cons.prems Some Published classify_known [of nt]
            by (fastforce simp: Let_def)
        qed
      qed
    qed
  qed
  from this [of False] assms show ?thesis by (auto simp: deliver_def)
qed

lemma deliver_result:
  assumes "deliver eid sessions = Some (Inr res)"
  shows "(dr_ok res \<longrightarrow> (\<exists>session \<in> set sessions. \<exists>deadline clock recv m rest. session = Session deadline clock recv
      \<and> recv m = Frame (JList (JStr ''OK'' # JStr eid # JBool True # rest))))
    \<and> (\<not> dr_ok res \<longrightarrow> (\<forall>session \<in> set sessions. \<nexists>note. publish_to eid session = Some (Published True note))
      \<and> (dr_retriable res \<longleftrightarrow> (\<exists>session \<in> set sessions. \<not> (\<exists>note. publish_to eid session = Some (Published False note)
           \<and> classify_note note \<in> set PERMANENT_NOTE_PREFIXES))))"
proof -
  have "(dr_ok res \<longrightarrow> (\<exists>session \<in> set sessions. \<exists>note. publish_to eid session = Some (Published True note)))
    \<and> (\<not> dr_ok res \<longrightarrow> (\<forall>session \<in> set sessions. \<nexists>note. publish_to eid session = Some (Published True note))
      \<and> (dr_retriable res \<longleftrightarrow> retriable \<or> (\<exists>session \<in> set sessions. \<not> (\<exists>note. publish_to eid session = Some (Published False note)
           \<and> classify_note note \<in> set PERMANENT_NOTE_PREFIXES))))"
    if "try_relays eid retriable detail sessions = Some (Inr res)" for retriable detail
    using that
  proof (induction sessions arbitrary: retriable detail)
    case Nil
    then show ?case by (auto simp: result_def)
  next
    case (Cons session sessions)
    show ?case
    proof (cases "publish_to eid session")
      case None
      then show ?thesis using Cons.prems by simp
    next
      case (Some r)
      show ?thesis
      proof (cases r)
        case (Raised e)
        then show ?thesis using Cons.prems Some by simp
      next
        case (Failed t)
        then show ?thesis using Cons.IH [of True t] Cons.prems Some by simp
      next
        case (Published ok nt)
        show ?thesis
        proof (cases ok)
          case True
          then have "dr_ok res" using Cons.prems Some Published by (auto simp: result_def)
          then show ?thesis using True Some Published by simp
        next
          case False
          let ?p = "classify_note nt"
          have "try_relays eid (retriable \<or> ?p \<notin> set PERMANENT_NOTE_PREFIXES) ?p sessions = Some (Inr res)"
            using Cons.prems Some Published False by (simp add: Let_def)
          from Cons.IH [OF this] show ?thesis using Some Published False by auto
        qed
      qed
    qed
  qed
  from this [of False "''no relays configured''"] assms
  have r: "(dr_ok res \<longrightarrow> (\<exists>session \<in> set sessions. \<exists>nt. publish_to eid session = Some (Published True nt)))
    \<and> (\<not> dr_ok res \<longrightarrow> (\<forall>session \<in> set sessions. \<nexists>nt. publish_to eid session = Some (Published True nt))
      \<and> (dr_retriable res \<longleftrightarrow> (\<exists>session \<in> set sessions. \<not> (\<exists>nt. publish_to eid session = Some (Published False nt)
           \<and> classify_note nt \<in> set PERMANENT_NOTE_PREFIXES))))"
    by (simp add: deliver_def)
  then have "\<exists>session \<in> set sessions. \<exists>deadline clock recv m rest. session = Session deadline clock recv
      \<and> recv m = Frame (JList (JStr ''OK'' # JStr eid # JBool True # rest))" if "dr_ok res"
    using that publish_true by meson
  with r show ?thesis by simp
qed

lemma deliver_success:
  assumes "deliver eid sessions = Some (Inr res)" and "dr_ok res"
  shows "\<not> dr_retriable res \<and> dr_detail res = []"
proof -
  have "\<not> dr_retriable res \<and> dr_detail res = []"
    if "try_relays eid retriable detail sessions = Some (Inr res)" for retriable detail
    using that assms(2)
    by (induction sessions arbitrary: retriable detail)
       (auto simp: result_def Let_def split: option.splits relay_outcome.splits if_splits)
  with assms(1) show ?thesis by (simp add: deliver_def)
qed

lemma nostr_send_Inr:
  assumes "nostr_send C S c sn dest a relays = Some (Inr res)"
  obtains wrap where "wrap_alert C S c sn dest a = Inr wrap"
    and "deliver (ev_id wrap) (map (\<lambda>relay. relay (event_frame wrap)) relays) = Some (Inr res)"
  using assms by (auto simp: nostr_send_def split: sum.splits)

definition relay_words :: "relay list \<Rightarrow> string set" where
  "relay_words relays = {[], ''rejected'', ''no relays configured''} \<union> set KNOWN_NOTE_PREFIXES
     \<union> (\<Union>relay \<in> set relays. \<Union>frame. broken_names (relay frame))"

interpretation nostr: channel "\<lambda>dest a (sn, relays). nostr_send C S c sn dest a relays" "\<lambda>(sn, relays). relay_words relays"
  for C :: "'p curve" and S :: "'x signer" and c
proof (unfold_locales, goal_cases)
  case (1 dest a env res)
  obtain sn relays where e: "env = (sn, relays)" by (cases env)
  with 1 have "nostr_send C S c sn dest a relays = Some (Inr res)" by simp
  then obtain wrap where "deliver (ev_id wrap) (map (\<lambda>relay. relay (event_frame wrap)) relays) = Some (Inr res)"
    using nostr_send_Inr by blast
  from deliver_detail_closed [OF this] show ?case by (auto simp: e relay_words_def)
next
  case (2 dest a env res)
  obtain sn relays where e: "env = (sn, relays)" by (cases env)
  with 2 have "nostr_send C S c sn dest a relays = Some (Inr res)" by simp
  then show ?case using deliver_success 2(2) nostr_send_Inr by metis
qed

section \<open>Properties\<close>

text \<open>
  C26: no relay can hold the channel. If the clock of every session reaches its deadline, a
  delivery returns or raises, whatever the relays send in the meantime and however much.
\<close>

theorem nostr_send_ends:
  assumes "\<forall>relay \<in> set relays. \<forall>frame. ticks (relay frame)"
  shows "\<exists>res. nostr_send C S c sn dest a relays = Some res"
proof (cases "wrap_alert C S c sn dest a")
  case (Inr wrap)
  have "\<forall>session \<in> set (map (\<lambda>relay. relay (event_frame wrap)) relays). ticks session" using assms by simp
  from deliver_ends [OF this] show ?thesis using Inr by (simp add: nostr_send_def)
qed (simp add: nostr_send_def)

definition ex_spam :: relay where
  "ex_spam frame = Session 15 int (\<lambda>_. Frame (JList [JStr ''NOTICE'', JStr ''buy now'']))"

definition ex_nostr :: nostr_channel where
  "ex_nostr = \<lparr>nc_privkey = hex (zeros 32), nc_pubkey = hex (zeros 32), nc_relays = [lit ''wss://a.b'']\<rparr>"

definition ex_sending :: sending where
  "ex_sending = \<lparr>sn_rumor_now = 1700000000, sn_seal_now = 1700000000, sn_seal_draws = ex_draws,
     sn_wrap_now = 1700000000, sn_wrap_draws = ex_draws, sn_ephemeral = zeros 32\<rparr>"

lemma nostr_send_ends_witness:
  "\<exists>res. nostr_send toy_curve toy_signer ex_nostr ex_sending (hex (zeros 32)) (ex_alert None) [ex_spam, \<lambda>_. Refused ''OSError''] = Some res"
proof (rule nostr_send_ends)
  have "15 \<le> int 15" by simp
  then show "\<forall>relay \<in> set [ex_spam, \<lambda>_. Refused ''OSError'']. \<forall>frame. ticks (relay frame)"
    by (auto simp: ticks_def ex_spam_def)
qed

text \<open>A channel that can wrap, and a relay that cannot be reached.\<close>

lemma ex_wraps: "\<exists>wrap. wrap_alert toy_curve toy_signer ex_nostr ex_sending (hex (zeros 32)) (ex_alert None) = Inr wrap"
proof -
  have p: "pubkey_hex_from_privkey toy_curve toy_signer (hex (zeros 32)) = Inr (hex (zeros 32))" by (simp add: toy_pubkey)
  let ?body = "nostr_render_body (ex_alert None)"
  have "is_text ?body" "length ?body \<le> 2 ^ 20"
    by (simp_all add: nostr_render_body_def ex_alert_def quoted_def newlines_def nostr_dash_def length_lit)
  moreover have "\<bar>1700000000 :: int\<bar> < 10 ^ 20" "\<bar>1700000000 - dr_back ex_draws\<bar> < 10 ^ 20"
    "length (dr_nonce ex_draws) = 32" "length (dr_aux ex_draws) = 32" by (simp_all add: ex_draws_def)
  ultimately obtain rumor seal wrap where
    "make_rumor toy_curve toy_signer 1700000000 (hex (zeros 32)) (hex (zeros 32)) ?body 14 = Inr rumor"
    "make_seal toy_curve toy_signer 1700000000 ex_draws rumor (hex (zeros 32)) (hex (zeros 32)) = Inr seal"
    "make_wrap toy_curve toy_signer 1700000000 ex_draws (zeros 32) seal (hex (zeros 32)) = Inr wrap"
    using gift_wrap_chain [OF toy_laws p p p, of ?body 1700000000 1700000000 ex_draws ex_draws 1700000000] by blast
  then show ?thesis by (simp add: wrap_alert_def ex_nostr_def ex_sending_def)
qed

lemma ex_unreachable:
  "nostr_send toy_curve toy_signer ex_nostr ex_sending (hex (zeros 32)) (ex_alert None) [\<lambda>_. Refused ''gaierror'']
     = Some (Inr (result False True ''gaierror''))"
  using ex_wraps by (auto simp: nostr_send_def deliver_def publish_to_def)

text \<open>
  C34: nothing a relay writes reaches the result. The detail of a delivery is empty, one of
  the known prefixes, one of two fixed phrases, or the name of a transport exception.
\<close>

theorem nostr_detail_closed:
  assumes "nostr_send C S c sn dest a relays = Some (Inr res)"
  shows "dr_detail res \<in> {[], ''rejected'', ''no relays configured''} \<union> set KNOWN_NOTE_PREFIXES
    \<union> (\<Union>relay \<in> set relays. \<Union>frame. broken_names (relay frame))"
  using nostr.detail_words [of C S c dest a "(sn, relays)"] assms by (simp add: relay_words_def)

lemma nostr_detail_closed_witness:
  "\<exists>res. nostr_send toy_curve toy_signer ex_nostr ex_sending (hex (zeros 32)) (ex_alert None) [\<lambda>_. Refused ''gaierror'']
     = Some (Inr res) \<and> dr_detail res \<in> {[], ''rejected'', ''no relays configured'', ''gaierror''} \<union> set KNOWN_NOTE_PREFIXES"
  using nostr_detail_closed [OF ex_unreachable] ex_unreachable by auto

text \<open>
  C11: a delivery is what the relays said. Its message is one wrapped event; it succeeds only
  when a relay answered that event's frame with an \<open>OK\<close> for its id and the JSON value true;
  when it fails no relay accepted, and it is not retried exactly when every relay refused the
  event for a permanent reason.
\<close>

theorem nostr_result:
  assumes "nostr_send C S c sn dest a relays = Some (Inr res)"
  shows "\<exists>wrap. wrap_alert C S c sn dest a = Inr wrap
    \<and> (dr_ok res \<longrightarrow> (\<exists>relay \<in> set relays. \<exists>deadline clock recv m rest. relay (event_frame wrap) = Session deadline clock recv
        \<and> recv m = Frame (JList (JStr ''OK'' # JStr (ev_id wrap) # JBool True # rest))))
    \<and> (\<not> dr_ok res \<longrightarrow>
        (\<forall>relay \<in> set relays. \<nexists>nt. publish_to (ev_id wrap) (relay (event_frame wrap)) = Some (Published True nt))
        \<and> (dr_retriable res \<longleftrightarrow> (\<exists>relay \<in> set relays. \<not> (\<exists>nt.
              publish_to (ev_id wrap) (relay (event_frame wrap)) = Some (Published False nt)
              \<and> classify_note nt \<in> set PERMANENT_NOTE_PREFIXES))))"
proof -
  obtain wrap where w: "wrap_alert C S c sn dest a = Inr wrap"
    "deliver (ev_id wrap) (map (\<lambda>relay. relay (event_frame wrap)) relays) = Some (Inr res)"
    using nostr_send_Inr [OF assms] .
  from deliver_result [OF w(2)] show ?thesis by (intro exI [of _ wrap] conjI w(1)) simp_all
qed

lemma nostr_result_witness:
  "\<exists>res. nostr_send toy_curve toy_signer ex_nostr ex_sending (hex (zeros 32)) (ex_alert None) [\<lambda>_. Refused ''gaierror'']
     = Some (Inr res) \<and> dr_retriable res"
  using nostr_result [OF ex_unreachable] ex_unreachable by (auto simp: result_def publish_to_def)

text \<open>
  An accepted destination is the hexadecimal form of one key, the one whose \<open>npub\<close> was
  typed, up to surrounding space and case.
\<close>

theorem nostr_dest_is_the_key:
  assumes "nostr_validate_dest C raw = Inr h"
  shows "\<exists>k. fromhex h = Inr k \<and> length k = 32 \<and> encode_npub k = Inr (map lower_char (ustrip raw))"
proof -
  obtain k where k: "decode_npub (ustrip raw) = Inr k" "h = hex k"
    using assms by (auto simp: nostr_validate_dest_def split: sum.splits)
  then have "encode_npub k = Inr (map lower_char (ustrip raw))" by (simp add: decode_npub_iff)
  moreover from this have "length k = 32" unfolding encode_npub_Inr by blast
  ultimately show ?thesis using k(2) by simp
qed

lemma decode_npub_printable: "decode_npub s = Inr k \<Longrightarrow> c \<in> set s \<Longrightarrow> 33 \<le> c \<and> c \<le> 126"
  by (cases "bech32_decode s") (auto simp: decode_npub_def bech32_decode_def split: if_splits)

lemma dropWhile_id: "(\<And>x. x \<in> set xs \<Longrightarrow> \<not> P x) \<Longrightarrow> dropWhile P xs = xs"
  by (cases xs) simp_all

lemma ustrip_id: "(\<And>c. c \<in> set s \<Longrightarrow> \<not> is_uspace c) \<Longrightarrow> ustrip s = s"
  using dropWhile_id [of s is_uspace] dropWhile_id [of "rev s" is_uspace] by (simp add: ustrip_def)

definition ex_curve :: "unit curve" where
  "ex_curve = \<lparr>private_secret = Inr, public_key = (\<lambda>_. Inr ()), multiply = (\<lambda>_ _. Inr ()), format_compressed = (\<lambda>_. zeros 33)\<rparr>"

lemma nostr_dest_is_the_key_witness: "\<exists>s. nostr_validate_dest ex_curve s = Inr (hex (zeros 32)) \<and> encode_npub (zeros 32) = Inr (map lower_char (ustrip s))"
proof -
  obtain s where s: "encode_npub (zeros 32) = Inr s" "decode_npub s = Inr (zeros 32)"
    using npub_decodes [of "zeros 32"] by auto
  have "\<not> is_uspace c" if "c \<in> set s" for c using decode_npub_printable [OF s(2) that] by (auto simp: is_uspace_def)
  then have "ustrip s = s" by (rule ustrip_id)
  then have v: "nostr_validate_dest ex_curve s = Inr (hex (zeros 32))" using s(2) by (simp add: nostr_validate_dest_def ex_curve_def)
  from nostr_dest_is_the_key [OF v] v show ?thesis by auto
qed

end
