(* ===== verification/Json_Reader.thy ===== *)
theory Json_Reader
  imports Json_Text "HOL-Library.Sublist"
begin

text \<open>
  \<open>json.loads\<close> on a text, and \<open>json.dumps\<close> with its default settings, as the tools call them.
  The reader is the standard library's scanner: a value, then white space to the end. A number
  with a fraction or an exponent is kept as its text, the conversion to a float is not modelled.
  The lemmas show that what either style of \<open>dumps\<close> writes is read back, and that a text of an
  object that was cut short is refused.
\<close>

datatype jv =
    VNull
  | VBool bool
  | VInt int
  | VReal py_str
  | VStr py_str
  | VList "jv list"
  | VObj "(py_str \<times> jv) list"

section \<open>Texts\<close>

abbreviation bad_json :: "exn + 'a" where
  "bad_json \<equiv> Inl (ValueError ''JSONDecodeError'')"

definition ws_char :: "nat \<Rightarrow> bool" where
  "ws_char c \<longleftrightarrow> c = 32 \<or> c = 9 \<or> c = 10 \<or> c = 13"

definition skip_ws :: "py_str \<Rightarrow> py_str" where
  "skip_ws s = dropWhile ws_char s"

definition hex_digit :: "nat \<Rightarrow> nat option" where
  "hex_digit c = (if 48 \<le> c \<and> c \<le> 57 then Some (c - 48) else if 97 \<le> c \<and> c \<le> 102 then Some (c - 87)
     else if 65 \<le> c \<and> c \<le> 70 then Some (c - 55) else None)"

text \<open>The four digits after \<open>\u\<close>.\<close>

definition hex4 :: "py_str \<Rightarrow> nat option" where
  "hex4 s = (case s of
     a # b # c # d # _ \<Rightarrow>
       (case (hex_digit a, hex_digit b, hex_digit c, hex_digit d) of
          (Some i, Some j, Some k, Some l) \<Rightarrow> Some (4096 * i + 256 * j + 16 * k + l) | _ \<Rightarrow> None)
   | _ \<Rightarrow> None)"

definition is_high :: "nat \<Rightarrow> bool" where "is_high n \<longleftrightarrow> 55296 \<le> n \<and> n \<le> 56319"
definition is_low :: "nat \<Rightarrow> bool" where "is_low n \<longleftrightarrow> 56320 \<le> n \<and> n \<le> 57343"

text \<open>A low surrogate escaped right here.\<close>

definition low_half :: "py_str \<Rightarrow> nat option" where
  "low_half s = (case s of
     a # b # r \<Rightarrow> if a = 92 \<and> b = 117 then
         (case hex4 r of Some n \<Rightarrow> if is_low n then Some n else None | None \<Rightarrow> None)
       else None
   | _ \<Rightarrow> None)"

definition simple_escape :: "nat \<Rightarrow> nat option" where
  "simple_escape c = (if c \<in> {34, 92, 47} then Some c else if c = 98 then Some 8 else if c = 102 then Some 12
     else if c = 110 then Some 10 else if c = 114 then Some 13 else if c = 116 then Some 9 else None)"

definition push :: "'a \<Rightarrow> exn + ('a list \<times> 'b) \<Rightarrow> exn + ('a list \<times> 'b)" where
  "push x r = rbind r (\<lambda>(xs, rest). Inr (x # xs, rest))"

text \<open>After the opening quote: the text and what follows the closing quote.\<close>

function scan_str :: "py_str \<Rightarrow> exn + (py_str \<times> py_str)" where
  "scan_str s = (case s of
     [] \<Rightarrow> bad_json
   | c # r \<Rightarrow>
       if c = 34 then Inr ([], r)
       else if c = 92 then
         (case r of
            [] \<Rightarrow> bad_json
          | e # t \<Rightarrow>
              if e = 117 then
                (case hex4 t of
                   None \<Rightarrow> bad_json
                 | Some n \<Rightarrow>
                     (case (if is_high n then low_half (drop 4 t) else None) of
                        Some m \<Rightarrow> push (65536 + (n - 55296) * 1024 + (m - 56320)) (scan_str (drop 10 t))
                      | None \<Rightarrow> push n (scan_str (drop 4 t))))
              else (case simple_escape e of Some d \<Rightarrow> push d (scan_str t) | None \<Rightarrow> bad_json))
       else if c < 32 then bad_json
       else push c (scan_str r))"
  by auto
termination by (relation "measure length") auto

declare scan_str.simps [simp del]

section \<open>Numbers\<close>

definition frac_part :: "py_str \<Rightarrow> py_str" where
  "frac_part s = (case s of
     p # d # r \<Rightarrow> if p = 46 \<and> dec_digit d then p # d # takeWhile dec_digit r else []
   | _ \<Rightarrow> [])"

definition exp_sign :: "py_str \<Rightarrow> py_str" where
  "exp_sign s = (case s of c # _ \<Rightarrow> if c = 43 \<or> c = 45 then [c] else [] | [] \<Rightarrow> [])"

definition exp_part :: "py_str \<Rightarrow> py_str" where
  "exp_part s = (case s of
     e # r \<Rightarrow>
       if e = 101 \<or> e = 69 then
         (let ds = takeWhile dec_digit (drop (length (exp_sign r)) r)
          in if ds = [] then [] else e # exp_sign r @ ds)
       else []
   | [] \<Rightarrow> [])"

definition int_part :: "py_str \<Rightarrow> py_str" where
  "int_part s = (case s of
     d # r \<Rightarrow> if d = 48 then [48] else if dec_digit d then d # takeWhile dec_digit r else []
   | [] \<Rightarrow> [])"

text \<open>The limit of \<open>int(text)\<close> on decimal digits.\<close>

definition INT_MAX_STR_DIGITS :: nat where "INT_MAX_STR_DIGITS = 4300"

definition scan_number :: "py_str \<Rightarrow> exn + (jv \<times> py_str)" where
  "scan_number s =
     (let sign = (case s of c # _ \<Rightarrow> if c = 45 then [c] else [] | [] \<Rightarrow> []);
          r = drop (length sign) s; ip = int_part r;
          r = drop (length ip) r; fp = frac_part r;
          r = drop (length fp) r; ep = exp_part r;
          r = drop (length ep) r
      in if ip = [] then bad_json
         else if fp \<noteq> [] \<or> ep \<noteq> [] then Inr (VReal (sign @ ip @ fp @ ep), r)
         else if INT_MAX_STR_DIGITS < length ip then Inl (ValueError ''Exceeds the limit for integer string conversion'')
         else Inr (VInt (if sign = [] then int (dec_value ip) else - int (dec_value ip)), r))"

section \<open>Values\<close>

definition word_at :: "string \<Rightarrow> py_str \<Rightarrow> bool" where
  "word_at w s \<longleftrightarrow> take (length w) s = lit w"

definition json_words :: "(string \<times> jv) list" where
  "json_words = [(''null'', VNull), (''true'', VBool True), (''false'', VBool False), (''NaN'', VReal (lit ''NaN'')),
     (''Infinity'', VReal (lit ''Infinity'')), (''-Infinity'', VReal (lit ''-Infinity''))]"

definition scan_scalar :: "py_str \<Rightarrow> exn + (jv \<times> py_str)" where
  "scan_scalar s = (case find (\<lambda>(w, _). word_at w s) json_words of
     Some (w, v) \<Rightarrow> Inr (v, drop (length w) s)
   | None \<Rightarrow> scan_number s)"

type_synonym scanner = "py_str \<Rightarrow> exn + (jv \<times> py_str)"

text \<open>
  The elements of a list or the members of an object up to the closing bracket, each read by
  \<open>item\<close>. The counter bounds the iterations; the length of the text is enough, as each
  consumes some of it.
\<close>

fun scan_seq :: "(py_str \<Rightarrow> exn + ('a \<times> py_str)) \<Rightarrow> nat \<Rightarrow> nat \<Rightarrow> py_str \<Rightarrow> exn + ('a list \<times> py_str)" where
  "scan_seq item close 0 s = bad_json"
| "scan_seq item close (Suc n) s = rbind (item s) (\<lambda>(v, r).
     case skip_ws r of
       c # r' \<Rightarrow> if c = 44 then push v (scan_seq item close n (skip_ws r'))
         else if c = close then Inr ([v], r') else bad_json
     | [] \<Rightarrow> bad_json)"

definition scan_member :: "scanner \<Rightarrow> py_str \<Rightarrow> exn + ((py_str \<times> jv) \<times> py_str)" where
  "scan_member p s = (case s of
     q # r \<Rightarrow>
       if q = 34 then rbind (scan_str r) (\<lambda>(k, r).
         case skip_ws r of
           c # r \<Rightarrow> if c = 58 then rbind (p (skip_ws r)) (\<lambda>(v, r). Inr ((k, v), r)) else bad_json
         | [] \<Rightarrow> bad_json)
       else bad_json
   | [] \<Rightarrow> bad_json)"

definition as_dict :: "(py_str \<times> jv) list \<Rightarrow> (py_str \<times> jv) list" where
  "as_dict ms = fold (\<lambda>(k, v). AList.update k v) ms []"

definition scan_list :: "scanner \<Rightarrow> scanner" where
  "scan_list p s = (case skip_ws s of
     c # r \<Rightarrow> if c = 93 then Inr (VList [], r)
       else rbind (scan_seq p 93 (length s) (skip_ws s)) (\<lambda>(vs, r). Inr (VList vs, r))
   | [] \<Rightarrow> bad_json)"

definition scan_object :: "scanner \<Rightarrow> scanner" where
  "scan_object p s = (case skip_ws s of
     c # r \<Rightarrow> if c = 125 then Inr (VObj [], r)
       else rbind (scan_seq (scan_member p) 125 (length s) (skip_ws s)) (\<lambda>(ms, r). Inr (VObj (as_dict ms), r))
   | [] \<Rightarrow> bad_json)"

definition scan_once :: "scanner \<Rightarrow> scanner \<Rightarrow> scanner" where
  "scan_once on_list on_object s = (case s of
     c # r \<Rightarrow>
       if c = 34 then rbind (scan_str r) (\<lambda>(t, r). Inr (VStr t, r))
       else if c = 91 then on_list r
       else if c = 123 then on_object r
       else scan_scalar s
   | [] \<Rightarrow> bad_json)"

text \<open>The interpreter's recursion limit bounds the nesting of lists and objects.\<close>

primrec parse_value :: "nat \<Rightarrow> scanner" where
  "parse_value 0 = scan_once (\<lambda>_. Inl RecursionError) (\<lambda>_. Inl RecursionError)"
| "parse_value (Suc depth) = scan_once (scan_list (parse_value depth)) (scan_object (parse_value depth))"

definition loads :: "nat \<Rightarrow> py_str \<Rightarrow> exn + jv" where
  "loads limit s =
     (if s \<noteq> [] \<and> hd s = 65279 then bad_json
      else rbind (parse_value limit (skip_ws s)) (\<lambda>(v, r). if skip_ws r = [] then Inr v else bad_json))"

text \<open>\<open>v[key]\<close> and \<open>v.get(key)\<close>\<close>

definition jv_item :: "jv \<Rightarrow> string \<Rightarrow> exn + jv" where
  "jv_item v key = (case v of
     VObj ms \<Rightarrow> (case map_of ms (lit key) of Some w \<Rightarrow> Inr w | None \<Rightarrow> Inl KeyError)
   | _ \<Rightarrow> Inl TypeError)"

definition jv_get :: "jv \<Rightarrow> string \<Rightarrow> jv option" where
  "jv_get v key = (case v of VObj ms \<Rightarrow> map_of ms (lit key) | _ \<Rightarrow> None)"

section \<open>Writing\<close>

definition quad :: "nat \<Rightarrow> py_str" where
  "quad n = [hex_code (n div 4096), hex_code (n div 256 mod 16), hex_code (n div 16 mod 16), hex_code (n mod 16)]"

definition u4 :: "nat \<Rightarrow> py_str" where
  "u4 n = [92, 117] @ quad n"

text \<open>The escapes of \<open>ensure_ascii\<close>.\<close>

definition esc_ascii :: "nat \<Rightarrow> py_str" where
  "esc_ascii n =
     (if n \<in> {34, 92, 10, 13, 9, 8, 12} then esc_char n
      else if 32 \<le> n \<and> n \<le> 126 then [n]
      else if n < 65536 then u4 n
      else u4 (55296 + (n - 65536) div 1024 mod 1024) @ u4 (56320 + (n - 65536) mod 1024))"

text \<open>
  A style of writing is how a character is escaped and what follows a comma or a colon:
  a space by default, nothing with \<open>separators=(",", ":")\<close>.
\<close>

type_synonym style = "(nat \<Rightarrow> py_str) \<times> py_str"

definition quote_with :: "style \<Rightarrow> py_str \<Rightarrow> py_str" where
  "quote_with st s = [34] @ concat (map (fst st) s) @ [34]"

fun write_json :: "style \<Rightarrow> jval \<Rightarrow> py_str"
  and write_items :: "style \<Rightarrow> jval list \<Rightarrow> py_str"
  and write_members :: "style \<Rightarrow> (py_str \<times> jval) list \<Rightarrow> py_str" where
  "write_json st (JVInt i) = lit (int_str i)"
| "write_json st (JVStr s) = quote_with st s"
| "write_json st (JVList vs) = [91] @ write_items st vs @ [93]"
| "write_json st (JVObj ms) = [123] @ write_members st ms @ [125]"
| "write_items st [] = []"
| "write_items st [v] = write_json st v"
| "write_items st (v # w # vs) = write_json st v @ [44] @ snd st @ write_items st (w # vs)"
| "write_members st [] = []"
| "write_members st [(k, v)] = quote_with st k @ [58] @ snd st @ write_json st v"
| "write_members st ((k, v) # m # ms) =
     quote_with st k @ [58] @ snd st @ write_json st v @ [44] @ snd st @ write_members st (m # ms)"

definition json_dumps :: "jval \<Rightarrow> py_str" where
  "json_dumps = write_json (esc_ascii, [32])"

lemma compact_style: "write_json (esc_char, []) v = dumps v"
  "write_items (esc_char, []) vs = dumps_items vs" "write_members (esc_char, []) ms = dumps_members ms"
  by (induction v and vs and ms rule: dumps_dumps_items_dumps_members.induct)
     (simp_all add: quote_with_def quote_str_def)

section \<open>What was written is read back\<close>

lemma push_simps [simp]: "push x (Inr (xs, r)) = Inr (x # xs, r)" "push x (Inl e) = Inl e"
  by (simp_all add: push_def)

lemma push_Inr_iff: "push x r = Inr (ys, t) \<longleftrightarrow> (\<exists>xs. r = Inr (xs, t) \<and> ys = x # xs)"
  by (auto simp: push_def rbind_Inr_iff)

lemma hex_digit_code [simp]: "n < 16 \<Longrightarrow> hex_digit (hex_code n) = Some n"
  by (simp add: hex_digit_def hex_code_def)

lemma u4_digits: "n < 65536 \<Longrightarrow> 4096 * (n div 4096) + 256 * (n div 256 mod 16) + 16 * (n div 16 mod 16) + n mod 16 = n" for n :: nat
proof -
  have "n div 16 = 16 * (n div 256) + n div 16 mod 16" "n div 256 = 16 * (n div 4096) + n div 256 mod 16"
    using mult_div_mod_eq [of 16 "n div 16"] mult_div_mod_eq [of 16 "n div 256"]
    by (simp_all add: div_mult2_eq [symmetric])
  then show ?thesis using mult_div_mod_eq [of 16 n] by linarith
qed

lemma hex4_quad: "n < 65536 \<Longrightarrow> hex4 (quad n @ r) = Some n"
proof -
  assume "n < 65536"
  then have "n div 4096 < 16" by (simp add: less_mult_imp_div_less)
  then show ?thesis using u4_digits [OF \<open>n < 65536\<close>] by (simp add: quad_def hex4_def)
qed

lemma length_quad [simp]: "length (quad n) = 4"
  by (simp add: quad_def)

lemma scan_escape_u:
  "hex4 t = Some n \<Longrightarrow> scan_str (92 # 117 # t) =
     (case (if is_high n then low_half (drop 4 t) else None) of
        Some m \<Rightarrow> push (65536 + (n - 55296) * 1024 + (m - 56320)) (scan_str (drop 10 t))
      | None \<Rightarrow> push n (scan_str (drop 4 t)))"
  by (subst scan_str.simps) simp

lemma scan_quote [simp]: "scan_str (34 # r) = Inr ([], r)"
  by (simp add: scan_str.simps [of "34 # r"])

lemma scan_plain: "32 \<le> c \<Longrightarrow> c \<noteq> 34 \<Longrightarrow> c \<noteq> 92 \<Longrightarrow> scan_str (c # r) = push c (scan_str r)"
  by (simp add: scan_str.simps [of "c # r"])

lemma scan_simple: "simple_escape e = Some d \<Longrightarrow> scan_str (92 # e # r) = push d (scan_str r)"
  by (subst scan_str.simps) (auto simp: simple_escape_def split: if_splits)

lemma scan_u4:
  assumes "n < 65536" and "\<not> is_high n"
  shows "scan_str (u4 n @ r) = push n (scan_str r)"
  using scan_escape_u [OF hex4_quad [OF assms(1), of r]] assms(2) by (simp add: u4_def)

lemma scan_pair:
  assumes "is_high h" and "is_low l"
  shows "scan_str (u4 h @ u4 l @ r) = push (65536 + (h - 55296) * 1024 + (l - 56320)) (scan_str r)"
proof -
  have h: "h < 65536" and l: "l < 65536" using assms by (simp_all add: is_high_def is_low_def)
  have "low_half (u4 l @ r) = Some l"
    using hex4_quad [OF l, of r] assms(2) by (simp add: low_half_def u4_def)
  then show ?thesis
    using scan_escape_u [OF hex4_quad [OF h, of "u4 l @ r"]] assms(1) by (simp add: u4_def)
qed

text \<open>A way of escaping that the scanner undoes, on the characters of proper texts.\<close>

definition readable_esc :: "(nat \<Rightarrow> py_str) \<Rightarrow> bool" where
  "readable_esc esc \<longleftrightarrow> (\<forall>c r. is_scalar c \<longrightarrow> scan_str (esc c @ r) = push c (scan_str r))"

lemma short_escape:
  assumes "c \<in> {34, 92, 10, 13, 9, 8, 12}"
  shows "scan_str (esc_char c @ r) = push c (scan_str r)"
  using assms by (auto simp: esc_char_def scan_simple simple_escape_def)

lemma readable_compact: "readable_esc esc_char"
  unfolding readable_esc_def
proof (intro allI impI)
  fix c :: nat and r
  consider "c \<in> {34, 92, 10, 13, 9, 8, 12}" | "c < 32" "c \<notin> {34, 92, 10, 13, 9, 8, 12}" | "32 \<le> c" "c \<noteq> 34" "c \<noteq> 92"
    by fastforce
  then show "scan_str (esc_char c @ r) = push c (scan_str r)"
  proof cases
    case 2
    then have "esc_char c = u4 c" by (simp add: esc_char_def u4_def quad_def hex_code_def)
    then show ?thesis using 2 by (simp add: scan_u4 is_high_def)
  qed (simp_all only: short_escape, simp add: esc_char_def scan_plain)
qed

lemma readable_ascii: "readable_esc esc_ascii"
  unfolding readable_esc_def
proof (intro allI impI)
  fix c r assume s: "is_scalar c"
  consider "c \<in> {34, 92, 10, 13, 9, 8, 12}" | "c \<notin> {34, 92, 10, 13, 9, 8, 12}" "32 \<le> c" "c \<le> 126"
    | "c \<notin> {34, 92, 10, 13, 9, 8, 12}" "\<not> (32 \<le> c \<and> c \<le> 126)" "c < 65536" | "65536 \<le> c"
    by linarith
  then show "scan_str (esc_ascii c @ r) = push c (scan_str r)"
  proof cases
    case 1
    then show ?thesis using short_escape by (simp add: esc_ascii_def)
  next
    case 2
    then show ?thesis by (simp add: esc_ascii_def scan_plain)
  next
    case 3
    then have "esc_ascii c = u4 c" by (auto simp: esc_ascii_def)
    moreover have "\<not> is_high c" using s by (auto simp: is_scalar_def is_surrogate_def is_high_def)
    ultimately show ?thesis using 3 by (simp add: scan_u4)
  next
    case 4
    define q where "q = c - 65536"
    have q: "q < 1048576" "c = 65536 + q" using 4 s by (auto simp: q_def is_scalar_def)
    have "q div 1024 < 1024" using q by (simp add: less_mult_imp_div_less)
    then have m: "q div 1024 mod 1024 = q div 1024" by simp
    have e: "esc_ascii c = u4 (55296 + q div 1024) @ u4 (56320 + q mod 1024)"
      using 4 by (auto simp: esc_ascii_def q_def [symmetric] m)
    have "is_high (55296 + q div 1024)" "is_low (56320 + q mod 1024)"
      using \<open>q div 1024 < 1024\<close> by (simp_all add: is_high_def is_low_def)
    then show ?thesis unfolding e
      by (simp add: scan_pair q(2) add.commute)
  qed
qed

lemma scan_quoted:
  assumes "readable_esc (fst st)" and "is_text s"
  shows "scan_str (concat (map (fst st) s) @ 34 # r) = Inr (s, r)"
  using assms(2)
proof (induction s)
  case (Cons c s)
  then have "scan_str (fst st c @ concat (map (fst st) s) @ 34 # r) = push c (scan_str (concat (map (fst st) s) @ 34 # r))"
    using assms(1) by (simp add: readable_esc_def)
  with Cons show ?case by simp
qed simp

text \<open>What may follow a number: the end, or a character that continues none.\<close>

definition stops :: "py_str \<Rightarrow> bool" where
  "stops r \<longleftrightarrow> r = [] \<or> (\<not> dec_digit (hd r) \<and> hd r \<notin> {46, 69, 101})"

lemma stops_simps [simp]: "stops []" "stops (c # r) \<longleftrightarrow> \<not> dec_digit c \<and> c \<notin> {46, 69, 101}"
  by (simp_all add: stops_def)

lemma nat_str_not_zero: "0 < n \<Longrightarrow> \<exists>c t. lit (nat_str n) = c # t \<and> 49 \<le> c \<and> c \<le> 57"
proof (induction n rule: nat_str.induct)
  case (1 n)
  show ?case
  proof (cases "n < 10")
    case True
    have "lit (nat_str n) = [48 + n]" using True by (simp add: nat_str.simps [of n] lit_def digit_char del: nth_Cons_numeral)
    then show ?thesis using 1(2) True by simp
  next
    case False
    then have "0 < n div 10" by (simp add: div_greater_zero_iff)
    with 1(1) [OF False] show ?thesis by (auto simp: nat_str.simps [of n] False lit_append)
  qed
qed

lemma int_part_nat:
  assumes "stops r"
  shows "int_part (lit (nat_str n) @ r) = lit (nat_str n)"
proof (cases "n = 0")
  case True
  have "lit (nat_str 0) = [48]" by (simp add: nat_str.simps [of 0] lit_def)
  then show ?thesis using True by (simp add: int_part_def)
next
  case False
  obtain c t where c: "lit (nat_str n) = c # t" "49 \<le> c" "c \<le> 57" using nat_str_not_zero [of n] False by auto
  have "\<forall>d \<in> set t. dec_digit d" using nat_str_digits [of n] c(1) by simp
  moreover have "takeWhile dec_digit r = []" using assms by (cases r) auto
  ultimately have "takeWhile dec_digit (t @ r) = t" by (simp add: takeWhile_append2)
  then show ?thesis using c by (simp add: int_part_def)
qed

lemma no_more_number: "stops r \<Longrightarrow> frac_part r = [] \<and> exp_part r = []"
  by (cases r) (auto simp: frac_part_def exp_part_def split: list.split)

definition int_fits :: "int \<Rightarrow> bool" where
  "int_fits i \<longleftrightarrow> length (nat_str (nat \<bar>i\<bar>)) \<le> INT_MAX_STR_DIGITS"

lemma scan_int:
  assumes "stops r" and "int_fits i"
  shows "scan_number (lit (int_str i) @ r) = Inr (VInt i, r)"
proof -
  let ?n = "lit (nat_str (nat \<bar>i\<bar>))"
  obtain c t where c: "?n = c # t" "dec_digit c" using nat_str_head by blast
  have d: "dec_value ?n = nat \<bar>i\<bar>" "?n \<noteq> []" using nat_str_digits by auto
  have l: "length ?n \<le> INT_MAX_STR_DIGITS" using assms(2) by (simp add: int_fits_def lit_def)
  note e = no_more_number [OF assms(1)] int_part_nat [OF assms(1), of "nat \<bar>i\<bar>"]
  show ?thesis
  proof (cases "i < 0")
    case True
    then show ?thesis using e d l by (simp add: scan_number_def lit_int_str Let_def)
  next
    case False
    have "(case ?n @ r of [] \<Rightarrow> [] | c # x \<Rightarrow> if c = 45 then [c] else []) = []" using c by simp
    then show ?thesis using e d l False by (simp add: scan_number_def lit_int_str Let_def)
  qed
qed


section \<open>Values are read back\<close>

text \<open>A value whose texts are proper, whose integers can be read and whose keys are distinct.\<close>

fun jplain :: "jval \<Rightarrow> bool" where
  "jplain (JVInt i) \<longleftrightarrow> int_fits i"
| "jplain (JVStr s) \<longleftrightarrow> is_text s"
| "jplain (JVList vs) \<longleftrightarrow> (\<forall>v \<in> set vs. jplain v)"
| "jplain (JVObj ms) \<longleftrightarrow> dict_ok ms \<and> (\<forall>m \<in> set ms. is_text (fst m) \<and> jplain (snd m))"

fun jdepth :: "jval \<Rightarrow> nat" where
  "jdepth (JVInt i) = 0"
| "jdepth (JVStr s) = 0"
| "jdepth (JVList vs) = Suc (Max (insert 0 (jdepth ` set vs)))"
| "jdepth (JVObj ms) = Suc (Max (insert 0 ((\<lambda>m. jdepth (snd m)) ` set ms)))"

fun jv_of :: "jval \<Rightarrow> jv" where
  "jv_of (JVInt i) = VInt i"
| "jv_of (JVStr s) = VStr s"
| "jv_of (JVList vs) = VList (map jv_of vs)"
| "jv_of (JVObj ms) = VObj (map (\<lambda>m. (fst m, jv_of (snd m))) ms)"

definition good_style :: "style \<Rightarrow> bool" where
  "good_style st \<longleftrightarrow> readable_esc (fst st) \<and> (\<forall>c \<in> set (snd st). ws_char c)"

lemma good_styles: "good_style (esc_ascii, [32])" "good_style (esc_char, [])"
  by (simp_all add: good_style_def readable_ascii readable_compact ws_char_def)

text \<open>The characters a value can begin with.\<close>

definition starts_value :: "py_str \<Rightarrow> bool" where
  "starts_value s \<longleftrightarrow> s \<noteq> [] \<and> (dec_digit (hd s) \<or> hd s \<in> {34, 45, 91, 123})"

lemma skip_ws_stays: "s \<noteq> [] \<Longrightarrow> \<not> ws_char (hd s) \<Longrightarrow> skip_ws s = s"
  by (cases s) (auto simp: skip_ws_def)

lemma skip_ws_value [simp]: "starts_value s \<Longrightarrow> skip_ws s = s"
  by (rule skip_ws_stays) (auto simp: starts_value_def ws_char_def)

lemma skip_ws_append: "\<forall>c \<in> set w. ws_char c \<Longrightarrow> skip_ws (w @ s) = skip_ws s"
  by (simp add: skip_ws_def)

lemma skip_ws_Cons [simp]: "\<not> ws_char c \<Longrightarrow> skip_ws (c # s) = c # s"
  by (simp add: skip_ws_def)

lemma not_ws [simp]: "\<not> ws_char 34" "\<not> ws_char 44" "\<not> ws_char 58" "\<not> ws_char 91" "\<not> ws_char 93" "\<not> ws_char 123" "\<not> ws_char 125"
  by (simp_all add: ws_char_def)

lemma starts_value_write: "starts_value (write_json st v @ x)"
proof (cases v)
  case (JVInt i)
  with int_str_head [of i] show ?thesis by (auto simp: starts_value_def)
qed (simp_all add: starts_value_def quote_with_def)

lemma word_head: "word_at (c # w) s \<longleftrightarrow> (\<exists>t. s = of_char c # t \<and> word_at w t)"
  by (cases s) (auto simp: word_at_def lit_def)

lemma scalar_number:
  assumes "s = c # t" and "dec_digit c \<or> c = 45 \<and> (\<exists>d u. t = d # u \<and> dec_digit d)"
  shows "scan_scalar s = scan_number s"
  using assms by (auto simp: scan_scalar_def json_words_def word_head)

lemma scan_once_int:
  assumes "stops x" and "int_fits i"
  shows "scan_once l ob (lit (int_str i) @ x) = Inr (VInt i, x)"
proof -
  obtain d u where d: "lit (nat_str (nat \<bar>i\<bar>)) = d # u" "dec_digit d" using nat_str_head by blast
  then obtain c t where c: "lit (int_str i) = c # t" "dec_digit c \<or> c = 45 \<and> (\<exists>d u. t = d # u \<and> dec_digit d)"
    by (cases "i < 0") (auto simp: lit_int_str)
  then have "scan_once l ob (lit (int_str i) @ x) = scan_scalar (lit (int_str i) @ x)"
    by (auto simp: scan_once_def)
  also have "\<dots> = scan_number (lit (int_str i) @ x)"
    using c by (intro scalar_number [of _ c "t @ x"]) auto
  finally show ?thesis by (simp add: scan_int [OF assms])
qed

lemma scan_seq_Suc:
  "scan_seq item close (Suc n) s = Inr (vs, t) \<longleftrightarrow> (\<exists>v r c r'. item s = Inr (v, r) \<and> skip_ws r = c # r'
     \<and> (c = 44 \<and> (\<exists>us. vs = v # us \<and> scan_seq item close n (skip_ws r') = Inr (us, t))
        \<or> c \<noteq> 44 \<and> c = close \<and> vs = [v] \<and> t = r'))"
proof (cases "item s")
  case (Inr y)
  obtain v r where y: "y = (v, r)" by (cases y)
  then show ?thesis using Inr by (cases "skip_ws r") (auto simp: push_Inr_iff)
qed simp

declare scan_seq.simps(2) [simp del]

text \<open>The counter of the iterations does not matter once it is large enough to return.\<close>

lemma scan_seq_more: "scan_seq item close n s = Inr (vs, t) \<Longrightarrow> n \<le> m \<Longrightarrow> scan_seq item close m s = Inr (vs, t)"
proof (induction n arbitrary: m s vs)
  case (Suc n)
  obtain k where k: "m = Suc k" "n \<le> k" using Suc.prems(2) by (cases m) auto
  from Suc.prems(1) obtain v r c r' where v: "item s = Inr (v, r)" "skip_ws r = c # r'"
    "c = 44 \<and> (\<exists>us. vs = v # us \<and> scan_seq item close n (skip_ws r') = Inr (us, t)) \<or> c \<noteq> 44 \<and> c = close \<and> vs = [v] \<and> t = r'"
    unfolding scan_seq_Suc by (elim exE conjE) (rule that)
  from v(3) show ?case
  proof (elim disjE conjE exE)
    fix us assume "c = 44" "vs = v # us" "scan_seq item close n (skip_ws r') = Inr (us, t)"
    with v(1,2) Suc.IH [OF this(3) k(2)] show ?thesis by (simp add: k(1) scan_seq_Suc)
  next
    assume "c \<noteq> 44" "c = close" "vs = [v]" "t = r'"
    with v(1,2) show ?thesis by (simp add: k(1) scan_seq_Suc)
  qed
qed simp


lemma starts_not [simp]: "starts_value s \<Longrightarrow> s \<noteq> [] \<and> hd s \<noteq> 93 \<and> hd s \<noteq> 125"
  by (auto simp: starts_value_def)

lemma good_sep: "good_style st \<Longrightarrow> skip_ws (snd st @ s) = skip_ws s"
  by (simp add: good_style_def skip_ws_append)

lemma quoted_scan:
  assumes "good_style st" and "is_text s"
  shows "\<exists>r. quote_with st s @ x = 34 # r \<and> scan_str r = Inr (s, x)"
  using scan_quoted [of st s x] assms by (simp add: quote_with_def good_style_def)

text \<open>A list of items separated by commas, each of which \<open>item\<close> reads back.\<close>

fun joined :: "py_str \<Rightarrow> py_str list \<Rightarrow> py_str" where
  "joined sep [] = []"
| "joined sep [t] = t"
| "joined sep (t # u # ts) = t @ [44] @ sep @ joined sep (u # ts)"

lemma write_items_joined: "write_items st vs = joined (snd st) (map (write_json st) vs)"
  by (induction vs rule: induct_list012) simp_all

definition write_member :: "style \<Rightarrow> py_str \<times> jval \<Rightarrow> py_str" where
  "write_member st m = quote_with st (fst m) @ [58] @ snd st @ write_json st (snd m)"

lemma write_members_joined: "write_members st ms = joined (snd st) (map (write_member st) ms)"
  by (induction ms rule: induct_list012) (auto simp: write_member_def)

lemma scan_joined:
  assumes "good_style st" and "ts \<noteq> []" and "length ts = length vs" and "close \<noteq> 44" "\<not> ws_char close" "close \<notin> {46, 69, 101}" "\<not> dec_digit close"
    and "\<And>i x. i < length ts \<Longrightarrow> stops x \<Longrightarrow> item (ts ! i @ x) = Inr (vs ! i, x)"
    and "\<And>i x. i < length ts \<Longrightarrow> skip_ws (ts ! i @ x) = ts ! i @ x"
    and "length ts \<le> n"
  shows "scan_seq item close n (joined (snd st) ts @ close # x) = Inr (vs, x)"
  using assms(2,3,8-)
proof (induction ts arbitrary: vs n rule: induct_list012)
  case (2 t)
  then obtain v k where "vs = [v]" "n = Suc k" by (cases vs; cases n) auto
  with 2(3) [of 0 "close # x"] show ?case using assms(4-7) by (simp add: scan_seq_Suc)
next
  case (3 t u ts)
  then obtain v ws k where k: "vs = v # ws" "n = Suc k" by (cases vs; cases n) auto
  let ?rest = "joined (snd st) (u # ts) @ close # x"
  have "scan_seq item close k ?rest = Inr (ws, x)"
    using 3(2) [of ws k] 3(4-) k
    by (metis Suc_le_mono length_Cons less_Suc_eq_0_disj list.distinct(1) not_less_eq nth_Cons_Suc old.nat.inject)
  moreover have "skip_ws (snd st @ ?rest) = ?rest"
    using 3(6) [of 1] good_sep [OF assms(1)] by (cases ts) simp_all
  moreover have "item (t @ 44 # snd st @ ?rest) = Inr (v, 44 # snd st @ ?rest)"
    using 3(5) [of 0 "44 # snd st @ ?rest"] k by simp
  ultimately show ?case using k by (simp add: scan_seq_Suc)
qed simp


lemma length_joined: "length ts \<le> Suc (length (joined sep ts))"
  by (induction sep ts rule: joined.induct) auto

lemma depth_elem: "v \<in> set vs \<Longrightarrow> jdepth (JVList vs) \<le> Suc d \<Longrightarrow> jdepth v \<le> d"
  by (auto intro: order_trans [OF Max_ge])

lemma depth_member: "m \<in> set ms \<Longrightarrow> jdepth (JVObj ms) \<le> Suc d \<Longrightarrow> jdepth (snd m) \<le> d"
  by (auto intro: order_trans [OF Max_ge])

lemma fold_update_distinct: "dict_ok (acc @ ms) \<Longrightarrow> fold (\<lambda>(k, v). AList.update k v) ms acc = acc @ ms"
proof (induction ms arbitrary: acc)
  case (Cons m ms)
  obtain k v where m: "m = (k, v)" by (cases m)
  have "k \<notin> fst ` set acc" using Cons.prems by (auto simp: m)
  then show ?case using Cons.IH [of "acc @ [m]"] Cons.prems by (simp add: m update_append_new)
qed simp

lemma as_dict_distinct: "dict_ok ms \<Longrightarrow> as_dict ms = ms"
  using fold_update_distinct [of "[]" ms] by (simp add: as_dict_def)

lemma read_member:
  assumes "good_style st" and "is_text (fst m)"
    and "p (write_json st (snd m) @ x) = Inr (v, x)"
  shows "scan_member p (write_member st m @ x) = Inr ((fst m, v), x)"
proof -
  let ?y = "58 # snd st @ write_json st (snd m) @ x"
  obtain r where r: "quote_with st (fst m) @ ?y = 34 # r" "scan_str r = Inr (fst m, ?y)"
    using quoted_scan [OF assms(1,2), of ?y] by blast
  have "skip_ws (snd st @ write_json st (snd m) @ x) = write_json st (snd m) @ x"
    using good_sep [OF assms(1)] skip_ws_value [OF starts_value_write] by simp
  then show ?thesis using r assms(3) by (simp add: write_member_def scan_member_def)
qed

lemma read_value:
  assumes "good_style st"
  shows "jplain v \<Longrightarrow> jdepth v \<le> d \<Longrightarrow> stops x \<Longrightarrow> parse_value d (write_json st v @ x) = Inr (jv_of v, x)"
proof (induction v arbitrary: d x)
  case (JVInt i)
  then show ?case by (cases d) (simp_all add: scan_once_int)
next
  case (JVStr s)
  obtain r where "quote_with st s @ x = 34 # r" "scan_str r = Inr (s, x)"
    using quoted_scan [OF assms, of s x] JVStr by auto
  then show ?case by (cases d) (simp_all add: scan_once_def)
next
  case (JVList vs)
  then obtain e where d: "d = Suc e" by (cases d) auto
  let ?ts = "map (write_json st) vs" and ?s = "joined (snd st) (map (write_json st) vs) @ 93 # x"
  have v: "parse_value e (write_json st v @ y) = Inr (jv_of v, y)" if "v \<in> set vs" "stops y" for v y
    using JVList.IH [OF that(1)] JVList.prems that depth_elem [OF that(1)] by (simp add: d)
  have "parse_value d (write_json st (JVList vs) @ x) = scan_list (parse_value e) ?s"
    by (simp add: d scan_once_def write_items_joined)
  also have "\<dots> = Inr (VList (map jv_of vs), x)"
  proof (cases "vs = []")
    case False
    have w: "skip_ws ?s = ?s" "hd ?s \<noteq> 93" "?s \<noteq> []"
    proof -
      obtain v ws where "vs = v # ws" using False by (cases vs) auto
      then obtain y where "?s = write_json st v @ y" by (cases ws) auto
      then have "starts_value ?s" by (simp only: starts_value_write)
      then show "skip_ws ?s = ?s" "hd ?s \<noteq> 93" "?s \<noteq> []" by (blast dest: skip_ws_value starts_not)+
    qed
    have "scan_seq (parse_value e) 93 (length ?s) ?s = Inr (map jv_of vs, x)"
    proof (rule scan_joined [OF assms])
      show "length ?ts \<le> length ?s" using length_joined [of ?ts "snd st"] by simp
      show "skip_ws (?ts ! i @ y) = ?ts ! i @ y" if "i < length ?ts" for i y
        using that skip_ws_value [OF starts_value_write] by simp
    qed (use False v in simp_all)
    moreover obtain c r where "?s = c # r" "c \<noteq> 93" using w by (cases ?s) auto
    ultimately show ?thesis using w(1) by (simp add: scan_list_def)
  qed (simp add: scan_list_def)
  finally show ?case by simp
next
  case (JVObj ms)
  then obtain e where d: "d = Suc e" by (cases d) auto
  let ?ts = "map (write_member st) ms" and ?s = "joined (snd st) (map (write_member st) ms) @ 125 # x"
  let ?vs = "map (\<lambda>m. (fst m, jv_of (snd m))) ms"
  have v: "scan_member (parse_value e) (write_member st m @ y) = Inr ((fst m, jv_of (snd m)), y)"
    if "m \<in> set ms" "stops y" for m y
  proof (rule read_member [OF assms])
    have "snd m \<in> Basic_BNFs.snds m" by (cases m) simp
    from JVObj.IH [OF that(1) this] show "parse_value e (write_json st (snd m) @ y) = Inr (jv_of (snd m), y)"
      using JVObj.prems that depth_member [OF that(1)] by (simp add: d)
    show "is_text (fst m)" using JVObj.prems that by simp
  qed
  have "parse_value d (write_json st (JVObj ms) @ x) = scan_object (parse_value e) ?s"
    by (simp add: d scan_once_def write_members_joined)
  also have "\<dots> = Inr (VObj ?vs, x)"
  proof (cases "ms = []")
    case False
    have q: "skip_ws (write_member st m @ y) = write_member st m @ y" "hd (write_member st m @ y) = 34" for m y
      by (simp_all add: write_member_def quote_with_def)
    have w: "skip_ws ?s = ?s" "hd ?s \<noteq> 125" "?s \<noteq> []"
    proof -
      obtain m ns where "ms = m # ns" using False by (cases ms) auto
      then obtain y where "?s = write_member st m @ y" by (cases ns) auto
      then show "skip_ws ?s = ?s" "hd ?s \<noteq> 125" "?s \<noteq> []" using q [of m y] by (simp_all add: write_member_def quote_with_def)
    qed
    have "scan_seq (scan_member (parse_value e)) 125 (length ?s) ?s = Inr (?vs, x)"
    proof (rule scan_joined [OF assms])
      show "length ?ts \<le> length ?s" using length_joined [of ?ts "snd st"] by simp
    qed (use False v q(1) in simp_all)
    moreover obtain c r where "?s = c # r" "c \<noteq> 125" using w by (cases ?s) auto
    moreover have "as_dict ?vs = ?vs" using JVObj.prems by (intro as_dict_distinct) (simp add: comp_def)
    ultimately show ?thesis using w(1) by (simp add: scan_object_def)
  qed (simp add: scan_object_def as_dict_def)
  finally show ?case by simp
qed

lemma loads_write:
  assumes "good_style st" and "jplain v" and "jdepth v \<le> limit"
  shows "loads limit (write_json st v) = Inr (jv_of v)"
proof -
  have s: "starts_value (write_json st v)" using starts_value_write [of st v "[]"] by simp
  then have "hd (write_json st v) \<noteq> 65279" by (auto simp: starts_value_def)
  moreover have "skip_ws (write_json st v) = write_json st v" by (rule skip_ws_value [OF s])
  moreover have "skip_ws [] = []" by (simp add: skip_ws_def)
  ultimately show ?thesis using read_value [OF assms(1), of v limit "[]"] assms(2,3)
    by (auto simp: loads_def)
qed

lemma loads_json_dumps: "jplain v \<Longrightarrow> jdepth v \<le> limit \<Longrightarrow> loads limit (json_dumps v) = Inr (jv_of v)"
  unfolding json_dumps_def by (rule loads_write [OF good_styles(1)])

lemma loads_dumps: "jplain v \<Longrightarrow> jdepth v \<le> limit \<Longrightarrow> loads limit (dumps v) = Inr (jv_of v)"
  unfolding compact_style [symmetric] by (rule loads_write [OF good_styles(2)])


section \<open>A text cut short\<close>

text \<open>
  What a scanner makes of a text it makes of every longer text, once it has read past the value:
  a number is only over when something follows it.
\<close>

definition delim :: "py_str \<Rightarrow> bool" where
  "delim r \<longleftrightarrow> r \<noteq> [] \<and> (ws_char (hd r) \<or> hd r \<in> {44, 93, 125})"

definition firm :: "(py_str \<Rightarrow> exn + ('a \<times> py_str)) \<Rightarrow> bool" where
  "firm p \<longleftrightarrow> (\<forall>s x. (\<forall>v r. p s = Inr (v, r) \<longrightarrow> p (s @ x) = Inr (v, r @ x))
     \<and> (p s = Inl RecursionError \<longrightarrow> p (s @ x) = Inl RecursionError))"

definition steady :: "(py_str \<Rightarrow> exn + ('a \<times> py_str)) \<Rightarrow> bool" where
  "steady p \<longleftrightarrow> (\<forall>s x. (\<forall>v r. p s = Inr (v, r) \<longrightarrow> delim r \<longrightarrow> p (s @ x) = Inr (v, r @ x))
     \<and> (p s = Inl RecursionError \<longrightarrow> p (s @ x) = Inl RecursionError))"

lemma firmD: "firm p \<Longrightarrow> p s = Inr (v, r) \<Longrightarrow> p (s @ x) = Inr (v, r @ x)"
  "firm p \<Longrightarrow> p s = Inl RecursionError \<Longrightarrow> p (s @ x) = Inl RecursionError"
  by (simp_all add: firm_def)

lemma steady_readsD: "steady p \<Longrightarrow> p s = Inr (v, r) \<Longrightarrow> delim r \<Longrightarrow> p (s @ x) = Inr (v, r @ x)"
  "steady p \<Longrightarrow> p s = Inl RecursionError \<Longrightarrow> p (s @ x) = Inl RecursionError"
  by (simp_all add: steady_def)

lemma hex4_more: "hex4 s = Some n \<Longrightarrow> hex4 (s @ x) = Some n \<and> 4 \<le> length s"
  by (auto simp: hex4_def split: list.splits)

lemma hex4_length: "hex4 s = Some n \<Longrightarrow> 4 \<le> length s"
  by (simp add: hex4_more [of s n "[]"])

lemma low_half_more:
  assumes "scan_str r = Inr y"
  shows "low_half (r @ x) = low_half r"
proof (cases r)
  case (Cons a q)
  show ?thesis
  proof (cases q)
    case Nil
    have "scan_str [92] = bad_json" by (simp add: scan_str.simps [of "[92]"])
    then have "a \<noteq> 92" using assms Cons Nil by auto
    then show ?thesis using Cons Nil by (simp add: low_half_def split: list.split)
  next
    fix b t assume q: "q = b # t"
    show ?thesis
    proof (cases "a = 92 \<and> b = 117")
      case True
      then obtain n where "hex4 t = Some n"
        using assms Cons q by (cases "hex4 t") (simp_all add: scan_str.simps [of "92 # 117 # t"])
      then show ?thesis using hex4_more [of t n x] True Cons q by (simp add: low_half_def)
    qed (use Cons q in \<open>auto simp: low_half_def\<close>)
  qed
qed (use assms in \<open>simp add: scan_str.simps [of "[]"]\<close>)

lemma low_half_length: "low_half r = Some m \<Longrightarrow> 6 \<le> length r"
  by (auto simp: low_half_def split: list.splits if_splits option.splits dest: hex4_length)

lemma value_errors_push [simp]: "value_errors (push x r) = value_errors r"
  by (cases r) (auto simp: push_def)

lemma scan_str_value_errors: "value_errors (scan_str s)"
proof (induction "length s" arbitrary: s rule: less_induct)
  case less
  show ?case
    by (subst scan_str.simps) (simp add: less split: list.split option.split)
qed

lemma scan_str_errors: "scan_str s = Inl e \<Longrightarrow> is_value_error e"
  using scan_str_value_errors [of s] by simp

lemma scan_str_more: "scan_str s = Inr (t, r) \<Longrightarrow> scan_str (s @ x) = Inr (t, r @ x)"
proof (induction s arbitrary: t rule: scan_str.induct)
  case (1 s)
  obtain c q where s: "s = c # q" using "1.prems" by (cases s) (simp_all add: scan_str.simps [of "[]"])
  consider "c = 34" | "c \<noteq> 34" "c \<noteq> 92" "\<not> c < 32" | "c = 92"
    using "1.prems" by (fastforce simp: s scan_str.simps [of "c # q"] split: if_splits)
  then show ?case
  proof cases
    case 1
    then show ?thesis using "1.prems" by (simp add: s)
  next
    case 2
    then show ?thesis using "1.prems" "1.IH"(4) [OF s] by (auto simp: s scan_plain push_Inr_iff)
  next
    case 3
    obtain e q' where q: "q = e # q'" using "1.prems" 3 by (cases q) (simp_all add: s scan_str.simps [of "[92]"])
    show ?thesis
    proof (cases "e = 117")
      case False
      obtain d where d: "simple_escape e = Some d" "push d (scan_str q') = Inr (t, r)"
        using "1.prems" False 3 by (subst (asm) scan_str.simps) (auto simp: s q split: option.splits)
      then show ?thesis using "1.IH"(3) [OF s _ 3 q False d(1)] by (auto simp: s q 3 scan_simple push_Inr_iff)
    next
      case True
      obtain n where n: "hex4 q' = Some n"
        using "1.prems" True 3 by (subst (asm) scan_str.simps) (auto simp: s q split: option.splits)
      note m = hex4_more [OF n]
      let ?l = "if is_high n then low_half (drop 4 q') else None"
      have l: "(if is_high n then low_half (drop 4 (q' @ x)) else None) = ?l"
      proof (cases ?l)
        case None
        then have "push n (scan_str (drop 4 q')) = Inr (t, r)"
          using "1.prems" scan_escape_u [OF n] by (simp add: s q 3 True)
        then show ?thesis using low_half_more [of "drop 4 q'"] m by (auto simp: push_Inr_iff)
      next
        case (Some k)
        then have "low_half (drop 4 q') = Some k" by (simp split: if_splits)
        then have "low_half (drop 4 q' @ x) = Some k"
          using hex4_more by (auto simp: low_half_def split: list.splits if_splits option.splits)
        then show ?thesis using Some m by (simp split: if_splits)
      qed
      show ?thesis
      proof (cases ?l)
        case None
        then have "push n (scan_str (drop 4 q')) = Inr (t, r)"
          using "1.prems" scan_escape_u [OF n] by (simp add: s q 3 True)
        then show ?thesis
          using "1.IH"(1) [OF s _ 3 q True n None] scan_escape_u [OF conjunct1 [OF m]] m None l
          by (auto simp: s q 3 True push_Inr_iff)
      next
        case (Some k)
        then have p: "push (65536 + (n - 55296) * 1024 + (k - 56320)) (scan_str (drop 10 q')) = Inr (t, r)"
          using "1.prems" scan_escape_u [OF n] by (simp add: s q 3 True)
        have "10 \<le> length q'" using low_half_length [of "drop 4 q'" k] Some m by (simp split: if_splits)
        then show ?thesis
          using "1.IH"(2) [OF s _ 3 q True n Some] scan_escape_u [OF conjunct1 [OF m]] Some l p
          by (auto simp: s q 3 True push_Inr_iff)
      qed
    qed
  qed
qed


lemma skip_ws_more: "skip_ws r = c # q \<Longrightarrow> skip_ws (r @ x) = c # q @ x"
  unfolding skip_ws_def by (induction r) auto

lemma delim_of: "skip_ws r = c # q \<Longrightarrow> c \<in> {44, 93, 125} \<Longrightarrow> delim r"
  by (cases r) (auto simp: delim_def skip_ws_def split: if_splits)

lemma scan_seq_raises:
  "scan_seq item close (Suc n) s = Inl RecursionError \<longleftrightarrow> item s = Inl RecursionError \<or>
     (\<exists>v r q. item s = Inr (v, r) \<and> skip_ws r = 44 # q \<and> scan_seq item close n (skip_ws q) = Inl RecursionError)"
proof (cases "item s")
  case (Inr y)
  obtain v r where y: "y = (v, r)" by (cases y)
  then show ?thesis using Inr by (cases "skip_ws r") (auto simp: scan_seq.simps(2) push_def rbind_Inl_iff)
qed (simp add: scan_seq.simps(2))

lemma scan_seq_empty: "item [] = bad_json \<Longrightarrow> scan_seq item close n [] = bad_json"
  by (cases n) (simp_all add: scan_seq.simps(2))

lemma skip_ws_append_more: "skip_ws q \<noteq> [] \<Longrightarrow> skip_ws (q @ x) = skip_ws q @ x"
  unfolding skip_ws_def by (induction q) auto

text \<open>An item is followed by a comma or by a closing bracket, so it is over.\<close>

lemma steady_seq:
  assumes "steady item" and "item [] = bad_json" and "close \<in> {93, 125}" and "n \<le> m"
  shows "scan_seq item close n s = Inr (vs, t) \<Longrightarrow> scan_seq item close m (s @ x) = Inr (vs, t @ x)"
    and "scan_seq item close n s = Inl RecursionError \<Longrightarrow> scan_seq item close m (s @ x) = Inl RecursionError"
  using assms(4)
proof (induction n arbitrary: m s vs)
  case (Suc n)
  {
    case 1
    obtain k where k: "m = Suc k" "n \<le> k" using 1(2) by (cases m) auto
    from 1(1) obtain v r c q where v: "item s = Inr (v, r)" "skip_ws r = c # q"
      "c = 44 \<and> (\<exists>us. vs = v # us \<and> scan_seq item close n (skip_ws q) = Inr (us, t)) \<or> c \<noteq> 44 \<and> c = close \<and> vs = [v] \<and> t = q"
      unfolding scan_seq_Suc by (elim exE conjE) (rule that)
    then have "delim r" using assms(3) delim_of [OF v(2)] by auto
    note i = steady_readsD(1) [OF assms(1) v(1) this, of x] skip_ws_more [OF v(2), of x]
    from v(3) show ?case
    proof (elim disjE conjE exE)
      fix us assume c: "c = 44" "vs = v # us" "scan_seq item close n (skip_ws q) = Inr (us, t)"
      then have "skip_ws q \<noteq> []" using scan_seq_empty [of item, OF assms(2)] by auto
      with Suc.IH(1) [OF c(3) k(2)] i c show ?thesis by (simp add: k(1) scan_seq_Suc skip_ws_append_more)
    next
      assume "c \<noteq> 44" "c = close" "vs = [v]" "t = q"
      with i show ?thesis by (simp add: k(1) scan_seq_Suc)
    qed
  next
    case 2
    obtain k where k: "m = Suc k" "n \<le> k" using 2(2) by (cases m) auto
    from 2(1) [unfolded scan_seq_raises] show ?case
    proof (elim disjE exE conjE)
      assume "item s = Inl RecursionError"
      with steady_readsD(2) [OF assms(1)] show ?thesis unfolding scan_seq_raises k(1) by blast
    next
      fix v r q assume v: "item s = Inr (v, r)" "skip_ws r = 44 # q" "scan_seq item close n (skip_ws q) = Inl RecursionError"
      then have "skip_ws q \<noteq> []" using scan_seq_empty [of item, OF assms(2)] by auto
      with Suc.IH(2) [OF v(3) k(2)] steady_readsD(1) [OF assms(1) v(1) delim_of [OF v(2)], of x] skip_ws_more [OF v(2), of x]
      show ?thesis unfolding scan_seq_raises k(1) by (simp add: skip_ws_append_more)
    qed
  }
qed simp_all

lemma scan_member_cases:
  assumes "scan_member p s = y" and "y \<noteq> bad_json"
  obtains (key) q e where "s = 34 # q" "scan_str q = Inl e" "y = Inl e"
  | (val) q k r1 w where "s = 34 # q" "scan_str q = Inr (k, r1)" "skip_ws r1 = 58 # w"
      "rbind (p (skip_ws w)) (\<lambda>(v, r). Inr ((k, v), r)) = y"
proof -
  obtain q where s: "s = 34 # q" using assms by (cases s) (auto simp: scan_member_def split: if_splits)
  show thesis
  proof (cases "scan_str q")
    case (Inl e)
    then show thesis using assms(1) s by (intro key) (auto simp: scan_member_def)
  next
    case (Inr kr)
    obtain k r1 where kr: "kr = (k, r1)" by (cases kr)
    obtain w where w: "skip_ws r1 = 58 # w" using assms s Inr kr
      by (cases "skip_ws r1") (auto simp: scan_member_def split: if_splits)
    show thesis using assms(1) s Inr kr w by (intro val) (auto simp: scan_member_def)
  qed
qed

lemma steady_member:
  assumes "steady p" and "p [] = bad_json"
  shows "steady (scan_member p)"
  unfolding steady_def
proof (intro allI conjI impI)
  fix s x v r
  assume m: "scan_member p s = Inr (v, r)" and d: "delim r"
  have "Inr (v, r) \<noteq> bad_json" by simp
  with m show "scan_member p (s @ x) = Inr (v, r @ x)"
  proof (cases rule: scan_member_cases)
    case (val q k r1 w)
    then obtain u where u: "p (skip_ws w) = Inr (u, r)" "v = (k, u)" by (auto simp: rbind_Inr_iff)
    then have "skip_ws w \<noteq> []" using assms(2) by auto
    then show ?thesis using scan_str_more [OF val(2), of x] skip_ws_more [OF val(3), of x] steady_readsD(1) [OF assms(1) u(1) d, of x] val(1) u(2)
      by (simp add: scan_member_def skip_ws_append_more)
  qed simp_all
next
  fix s x
  assume m: "scan_member p s = Inl RecursionError"
  have "Inl RecursionError \<noteq> bad_json" by simp
  with m show "scan_member p (s @ x) = Inl RecursionError"
  proof (cases rule: scan_member_cases)
    case (val q k r1 w)
    then have u: "p (skip_ws w) = Inl RecursionError" by (auto simp: rbind_Inl_iff)
    then have "skip_ws w \<noteq> []" using assms(2) by auto
    then show ?thesis using scan_str_more [OF val(2), of x] skip_ws_more [OF val(3), of x] steady_readsD(2) [OF assms(1) u, of x] val(1)
      by (simp add: scan_member_def skip_ws_append_more)
  qed (auto dest: scan_str_errors)
qed

lemma firm_list:
  assumes "steady p" and "p [] = bad_json"
  shows "firm (scan_list p)"
  unfolding firm_def
proof (intro allI conjI impI)
  fix s x v r
  assume m: "scan_list p s = Inr (v, r)"
  then obtain c q where c: "skip_ws s = c # q" by (cases "skip_ws s") (auto simp: scan_list_def)
  note skip_ws_more [OF c, of x]
  moreover have "skip_ws (s @ x) = skip_ws s @ x" using c by (simp add: skip_ws_append_more)
  ultimately show "scan_list p (s @ x) = Inr (v, r @ x)"
    using m c steady_seq(1) [OF assms, of 93 "length s" "length (s @ x)" "skip_ws s" _ r x]
    by (auto simp: scan_list_def rbind_Inr_iff split: if_splits)
next
  fix s x
  assume m: "scan_list p s = Inl RecursionError"
  then obtain c q where c: "skip_ws s = c # q" by (cases "skip_ws s") (auto simp: scan_list_def)
  then have "c \<noteq> 93" "scan_seq p 93 (length s) (skip_ws s) = Inl RecursionError"
    using m by (auto simp: scan_list_def rbind_Inl_iff split: if_splits)
  then show "scan_list p (s @ x) = Inl RecursionError"
    using c skip_ws_more [OF c, of x] steady_seq(2) [OF assms, of 93 "length s" "length (s @ x)" "skip_ws s" x]
    by (simp add: scan_list_def)
qed

lemma scan_member_empty [simp]: "scan_member p [] = bad_json"
  by (simp add: scan_member_def)

lemma firm_object:
  assumes "steady p" and "p [] = bad_json"
  shows "firm (scan_object p)"
  unfolding firm_def
proof (intro allI conjI impI)
  note seq = steady_seq [OF steady_member [OF assms] scan_member_empty]
  {
    fix s x v r
    assume m: "scan_object p s = Inr (v, r)"
    then obtain c q where c: "skip_ws s = c # q" by (cases "skip_ws s") (auto simp: scan_object_def)
    note skip_ws_more [OF c, of x]
    moreover have "skip_ws (s @ x) = skip_ws s @ x" using c by (simp add: skip_ws_append_more)
    ultimately show "scan_object p (s @ x) = Inr (v, r @ x)"
      using m c seq(1) [of 125 "length s" "length (s @ x)" "skip_ws s" _ r x]
      by (auto simp: scan_object_def rbind_Inr_iff split: if_splits)
  next
    fix s x
    assume m: "scan_object p s = Inl RecursionError"
    then obtain c q where c: "skip_ws s = c # q" by (cases "skip_ws s") (auto simp: scan_object_def)
    then have "c \<noteq> 125" "scan_seq (scan_member p) 125 (length s) (skip_ws s) = Inl RecursionError"
      using m by (auto simp: scan_object_def rbind_Inl_iff split: if_splits)
    then show "scan_object p (s @ x) = Inl RecursionError"
      using c skip_ws_more [OF c, of x] seq(2) [of 125 "length s" "length (s @ x)" "skip_ws s" x]
      by (simp add: scan_object_def)
  }
qed


subsection \<open>Numbers and words\<close>

lemma takeWhile_more: "drop (length (takeWhile P t)) t \<noteq> [] \<Longrightarrow> takeWhile P (t @ x) = takeWhile P t"
  by (induction t) auto

lemma int_part_more:
  assumes "drop (length (int_part s)) s \<noteq> []"
  shows "int_part (s @ x) = int_part s"
proof (cases s)
  case (Cons d r)
  then show ?thesis using assms takeWhile_more [of dec_digit r x]
    by (auto simp: int_part_def split: if_splits)
qed (use assms in simp)

lemma frac_part_more:
  assumes "drop (length (frac_part s)) s \<noteq> []" and "frac_part s = [] \<Longrightarrow> hd s \<noteq> 46"
  shows "frac_part (s @ x) = frac_part s"
proof (cases "frac_part s = []")
  case True
  then have "s \<noteq> []" "hd s \<noteq> 46" using assms by auto
  then show ?thesis using True by (cases s) (auto simp: frac_part_def split: list.split)
next
  case False
  then obtain d r where s: "s = 46 # d # r" "dec_digit d" by (auto simp: frac_part_def split: list.splits if_splits)
  then show ?thesis using assms(1) takeWhile_more [of dec_digit r x] by (auto simp: frac_part_def)
qed

lemma exp_part_more:
  assumes "drop (length (exp_part s)) s \<noteq> []" and "exp_part s = [] \<Longrightarrow> hd s \<noteq> 101 \<and> hd s \<noteq> 69"
  shows "exp_part (s @ x) = exp_part s"
proof (cases "exp_part s = []")
  case True
  then have "s \<noteq> []" "hd s \<noteq> 101" "hd s \<noteq> 69" using assms by auto
  then show ?thesis using True by (cases s) (auto simp: exp_part_def)
next
  case False
  then obtain e r where s: "s = e # r" "e = 101 \<or> e = 69" by (auto simp: exp_part_def split: list.splits if_splits)
  let ?r = "drop (length (exp_sign r)) r" and ?d = "takeWhile dec_digit (drop (length (exp_sign r)) r)"
  have d: "?d \<noteq> []" "exp_part s = e # exp_sign r @ ?d" using False s by (auto simp: exp_part_def Let_def split: if_splits)
  then obtain c t where r: "r = c # t" by (cases r) auto
  have sg: "exp_sign (r @ x) = exp_sign r" "length (exp_sign r) \<le> length r" by (simp_all add: r exp_sign_def)
  have "drop (length ?d) ?r \<noteq> []" using assms(1) d(2) s by (simp add: add.commute)
  then have "takeWhile dec_digit (?r @ x) = ?d" by (rule takeWhile_more)
  then show ?thesis using d s sg by (auto simp: exp_part_def Let_def)
qed

lemma scan_number_errors: "value_errors (scan_number s)"
  by (simp add: scan_number_def Let_def)

lemma steady_number:
  assumes "scan_number s = Inr (v, r)" and "delim r"
  shows "scan_number (s @ x) = Inr (v, r @ x)"
proof -
  define sg where "sg = (case s of c # _ \<Rightarrow> if c = 45 then [c] else [] | [] \<Rightarrow> [])"
  define r1 where "r1 = drop (length sg) s"
  define r2 where "r2 = drop (length (int_part r1)) r1"
  define r3 where "r3 = drop (length (frac_part r2)) r2"
  define K where "K y = (if int_part r1 = [] then bad_json
      else if frac_part r2 \<noteq> [] \<or> exp_part r3 \<noteq> [] then Inr (VReal (sg @ int_part r1 @ frac_part r2 @ exp_part r3), y)
      else if INT_MAX_STR_DIGITS < length (int_part r1) then Inl (ValueError ''Exceeds the limit for integer string conversion'')
      else Inr (VInt (if sg = [] then int (dec_value (int_part r1)) else - int (dec_value (int_part r1))), y))" for y :: py_str
  have K: "scan_number s = K (drop (length (exp_part r3)) r3)"
    unfolding scan_number_def Let_def K_def by (simp only: sg_def [symmetric] r1_def [symmetric] r2_def [symmetric] r3_def [symmetric])
  then have r: "r = drop (length (exp_part r3)) r3" and ip: "int_part r1 \<noteq> []"
    using assms(1) unfolding K_def by (simp_all split: if_split_asm)
  have "r \<noteq> []" using assms(2) by (simp add: delim_def)
  then have ne: "r3 \<noteq> []" "r2 \<noteq> []" "r1 \<noteq> []" "s \<noteq> []" using r by (auto simp: r1_def r2_def r3_def)
  have hd: "hd r \<noteq> 46 \<and> hd r \<noteq> 101 \<and> hd r \<noteq> 69" using assms(2) by (auto simp: delim_def ws_char_def)
  have e: "exp_part (r3 @ x) = exp_part r3"
    using \<open>r \<noteq> []\<close> r hd by (intro exp_part_more) auto
  have "hd r2 \<noteq> 46" if "frac_part r2 = []"
  proof
    assume "hd r2 = 46"
    moreover have "r3 = r2" using that by (simp add: r3_def)
    ultimately obtain t where "r3 = 46 # t" using ne(2) by (cases r2) auto
    then show False using r hd by (simp add: exp_part_def)
  qed
  then have f: "frac_part (r2 @ x) = frac_part r2" using ne r3_def by (intro frac_part_more) auto
  have i: "int_part (r1 @ x) = int_part r1" using ne r2_def by (intro int_part_more) auto
  have sx: "(case s @ x of c # _ \<Rightarrow> if c = 45 then [c] else [] | [] \<Rightarrow> []) = sg" using ne by (cases s) (auto simp: sg_def)
  have dr: "drop (length sg) (s @ x) = r1 @ x" "drop (length (int_part r1)) (r1 @ x) = r2 @ x"
    "drop (length (frac_part r2)) (r2 @ x) = r3 @ x" "drop (length (exp_part r3)) (r3 @ x) = r @ x"
    using ne \<open>r \<noteq> []\<close> r by (simp_all add: r1_def r2_def r3_def)
  have "scan_number (s @ x) = K (r @ x)"
    unfolding scan_number_def Let_def K_def by (simp only: sx dr i f e)
  then show ?thesis using assms(1) K unfolding K_def by (auto split: if_split_asm)
qed

lemma word_more: "word_at w s \<Longrightarrow> word_at w (s @ x) \<and> drop (length w) (s @ x) = drop (length w) s @ x"
proof -
  assume "word_at w s"
  then have "length (take (length w) s) = length w" by (simp add: word_at_def lit_def)
  then have "length w \<le> length s" by simp
  then show ?thesis using \<open>word_at w s\<close> by (simp add: word_at_def)
qed

lemma number_head:
  assumes "scan_number s = Inr (v, r)"
  shows "\<exists>c t. s = c # t \<and> (dec_digit c \<or> c = 45 \<and> (\<exists>d u. t = d # u \<and> dec_digit d))"
proof -
  have i: "int_part t \<noteq> [] \<Longrightarrow> \<exists>c u. t = c # u \<and> dec_digit c" for t
    by (auto simp: int_part_def split: list.splits if_splits)
  show ?thesis
  proof (cases s)
    case (Cons c t)
    have "int_part (drop (length (if c = 45 then [c] else [])) s) \<noteq> []"
      using assms Cons by (auto simp: scan_number_def Let_def split: if_splits)
    then show ?thesis using Cons i [of t] i [of s] by (cases "c = 45") auto
  qed (use assms in \<open>simp add: scan_number_def int_part_def\<close>)
qed

text \<open>The words differ in their first character.\<close>

lemma words_apart: "\<forall>p \<in> set json_words. fst p \<noteq> [] \<and> (\<forall>q \<in> set json_words. hd (fst p) = hd (fst q) \<longrightarrow> p = q)"
  by code_simp

lemma scalar_word:
  assumes "(w, v) \<in> set json_words" and "word_at w s"
  shows "scan_scalar s = Inr (v, drop (length w) s)"
proof -
  have one: "p = (w, v)" if "p \<in> set json_words" "word_at (fst p) s" for p
  proof -
    have ne: "w \<noteq> []" "fst p \<noteq> []" using words_apart assms(1) that(1) by force+
    then obtain c w' d p' where c: "w = c # w'" "fst p = d # p'" by (cases w; cases "fst p") auto
    have "word_at (c # w') s" "word_at (d # p') s" using assms(2) that(2) by (simp_all add: c)
    then have "of_char c = (of_char d :: nat)" unfolding word_head by auto
    then have "hd (fst p) = hd (fst (w, v))" using c by simp
    then show ?thesis using bspec [OF words_apart that(1)] assms(1) by blast
  qed
  have "find (\<lambda>(w, _). word_at w s) json_words = Some (w, v)"
  proof (cases "find (\<lambda>(w, _). word_at w s) json_words")
    case None
    then show ?thesis using assms by (auto simp: find_None_iff)
  next
    case (Some p)
    then have "p \<in> set json_words" "word_at (fst p) s" by (auto simp: find_Some_iff in_set_conv_nth)
    then show ?thesis using one Some by simp
  qed
  then show ?thesis by (simp add: scan_scalar_def)
qed

lemma scalar_cases:
  obtains (number) "scan_scalar s = scan_number s"
  | (word) w v where "(w, v) \<in> set json_words" "word_at w s" "scan_scalar s = Inr (v, drop (length w) s)"
proof (cases "find (\<lambda>(w, _). word_at w s) json_words")
  case None
  then show thesis by (intro number) (simp add: scan_scalar_def)
next
  case (Some y)
  then have "y \<in> set json_words" "word_at (fst y) s" by (auto simp: find_Some_iff in_set_conv_nth)
  then show thesis using scalar_word [of "fst y" "snd y" s] by (intro word) auto
qed

lemma steady_scalar: "steady scan_scalar"
  unfolding steady_def
proof (intro allI conjI impI)
  fix s x v r
  assume a: "scan_scalar s = Inr (v, r)" "delim r"
  show "scan_scalar (s @ x) = Inr (v, r @ x)"
  proof (cases rule: scalar_cases [of s])
    case number
    then have n: "scan_number s = Inr (v, r)" using a by simp
    from number_head [OF this] have "scan_scalar (s @ x) = scan_number (s @ x)"
      by (auto intro: scalar_number)
    then show ?thesis using steady_number [OF n a(2)] by simp
  next
    case (word w u)
    then show ?thesis using a word_more [OF word(2), of x] scalar_word [OF word(1), of "s @ x"] by simp
  qed
next
  fix s x
  assume "scan_scalar s = Inl RecursionError"
  then show "scan_scalar (s @ x) = Inl RecursionError"
    using scan_number_errors [of s] by (cases rule: scalar_cases [of s]) (simp_all add: value_errors_def)
qed

subsection \<open>Values\<close>

lemma steady_once:
  assumes "firm l" and "firm ob"
  shows "steady (scan_once l ob)"
  unfolding steady_def
proof (intro allI conjI impI)
  fix s x v r
  assume a: "scan_once l ob s = Inr (v, r)" "delim r"
  then show "scan_once l ob (s @ x) = Inr (v, r @ x)"
    using firmD(1) [OF assms(1), of _ v r x] firmD(1) [OF assms(2), of _ v r x] steady_readsD(1) [OF steady_scalar, of s v r x]
    by (cases s) (auto simp: scan_once_def rbind_Inr_iff scan_str_more split: if_splits)
next
  fix s x
  assume "scan_once l ob s = Inl RecursionError"
  then show "scan_once l ob (s @ x) = Inl RecursionError"
    using firmD(2) [OF assms(1), of _ x] firmD(2) [OF assms(2), of _ x] steady_readsD(2) [OF steady_scalar, of s x]
    by (cases s) (auto simp: scan_once_def rbind_Inl_iff split: if_splits dest: scan_str_errors)
qed

lemma scan_once_empty [simp]: "scan_once l ob [] = bad_json"
  by (simp add: scan_once_def)

lemma parse_value_empty [simp]: "parse_value d [] = bad_json"
  by (cases d) simp_all

lemma steady_value: "steady (parse_value d)"
proof (induction d)
  case 0
  have "firm (\<lambda>_. Inl RecursionError :: exn + (jv \<times> py_str))" by (simp add: firm_def)
  then show ?case by (simp add: steady_once)
next
  case (Suc d)
  then show ?case by (simp add: steady_once firm_list firm_object)
qed


text \<open>The scanner raises \<open>JSONDecodeError\<close>, a \<open>ValueError\<close>, or runs out of stack.\<close>

definition json_errors :: "exn + 'a \<Rightarrow> bool" where
  "json_errors r \<longleftrightarrow> (\<forall>e. r = Inl e \<longrightarrow> is_value_error e \<or> e = RecursionError)"

lemma json_errors_simps [simp]:
  "json_errors (Inr x)" "json_errors (Inl e) \<longleftrightarrow> is_value_error e \<or> e = RecursionError"
  "json_errors (if b then r else r') \<longleftrightarrow> (b \<longrightarrow> json_errors r) \<and> (\<not> b \<longrightarrow> json_errors r')"
  "json_errors (push x r'') \<longleftrightarrow> json_errors r''"
  by (auto simp: json_errors_def push_def rbind_Inl_iff)

lemma json_errors_rbind: "json_errors r \<Longrightarrow> (\<And>x. json_errors (f x)) \<Longrightarrow> json_errors (rbind r f)"
  by (cases r) simp_all

lemma json_errors_value: "value_errors r \<Longrightarrow> json_errors r"
  by (simp add: json_errors_def value_errors_def)

lemma json_errors_seq:
  assumes "\<And>s. json_errors (item s)"
  shows "json_errors (scan_seq item close n s)"
proof (induction n arbitrary: s)
  case (Suc n)
  show ?case unfolding scan_seq.simps(2)
    by (rule json_errors_rbind [OF assms]) (auto simp: Suc split: prod.split list.split)
qed simp

lemma json_errors_member: "(\<And>s. json_errors (p s)) \<Longrightarrow> json_errors (scan_member p s)"
  unfolding scan_member_def
  by (auto intro!: json_errors_rbind json_errors_value [OF scan_str_value_errors] split: list.split prod.split)

lemma json_errors_parse: "json_errors (parse_value d s)"
proof (induction d arbitrary: s)
  case 0
  have "json_errors (scan_scalar s)" for s
    using json_errors_value [OF scan_number_errors] by (cases rule: scalar_cases [of s]) simp_all
  then show ?case
    by (auto simp: scan_once_def intro!: json_errors_rbind json_errors_value [OF scan_str_value_errors] split: list.split)
next
  case (Suc d)
  have s: "json_errors (scan_scalar s)" for s
    using json_errors_value [OF scan_number_errors] by (cases rule: scalar_cases [of s]) simp_all
  have l: "json_errors (scan_list (parse_value d) s)" for s
    unfolding scan_list_def by (auto intro!: json_errors_rbind json_errors_seq Suc split: list.split)
  have m: "json_errors (scan_object (parse_value d) s)" for s
    unfolding scan_object_def by (auto intro!: json_errors_rbind json_errors_seq json_errors_member Suc split: list.split)
  show ?case using s l m
    by (auto simp: scan_once_def intro!: json_errors_rbind json_errors_value [OF scan_str_value_errors] split: list.split)
qed

lemma skip_ws_all: "skip_ws s = [] \<longleftrightarrow> (\<forall>c \<in> set s. ws_char c)"
  by (simp add: skip_ws_def)

text \<open>A proper beginning of the text of an object is refused with a \<open>ValueError\<close>.\<close>

lemma loads_cut:
  assumes "loads limit t = Inr v" and "hd t = 123" and "last t = 125" and "t = p @ q" and "q \<noteq> []"
  shows "\<exists>e. loads limit p = Inl e \<and> is_value_error e"
proof (cases p)
  case Nil
  then show ?thesis by (simp add: loads_def skip_ws_def)
next
  case (Cons c p')
  then have c: "p = 123 # p'" "t = 123 # p' @ q" using assms(2,4) by simp_all
  obtain w r where w: "parse_value limit t = Inr (w, r)" "skip_ws r = []"
    using assms(1) by (auto simp: c loads_def rbind_Inr_iff split: if_splits)
  have lp: "loads limit p = rbind (parse_value limit p) (\<lambda>(v, r). if skip_ws r = [] then Inr v else bad_json)"
    by (simp add: c loads_def)
  obtain e where e: "limit = Suc e" using w(1) by (cases limit) (simp_all add: c scan_once_def)
  have v: "parse_value limit (123 # s) = scan_object (parse_value e) s" for s by (simp add: e scan_once_def)
  have firm: "firm (scan_object (parse_value e))" by (simp add: firm_object steady_value)
  show ?thesis
  proof (cases "parse_value limit p")
    case (Inl x)
    have "x \<noteq> RecursionError" using Inl w(1) firmD(2) [OF firm, of p' q] by (auto simp: c v)
    then have "is_value_error x" using json_errors_parse [of limit p] Inl by simp
    then show ?thesis using Inl lp by simp
  next
    case (Inr y)
    obtain u r' where y: "y = (u, r')" by (cases y)
    then have "parse_value limit t = Inr (u, r' @ q)" using Inr firmD(1) [OF firm, of p' u r' q] by (simp add: c v)
    then have "\<forall>c \<in> set q. ws_char c" using w by (simp add: skip_ws_all)
    moreover have "last q = 125" using assms(3-5) by simp
    ultimately have False using assms(5) last_in_set [OF assms(5)] by auto
    then show ?thesis ..
  qed
qed

end
