(* ===== verification/Sweep.thy ===== *)
theory Sweep
  imports Json_Reader Nostr_Channel
begin

text \<open>
  \<open>tools/mutate.py\<close>: the sweep that breaks the sources on purpose, one mutation at a time, and
  puts them back. The disk is the sources and the journal; a write passes through every partial
  content, and may fail at any of them, so that the states a kill can leave behind are those the
  machine passes through. What the test suite makes of a disk, and what \<open>ast.parse\<close> says of a
  text, are parameters. Writes are taken to reach the disk in the order they are made.
\<close>

section \<open>Disks and writes\<close>

record disk =
  dk_files :: "py_str \<Rightarrow> bytes option"
  dk_journal :: "bytes option"

text \<open>\<open>JOURNAL\<close> and any other path.\<close>

datatype target = Journal | Source py_str

definition put :: "target \<Rightarrow> bytes option \<Rightarrow> disk \<Rightarrow> disk" where
  "put tgt b d = (case tgt of Journal \<Rightarrow> d\<lparr>dk_journal := b\<rparr> | Source p \<Rightarrow> d\<lparr>dk_files := (dk_files d)(p := b)\<rparr>)"

definition content :: "target \<Rightarrow> disk \<Rightarrow> bytes option" where
  "content tgt d = (case tgt of Journal \<Rightarrow> dk_journal d | Source p \<Rightarrow> dk_files d p)"

text \<open>An operation on the disk fails before it has any effect, or a write after some bytes.\<close>

datatype fault = Not_opened | Cut_at nat

text \<open>The machine: the disk, the states it has been in, and what is still to go wrong, by operation.\<close>

record machine =
  mc_disk :: disk
  mc_seen :: "disk list"
  mc_faults :: "fault option list"

definition boot :: "disk \<Rightarrow> fault option list \<Rightarrow> machine" where
  "boot d faults = \<lparr>mc_disk = d, mc_seen = [d], mc_faults = faults\<rparr>"

definition pass :: "disk list \<Rightarrow> machine \<Rightarrow> machine" where
  "pass ds m = m\<lparr>mc_disk := last (mc_disk m # ds), mc_seen := mc_seen m @ ds, mc_faults := tl (mc_faults m)\<rparr>"

definition next_fault :: "machine \<Rightarrow> fault option" where
  "next_fault m = (case mc_faults m of [] \<Rightarrow> None | f # _ \<Rightarrow> f)"

text \<open>The states of a write of \<open>b\<close>: truncated first, then longer by a byte at a time.\<close>

definition write_states :: "target \<Rightarrow> bytes \<Rightarrow> disk \<Rightarrow> disk list" where
  "write_states tgt b d = map (\<lambda>n. put tgt (Some (take n b)) d) [0..<Suc (length b)]"

text \<open>\<open>Path.write_text(s)\<close>, in UTF-8; the file is opened, and so truncated, before \<open>s\<close> is encoded.\<close>

definition write_text :: "target \<Rightarrow> py_str \<Rightarrow> (machine, unit) py" where
  "write_text tgt s = (\<lambda>m. case next_fault m of
       Some Not_opened \<Rightarrow> (Inl OSError, pass [] m)
     | f \<Rightarrow> (case utf8_encode s of
           Inl e \<Rightarrow> (Inl e, pass [put tgt (Some []) (mc_disk m)] m)
         | Inr b \<Rightarrow> (case f of
               Some (Cut_at n) \<Rightarrow> (Inl OSError, pass (take (Suc n) (write_states tgt b (mc_disk m))) m)
             | _ \<Rightarrow> (Inr (), pass (write_states tgt b (mc_disk m)) m))))"

text \<open>\<open>JOURNAL.unlink(missing_ok=True)\<close>\<close>

definition unlink_journal :: "(machine, unit) py" where
  "unlink_journal = (\<lambda>m. case next_fault m of
       None \<Rightarrow> (Inr (), pass [put Journal None (mc_disk m)] m)
     | Some _ \<Rightarrow> (Inl OSError, pass [] m))"

text \<open>\<open>Path.read_text()\<close>: UTF-8, and every line ending read as a line feed.\<close>

fun universal_newlines :: "py_str \<Rightarrow> py_str" where
  "universal_newlines [] = []"
| "universal_newlines [c] = [if c = 13 then 10 else c]"
| "universal_newlines (c # d # s) =
     (if c = 13 \<and> d = 10 then 10 # universal_newlines s
      else (if c = 13 then 10 else c) # universal_newlines (d # s))"

definition decode_file :: "bytes option \<Rightarrow> exn + py_str" where
  "decode_file b = (case b of None \<Rightarrow> Inl OSError | Some b \<Rightarrow> rbind (utf8_decode b) (\<lambda>s. Inr (universal_newlines s)))"

definition read_text :: "target \<Rightarrow> (machine, py_str) py" where
  "read_text tgt = (\<lambda>m. (decode_file (content tgt (mc_disk m)), m))"

text \<open>\<open>try: body finally: final\<close>\<close>

definition try_finally :: "('s, 'a) py \<Rightarrow> ('s, unit) py \<Rightarrow> ('s, 'a) py" where
  "try_finally body final = (\<lambda>m. case body m of (r, m1) \<Rightarrow>
     (case final m1 of (Inl e, m2) \<Rightarrow> (Inl e, m2) | (Inr _, m2) \<Rightarrow> (r, m2)))"

section \<open>The journal\<close>

definition journal_text :: "py_str \<Rightarrow> py_str \<Rightarrow> py_str" where
  "journal_text path original = json_dumps (JVObj [(lit ''path'', JVStr path), (lit ''original'', JVStr original)])"

text \<open>The string that \<open>Path\<close> and \<open>write_text\<close> demand.\<close>

definition as_str :: "jv \<Rightarrow> exn + py_str" where
  "as_str v = (case v of VStr s \<Rightarrow> Inr s | _ \<Rightarrow> Inl TypeError)"

definition unreadable :: "exn \<Rightarrow> bool" where
  "unreadable e \<longleftrightarrow> e = OSError \<or> is_value_error e \<or> e = KeyError"

definition UNREADABLE_JOURNAL :: exn where
  "UNREADABLE_JOURNAL = SystemExit ''the journal exists but could not be read''"

definition guard_journal :: "(machine, 'a) py \<Rightarrow> (machine, 'a) py" where
  "guard_journal body = (\<lambda>m. case body m of
     (Inl e, m1) \<Rightarrow> (Inl (if unreadable e then UNREADABLE_JOURNAL else e), m1)
   | (Inr x, m1) \<Rightarrow> (Inr x, m1))"

definition restore_record :: "nat \<Rightarrow> (machine, py_str) py" where
  "restore_record limit =
     bind (read_text Journal) (\<lambda>text.
     bind (lift_exn (loads limit text)) (\<lambda>record.
     bind (lift_exn (rbind (jv_item record ''path'') as_str)) (\<lambda>path.
     bind (lift_exn (rbind (jv_item record ''original'') as_str)) (\<lambda>original.
     bind (write_text (Source path) original) (\<lambda>_. ret path)))))"

definition recover :: "nat \<Rightarrow> (machine, py_str option) py" where
  "recover limit =
     bind (gets (\<lambda>m. dk_journal (mc_disk m))) (\<lambda>journal.
     if journal = None then ret None
     else bind (guard_journal (restore_record limit)) (\<lambda>path.
       bind unlink_journal (\<lambda>_. ret (Some path))))"

text \<open>The handler of SIGTERM and SIGINT, with the status it exits with.\<close>

definition restore_on_signal :: "nat \<Rightarrow> int \<Rightarrow> (machine, int) py" where
  "restore_on_signal limit signum = bind (recover limit) (\<lambda>_. ret (128 + signum))"

section \<open>One mutation\<close>

record mutation =
  mu_module :: py_str
  mu_describes :: py_str
  mu_old :: py_str
  mu_new :: py_str
  mu_survives :: bool
  mu_why :: py_str

fun starts_with_text :: "py_str \<Rightarrow> py_str \<Rightarrow> bool" where
  "starts_with_text [] s = True"
| "starts_with_text (c # p) [] = False"
| "starts_with_text (c # p) (d # s) = (c = d \<and> starts_with_text p s)"

fun contains_text :: "py_str \<Rightarrow> py_str \<Rightarrow> bool" where
  "contains_text old [] = (old = [])"
| "contains_text old (c # s) = (starts_with_text old (c # s) \<or> contains_text old s)"

text \<open>\<open>s.replace(old, new, 1)\<close>\<close>

fun replace_first :: "py_str \<Rightarrow> py_str \<Rightarrow> py_str \<Rightarrow> py_str" where
  "replace_first old new [] = (if old = [] then new else [])"
| "replace_first old new (c # s) =
     (if starts_with_text old (c # s) then new @ drop (length old) (c # s) else c # replace_first old new s)"

definition apply_mutation :: "mutation \<Rightarrow> py_str \<Rightarrow> py_str option" where
  "apply_mutation mu original =
     (if \<not> contains_text (mu_old mu) original then None
      else Some (replace_first (mu_old mu) (mu_new mu) original))"

datatype run_error = Stale | Changes_nothing | Not_python py_str

record outcome =
  oc_mutation :: mutation
  oc_caught :: bool
  oc_failing :: "py_str list"
  oc_error :: "run_error option"

text \<open>The names of the failing tests in pytest's output.\<close>

definition is_line_end :: "nat \<Rightarrow> bool" where
  "is_line_end c \<longleftrightarrow> c \<in> {10, 11, 12, 13, 28, 29, 30, 133, 8232, 8233}"

function (sequential) splitlines :: "py_str \<Rightarrow> py_str list" where
  "splitlines [] = []"
| "splitlines (c # s) =
     (let rest = dropWhile (\<lambda>x. \<not> is_line_end x) (c # s)
      in takeWhile (\<lambda>x. \<not> is_line_end x) (c # s) #
         splitlines (case rest of a # b # t \<Rightarrow> if a = 13 \<and> b = 10 then t else b # t | _ \<Rightarrow> []))"
  by pat_completeness auto
termination
proof (relation "measure length")
  fix c :: nat and s rest assume r: "rest = dropWhile (\<lambda>x. \<not> is_line_end x) (c # s)"
  have "length rest \<le> length (c # s)" unfolding r by (rule length_dropWhile_le)
  then have "length (case rest of a # b # t \<Rightarrow> if a = 13 \<and> b = 10 then t else b # t | _ \<Rightarrow> []) < length (c # s)"
    by (auto split: list.split)
  then show "((case rest of [] \<Rightarrow> [] | [a] \<Rightarrow> [] | a # b # t \<Rightarrow> if a = 13 \<and> b = 10 then t else b # t), c # s) \<in> measure length"
    by simp
qed simp

text \<open>\<open>s.split("::")[-1]\<close>\<close>

fun after_colons :: "py_str \<Rightarrow> py_str \<Rightarrow> py_str" where
  "after_colons acc [] = acc"
| "after_colons acc [c] = acc @ [c]"
| "after_colons acc (c # d # s) =
     (if c = 58 \<and> d = 58 then after_colons [] s else after_colons (acc @ [c]) (d # s))"

definition failing_names :: "py_str \<Rightarrow> py_str list" where
  "failing_names stdout = concat (map (\<lambda>line.
     if starts_with_text (lit ''FAILED'') line \<and> length (usplit line) > 1
     then [after_colons [] (usplit line ! 1)] else []) (splitlines stdout))"

text \<open>A run of pytest: its return code and its output, or it could not be started.\<close>

type_synonym suite = "disk \<Rightarrow> exn + (int \<times> py_str)"

definition run_pytest :: "suite \<Rightarrow> (machine, bool \<times> py_str list) py" where
  "run_pytest suite = (\<lambda>m. (rbind (suite (mc_disk m)) (\<lambda>(code, stdout). Inr (code = 0, failing_names stdout)), m))"

definition source_path :: "py_str \<Rightarrow> mutation \<Rightarrow> py_str" where
  "source_path src mu = src @ [47] @ mu_module mu"

text \<open>\<open>ast mutated\<close> is the message of the \<open>SyntaxError\<close>, when there is one.\<close>

definition evaluate :: "suite \<Rightarrow> (py_str \<Rightarrow> py_str option) \<Rightarrow> py_str \<Rightarrow> mutation \<Rightarrow> (machine, outcome) py" where
  "evaluate suite ast src mu =
     (let path = source_path src mu;
          fails = (\<lambda>e. \<lparr>oc_mutation = mu, oc_caught = False, oc_failing = [], oc_error = Some e\<rparr>)
      in bind (read_text (Source path)) (\<lambda>original.
         case apply_mutation mu original of
           None \<Rightarrow> ret (fails Stale)
         | Some mutated \<Rightarrow>
             if mutated = original then ret (fails Changes_nothing)
             else case ast mutated of
                 Some message \<Rightarrow> ret (fails (Not_python message))
               | None \<Rightarrow>
                   bind (write_text Journal (journal_text path original)) (\<lambda>_.
                   bind (try_finally
                     (bind (write_text (Source path) mutated) (\<lambda>_. run_pytest suite))
                     (bind (write_text (Source path) original) (\<lambda>_. unlink_journal))) (\<lambda>(passed, failing).
                   ret \<lparr>oc_mutation = mu, oc_caught = \<not> passed, oc_failing = failing, oc_error = None\<rparr>))))"

section \<open>The sweep\<close>

definition selected :: "(py_str \<Rightarrow> py_str) \<Rightarrow> py_str \<Rightarrow> mutation list \<Rightarrow> mutation list" where
  "selected lower flt mus = filter (\<lambda>mu. contains_text (lower flt) (lower (mu_module mu @ [32] @ mu_describes mu))) mus"

definition is_problem :: "outcome \<Rightarrow> bool" where
  "is_problem r \<longleftrightarrow> oc_error r \<noteq> None \<or> oc_caught r = mu_survives (oc_mutation r)"

datatype verdict = Error | Survived | Caught | Missed | Caught_unexpectedly

definition verdict_of :: "outcome \<Rightarrow> verdict" where
  "verdict_of r =
     (if oc_error r \<noteq> None then Error
      else if oc_caught r = (\<not> mu_survives (oc_mutation r))
      then (if mu_survives (oc_mutation r) then Survived else Caught)
      else if \<not> mu_survives (oc_mutation r) then Missed else Caught_unexpectedly)"

text \<open>How \<open>main\<close> ends, apart from what it prints, and the status it returns.\<close>

datatype sweep_end =
    No_match
  | Listed "mutation list"
  | Red_baseline "py_str list"
  | Swept "outcome list"

definition exit_status :: "sweep_end \<Rightarrow> int" where
  "exit_status e = (case e of
     No_match \<Rightarrow> 1 | Listed _ \<Rightarrow> 0 | Red_baseline _ \<Rightarrow> 1
   | Swept results \<Rightarrow> (if filter is_problem results \<noteq> [] then 1 else 0))"

text \<open>The numbers of the last line: as expected, all, and known equivalent.\<close>

definition tally :: "outcome list \<Rightarrow> nat \<times> nat \<times> nat" where
  "tally results = (length results - length (filter is_problem results), length results,
     length (filter (\<lambda>r. mu_survives (oc_mutation r) \<and> oc_error r = None) results))"

definition sweep_main :: "suite \<Rightarrow> (py_str \<Rightarrow> py_str option) \<Rightarrow> nat \<Rightarrow> (py_str \<Rightarrow> py_str) \<Rightarrow> py_str \<Rightarrow> mutation list
    \<Rightarrow> py_str \<Rightarrow> bool \<Rightarrow> (machine, sweep_end) py" where
  "sweep_main suite ast limit lower src mutations flt list_only =
     bind (recover limit) (\<lambda>_.
     let chosen = selected lower flt mutations
     in if chosen = [] then ret No_match
        else if list_only then ret (Listed chosen)
        else bind (run_pytest suite) (\<lambda>(passed, failing).
          if \<not> passed then ret (Red_baseline failing)
          else bind (for_collect (evaluate suite ast src) chosen) (\<lambda>results. ret (Swept results))))"

section \<open>Texts on the disk\<close>

lemma starts_with_text_iff: "starts_with_text p s \<longleftrightarrow> (\<exists>r. s = p @ r)"
  by (induction p s rule: starts_with_text.induct) auto

lemma contains_text_iff: "contains_text old s \<longleftrightarrow> (\<exists>a b. s = a @ old @ b)"
proof (induction s)
  case (Cons c s)
  show ?case
  proof
    assume "contains_text old (c # s)"
    then consider r where "c # s = old @ r" | a b where "s = a @ old @ b"
      using Cons by (auto simp: starts_with_text_iff)
    then show "\<exists>a b. c # s = a @ old @ b" by cases (metis append_Nil, metis append_Cons)
  next
    assume "\<exists>a b. c # s = a @ old @ b"
    then obtain a b where "c # s = a @ old @ b" by blast
    then have "starts_with_text old (c # s) \<or> (\<exists>a b. s = a @ old @ b)"
      by (cases a) (auto simp: starts_with_text_iff)
    then show "contains_text old (c # s)" using Cons by simp
  qed
qed simp

text \<open>The first occurrence is replaced, and nothing else.\<close>

lemma replace_first_exact:
  assumes "contains_text old s"
  shows "\<exists>a b. s = a @ old @ b \<and> replace_first old new s = a @ new @ b
    \<and> (\<forall>k < length a. \<not> starts_with_text old (drop k s))"
  using assms
proof (induction s)
  case Nil
  then show ?case by auto
next
  case (Cons c s)
  show ?case
  proof (cases "starts_with_text old (c # s)")
    case True
    then obtain r where r: "c # s = old @ r" by (auto simp: starts_with_text_iff)
    moreover have "replace_first old new (c # s) = new @ drop (length old) (c # s)" using True by simp
    ultimately have "replace_first old new (c # s) = new @ r" by simp
    with r show ?thesis by (intro exI [of _ "[]"] exI [of _ r]) simp
  next
    case False
    then have "contains_text old s" using Cons.prems by simp
    from Cons.IH [OF this] obtain a b where ab: "s = a @ old @ b" "replace_first old new s = a @ new @ b"
      "\<forall>k < length a. \<not> starts_with_text old (drop k s)" by blast
    have "\<not> starts_with_text old (drop k (c # s))" if "k < length (c # a)" for k
      using that False ab(3) by (cases k) auto
    then show ?thesis using False ab by (intro exI [of _ "c # a"] exI [of _ b]) simp
  qed
qed

lemma universal_newlines_id: "13 \<notin> set s \<Longrightarrow> universal_newlines s = s"
  by (induction s rule: universal_newlines.induct) auto

text \<open>A file that reads as \<open>s\<close> and that writing \<open>s\<close> reproduces.\<close>

definition text_file :: "bytes \<Rightarrow> py_str \<Rightarrow> bool" where
  "text_file b s \<longleftrightarrow> is_text s \<and> 13 \<notin> set s \<and> utf8_encode s = Inr b"

lemma text_file_decode: "text_file b s \<Longrightarrow> decode_file (Some b) = Inr s"
  using utf8_roundtrip [of s] by (auto simp: text_file_def decode_file_def universal_newlines_id)

lemma ascii_encode:
  assumes "\<forall>c \<in> set s. c < 128"
  shows "utf8_encode s = Inr (map nbyte s)"
proof -
  have "\<not> (\<exists>n \<in> set s. is_surrogate n)" using assms by (auto simp: is_surrogate_def)
  moreover have "concat (map utf8_char s) = map nbyte s" using assms by (induction s) (auto simp: utf8_char_def)
  ultimately show ?thesis by (simp add: utf8_encode_def)
qed

lemma ascii_text_file: "\<forall>c \<in> set s. c < 128 \<and> c \<noteq> 13 \<Longrightarrow> text_file (map nbyte s) s"
  by (auto simp: text_file_def is_text_def ascii_encode)

lemma hex_code_ascii: "n < 16 \<Longrightarrow> 48 \<le> hex_code n \<and> hex_code n < 128"
  by (simp add: hex_code_def)

lemma u4_ascii: "n < 65536 \<Longrightarrow> x \<in> set (u4 n) \<Longrightarrow> x < 128 \<and> x \<noteq> 13"
proof -
  assume "n < 65536"
  then have "n div 4096 < 16" by (simp add: less_mult_imp_div_less)
  moreover have "n div 256 mod 16 < 16" "n div 16 mod 16 < 16" "n mod 16 < 16" by simp_all
  moreover assume "x \<in> set (u4 n)"
  then have "x \<in> {92, 117} \<or> (\<exists>k \<in> {n div 4096, n div 256 mod 16, n div 16 mod 16, n mod 16}. x = hex_code k)"
    by (simp add: u4_def quad_def)
  ultimately show ?thesis using hex_code_ascii by fastforce
qed

lemma esc_ascii_ascii: "x \<in> set (esc_ascii c) \<Longrightarrow> x < 128 \<and> x \<noteq> 13"
proof -
  define k l where "k = 55296 + (c - 65536) div 1024 mod 1024" and "l = 56320 + (c - 65536) mod 1024"
  have "(c - 65536) mod 1024 < 1024" "(c - 65536) div 1024 mod 1024 < 1024" by simp_all
  then have kl: "k < 65536" "l < 65536" unfolding k_def l_def by linarith+
  assume "x \<in> set (esc_ascii c)"
  then consider "c \<in> {34, 92, 10, 13, 9, 8, 12}" "x \<in> set (esc_char c)" | "32 \<le> c" "c \<le> 126" "x = c"
    | "c < 65536" "x \<in> set (u4 c)" | "x \<in> set (u4 k)" | "x \<in> set (u4 l)"
    unfolding esc_ascii_def k_def [symmetric] l_def [symmetric] by (auto split: if_split_asm)
  then show ?thesis
  proof cases
    case 1
    then show ?thesis by (auto simp: esc_char_def)
  qed (use u4_ascii kl in auto)
qed

lemma journal_ascii:
  assumes "is_text p" and "is_text s" and "x \<in> set (journal_text p s)"
  shows "x < 128 \<and> x \<noteq> 13"
proof -
  have q: "x < 128 \<and> x \<noteq> 13" if "x \<in> set (quote_with (esc_ascii, [32]) t)" "is_text t" for t
    using that esc_ascii_ascii by (auto simp: quote_with_def is_text_def)
  show ?thesis using assms q [of p] q [of s] q [of "lit ''path''"] q [of "lit ''original''"]
    by (auto simp: journal_text_def json_dumps_def)
qed

definition journal_bytes :: "py_str \<Rightarrow> py_str \<Rightarrow> bytes" where
  "journal_bytes p s = map nbyte (journal_text p s)"

lemma journal_encode: "is_text p \<Longrightarrow> is_text s \<Longrightarrow> utf8_encode (journal_text p s) = Inr (journal_bytes p s)"
  using journal_ascii by (auto simp: journal_bytes_def intro!: ascii_encode)

lemma journal_loads:
  assumes "is_text p" and "is_text s" and "0 < limit"
  shows "loads limit (journal_text p s) = Inr (VObj [(lit ''path'', VStr p), (lit ''original'', VStr s)])"
  unfolding journal_text_def using assms
  by (subst loads_json_dumps) auto

lemma journal_cut_loads:
  assumes "is_text p" and "is_text s" and "0 < limit" and "n < length (journal_bytes p s)"
  shows "\<exists>e. rbind (decode_file (Some (take n (journal_bytes p s)))) (loads limit) = Inl e \<and> is_value_error e"
proof -
  let ?t = "journal_text p s"
  have "text_file (map nbyte (take n ?t)) (take n ?t)"
    using journal_ascii [OF assms(1,2)] by (intro ascii_text_file) (auto dest: in_set_takeD)
  then have d: "decode_file (Some (take n (journal_bytes p s))) = Inr (take n ?t)"
    using text_file_decode by (simp add: journal_bytes_def take_map)
  have "hd ?t = 123" "last ?t = 125" by (simp_all add: journal_text_def json_dumps_def)
  moreover have "?t = take n ?t @ drop n ?t" "drop n ?t \<noteq> []" using assms(4) by (simp_all add: journal_bytes_def)
  ultimately show ?thesis using loads_cut [OF journal_loads [OF assms(1-3)], of "take n ?t" "drop n ?t"] d by simp
qed


section \<open>What a kill can leave behind\<close>

text \<open>
  With \<open>F\<close> the sources as they should be: the sources are intact, and the journal absent or cut
  short; or the journal is complete and records the one file that may differ.
\<close>

definition intact :: "(py_str \<Rightarrow> bytes option) \<Rightarrow> disk \<Rightarrow> bool" where
  "intact F d \<longleftrightarrow> dk_files d = F \<and> dk_journal d = None"

definition cut_journal :: "(py_str \<Rightarrow> bytes option) \<Rightarrow> disk \<Rightarrow> bool" where
  "cut_journal F d \<longleftrightarrow> dk_files d = F \<and> (\<exists>p s n. is_text p \<and> is_text s \<and> n < length (journal_bytes p s)
     \<and> dk_journal d = Some (take n (journal_bytes p s)))"

definition covered :: "(py_str \<Rightarrow> bytes option) \<Rightarrow> disk \<Rightarrow> bool" where
  "covered F d \<longleftrightarrow> (\<exists>p s b. is_text p \<and> F p = Some b \<and> text_file b s \<and> dk_journal d = Some (journal_bytes p s)
     \<and> (\<forall>q. q \<noteq> p \<longrightarrow> dk_files d q = F q))"

definition safe :: "(py_str \<Rightarrow> bytes option) \<Rightarrow> disk \<Rightarrow> bool" where
  "safe F d \<longleftrightarrow> intact F d \<or> cut_journal F d \<or> covered F d"

definition safe_run :: "(py_str \<Rightarrow> bytes option) \<Rightarrow> machine \<Rightarrow> bool" where
  "safe_run F m \<longleftrightarrow> safe F (mc_disk m) \<and> (\<forall>d \<in> set (mc_seen m). safe F d)"

lemma pass_simps [simp]:
  "mc_disk (pass ds m) = last (mc_disk m # ds)" "mc_seen (pass ds m) = mc_seen m @ ds" "mc_faults (pass ds m) = tl (mc_faults m)"
  by (simp_all add: pass_def)

lemma safe_run_pass: "safe_run F m \<Longrightarrow> \<forall>d \<in> set ds. safe F d \<Longrightarrow> safe_run F (pass ds m)"
  using last_in_set [of ds] by (auto simp: safe_run_def)

text \<open>A write passes through the truncated file and its longer and longer beginnings.\<close>

lemma write_text_cases:
  assumes "write_text tgt s m = (r, m')"
  obtains (never) "r = Inl OSError" "m' = pass [] m"
  | (unencodable) "utf8_encode s = Inl UnicodeEncodeError" "r = Inl UnicodeEncodeError" "m' = pass [put tgt (Some []) (mc_disk m)] m"
  | (part) b k where "utf8_encode s = Inr b" "r = Inl OSError" "m' = pass (take k (write_states tgt b (mc_disk m))) m"
  | (all) b where "utf8_encode s = Inr b" "r = Inr ()" "m' = pass (write_states tgt b (mc_disk m)) m"
proof (cases "next_fault m = Some Not_opened")
  case True
  then show thesis using assms by (intro never) (simp_all add: write_text_def)
next
  case False
  show thesis
  proof (cases "utf8_encode s")
    case (Inl e)
    then have "e = UnicodeEncodeError" by (auto simp: utf8_encode_def split: if_splits)
    then show thesis using assms False Inl
      by (intro unencodable) (auto simp: write_text_def split: option.splits fault.splits)
  next
    case (Inr b)
    show thesis
    proof (cases "next_fault m")
      case None
      then show thesis using assms Inr by (intro all) (auto simp: write_text_def)
    next
      case (Some f)
      then obtain n where "f = Cut_at n" using False by (cases f) auto
      then show thesis using assms Inr Some by (intro part) (auto simp: write_text_def)
    qed
  qed
qed

lemma write_states_set: "d' \<in> set (write_states tgt b d) \<Longrightarrow> \<exists>c. d' = put tgt (Some c) d"
  by (auto simp: write_states_def)

lemma write_states_last [simp]: "write_states tgt b d \<noteq> []" "last (write_states tgt b d) = put tgt (Some b) d"
  by (simp_all add: write_states_def)

text \<open>Writing anything to the file that the journal records stays covered.\<close>

lemma covered_put:
  assumes "is_text p" and "F p = Some b" and "text_file b s" and "dk_journal d = Some (journal_bytes p s)"
    and "\<forall>q. q \<noteq> p \<longrightarrow> dk_files d q = F q"
  shows "safe F (put (Source p) c d)"
  using assms by (auto simp: safe_def covered_def put_def)

lemma write_text_puts:
  assumes "write_text tgt s m = (r, m')"
  shows "\<exists>ds. m' = pass ds m \<and> (\<forall>d \<in> set ds. \<exists>c. d = put tgt (Some c) (mc_disk m))"
  using assms
proof (cases rule: write_text_cases)
  case (part b k)
  then show ?thesis by (intro exI conjI) (auto dest: in_set_takeD write_states_set)
next
  case (all b)
  then show ?thesis by (intro exI conjI) (auto dest: write_states_set)
next
  case never
  then show ?thesis by (intro exI [of _ "[]"]) simp
next
  case unencodable
  then show ?thesis by (intro exI [of _ "[put tgt (Some []) (mc_disk m)]"]) auto
qed

lemma safe_write_covered:
  assumes "is_text p" and "F p = Some b" and "text_file b s" and "dk_journal (mc_disk m) = Some (journal_bytes p s)"
    and "\<forall>q. q \<noteq> p \<longrightarrow> dk_files (mc_disk m) q = F q" and "safe_run F m"
    and "write_text (Source p) t m = (r, m')"
  shows "safe_run F m' \<and> dk_journal (mc_disk m') = Some (journal_bytes p s)
    \<and> (\<forall>q. q \<noteq> p \<longrightarrow> dk_files (mc_disk m') q = F q)"
proof -
  obtain ds where ds: "m' = pass ds m" "\<forall>d \<in> set ds. \<exists>c. d = put (Source p) (Some c) (mc_disk m)"
    using write_text_puts [OF assms(7)] by blast
  then have "\<forall>d \<in> set ds. safe F d" using covered_put [of p F b s, OF assms(1-5)] by auto
  then have "safe_run F m'" using safe_run_pass [OF assms(6)] ds(1) by simp
  moreover have "mc_disk m' = mc_disk m \<or> (\<exists>c. mc_disk m' = put (Source p) (Some c) (mc_disk m))"
    using ds last_in_set [of ds] by auto
  ultimately show ?thesis using assms(4,5) by (auto simp: put_def)
qed

lemma unlink_cases:
  assumes "unlink_journal m = (r, m')"
  obtains (gone) "r = Inr ()" "m' = pass [put Journal None (mc_disk m)] m" | (failed) "r = Inl OSError" "m' = pass [] m"
  using assms by (auto simp: unlink_journal_def split: option.splits)

text \<open>The restore: the original is written, then the journal removed.\<close>

lemma safe_restore:
  assumes "is_text p" and "F p = Some b" and "text_file b s" and "dk_journal (mc_disk m) = Some (journal_bytes p s)"
    and "\<forall>q. q \<noteq> p \<longrightarrow> dk_files (mc_disk m) q = F q" and "safe_run F m"
    and "bind (write_text (Source p) s) (\<lambda>_. unlink_journal) m = (r, m')"
  shows "safe_run F m' \<and> (\<forall>x. r = Inr x \<longrightarrow> intact F (mc_disk m')) \<and> (\<forall>e. r = Inl e \<longrightarrow> e = OSError)"
proof -
  obtain r1 m1 where w: "write_text (Source p) s m = (r1, m1)" by fastforce
  note c = safe_write_covered [OF assms(1-6) w]
  show ?thesis
  proof (cases r1)
    case (Inl e)
    have "e = OSError" using w Inl assms(3) by (cases rule: write_text_cases) (auto simp: text_file_def)
    then show ?thesis using Inl w c assms(7) by (auto simp: bind_def)
  next
    case (Inr u)
    have "mc_disk m1 = put (Source p) (Some b) (mc_disk m)"
      using w Inr assms(3) by (cases rule: write_text_cases) (auto simp: text_file_def)
    then have f: "dk_files (mc_disk m1) = F" using assms(2,5) by (auto simp: put_def)
    have u: "unlink_journal m1 = (r, m')" using assms(7) w Inr by (simp add: bind_def)
    then show ?thesis
    proof (cases rule: unlink_cases)
      case gone
      have i: "intact F (put Journal None (mc_disk m1))" using f by (simp add: intact_def put_def)
      then have "safe F (put Journal None (mc_disk m1))" by (simp add: safe_def)
      then have "safe_run F m'" using gone(2) safe_run_pass [of F m1] c by simp
      then show ?thesis using gone i by simp
    next
      case failed
      then show ?thesis using c safe_run_pass [of F m1 "[]"] by simp
    qed
  qed
qed

lemma restore_record_covered:
  assumes "is_text p" and "F p = Some b" and "text_file b s" and "dk_journal (mc_disk m) = Some (journal_bytes p s)" and "0 < limit"
  shows "restore_record limit m = bind (write_text (Source p) s) (\<lambda>_. ret p) m"
proof -
  have s: "is_text s" using assms(3) by (simp add: text_file_def)
  have "text_file (journal_bytes p s) (journal_text p s)"
    unfolding journal_bytes_def by (rule ascii_text_file) (use journal_ascii [OF assms(1) s] in blast)
  then have d: "decode_file (Some (journal_bytes p s)) = Inr (journal_text p s)" by (rule text_file_decode)
  have l: "lit ''path'' \<noteq> lit ''original''" by simp
  show ?thesis using d assms(4) journal_loads [OF assms(1) s assms(5)] l
    by (simp add: restore_record_def read_text_def content_def jv_item_def as_str_def py_simps)
qed

lemma recover_safe:
  assumes "safe_run F m" and "recover limit m = (r, m')" and "0 < limit"
  shows "safe_run F m' \<and> (\<forall>x. r = Inr x \<longrightarrow> intact F (mc_disk m'))"
proof -
  consider "intact F (mc_disk m)" | "cut_journal F (mc_disk m)" | "covered F (mc_disk m)"
    using assms(1) by (auto simp: safe_run_def safe_def)
  then show ?thesis
  proof cases
    case 1
    then show ?thesis using assms by (auto simp: recover_def intact_def py_simps)
  next
    case 2
    then obtain p s n where c: "is_text p" "is_text s" "n < length (journal_bytes p s)"
      "dk_journal (mc_disk m) = Some (take n (journal_bytes p s))" by (auto simp: cut_journal_def)
    obtain e where "rbind (decode_file (Some (take n (journal_bytes p s)))) (loads limit) = Inl e" "is_value_error e"
      using journal_cut_loads [OF c(1,2) assms(3) c(3)] by blast
    then have "guard_journal (restore_record limit) m = (Inl UNREADABLE_JOURNAL, m)"
      using c(4) by (auto simp: guard_journal_def restore_record_def read_text_def content_def py_simps unreadable_def
          rbind_Inl_iff)
    then show ?thesis using assms c(4) by (auto simp: recover_def py_simps)
  next
    case 3
    then obtain p s b where c: "is_text p" "F p = Some b" "text_file b s" "dk_journal (mc_disk m) = Some (journal_bytes p s)"
      "\<forall>q. q \<noteq> p \<longrightarrow> dk_files (mc_disk m) q = F q" by (auto simp: covered_def)
    have "\<exists>r2. bind (write_text (Source p) s) (\<lambda>_. unlink_journal) m = (r2, m') \<and> (\<forall>x. r = Inr x \<longrightarrow> r2 = Inr ())"
      using assms(2) restore_record_covered [of p F b s m, OF c(1-4) assms(3)] c(4)
      by (auto simp: recover_def guard_journal_def py_simps split: sum.splits prod.splits)
    then show ?thesis using safe_restore [OF c assms(1)] by blast
  qed
qed


subsection \<open>A mutation, a sweep\<close>

text \<open>Sources that a read and a write reproduce.\<close>

definition text_sources :: "(py_str \<Rightarrow> bytes option) \<Rightarrow> bool" where
  "text_sources F \<longleftrightarrow> (\<forall>p b. F p = Some b \<longrightarrow> (\<exists>s. text_file b s))"

lemma safe_write_journal:
  assumes "is_text p" and "F p = Some b" and "text_file b s" and "safe_run F m" and "intact F (mc_disk m)"
    and "write_text Journal (journal_text p s) m = (r, m')"
  shows "safe_run F m' \<and> (\<forall>x. r = Inr x \<longrightarrow> dk_files (mc_disk m') = F \<and> dk_journal (mc_disk m') = Some (journal_bytes p s))"
proof -
  have s: "is_text s" using assms(3) by (simp add: text_file_def)
  have e: "utf8_encode (journal_text p s) = Inr (journal_bytes p s)" by (rule journal_encode [OF assms(1) s])
  have cut: "safe F (put Journal (Some (take n (journal_bytes p s))) (mc_disk m))" for n
  proof (cases "n < length (journal_bytes p s)")
    case True
    then show ?thesis using assms(1,5) s by (auto simp: safe_def cut_journal_def intact_def put_def)
  next
    case False
    then show ?thesis using assms(1-3,5) by (auto simp: safe_def covered_def intact_def put_def)
  qed
  have states: "\<forall>d \<in> set (write_states Journal (journal_bytes p s) (mc_disk m)). safe F d"
    using cut by (auto simp: write_states_def simp del: upt_Suc)
  from assms(6) show ?thesis
  proof (cases rule: write_text_cases)
    case never
    then show ?thesis using safe_run_pass [OF assms(4), of "[]"] by simp
  next
    case (part b' k)
    then have "\<forall>d \<in> set (take k (write_states Journal b' (mc_disk m))). safe F d"
      using e states by (auto dest: in_set_takeD)
    then show ?thesis using part safe_run_pass [OF assms(4)] by simp
  next
    case (all b')
    then have "b' = journal_bytes p s" using e by simp
    then show ?thesis using all states safe_run_pass [OF assms(4)] assms(5)
      by (simp add: put_def intact_def)
  qed (use e in simp)
qed

lemma try_finally_run:
  "body m = (r1, m1) \<Longrightarrow> final m1 = (r2, m2) \<Longrightarrow>
   try_finally body final m = (case r2 of Inl e \<Rightarrow> Inl e | Inr _ \<Rightarrow> r1, m2)"
  by (cases r2) (simp_all add: try_finally_def)

lemma evaluate_safe:
  assumes "text_sources F" and "is_text (source_path src mu)" and "safe_run F m" and "intact F (mc_disk m)"
    and "evaluate suite ast src mu m = (r, m')"
  shows "safe_run F m' \<and> (\<forall>x. r = Inr x \<longrightarrow> intact F (mc_disk m'))"
proof (cases "F (source_path src mu)")
  case None
  then have "(r, m') = (Inl OSError, m)" using assms(4,5)
    by (simp add: evaluate_def Let_def read_text_def content_def intact_def decode_file_def py_simps)
  then show ?thesis using assms(3) by simp
next
  case (Some b)
  let ?p = "source_path src mu"
  obtain s where s: "text_file b s" using assms(1) Some by (auto simp: text_sources_def)
  have read: "read_text (Source ?p) m = (Inr s, m)"
    using text_file_decode [OF s] assms(4) Some by (simp add: read_text_def content_def intact_def)
  show ?thesis
  proof (cases "\<exists>t. apply_mutation mu s = Some t \<and> t \<noteq> s \<and> ast t = None")
    case False
    then have "m' = m" using assms(5) read
      by (auto simp: evaluate_def Let_def bind_def ret_def split: option.splits if_splits)
    then show ?thesis using assms(3,4) by simp
  next
    case True
    then obtain t where t: "apply_mutation mu s = Some t" "t \<noteq> s" "ast t = None" by blast
    obtain r1 m1 where j: "write_text Journal (journal_text ?p s) m = (r1, m1)" by fastforce
    note jm = safe_write_journal [OF assms(2) Some s assms(3,4) j]
    show ?thesis
    proof (cases r1)
      case (Inl e)
      then have "m' = m1 \<and> r = Inl e" using assms(5) read t j by (simp add: evaluate_def Let_def bind_def)
      then show ?thesis using jm by simp
    next
      case (Inr u)
      then have c: "dk_journal (mc_disk m1) = Some (journal_bytes ?p s)" "\<forall>q. q \<noteq> ?p \<longrightarrow> dk_files (mc_disk m1) q = F q"
        using jm by auto
      obtain r2 m2 where w: "write_text (Source ?p) t m1 = (r2, m2)" by fastforce
      have wm: "safe_run F m2" "dk_journal (mc_disk m2) = Some (journal_bytes ?p s)" "\<forall>q. q \<noteq> ?p \<longrightarrow> dk_files (mc_disk m2) q = F q"
        using safe_write_covered [of ?p F b s, OF assms(2) Some s c conjunct1 [OF jm] w] by auto
      obtain r3 where body: "bind (write_text (Source ?p) t) (\<lambda>_. run_pytest suite) m1 = (r3, m2)"
        using w by (cases r2) (simp_all add: bind_def run_pytest_def)
      obtain r4 m4 where f: "bind (write_text (Source ?p) s) (\<lambda>_. unlink_journal) m2 = (r4, m4)" by fastforce
      note fin = safe_restore [of ?p F b s, OF assms(2) Some s wm(2,3,1) f]
      have R1: "bind (read_text (Source ?p)) k m = k s m" for k :: "py_str \<Rightarrow> (machine, outcome) py"
        using read by (simp add: bind_def)
      have R2: "bind (write_text Journal (journal_text ?p s)) k m = k () m1" for k :: "unit \<Rightarrow> (machine, outcome) py"
        using j Inr by (simp add: bind_def)
      have "evaluate suite ast src mu m = bind (try_finally
          (bind (write_text (Source ?p) t) (\<lambda>_. run_pytest suite))
          (bind (write_text (Source ?p) s) (\<lambda>_. unlink_journal))) (\<lambda>(passed, failing).
        ret \<lparr>oc_mutation = mu, oc_caught = \<not> passed, oc_failing = failing, oc_error = None\<rparr>) m1"
        using t R1 R2 by (simp add: evaluate_def Let_def)
      then have "m' = m4 \<and> (\<forall>x. r = Inr x \<longrightarrow> r4 = Inr ())"
        using assms(5) try_finally_run [where body = "bind (write_text (Source ?p) t) (\<lambda>_. run_pytest suite)"
            and final = "bind (write_text (Source ?p) s) (\<lambda>_. unlink_journal)", OF body f]
        by (auto simp: bind_def ret_def split: sum.splits)
      then show ?thesis using fin by blast
    qed
  qed
qed


lemma sweep_safe:
  assumes "text_sources F" and "is_text src" and "\<forall>mu \<in> set mutations. is_text (mu_module mu)" and "safe_run F m"
    and "0 < limit" and "sweep_main suite ast limit lower src mutations flt list_only m = (r, m')"
  shows "safe_run F m' \<and> (\<forall>x. r = Inr x \<longrightarrow> intact F (mc_disk m'))"
proof -
  obtain r1 m1 where rec: "recover limit m = (r1, m1)" by fastforce
  note s1 = recover_safe [OF assms(4) rec assms(5)]
  have p: "is_text (source_path src mu)" if "mu \<in> set mutations" for mu
    using assms(2,3) that by (simp add: source_path_def)
  have loop: "safe_run F m3 \<and> (\<forall>x. q = Inr x \<longrightarrow> intact F (mc_disk m3))"
    if "for_collect (evaluate suite ast src) mus m2 = (q, m3)" "set mus \<subseteq> set mutations" "safe_run F m2" "intact F (mc_disk m2)"
    for mus m2 m3 q
    using that
  proof (induction mus arbitrary: m2 q)
    case (Cons mu mus)
    obtain r2 m4 where e: "evaluate suite ast src mu m2 = (r2, m4)" by fastforce
    have "is_text (source_path src mu)" using p Cons.prems(2) by simp
    note s = evaluate_safe [OF assms(1) this Cons.prems(3,4) e]
    show ?case
    proof (cases r2)
      case (Inl x)
      then show ?thesis using s e Cons.prems(1) by (auto simp: bind_def)
    next
      case (Inr y)
      then obtain q2 where "for_collect (evaluate suite ast src) mus m4 = (q2, m3)" "\<forall>x. q = Inr x \<longrightarrow> (\<exists>y. q2 = Inr y)"
        using e Cons.prems(1) by (auto simp: bind_def ret_def split: sum.splits prod.splits)
      then show ?thesis using Cons.IH [of m4 q2] s Inr Cons.prems(2) by auto
    qed
  qed (auto simp: ret_def)
  show ?thesis
  proof (cases r1)
    case (Inl e)
    then show ?thesis using s1 rec assms(6) by (auto simp: sweep_main_def bind_def)
  next
    case (Inr x)
    let ?c = "selected lower flt mutations"
    have R: "bind (recover limit) k m = k x m1" for k :: "py_str option \<Rightarrow> (machine, sweep_end) py"
      using rec Inr by (simp add: bind_def)
    have S: "(r, m') = (if ?c = [] then ret No_match
        else if list_only then ret (Listed ?c)
        else bind (run_pytest suite) (\<lambda>(passed, failing).
          if \<not> passed then ret (Red_baseline failing)
          else bind (for_collect (evaluate suite ast src) ?c) (\<lambda>results. ret (Swept results)))) m1"
      using assms(6) by (simp add: sweep_main_def Let_def R)
    have i: "safe_run F m1" "intact F (mc_disk m1)" using s1 Inr by auto
    have "set ?c \<subseteq> set mutations" by (auto simp: selected_def)
    note l = loop [OF _ this i]
    show ?thesis
    proof (cases "?c = [] \<or> list_only \<or> \<not> (\<exists>names. fst (run_pytest suite m1) = Inr (True, names))")
      case True
      then have "m' = m1" using S
        by (auto simp: bind_def ret_def run_pytest_def split: sum.splits prod.splits if_splits)
      then show ?thesis using i by simp
    next
      case False
      then obtain names where n: "run_pytest suite m1 = (Inr (True, names), m1)" by (auto simp: run_pytest_def)
      obtain q m3 where f: "for_collect (evaluate suite ast src) ?c m1 = (q, m3)" by fastforce
      then have "m' = m3 \<and> (\<forall>x. r = Inr x \<longrightarrow> (\<exists>y. q = Inr y))"
        using S False n by (auto simp: bind_def ret_def split: sum.splits)
      then show ?thesis using l [OF f] by auto
    qed
  qed
qed


section \<open>An undisturbed sweep\<close>

lemma write_text_ok:
  "mc_faults m = [] \<Longrightarrow> utf8_encode s = Inr b \<Longrightarrow> write_text tgt s m = (Inr (), pass (write_states tgt b (mc_disk m)) m)"
  by (simp add: write_text_def next_fault_def)

lemma unlink_ok: "mc_faults m = [] \<Longrightarrow> unlink_journal m = (Inr (), pass [put Journal None (mc_disk m)] m)"
  by (simp add: unlink_journal_def next_fault_def)

text \<open>The disk the suite runs on, and what a mutation is expected to do to it.\<close>

definition broken :: "(py_str \<Rightarrow> bytes option) \<Rightarrow> py_str \<Rightarrow> py_str \<Rightarrow> py_str \<Rightarrow> disk" where
  "broken F p s t = \<lparr>dk_files = F(p := Some (projr (utf8_encode t))), dk_journal = Some (journal_bytes p s)\<rparr>"

definition suite_passes :: "suite \<Rightarrow> disk \<Rightarrow> bool" where
  "suite_passes suite d \<longleftrightarrow> (\<exists>stdout. suite d = Inr (0, stdout))"

definition as_expected :: "suite \<Rightarrow> (py_str \<Rightarrow> py_str option) \<Rightarrow> (py_str \<Rightarrow> bytes option) \<Rightarrow> py_str \<Rightarrow> mutation \<Rightarrow> bool" where
  "as_expected suite ast F src mu \<longleftrightarrow> (\<exists>s t. decode_file (F (source_path src mu)) = Inr s \<and> apply_mutation mu s = Some t \<and> t \<noteq> s
     \<and> ast t = None \<and> suite_passes suite (broken F (source_path src mu) s t) = mu_survives mu)"

lemma apply_is_text: "apply_mutation mu s = Some t \<Longrightarrow> is_text s \<Longrightarrow> is_text (mu_new mu) \<Longrightarrow> is_text t"
  using replace_first_exact [of "mu_old mu" s "mu_new mu"] by (auto simp: apply_mutation_def split: if_splits)

lemma evaluate_exact:
  assumes "F (source_path src mu) = Some b" and "text_file b s" and "is_text (source_path src mu)" and "is_text (mu_new mu)"
    and "mc_disk m = \<lparr>dk_files = F, dk_journal = None\<rparr>" and "mc_faults m = []" and "\<And>d. \<exists>y. suite d = Inr y"
  shows "\<exists>oc m'. evaluate suite ast src mu m = (Inr oc, m') \<and> mc_disk m' = mc_disk m \<and> mc_faults m' = []
    \<and> oc_mutation oc = mu \<and> is_problem oc = (\<not> as_expected suite ast F src mu)"
proof -
  let ?p = "source_path src mu"
  have d: "decode_file (F ?p) = Inr s" using text_file_decode [OF assms(2)] assms(1) by simp
  have read: "read_text (Source ?p) m = (Inr s, m)" using d assms(5) by (simp add: read_text_def content_def)
  show ?thesis
  proof (cases "\<exists>t. apply_mutation mu s = Some t \<and> t \<noteq> s \<and> ast t = None")
    case False
    then have "\<not> as_expected suite ast F src mu" using d by (auto simp: as_expected_def)
    moreover have "\<exists>e. evaluate suite ast src mu m =
        (Inr \<lparr>oc_mutation = mu, oc_caught = False, oc_failing = [], oc_error = Some e\<rparr>, m)"
      using False read by (auto simp: evaluate_def Let_def bind_def ret_def split: option.split)
    ultimately show ?thesis using assms(6) by (auto simp: is_problem_def)
  next
    case True
    then obtain t where t: "apply_mutation mu s = Some t" "t \<noteq> s" "ast t = None" by blast
    have s: "is_text s" "utf8_encode s = Inr b" using assms(2) by (simp_all add: text_file_def)
    have "is_text t" by (rule apply_is_text [OF t(1) s(1) assms(4)])
    then obtain c where c: "utf8_encode t = Inr c" using utf8_roundtrip by blast
    let ?b = "broken F ?p s t"
    define m1 where "m1 = pass (write_states Journal (journal_bytes ?p s) (mc_disk m)) m"
    define m2 where "m2 = pass (write_states (Source ?p) c (mc_disk m1)) m1"
    define m3 where "m3 = pass (write_states (Source ?p) b (mc_disk m2)) m2"
    define m4 where "m4 = pass [put Journal None (mc_disk m3)] m3"
    have f: "mc_faults m1 = []" "mc_faults m2 = []" "mc_faults m3 = []" "mc_faults m4 = []"
      by (simp_all add: m1_def m2_def m3_def m4_def assms(6))
    have disks: "mc_disk m2 = ?b" "mc_disk m4 = mc_disk m"
      using assms(1,5) c by (simp_all add: m1_def m2_def m3_def m4_def put_def broken_def fun_upd_idem)
    have w1: "write_text Journal (journal_text ?p s) m = (Inr (), m1)"
      using write_text_ok [OF assms(6) journal_encode [OF assms(3) s(1)]] by (simp add: m1_def)
    have w2: "write_text (Source ?p) t m1 = (Inr (), m2)" using write_text_ok [OF f(1) c] by (simp add: m2_def)
    have w3: "write_text (Source ?p) s m2 = (Inr (), m3)" using write_text_ok [OF f(2) s(2)] by (simp add: m3_def)
    have w4: "unlink_journal m3 = (Inr (), m4)" using unlink_ok [OF f(3)] by (simp add: m4_def)
    obtain code out where su: "suite ?b = Inr (code, out)" using assms(7) [of ?b] by auto
    have e: "evaluate suite ast src mu m =
        (Inr \<lparr>oc_mutation = mu, oc_caught = (code \<noteq> 0), oc_failing = failing_names out, oc_error = None\<rparr>, m4)"
      using t w1 w2 w3 w4 read su disks(1)
      by (simp add: evaluate_def Let_def bind_def ret_def try_finally_def run_pytest_def)
    have "as_expected suite ast F src mu = ((code = 0) = mu_survives mu)"
      using t d su by (auto simp: as_expected_def suite_passes_def)
    then show ?thesis using e disks f by (auto simp: is_problem_def)
  qed
qed

lemma evaluate_all:
  assumes "\<And>mu. mu \<in> set mus \<Longrightarrow> (\<exists>b s. F (source_path src mu) = Some b \<and> text_file b s) \<and> is_text (source_path src mu) \<and> is_text (mu_new mu)"
    and "mc_disk m = \<lparr>dk_files = F, dk_journal = None\<rparr>" and "mc_faults m = []" and "\<And>d. \<exists>y. suite d = Inr y"
  shows "\<exists>ocs m'. for_collect (evaluate suite ast src) mus m = (Inr ocs, m') \<and> mc_disk m' = mc_disk m \<and> mc_faults m' = []
    \<and> map oc_mutation ocs = mus \<and> map is_problem ocs = map (\<lambda>mu. \<not> as_expected suite ast F src mu) mus"
  using assms
proof (induction mus arbitrary: m)
  case (Cons mu mus)
  obtain b s where "F (source_path src mu) = Some b" "text_file b s" "is_text (source_path src mu)" "is_text (mu_new mu)"
    using Cons.prems(1) [of mu] by auto
  from evaluate_exact [where suite = suite and ast = ast, OF this Cons.prems(2-4)] obtain oc m1 where
    one: "evaluate suite ast src mu m = (Inr oc, m1)" "mc_disk m1 = mc_disk m" "mc_faults m1 = []" "oc_mutation oc = mu"
      "is_problem oc = (\<not> as_expected suite ast F src mu)" by blast
  have "mc_disk m1 = \<lparr>dk_files = F, dk_journal = None\<rparr>" using one(2) Cons.prems(2) by simp
  from Cons.IH [OF _ this one(3) Cons.prems(4)] Cons.prems(1) obtain ocs m2 where
    "for_collect (evaluate suite ast src) mus m1 = (Inr ocs, m2)" "mc_disk m2 = mc_disk m1" "mc_faults m2 = []"
    "map oc_mutation ocs = mus" "map is_problem ocs = map (\<lambda>mu. \<not> as_expected suite ast F src mu) mus"
    by auto
  then show ?case using one by (simp add: bind_def ret_def)
qed (simp add: ret_def)


section \<open>Properties\<close>

text \<open>
  What any number of sweeps can leave on the disk, each killed between any two bytes it writes or
  left to end, whatever goes wrong with its writes, and of signals whose handlers are killed too.
\<close>

inductive left_behind :: "nat \<Rightarrow> py_str \<Rightarrow> mutation list \<Rightarrow> disk \<Rightarrow> disk \<Rightarrow> bool" for limit src mutations d0 where
  start: "left_behind limit src mutations d0 d0"
| sweep: "left_behind limit src mutations d0 d \<Longrightarrow>
    sweep_main suite ast limit lower src mutations flt list_only (boot d faults) = (r, m) \<Longrightarrow>
    d' \<in> set (mc_seen m) \<Longrightarrow> left_behind limit src mutations d0 d'"
| signal: "left_behind limit src mutations d0 d \<Longrightarrow>
    restore_on_signal limit signum (boot d faults) = (r, m) \<Longrightarrow>
    d' \<in> set (mc_seen m) \<Longrightarrow> left_behind limit src mutations d0 d'"

lemma safe_boot: "safe F d \<Longrightarrow> safe_run F (boot d faults)"
  by (simp add: safe_run_def boot_def)

lemma left_behind_safe:
  assumes "left_behind limit src mutations d0 d" and "dk_journal d0 = None" and "text_sources (dk_files d0)"
    and "is_text src" and "\<forall>mu \<in> set mutations. is_text (mu_module mu)" and "0 < limit"
  shows "safe (dk_files d0) d"
  using assms(1)
proof induction
  case start
  then show ?case using assms(2) by (simp add: safe_def intact_def)
next
  case (sweep d suite ast lower flt list_only faults r m d')
  then show ?case using sweep_safe [OF assms(3-5) safe_boot assms(6) sweep.hyps(2)] by (auto simp: safe_run_def)
next
  case (signal d signum faults r m d')
  obtain r1 where "recover limit (boot d faults) = (r1, m)"
    using signal.hyps(2) by (auto simp: restore_on_signal_def bind_def ret_def split: sum.splits prod.splits)
  from recover_safe [OF safe_boot this assms(6)] show ?case using signal by (auto simp: safe_run_def)
qed

text \<open>
  C8: a sweep that is killed is undone by the next run. Whatever earlier sweeps and signal
  handlers left on the disk, each killed at any byte of any write or hit by failing writes, the
  recovery with which the next sweep begins either returns with every source as it was and no
  journal, or refuses the journal, and then no source differs and the disk is left alone.
  The sources are taken to be UTF-8 text whose lines end in line feeds (\<open>crlf_not_restored\<close> shows why).
\<close>

theorem killed_sweep_is_undone:
  assumes "left_behind limit src mutations d0 d" and "dk_journal d0 = None" and "text_sources (dk_files d0)"
    and "is_text src" and "\<forall>mu \<in> set mutations. is_text (mu_module mu)" and "0 < limit"
  shows "\<exists>r m. recover limit (boot d []) = (r, m) \<and>
    ((\<exists>x. r = Inr x) \<and> mc_disk m = d0 \<or> r = Inl UNREADABLE_JOURNAL \<and> mc_disk m = d \<and> dk_files d = dk_files d0)"
proof -
  let ?F = "dk_files d0"
  have d0: "d0 = \<lparr>dk_files = ?F, dk_journal = None\<rparr>" using assms(2) by simp
  from left_behind_safe [OF assms] consider "intact ?F d" | "cut_journal ?F d" | "covered ?F d" by (auto simp: safe_def)
  then show ?thesis
  proof cases
    case 1
    then have "d = d0" using assms(2) by (cases d; cases d0) (simp add: intact_def)
    then show ?thesis using assms(2) by (simp add: recover_def py_simps boot_def)
  next
    case 2
    then obtain p s n where c: "is_text p" "is_text s" "n < length (journal_bytes p s)"
      "dk_journal d = Some (take n (journal_bytes p s))" "dk_files d = ?F" by (auto simp: cut_journal_def)
    obtain e where "rbind (decode_file (Some (take n (journal_bytes p s)))) (loads limit) = Inl e" "is_value_error e"
      using journal_cut_loads [OF c(1,2) assms(6) c(3)] by blast
    then have "guard_journal (restore_record limit) (boot d []) = (Inl UNREADABLE_JOURNAL, boot d [])"
      using c(4) by (auto simp: guard_journal_def restore_record_def read_text_def content_def py_simps unreadable_def
          rbind_Inl_iff boot_def)
    then have "recover limit (boot d []) = (Inl UNREADABLE_JOURNAL, boot d [])"
      using c(4) by (simp add: recover_def py_simps) (simp add: boot_def)
    then show ?thesis using c(5) by (simp add: boot_def)
  next
    case 3
    then obtain p s b where c: "is_text p" "?F p = Some b" "text_file b s"
      "dk_journal (mc_disk (boot d [])) = Some (journal_bytes p s)" "\<forall>q. q \<noteq> p \<longrightarrow> dk_files d q = ?F q"
      by (auto simp: covered_def boot_def)
    have e: "utf8_encode s = Inr b" using c(3) by (simp add: text_file_def)
    define m1 where "m1 = pass (write_states (Source p) b d) (boot d [])"
    define m2 where "m2 = pass [put Journal None (mc_disk m1)] m1"
    have w: "write_text (Source p) s (boot d []) = (Inr (), m1)"
      using write_text_ok [OF _ e, of "boot d []"] by (simp add: m1_def) (simp add: boot_def)
    have u: "unlink_journal m1 = (Inr (), m2)" using unlink_ok [of m1] by (simp add: m1_def m2_def boot_def)
    have "recover limit (boot d []) = (Inr (Some p), m2)"
      using c(4) w u restore_record_covered [of p ?F b s "boot d []", OF c(1-4) assms(6)]
      by (simp add: recover_def guard_journal_def bind_def ret_def gets_def)
    moreover have "dk_files (mc_disk m2) = ?F" "dk_journal (mc_disk m2) = None"
      using c(2,5) by (auto simp: m1_def m2_def put_def)
    then have "mc_disk m2 = d0" using assms(2) by (cases "mc_disk m2"; cases d0) simp
    ultimately show ?thesis by blast
  qed
qed

text \<open>A tree of one file, a mutation of it, and a suite that notices every change.\<close>

definition ex_mutation :: mutation where
  "ex_mutation = \<lparr>mu_module = lit ''a.py'', mu_describes = lit ''wrong'', mu_old = lit ''1'', mu_new = lit ''2'',
     mu_survives = False, mu_why = []\<rparr>"

definition ex_disk :: disk where
  "ex_disk = \<lparr>dk_files = [lit ''src/a.py'' \<mapsto> ascii ''x = 1''], dk_journal = None\<rparr>"

definition ex_suite :: suite where
  "ex_suite d = Inr (if dk_files d (lit ''src/a.py'') = Some (ascii ''x = 1'') then 0 else 1, [])"

lemma ascii_lit: "ascii s = map nbyte (lit s)"
  by (simp add: ascii_def lit_def nbyte_def)

lemma ex_file: "text_file (ascii ''x = 1'') (lit ''x = 1'')" "utf8_encode (lit ''x = 2'') = Inr (ascii ''x = 2'')"
  unfolding ascii_lit by (rule ascii_text_file ascii_encode, simp add: lit_def)+

lemma ex_text_sources: "text_sources (dk_files ex_disk)"
  using ex_file by (auto simp: text_sources_def ex_disk_def)

lemma killed_sweep_is_undone_witness:
  "\<exists>r m. recover 9 (boot ex_disk []) = (r, m) \<and> (r = Inl UNREADABLE_JOURNAL \<or> mc_disk m = ex_disk)"
  using killed_sweep_is_undone [OF left_behind.start, of ex_disk "lit ''src''" "[ex_mutation]" 9] ex_text_sources
  by (auto simp: ex_disk_def ex_mutation_def)

text \<open>
  C21: what a finished sweep says. Undisturbed, over sources that are UTF-8 texts with Unix line
  ends, a sweep returns and leaves the disk as it found it. It exits with 0 exactly when a
  mutation was selected and either they were only to be listed, or the suite passes on the intact
  tree and every selected mutation is found in its file, changes it, parses, and is rejected by
  the suite, or accepted if it was expected to survive.
\<close>

theorem sweep_exit_status:
  assumes "dk_journal d0 = None" and "text_sources (dk_files d0)" and "is_text src"
    and "\<forall>mu \<in> set mutations. is_text (mu_module mu) \<and> is_text (mu_new mu) \<and> dk_files d0 (source_path src mu) \<noteq> None"
    and "\<forall>d. \<exists>y. suite d = Inr y"
  shows "\<exists>e m. sweep_main suite ast limit lower src mutations flt list_only (boot d0 []) = (Inr e, m) \<and> mc_disk m = d0 \<and>
    (exit_status e = 0 \<longleftrightarrow> selected lower flt mutations \<noteq> [] \<and> (list_only \<or> suite_passes suite d0 \<and>
       (\<forall>mu \<in> set (selected lower flt mutations). as_expected suite ast (dk_files d0) src mu)))"
proof -
  let ?c = "selected lower flt mutations" and ?m = "boot d0 []"
  have d0: "mc_disk ?m = \<lparr>dk_files = dk_files d0, dk_journal = None\<rparr>" "mc_disk ?m = d0" "mc_faults ?m = []"
    using assms(1) by (simp_all add: boot_def)
  obtain code out where su: "suite d0 = Inr (code, out)" using assms(5) by fastforce
  have "(\<exists>b s. dk_files d0 (source_path src mu) = Some b \<and> text_file b s) \<and> is_text (source_path src mu) \<and> is_text (mu_new mu)"
    if "mu \<in> set ?c" for mu
    using that assms(2-4) by (force simp: selected_def text_sources_def source_path_def)
  from evaluate_all [of ?c, where ast = ast and suite = suite, OF this d0(1,3)] assms(5) obtain ocs m where
    all: "for_collect (evaluate suite ast src) ?c ?m = (Inr ocs, m)" "mc_disk m = d0"
      "map is_problem ocs = map (\<lambda>mu. \<not> as_expected suite ast (dk_files d0) src mu) ?c"
    using d0(2) by auto
  have problems: "(filter is_problem ocs = []) = (\<forall>mu \<in> set ?c. as_expected suite ast (dk_files d0) src mu)"
  proof -
    have "(filter is_problem ocs = []) = (\<forall>b \<in> set (map is_problem ocs). \<not> b)" by (auto simp: filter_empty_conv)
    then show ?thesis unfolding all(3) by auto
  qed
  have S: "sweep_main suite ast limit lower src mutations flt list_only ?m =
      (if ?c = [] then ret No_match else if list_only then ret (Listed ?c)
       else if code \<noteq> 0 then ret (Red_baseline (failing_names out)) else bind (for_collect (evaluate suite ast src) ?c) (\<lambda>results. ret (Swept results))) ?m"
    using assms(1) su d0(2) by (simp add: sweep_main_def recover_def Let_def bind_def gets_def ret_def run_pytest_def)
  have p: "suite_passes suite d0 = (code = 0)" using su by (auto simp: suite_passes_def)
  show ?thesis
  proof (cases "?c = [] \<or> list_only \<or> code \<noteq> 0")
    case True
    then show ?thesis using S p d0(2) by (auto simp: exit_status_def ret_def)
  next
    case False
    then have "sweep_main suite ast limit lower src mutations flt list_only ?m = (Inr (Swept ocs), m)"
      using S all(1) by (simp add: bind_def ret_def)
    then show ?thesis using False p all(2) problems by (auto simp: exit_status_def)
  qed
qed


lemma sweep_exit_status_witness:
  "\<exists>e m. sweep_main ex_suite (\<lambda>_. None) 9 (\<lambda>s. s) (lit ''src'') [ex_mutation] [] False (boot ex_disk []) = (Inr e, m)
     \<and> mc_disk m = ex_disk \<and> exit_status e = 0"
proof -
  have p: "source_path (lit ''src'') ex_mutation = lit ''src/a.py''" by code_simp
  have sv: "\<not> mu_survives ex_mutation" by (simp add: ex_mutation_def)
  have "contains_text [] s" for s by (cases s) simp_all
  then have c: "selected (\<lambda>s. s) [] [ex_mutation] = [ex_mutation]" by (simp add: selected_def)
  have "decode_file (Some (ascii ''x = 1'')) = Inr (lit ''x = 1'')" by (rule text_file_decode [OF ex_file(1)])
  moreover have "apply_mutation ex_mutation (lit ''x = 1'') = Some (lit ''x = 2'')" "lit ''x = 2'' \<noteq> lit ''x = 1''" by code_simp+
  moreover have "projr (utf8_encode (lit ''x = 2'')) \<noteq> ascii ''x = 1''" unfolding ex_file(2) by (simp add: ascii_def)
  ultimately have e: "as_expected ex_suite (\<lambda>_. None) (dk_files ex_disk) (lit ''src'') ex_mutation"
    using sv by (auto simp: as_expected_def p ex_disk_def suite_passes_def ex_suite_def broken_def)
  have b: "suite_passes ex_suite ex_disk" by (simp add: suite_passes_def ex_suite_def ex_disk_def)
  have f: "dk_files ex_disk (source_path (lit ''src'') ex_mutation) \<noteq> None" by (simp add: p ex_disk_def)
  show ?thesis
    using sweep_exit_status [of ex_disk "lit ''src''" "[ex_mutation]" ex_suite "\<lambda>_. None" 9 "\<lambda>s. s" "[]" False]
      ex_text_sources b c e f by (auto simp: ex_disk_def ex_suite_def ex_mutation_def)
qed

section \<open>Limits\<close>

text \<open>
  The recovery cannot tell a journal that was cut short from a corrupted one. Every write of the
  journal passes through the empty one; a kill there blocks all later sweeps, although no source
  differs, until someone removes the journal.
\<close>

lemma empty_journal_refused:
  "put Journal (Some []) d \<in> set (write_states Journal b d)"
  "dk_journal d = Some [] \<Longrightarrow> recover limit (boot d faults) = (Inl UNREADABLE_JOURNAL, boot d faults)"
proof -
  show "put Journal (Some []) d \<in> set (write_states Journal b d)"
    by (force simp: write_states_def simp del: upt_Suc)
  have "parse_value limit [] = bad_json" by simp
  then have "loads limit [] = bad_json" by (simp add: loads_def skip_ws_def)
  then show "dk_journal d = Some [] \<Longrightarrow> recover limit (boot d faults) = (Inl UNREADABLE_JOURNAL, boot d faults)"
    by (simp add: recover_def py_simps guard_journal_def restore_record_def read_text_def content_def decode_file_def
        unreadable_def boot_def)
qed

text \<open>A source with other line ends than Unix's is not put back as it was.\<close>

lemma crlf_not_restored:
  assumes "dk_files d p = Some (ascii [CHR ''x'', CHR 0x0D, CHR 0x0A])" and "mc_disk m = d" and "mc_faults m = []"
  shows "read_text (Source p) m = (Inr [120, 10], m)"
    and "\<exists>m'. write_text (Source p) [120, 10] m = (Inr (), m') \<and> dk_files (mc_disk m') p = Some [120, 10]"
    and "ascii [CHR ''x'', CHR 0x0D, CHR 0x0A] \<noteq> [120, 10]"
proof -
  have "decode_file (Some (ascii [CHR ''x'', CHR 0x0D, CHR 0x0A])) = Inr [120, 10]" by code_simp
  then show "read_text (Source p) m = (Inr [120, 10], m)" using assms by (simp add: read_text_def content_def)
  have "utf8_encode [120, 10] = Inr [120, 10]" by (simp add: ascii_encode nbyte_def)
  from write_text_ok [OF assms(3) this]
  show "\<exists>m'. write_text (Source p) [120, 10] m = (Inr (), m') \<and> dk_files (mc_disk m') p = Some [120, 10]"
    by (auto simp: put_def)
  show "ascii [CHR ''x'', CHR 0x0D, CHR 0x0A] \<noteq> [120, 10]" by code_simp
qed

end
