(* ===== verification/Fixtures.thy ===== *)
theory Fixtures
  imports Sweep Tx_Roundtrip Subscribe
begin

text \<open>
  \<open>tools/make_fixtures.py\<close>, which writes the recorded streams, and \<open>tools/replay_zmq.py\<close>,
  which publishes them as bitcoind would. What the random generator draws is an argument. The
  lemmas take a fixture all the way: written, read back, published, decoded and tracked.
\<close>

section \<open>Synthetic transactions\<close>

definition fx_varint :: "int \<Rightarrow> exn + bytes" where
  "fx_varint n =
     (if n < 0xFD then (if 0 \<le> n then Inr [word_of_int n] else Inl (ValueError ''bytes must be in range(0, 256)''))
      else if n \<le> 0xFFFF then rbind (pack_le 2 n) (\<lambda>b. Inr (253 # b))
      else rbind (pack_le 4 n) (\<lambda>b. Inr (254 # b)))"

definition fx_p2wpkh :: "bytes \<Rightarrow> bytes" where
  "fx_p2wpkh drawn = [0, 0x14] @ drawn"

text \<open>\<open>b = b""; for x in xs: b += piece(x)\<close>\<close>

fun join_pieces :: "('a \<Rightarrow> exn + bytes) \<Rightarrow> 'a list \<Rightarrow> exn + bytes" where
  "join_pieces piece [] = Inr []"
| "join_pieces piece (x # xs) = rbind (piece x) (\<lambda>b. rbind (join_pieces piece xs) (\<lambda>bs. Inr (b @ bs)))"

definition fx_input :: "bytes \<times> int \<Rightarrow> exn + bytes" where
  "fx_input = (\<lambda>(txid, vout).
     rbind (pack_le 4 vout) (\<lambda>v. rbind (fx_varint 0) (\<lambda>script. rbind (pack_le 4 0xFFFFFFFD) (\<lambda>sequence.
     Inr (txid @ v @ script @ sequence)))))"

definition fx_output :: "int \<times> bytes \<Rightarrow> exn + bytes" where
  "fx_output = (\<lambda>(sats, drawn).
     rbind (pack_le 8 sats) (\<lambda>value. let spk = fx_p2wpkh drawn
     in rbind (fx_varint (int (length spk))) (\<lambda>n. Inr (value @ n @ spk))))"

text \<open>What is drawn for each input, a previous output, and for each output, a value and a hash.\<close>

definition make_tx :: "(bytes \<times> int) list \<Rightarrow> (int \<times> bytes) list \<Rightarrow> exn + bytes" where
  "make_tx ins outs =
     rbind (pack_le 4 2) (\<lambda>version.
     rbind (fx_varint (int (length ins))) (\<lambda>n_in. rbind (join_pieces fx_input ins) (\<lambda>inputs.
     rbind (fx_varint (int (length outs))) (\<lambda>n_out. rbind (join_pieces fx_output outs) (\<lambda>outputs.
     rbind (pack_le 4 0) (\<lambda>locktime.
     Inr (version @ n_in @ inputs @ n_out @ outputs @ locktime)))))))"

section \<open>The two fixtures\<close>

record draw =
  dw_ins :: "(bytes \<times> int) list"
  dw_outs :: "(int \<times> bytes) list"
  dw_delay :: int

definition fx_message :: "int \<Rightarrow> draw \<Rightarrow> exn + jval" where
  "fx_message seq d = rbind (make_tx (dw_ins d) (dw_outs d)) (\<lambda>tx.
     Inr (JVObj [(lit ''topic'', JVStr (lit ''rawtx'')), (lit ''seq'', JVInt seq), (lit ''hex'', JVStr (lit (hex tx))),
       (lit ''delay_ms'', JVInt (dw_delay d))]))"

text \<open>\<open>for seq in range(1, 121)\<close>, a draw for each.\<close>

fun sample_from :: "int \<Rightarrow> draw list \<Rightarrow> exn + jval list" where
  "sample_from seq [] = Inr []"
| "sample_from seq (d # ds) = rbind (fx_message seq d) (\<lambda>m. rbind (sample_from (seq + 1) ds) (\<lambda>ms. Inr (m # ms)))"

definition DROPS :: "(int \<times> int) list" where
  "DROPS = [(40, 599), (75, 26), (100, 207)]"

text \<open>The number after message \<open>i\<close>, which had the number \<open>seq\<close>.\<close>

definition next_seq :: "int \<Rightarrow> int \<Rightarrow> int" where
  "next_seq i seq = seq + 1 + dict_get DROPS i 0"

fun gap_from :: "int \<Rightarrow> int \<Rightarrow> draw list \<Rightarrow> exn + jval list" where
  "gap_from i seq [] = Inr []"
| "gap_from i seq (d # ds) = rbind (fx_message seq d) (\<lambda>m.
     rbind (gap_from (i + 1) (next_seq i seq) ds) (\<lambda>ms. Inr (m # ms)))"

definition SAMPLE_HEADER :: py_str where
  "SAMPLE_HEADER = lit ''Synthetic contiguous rawtx stream '' @ [8212] @ lit '' no sequence gaps.'' @ [10] @
     lit ''Baseline: a correct gap detector must report ZERO gaps here.''"

definition GAP_HEADER :: py_str where
  "GAP_HEADER = lit ''Synthetic rawtx stream with THREE deliberate sequence gaps: 599, 26 and 207'' @ [10] @
     lit ''messages missing. Gap sizes mirror real measured high-water-mark loss.'' @ [10] @
     lit ''A correct gap detector must report exactly 3 gaps totalling 832 messages.'' @ [10] @
     lit ''Nothing in the payload indicates a drop '' @ [8212] @ lit '' the sequence counter is the only evidence.''"

text \<open>\<open>"\n".join(lines) + "\n"\<close>\<close>

definition join_lines :: "py_str list \<Rightarrow> py_str" where
  "join_lines ls = concat (map (\<lambda>l. l @ [10]) ls)"

definition fixture_text :: "py_str \<Rightarrow> jval list \<Rightarrow> py_str" where
  "fixture_text header msgs =
     join_lines (map (\<lambda>line. [35, 32] @ line) (splitlines (ustrip header)) @ map json_dumps msgs)"

section \<open>The replay\<close>

text \<open>\<open>load\<close>: comments and empty lines are skipped; a line that is no JSON ends the program.\<close>

definition line_value :: "nat \<Rightarrow> py_str \<Rightarrow> exn + jv" where
  "line_value limit line = (case loads limit line of
     Inr v \<Rightarrow> Inr v
   | Inl e \<Rightarrow> Inl (if e = ValueError ''JSONDecodeError'' then SystemExit ''not JSON'' else e))"

fun load_lines :: "nat \<Rightarrow> py_str list \<Rightarrow> exn + jv list" where
  "load_lines limit [] = Inr []"
| "load_lines limit (l # ls) =
     (let line = ustrip l
      in if line = [] \<or> starts_with_text [35] line then load_lines limit ls
         else rbind (line_value limit line) (\<lambda>v. rbind (load_lines limit ls) (\<lambda>vs. Inr (v # vs))))"

definition load_fixture :: "nat \<Rightarrow> py_str \<Rightarrow> exn + jv list" where
  "load_fixture limit text = load_lines limit (splitlines text)"

text \<open>\<open>int(m["seq"])\<close>; the conversion of a number with a fraction is the argument \<open>of_float\<close>.\<close>

definition seq_value :: "(py_str \<Rightarrow> exn + int) \<Rightarrow> jv \<Rightarrow> exn + int" where
  "seq_value of_float v = (case v of
     VInt i \<Rightarrow> Inr i | VBool b \<Rightarrow> Inr (if b then 1 else 0) | VStr s \<Rightarrow> int_of_text s | VReal t \<Rightarrow> of_float t | _ \<Rightarrow> Inl TypeError)"

definition encode_item :: "jv \<Rightarrow> exn + bytes" where
  "encode_item v = (case v of VStr s \<Rightarrow> utf8_encode s | _ \<Rightarrow> Inl AttributeError)"

definition fromhex_item :: "jv \<Rightarrow> exn + bytes" where
  "fromhex_item v = (case v of VStr s \<Rightarrow> fromhex_text s | _ \<Rightarrow> Inl TypeError)"

definition message_parts :: "(py_str \<Rightarrow> exn + int) \<Rightarrow> jv \<Rightarrow> exn + bytes list" where
  "message_parts of_float m =
     rbind (rbind (jv_item m ''topic'') encode_item) (\<lambda>topic.
     rbind (rbind (jv_item m ''hex'') fromhex_item) (\<lambda>body.
     rbind (rbind (rbind (jv_item m ''seq'') (seq_value of_float)) (pack_le 4)) (\<lambda>seq.
     Inr [topic, body, seq])))"

text \<open>
  One pass over the messages. The state is what was sent; \<open>pause\<close> is the sleep after a message,
  for a speed that is not zero, and may raise on a delay that is no number.
\<close>

definition replay_one :: "(py_str \<Rightarrow> exn + int) \<Rightarrow> (jv \<Rightarrow> exn + unit) option \<Rightarrow> jv \<Rightarrow> (bytes list list, unit) py" where
  "replay_one of_float pause m =
     bind (lift_exn (message_parts of_float m)) (\<lambda>parts.
     bind (modify (\<lambda>sent. sent @ [parts])) (\<lambda>_.
     case pause of None \<Rightarrow> ret ()
     | Some sleep \<Rightarrow> lift_exn (sleep (case jv_get m ''delay_ms'' of Some v \<Rightarrow> v | None \<Rightarrow> VInt 50))))"

definition replay_pass :: "(py_str \<Rightarrow> exn + int) \<Rightarrow> (jv \<Rightarrow> exn + unit) option \<Rightarrow> jv list \<Rightarrow> (bytes list list, unit) py" where
  "replay_pass of_float pause msgs = for_each (replay_one of_float pause) msgs"

text \<open>With \<open>--loop\<close> the passes go on until Ctrl-C, here after a number of them.\<close>

definition replay :: "(py_str \<Rightarrow> exn + int) \<Rightarrow> (jv \<Rightarrow> exn + unit) option \<Rightarrow> nat \<Rightarrow> jv list \<Rightarrow> (bytes list list, unit) py" where
  "replay of_float pause passes msgs = for_each (\<lambda>_. replay_pass of_float pause msgs) [0..<passes]"

text \<open>The wait for a subscriber: the clock and what \<open>poll\<close> saw, pass by pass.\<close>

datatype polled = Connected | Nothing_yet | Interrupted

fun await_subscriber :: "int \<Rightarrow> (int \<times> polled) list \<Rightarrow> bool" where
  "await_subscriber deadline [] = False"
| "await_subscriber deadline ((now, p) # rest) =
     (if now < deadline then
        (case p of Connected \<Rightarrow> True | Interrupted \<Rightarrow> False | Nothing_yet \<Rightarrow> await_subscriber deadline rest)
      else False)"

section \<open>The transactions are well formed\<close>

definition draw_ok :: "draw \<Rightarrow> bool" where
  "draw_ok d \<longleftrightarrow> dw_ins d \<noteq> [] \<and> length (dw_ins d) < 2 ^ 32 \<and> length (dw_outs d) < 2 ^ 32
     \<and> (\<forall>(txid, vout) \<in> set (dw_ins d). length txid = 32 \<and> 0 \<le> vout \<and> vout < 4)
     \<and> (\<forall>(sats, h) \<in> set (dw_outs d). 1000 \<le> sats \<and> sats < 5000000 \<and> length h = 20)
     \<and> dw_delay d \<in> {20, 40, 70, 110}"

definition wire_of_draw :: "draw \<Rightarrow> wire_tx" where
  "wire_of_draw d = \<lparr>w_version = 2,
     w_ins = map (\<lambda>(txid, vout). \<lparr>wi_txid = txid, wi_vout = vout, wi_script = [], wi_sequence = 0xFFFFFFFD\<rparr>) (dw_ins d),
     w_outs = map (\<lambda>(sats, h). \<lparr>wo_value = sats, wo_spk = fx_p2wpkh h\<rparr>) (dw_outs d),
     w_witness = None, w_locktime = 0\<rparr>"

lemma fx_varint_ser: "n < 2 ^ 32 \<Longrightarrow> fx_varint (int n) = Inr (ser_varint n)"
  by (auto simp: fx_varint_def ser_varint_def pack_le_def)

lemma pieces_ser:
  "(\<And>x. x \<in> set xs \<Longrightarrow> piece x = Inr (ser x)) \<Longrightarrow> join_pieces piece xs = Inr (concat (map ser xs))"
  by (induction xs) simp_all

lemma make_tx_ser: "draw_ok d \<Longrightarrow> make_tx (dw_ins d) (dw_outs d) = Inr (ser_tx (wire_of_draw d))"
proof -
  assume d: "draw_ok d"
  let ?i = "\<lambda>(txid, vout). ser_input \<lparr>wi_txid = txid, wi_vout = vout, wi_script = [], wi_sequence = 0xFFFFFFFD\<rparr>"
  let ?o = "\<lambda>(sats, h). ser_output \<lparr>wo_value = sats, wo_spk = fx_p2wpkh h\<rparr>"
  have "join_pieces fx_input (dw_ins d) = Inr (concat (map ?i (dw_ins d)))"
  proof (rule pieces_ser)
    fix x assume "x \<in> set (dw_ins d)"
    then have "0 \<le> snd x" "snd x < 4" using d by (auto simp: draw_ok_def)
    then show "fx_input x = Inr (?i x)"
      using fx_varint_ser [of 0] by (cases x) (simp add: fx_input_def ser_input_def ser_bytes_def pack_le_def)
  qed
  moreover have "join_pieces fx_output (dw_outs d) = Inr (concat (map ?o (dw_outs d)))"
  proof (rule pieces_ser)
    fix x assume "x \<in> set (dw_outs d)"
    then have "1000 \<le> fst x" "fst x < 5000000" "length (snd x) = 20" using d by (auto simp: draw_ok_def)
    then show "fx_output x = Inr (?o x)"
      using fx_varint_ser [of 22] by (cases x) (simp add: fx_output_def ser_output_def ser_bytes_def pack_le_def fx_p2wpkh_def)
  qed
  moreover have "map ?i (dw_ins d) = map ser_input (w_ins (wire_of_draw d))" "map ?o (dw_outs d) = map ser_output (w_outs (wire_of_draw d))"
    by (simp_all add: wire_of_draw_def comp_def split_def)
  moreover have "fx_varint (int (length (dw_ins d))) = Inr (ser_varint (length (dw_ins d)))"
    "fx_varint (int (length (dw_outs d))) = Inr (ser_varint (length (dw_outs d)))"
    using d by (simp_all add: draw_ok_def fx_varint_ser)
  moreover have "w_version (wire_of_draw d) = 2" "w_witness (wire_of_draw d) = None" "w_locktime (wire_of_draw d) = 0"
    "length (w_ins (wire_of_draw d)) = length (dw_ins d)" "length (w_outs (wire_of_draw d)) = length (dw_outs d)"
    by (simp_all add: wire_of_draw_def)
  ultimately show ?thesis
    by (simp add: make_tx_def pack_le_def ser_tx_def ser_stripped_def ser_ins_def ser_outs_def del: map_map)
qed

lemma draw_wf: "draw_ok d \<Longrightarrow> wf_wire (wire_of_draw d)"
  by (auto simp: draw_ok_def wire_of_draw_def wf_wire_def wf_wire_input_def fx_p2wpkh_def)

section \<open>A fixture is read back\<close>

definition entry :: "int \<Rightarrow> draw \<Rightarrow> jval" where
  "entry seq d = JVObj [(lit ''topic'', JVStr (lit ''rawtx'')), (lit ''seq'', JVInt seq),
     (lit ''hex'', JVStr (lit (hex (ser_tx (wire_of_draw d))))), (lit ''delay_ms'', JVInt (dw_delay d))]"

lemma fx_message_entry: "draw_ok d \<Longrightarrow> fx_message seq d = Inr (entry seq d)"
  by (simp add: fx_message_def make_tx_ser entry_def)

fun gap_seqs :: "int \<Rightarrow> int \<Rightarrow> nat \<Rightarrow> int list" where
  "gap_seqs i seq 0 = []"
| "gap_seqs i seq (Suc n) = seq # gap_seqs (i + 1) (next_seq i seq) n"

lemma length_gap_seqs [simp]: "length (gap_seqs i seq n) = n"
  by (induction n arbitrary: i seq) simp_all

lemma sample_entries: "\<forall>d \<in> set ds. draw_ok d \<Longrightarrow> sample_from seq ds = Inr (map2 entry [seq..seq + int (length ds) - 1] ds)"
proof (induction ds arbitrary: seq)
  case (Cons d ds)
  have "[seq..seq + int (length (d # ds)) - 1] = seq # [seq + 1..seq + 1 + int (length ds) - 1]"
    by (subst upto.simps) (simp add: algebra_simps)
  then show ?case using Cons by (simp add: fx_message_entry del: length_Cons)
qed simp

lemma gap_entries: "\<forall>d \<in> set ds. draw_ok d \<Longrightarrow> gap_from i seq ds = Inr (map2 entry (gap_seqs i seq (length ds)) ds)"
  by (induction ds arbitrary: i seq) (simp_all add: fx_message_entry)

text \<open>Lines without a line end are the lines of their join.\<close>

lemma splitlines_line:
  assumes "\<forall>c \<in> set l. \<not> is_line_end c"
  shows "splitlines (l @ 10 # rest) = l # splitlines rest"
proof -
  obtain c t where ct: "l @ 10 # rest = c # t" by (cases l) auto
  have e: "is_line_end 10" by (simp add: is_line_end_def)
  have "takeWhile (\<lambda>x. \<not> is_line_end x) (c # t) = l" "dropWhile (\<lambda>x. \<not> is_line_end x) (c # t) = 10 # rest"
    unfolding ct [symmetric] using assms e by (simp_all add: takeWhile_append2 dropWhile_append2)
  then have "splitlines (c # t) = l # splitlines (case 10 # rest of a # b # t \<Rightarrow> if a = 13 \<and> b = 10 then t else b # t | _ \<Rightarrow> [])"
    unfolding splitlines.simps(2) Let_def by (simp only:)
  then show ?thesis unfolding ct by (cases rest) simp_all
qed

lemma splitlines_join: "\<forall>l \<in> set ls. \<forall>c \<in> set l. \<not> is_line_end c \<Longrightarrow> splitlines (join_lines ls) = ls"
  by (induction ls) (simp_all add: join_lines_def splitlines_line)

definition printable :: "py_str \<Rightarrow> bool" where
  "printable s \<longleftrightarrow> (\<forall>c \<in> set s. 32 \<le> c \<and> c \<le> 126)"

lemma printable_simps [simp]:
  "printable []" "printable (c # s) \<longleftrightarrow> 32 \<le> c \<and> c \<le> 126 \<and> printable s" "printable (s @ t) \<longleftrightarrow> printable s \<and> printable t"
  by (auto simp: printable_def)

lemma printable_no_line_end: "printable s \<Longrightarrow> \<forall>c \<in> set s. \<not> is_line_end c"
  by (auto simp: printable_def is_line_end_def)

lemma printable_esc: "printable (esc_ascii c)"
proof -
  have "x \<in> set (u4 n) \<Longrightarrow> n < 65536 \<Longrightarrow> 32 \<le> x \<and> x \<le> 126" for x n
  proof -
    assume "n < 65536"
    then have "n div 4096 < 16" by (simp add: less_mult_imp_div_less)
    moreover assume "x \<in> set (u4 n)"
    ultimately show ?thesis using hex_code_ascii by (fastforce simp: u4_def quad_def hex_code_def)
  qed
  then have u: "n < 65536 \<Longrightarrow> printable (u4 n)" for n by (auto simp: printable_def)
  define k l where "k = 55296 + (c - 65536) div 1024 mod 1024" and "l = 56320 + (c - 65536) mod 1024"
  have "(c - 65536) mod 1024 < 1024" "(c - 65536) div 1024 mod 1024 < 1024" by simp_all
  then have kl: "k < 65536" "l < 65536" unfolding k_def l_def by linarith+
  show ?thesis unfolding esc_ascii_def k_def [symmetric] l_def [symmetric]
    using u kl by (auto simp: esc_char_def)
qed

lemma printable_quote: "printable (quote_with (esc_ascii, [32]) s)"
  using printable_esc by (auto simp: quote_with_def printable_def)

lemma printable_int: "printable (lit (int_str i))"
  using nat_str_digits [of "nat \<bar>i\<bar>"] by (auto simp: lit_int_str printable_def)

lemma printable_json: "printable (write_json (esc_ascii, [32]) v)"
  "printable (write_items (esc_ascii, [32]) vs)" "printable (write_members (esc_ascii, [32]) ms)"
  by (induction "(esc_ascii, [32 :: nat])" v and "(esc_ascii, [32 :: nat])" vs and "(esc_ascii, [32 :: nat])" ms
    rule: write_json_write_items_write_members.induct) (simp_all add: printable_quote printable_int)

lemma ustrip_stays: "s \<noteq> [] \<Longrightarrow> \<not> is_uspace (hd s) \<Longrightarrow> \<not> is_uspace (last s) \<Longrightarrow> ustrip s = s"
proof -
  assume s: "s \<noteq> []" "\<not> is_uspace (hd s)" "\<not> is_uspace (last s)"
  then have "dropWhile is_uspace s = s" by (cases s) simp_all
  moreover have "dropWhile is_uspace (rev s) = rev s" using s by (cases "rev s") (simp_all add: last_rev hd_rev)
  ultimately show ?thesis by (simp add: ustrip_def)
qed

lemma ustrip_comment: "\<exists>t. ustrip (35 # s) = 35 # t"
proof -
  have "dropWhile is_uspace (35 # s) = 35 # s" by (simp add: is_uspace_def)
  moreover have "\<exists>t. dropWhile is_uspace (rev s @ [35]) = rev (35 # t)"
  proof -
    have "dropWhile is_uspace (x @ [35]) = dropWhile is_uspace x @ [35]" for x
      by (induction x) (simp_all add: is_uspace_def)
    then show ?thesis by (intro exI [of _ "rev (dropWhile is_uspace (rev s))"]) simp
  qed
  ultimately show ?thesis by (auto simp: ustrip_def)
qed

lemma load_comments: "load_lines limit (map (\<lambda>line. [35, 32] @ line) hs @ ls) = load_lines limit ls"
proof (induction hs)
  case (Cons h hs)
  obtain t where "ustrip (35 # 32 # h) = 35 # t" using ustrip_comment by blast
  then show ?case using Cons by simp
qed simp

text \<open>Objects, one to a line.\<close>

lemma load_objects:
  assumes "\<forall>v \<in> set vs. jplain v \<and> jdepth v \<le> limit \<and> (\<exists>ms. v = JVObj ms)"
  shows "load_lines limit (map json_dumps vs) = Inr (map jv_of vs)"
  using assms
proof (induction vs)
  case (Cons v vs)
  obtain ms where v: "v = JVObj ms" using Cons.prems by auto
  have e: "json_dumps v = 123 # write_members (esc_ascii, [32]) ms @ [125]" by (simp add: json_dumps_def v)
  have "ustrip (json_dumps v) = json_dumps v" unfolding e by (rule ustrip_stays) (simp_all add: is_uspace_def)
  moreover have "json_dumps v \<noteq> []" "\<not> starts_with_text [35] (json_dumps v)" unfolding e by simp_all
  moreover have "loads limit (json_dumps v) = Inr (jv_of v)" using Cons.prems by (intro loads_json_dumps) auto
  ultimately show ?case using Cons by (simp add: line_value_def)
qed simp

lemma load_fixture_text:
  assumes "\<forall>v \<in> set vs. jplain v \<and> jdepth v \<le> limit \<and> (\<exists>ms. v = JVObj ms)"
    and "\<forall>l \<in> set (splitlines (ustrip header)). \<forall>c \<in> set l. \<not> is_line_end c"
  shows "load_fixture limit (fixture_text header vs) = Inr (map jv_of vs)"
proof -
  have "\<not> is_line_end 35" "\<not> is_line_end 32" by (simp_all add: is_line_end_def)
  then have "splitlines (fixture_text header vs) = map (\<lambda>line. [35, 32] @ line) (splitlines (ustrip header)) @ map json_dumps vs"
    unfolding fixture_text_def using assms(2) printable_no_line_end [OF printable_json(1)]
    by (intro splitlines_join) (auto simp: json_dumps_def)
  then show ?thesis using load_objects [OF assms(1)] by (simp only: load_fixture_def load_comments)
qed

lemma splitlines_no_ends: "l \<in> set (splitlines s) \<Longrightarrow> c \<in> set l \<Longrightarrow> \<not> is_line_end c"
proof (induction s rule: splitlines.induct)
  case (2 x s)
  then show ?case by (auto simp: Let_def dest: set_takeWhileD)
qed simp

section \<open>A fixture is published and decoded\<close>

lemma fromhex_text_lit: "fromhex_text (lit (hex b)) = Inr b"
proof -
  have "map char_of (lit s) = s" for s by (simp add: lit_def)
  moreover have "\<forall>c \<in> set (lit (hex b)). c < 256" by (auto simp: lit_def)
  ultimately show ?thesis by (simp add: fromhex_text_def)
qed

definition entry_parts :: "int \<Rightarrow> draw \<Rightarrow> bytes list" where
  "entry_parts seq d = [ascii ''rawtx'', ser_tx (wire_of_draw d), to_le 4 seq]"

lemma entry_published:
  assumes "0 \<le> seq" and "seq < 2 ^ 32"
  shows "message_parts of_float (jv_of (entry seq d)) = Inr (entry_parts seq d)"
proof -
  have "utf8_encode (lit ''rawtx'') = Inr (ascii ''rawtx'')" unfolding ascii_lit by (rule ascii_encode) (simp add: lit_def)
  moreover have "pack_le 4 seq = Inr (to_le 4 seq)" using assms by (simp add: pack_le_def)
  ultimately show ?thesis
    by (simp add: message_parts_def entry_def jv_item_def encode_item_def fromhex_item_def fromhex_text_lit seq_value_def entry_parts_def)
qed

lemma entry_decoded:
  assumes "0 \<le> seq" and "seq < 2 ^ 32"
  shows "decode_parts (entry_parts seq d) = Inr \<lparr>msg_topic = ''rawtx'', msg_body = ser_tx (wire_of_draw d), msg_seq = seq\<rparr>"
proof -
  have "decode_ascii (ascii ''rawtx'') = Inr ''rawtx''" by code_simp
  then show ?thesis using assms by (simp add: decode_parts_def entry_parts_def parse_seq_part_def)
qed

lemma replay_pass_parts:
  assumes "\<forall>v \<in> set vs. message_parts of_float v = Inr (parts v)"
  shows "replay_pass of_float None vs sent = (Inr (), sent @ map parts vs)"
  unfolding replay_pass_def using assms
  by (induction vs arbitrary: sent) (simp_all add: for_each_Cons replay_one_def py_simps)


section \<open>What the tracker reports of a fixture\<close>

text \<open>On increasing numbers the anomalies are the gaps between them, and nothing else.\<close>

fun gaps_between :: "string \<Rightarrow> int \<Rightarrow> int list \<Rightarrow> anomaly list" where
  "gaps_between topic prev [] = []"
| "gaps_between topic prev (s # ss) =
     (if s = prev + 1 then [] else [mk_anomaly topic GAP prev s (s - prev - 1)]) @ gaps_between topic s ss"

definition reported :: "anomaly option list \<Rightarrow> anomaly list" where
  "reported as = concat (map (\<lambda>a. case a of None \<Rightarrow> [] | Some x \<Rightarrow> [x]) as)"

lemma anomalies_increasing:
  assumes "ts_last_seq (topic_state_of t topic) = Some prev" and "sorted_wrt (<) (prev # ss)"
    and "\<forall>s \<in> set ss. 0 \<le> s \<and> s < UINT32"
  shows "reported (anomalies topic ss t) = gaps_between topic prev ss
    \<and> ts_missing_total (topic_state_of (observe_run topic ss t) topic)
        = ts_missing_total (topic_state_of t topic) + sum_list (map an_missing (gaps_between topic prev ss))
    \<and> tr_needs_reconciliation (observe_run topic ss t) = (tr_needs_reconciliation t \<or> gaps_between topic prev ss \<noteq> [])"
  using assms
proof (induction ss arbitrary: prev t)
  case (Cons s ss)
  let ?t = "snd (observe topic s t)"
  have r: "0 \<le> s" "s < UINT32" and p: "prev < s" using Cons.prems by auto
  have "ts_last_seq (topic_state_of ?t topic) = Some s" by (rule observe_last [OF r])
  from Cons.IH [OF this] Cons.prems have ih: "reported (anomalies topic ss ?t) = gaps_between topic s ss"
    "ts_missing_total (topic_state_of (observe_run topic ss ?t) topic)
        = ts_missing_total (topic_state_of ?t topic) + sum_list (map an_missing (gaps_between topic s ss))"
    "tr_needs_reconciliation (observe_run topic ss ?t) = (tr_needs_reconciliation ?t \<or> gaps_between topic s ss \<noteq> [])"
    by auto
  have o: "observe topic s t = (Inr (if s = prev + 1 then None else Some (mk_anomaly topic GAP prev s (s - prev - 1))), ?t)"
    "ts_missing_total (topic_state_of ?t topic) = ts_missing_total (topic_state_of t topic) + (s - prev - 1)"
    "tr_needs_reconciliation ?t = (tr_needs_reconciliation t \<or> s \<noteq> prev + 1)"
    using r p Cons.prems(1) by (auto simp: observe_unfold)
  have "anomalies topic (s # ss) t = (if s = prev + 1 then None else Some (mk_anomaly topic GAP prev s (s - prev - 1))) # anomalies topic ss ?t"
    by (subst anomalies.simps, subst o(1)) simp
  then show ?case using ih o(2,3) by (simp add: reported_def) (auto simp: mk_anomaly_def)
qed (simp add: reported_def)

lemma anomalies_from_new:
  assumes "sorted_wrt (<) (s # ss)" and "\<forall>x \<in> set (s # ss). 0 \<le> x \<and> x < UINT32"
  shows "reported (anomalies topic (s # ss) new_tracker) = gaps_between topic s ss
    \<and> ts_missing_total (topic_state_of (observe_run topic (s # ss) new_tracker) topic) = sum_list (map an_missing (gaps_between topic s ss))
    \<and> tr_needs_reconciliation (observe_run topic (s # ss) new_tracker) = (gaps_between topic s ss \<noteq> [])"
proof -
  let ?t = "snd (observe topic s new_tracker)"
  have r: "0 \<le> s" "s < UINT32" using assms(2) by auto
  have o: "observe topic s new_tracker = (Inr None, ?t)" "ts_missing_total (topic_state_of ?t topic) = 0" "\<not> tr_needs_reconciliation ?t"
    using r by (auto simp: observe_unfold new_tracker_def topic_state_of_def dict_get_def new_topic_state_def put_state_def)
  have "anomalies topic (s # ss) new_tracker = None # anomalies topic ss ?t" by (subst anomalies.simps, subst o(1)) simp
  moreover have "ts_last_seq (topic_state_of ?t topic) = Some s" by (rule observe_last [OF r])
  note anomalies_increasing [OF this assms(1)]
  ultimately show ?thesis using o assms(2) by (simp add: reported_def)
qed

lemma handle_tx_parsed:
  assumes "parse_tx body = Inr tx" and "length body < 2 ^ 32"
  shows "\<exists>ms g'. handle_tx W body g = (Inr ms, g') \<and> ig_tracker g' = ig_tracker g \<and> ig_announced g' = ig_announced g
    \<and> ig_on_anomaly g' = ig_on_anomaly g \<and> ig_parsed g' = ig_parsed g + 1 \<and> ig_malformed g' = ig_malformed g"
proof -
  let ?g = "g\<lparr>ig_parsed := ig_parsed g + 1\<rparr>"
  have wf: "wf_tx tx" using parse_tx_returns [OF assms] .
  obtain ms where ms: "match_tx W (ig_matcher g) tx = Inr ms"
    using match_tx_wf [OF wf, of W "ig_matcher g"] by blast
  obtain m where n: "note_unconfirmed W tx (ig_matcher g) = (Inr (), m)"
    using note_unconfirmed_wf [OF wf] by blast
  obtain fresh s where "seen_add (tx_txid tx) (ig_seen g) = (fresh, s)" by fastforce
  then show ?thesis
    by (cases "ms = []"; cases fresh)
       (simp_all add: handle_tx_def assms py_simps on_matcher_def ms n on_seen_def)
qed

definition std_draw :: "draw \<Rightarrow> bool" where
  "std_draw d \<longleftrightarrow> draw_ok d \<and> length (dw_ins d) = 1 \<and> length (dw_outs d) = 2"

lemma std_draw_small: "std_draw d \<Longrightarrow> length (ser_tx (wire_of_draw d)) < 2 ^ 32"
proof -
  assume d: "std_draw d"
  then obtain i out out' where "dw_ins d = [i]" "dw_outs d = [out, out']"
    by (auto simp: std_draw_def length_Suc_conv numeral_2_eq_2)
  then have "length (ser_tx (wire_of_draw d)) = 113"
    using d by (auto simp: std_draw_def draw_ok_def wire_of_draw_def ser_tx_def ser_stripped_def ser_ins_def ser_outs_def
        ser_input_def ser_output_def ser_bytes_def ser_varint_def fx_p2wpkh_def split: prod.splits)
  then show ?thesis by simp
qed

definition entry_message :: "int \<Rightarrow> draw \<Rightarrow> stream_message" where
  "entry_message seq d = \<lparr>msg_topic = ''rawtx'', msg_body = ser_tx (wire_of_draw d), msg_seq = seq\<rparr>"

lemma run_entries:
  assumes "length seqs = length ds" and "\<forall>s \<in> set seqs. 0 \<le> s \<and> s < UINT32" and "\<forall>d \<in> set ds. std_draw d" and "ig_on_anomaly g"
  shows "\<exists>ms g'. run W hook (map2 entry_message seqs ds) g = (Inr ms, g')
    \<and> ig_tracker g' = observe_run ''rawtx'' seqs (ig_tracker g)
    \<and> ig_announced g' = ig_announced g @ reported (anomalies ''rawtx'' seqs (ig_tracker g))
    \<and> ig_parsed g' = ig_parsed g + int (length ds) \<and> ig_malformed g' = ig_malformed g"
  using assms
proof (induction seqs ds arbitrary: g rule: list_induct2)
  case Nil
  then show ?case by (simp add: ret_def reported_def)
next
  case (Cons seq seqs d ds)
  have d: "std_draw d" and "seq_in_range (entry_message seq d)" using Cons.prems by (simp_all add: seq_in_range_def entry_message_def)
  then obtain a t where o: "on_tracker (observe ''rawtx'' seq) g = (Inr a, g\<lparr>ig_tracker := t\<rparr>)" "observe ''rawtx'' seq (ig_tracker g) = (Inr a, t)"
    using observe_on_tracker [of "entry_message seq d" g] by (auto simp: entry_message_def)
  let ?g = "announce a (g\<lparr>ig_tracker := t\<rparr>)"
  have g: "ig_tracker ?g = t" "ig_announced ?g = ig_announced g @ reported [a]" "ig_on_anomaly ?g" "ig_parsed ?g = ig_parsed g"
    "ig_malformed ?g = ig_malformed g"
    using Cons.prems by (simp_all add: announce_def reported_def split: option.split)
  have "wf_wire (wire_of_draw d)" using d draw_wf by (simp add: std_draw_def)
  from handle_tx_parsed [OF parse_tx_wire [OF this] std_draw_small [OF d], of W ?g] g obtain ms g1 where
    h: "handle_tx W (ser_tx (wire_of_draw d)) ?g = (Inr ms, g1)" "ig_tracker g1 = t" "ig_announced g1 = ig_announced g @ reported [a]"
      "ig_on_anomaly g1" "ig_parsed g1 = ig_parsed g + 1" "ig_malformed g1 = ig_malformed g" by auto
  have one: "handle W hook (entry_message seq d) g = (Inr ms, g1)"
    using o(1) h(1) by (simp add: handle_def entry_message_def TOPIC_TX_def py_simps)
  from Cons.IH [OF _ _ h(4)] Cons.prems obtain ns g2 where
    r: "run W hook (map2 entry_message seqs ds) g1 = (Inr ns, g2)" "ig_tracker g2 = observe_run ''rawtx'' seqs t"
      "ig_announced g2 = ig_announced g @ reported [a] @ reported (anomalies ''rawtx'' seqs t)"
      "ig_parsed g2 = ig_parsed g + 1 + int (length ds)" "ig_malformed g2 = ig_malformed g"
    using h by auto
  then show ?case using one o(2) by (simp add: run_Cons py_simps reported_def)
qed


section \<open>Properties\<close>

lemma length_nat_str: "n < 10 ^ Suc k \<Longrightarrow> length (nat_str n) \<le> Suc k"
proof (induction k arbitrary: n)
  case 0
  then show ?case by (simp add: nat_str.simps [of n])
next
  case (Suc k)
  show ?case
  proof (cases "n < 10")
    case True
    then show ?thesis by (simp add: nat_str.simps [of n])
  next
    case False
    have "n div 10 < 10 ^ Suc k" using Suc.prems by (simp add: less_mult_imp_div_less)
    then show ?thesis using Suc.IH [of "n div 10"] False by (simp add: nat_str.simps [of n])
  qed
qed

lemma int_fits_small: "0 \<le> i \<Longrightarrow> i < 4294967296 \<Longrightarrow> int_fits i"
  using length_nat_str [of "nat \<bar>i\<bar>" 9] by (simp add: int_fits_def INT_MAX_STR_DIGITS_def nat_less_iff)

lemma entry_json:
  assumes "0 \<le> seq" and "seq < 4294967296" and "draw_ok d" and "0 < limit"
  shows "jplain (entry seq d)" "jdepth (entry seq d) \<le> limit" "\<exists>ms. entry seq d = JVObj ms"
proof -
  have "int_fits seq" "int_fits (dw_delay d)" using assms by (auto intro!: int_fits_small simp: draw_ok_def)
  then show "jplain (entry seq d)" by (simp add: entry_def)
  show "jdepth (entry seq d) \<le> limit" using assms(4) by (simp add: entry_def)
qed (simp add: entry_def)

lemma all_map2: "(\<And>x y. x \<in> set xs \<Longrightarrow> y \<in> set ys \<Longrightarrow> P (f x y)) \<Longrightarrow> \<forall>z \<in> set (map2 f xs ys). P z"
  by (auto dest: set_zip_leftD set_zip_rightD)

text \<open>Written, read, published and decoded, the messages of a fixture are the ones it was made of.\<close>

lemma fixture_decoded:
  assumes "length seqs = length ds" and "\<forall>s \<in> set seqs. 0 \<le> s \<and> s < UINT32" and "\<forall>d \<in> set ds. draw_ok d" and "0 < limit"
  shows "\<exists>vs raws. load_fixture limit (fixture_text header (map2 entry seqs ds)) = Inr vs
    \<and> replay_pass of_float None vs [] = (Inr (), raws) \<and> decoded raws = map2 entry_message seqs ds \<and> undecodable raws = 0"
proof -
  have r: "0 \<le> s \<and> s < 4294967296" if "s \<in> set seqs" for s using assms(2) that by (simp add: UINT32_def)
  have load: "load_fixture limit (fixture_text header (map2 entry seqs ds)) = Inr (map jv_of (map2 entry seqs ds))"
    using r assms(3) entry_json [OF _ _ _ assms(4)]
    by (intro load_fixture_text all_map2 ballI splitlines_no_ends) auto
  let ?raws = "map2 entry_parts seqs ds"
  have pub: "replay_pass of_float None (map2 (\<lambda>s d. jv_of (entry s d)) seqs ds) sent = (Inr (), sent @ ?raws)" for sent
    using assms(1) r
  proof (induction seqs ds arbitrary: sent rule: list_induct2)
    case (Cons s seqs d ds)
    then show ?case using entry_published [of s of_float d]
      by (simp add: replay_pass_def for_each_Cons replay_one_def py_simps)
  qed (simp add: replay_pass_def ret_def)
  have dec: "decoded ?raws = map2 entry_message seqs ds \<and> undecodable ?raws = 0"
    using assms(1) r
  proof (induction seqs ds rule: list_induct2)
    case (Cons s seqs d ds)
    then show ?case using entry_decoded [of s d] by (simp add: decoded_def undecodable_def entry_message_def)
  qed (simp add: decoded_def undecodable_def)
  have "map jv_of (map2 entry seqs ds) = map2 (\<lambda>s d. jv_of (entry s d)) seqs ds" by (simp add: split_def)
  with load have "load_fixture limit (fixture_text header (map2 entry seqs ds)) = Inr (map2 (\<lambda>s d. jv_of (entry s d)) seqs ds)"
    by (simp only:)
  then show ?thesis using pub [of "[]"] dec by (intro exI conjI) (assumption | simp)+
qed

lemma fixture_tracked:
  assumes "length (s # ss) = length ds" and "sorted_wrt (<) (s # ss)" and "\<forall>x \<in> set (s # ss). 0 \<le> x \<and> x < UINT32"
    and "\<forall>d \<in> set ds. std_draw d" and "0 < limit" and "ig_on_anomaly g" and "ig_tracker g = new_tracker"
  shows "\<exists>vs raws ms g'. load_fixture limit (fixture_text header (map2 entry (s # ss) ds)) = Inr vs
    \<and> replay_pass of_float None vs [] = (Inr (), raws) \<and> undecodable raws = 0
    \<and> run W hook (decoded raws) g = (Inr ms, g')
    \<and> ig_announced g' = ig_announced g @ gaps_between ''rawtx'' s ss
    \<and> ts_missing_total (topic_state_of (ig_tracker g') ''rawtx'') = sum_list (map an_missing (gaps_between ''rawtx'' s ss))
    \<and> tr_needs_reconciliation (ig_tracker g') = (gaps_between ''rawtx'' s ss \<noteq> [])
    \<and> ig_parsed g' = ig_parsed g + int (length ds) \<and> ig_malformed g' = ig_malformed g"
proof -
  have ok: "\<forall>d \<in> set ds. draw_ok d" using assms(4) by (simp add: std_draw_def)
  from fixture_decoded [OF assms(1,3) ok assms(5)] obtain vs raws where
    v: "load_fixture limit (fixture_text header (map2 entry (s # ss) ds)) = Inr vs"
      "replay_pass of_float None vs [] = (Inr (), raws)" "decoded raws = map2 entry_message (s # ss) ds" "undecodable raws = 0" by blast
  from run_entries [OF assms(1,3,4,6), of W hook] anomalies_from_new [OF assms(2,3), of "''rawtx''"] obtain ms g' where
    "run W hook (map2 entry_message (s # ss) ds) g = (Inr ms, g')" "ig_announced g' = ig_announced g @ gaps_between ''rawtx'' s ss"
    "ts_missing_total (topic_state_of (ig_tracker g') ''rawtx'') = sum_list (map an_missing (gaps_between ''rawtx'' s ss))"
    "tr_needs_reconciliation (ig_tracker g') = (gaps_between ''rawtx'' s ss \<noteq> [])"
    "ig_parsed g' = ig_parsed g + int (length ds)" "ig_malformed g' = ig_malformed g"
    unfolding assms(7) by auto
  with v show ?thesis by (intro exI conjI) (assumption | simp)+
qed

lemma gap_seqs_increase: "(\<forall>x \<in> set (gap_seqs i s n). s \<le> x) \<and> sorted_wrt (<) (gap_seqs i s n)"
proof (induction n arbitrary: i s)
  case (Suc n)
  have "s < next_seq i s" by (simp add: next_seq_def DROPS_def dict_get_def)
  then show ?case using Suc [of "i + 1" "next_seq i s"] by fastforce
qed simp

text \<open>
  C20: the fixture with gaps shows exactly its gaps. Whatever was drawn for its 120 transactions,
  the fixture that \<open>make_fixtures.py\<close> writes is loaded by \<open>replay_zmq.py\<close>, published and decoded
  without loss, and a subscriber's ingest that is fed with it parses every transaction, announces
  three gaps, of 599, 26 and 207 messages at the numbers the generator skipped, counts 832
  messages as missing and asks for reconciliation.
\<close>

theorem gap_fixture_shows_its_gaps:
  assumes "length ds = 120" and "\<forall>d \<in> set ds. std_draw d" and "0 < limit" and "ig_on_anomaly g" and "ig_tracker g = new_tracker"
    and "ig_announced g = []"
  shows "\<exists>jms vs raws ms g'. gap_from 1 1 ds = Inr jms \<and> load_fixture limit (fixture_text GAP_HEADER jms) = Inr vs
    \<and> replay_pass of_float None vs [] = (Inr (), raws) \<and> undecodable raws = 0
    \<and> run W hook (decoded raws) g = (Inr ms, g')
    \<and> ig_announced g' = [mk_anomaly ''rawtx'' GAP 40 640 599, mk_anomaly ''rawtx'' GAP 674 701 26, mk_anomaly ''rawtx'' GAP 725 933 207]
    \<and> ts_missing_total (topic_state_of (ig_tracker g') ''rawtx'') = 832 \<and> tr_needs_reconciliation (ig_tracker g')
    \<and> ig_parsed g' = ig_parsed g + 120 \<and> ig_malformed g' = ig_malformed g"
proof -
  define G where "G = tl (gap_seqs 1 1 120)"
  have seqs: "gap_seqs 1 1 120 = 1 # G" "\<forall>x \<in> set (1 # G). 0 \<le> x \<and> x < UINT32" "length (1 # G) = 120"
    "gaps_between ''rawtx'' 1 G =
      [mk_anomaly ''rawtx'' GAP 40 640 599, mk_anomaly ''rawtx'' GAP 674 701 26, mk_anomaly ''rawtx'' GAP 725 933 207]"
    unfolding G_def by code_simp+
  have inc: "sorted_wrt (<) (1 # G)" using gap_seqs_increase [of 1 1 120] seqs(1) by simp
  have "\<forall>d \<in> set ds. draw_ok d" using assms(2) by (simp add: std_draw_def)
  from gap_entries [OF this, of 1 1] have e: "gap_from 1 1 ds = Inr (map2 entry (1 # G) ds)"
    using seqs(1) assms(1) by simp
  have l: "length (1 # G) = length ds" using seqs(3) assms(1) by simp
  from fixture_tracked [OF l inc seqs(2) assms(2-5), of GAP_HEADER of_float W hook, unfolded seqs(4)] obtain vs raws ms g' where
    r: "load_fixture limit (fixture_text GAP_HEADER (map2 entry (1 # G) ds)) = Inr vs"
      "replay_pass of_float None vs [] = (Inr (), raws)" "undecodable raws = 0" "run W hook (decoded raws) g = (Inr ms, g')"
      "ig_announced g' = [mk_anomaly ''rawtx'' GAP 40 640 599, mk_anomaly ''rawtx'' GAP 674 701 26, mk_anomaly ''rawtx'' GAP 725 933 207]"
      "ts_missing_total (topic_state_of (ig_tracker g') ''rawtx'') = 832" "tr_needs_reconciliation (ig_tracker g')"
      "ig_parsed g' = ig_parsed g + 120" "ig_malformed g' = ig_malformed g"
    using assms(1,6) by (auto simp: mk_anomaly_def)
  with e show ?thesis by (intro exI conjI) (assumption | simp)+
qed

text \<open>A draw, and the ingest of a fresh subscriber.\<close>

definition ex_draw :: draw where
  "ex_draw = \<lparr>dw_ins = [(zeros 32, 1)], dw_outs = [(1000, zeros 20), (2000, zeros 20)], dw_delay = 20\<rparr>"

lemma gap_fixture_shows_its_gaps_witness:
  "\<exists>jms vs raws ms g'. gap_from 1 1 (replicate 120 ex_draw) = Inr jms \<and> load_fixture 9 (fixture_text GAP_HEADER jms) = Inr vs
    \<and> replay_pass (\<lambda>_. Inl TypeError) None vs [] = (Inr (), raws)
    \<and> run mem_ops None (decoded raws) ((ex_ingest ())\<lparr>ig_on_anomaly := True, ig_tracker := new_tracker, ig_announced := []\<rparr>) = (Inr ms, g')
    \<and> ts_missing_total (topic_state_of (ig_tracker g') ''rawtx'') = 832"
proof -
  have "std_draw ex_draw" by (simp add: std_draw_def draw_ok_def ex_draw_def)
  then have "\<forall>d \<in> set (replicate 120 ex_draw). std_draw d" by simp
  from gap_fixture_shows_its_gaps [OF _ this, of 9 "(ex_ingest ())\<lparr>ig_on_anomaly := True, ig_tracker := new_tracker, ig_announced := []\<rparr>"
      "\<lambda>_. Inl TypeError" mem_ops None] show ?thesis by fastforce
qed

lemma gaps_between_contiguous: "gaps_between topic s [s + 1..e] = []"
proof (induction "nat (e - s)" arbitrary: s)
  case (Suc n)
  then have "[s + 1..e] = (s + 1) # [s + 1 + 1..e]" by (subst upto.simps) simp
  then show ?case using Suc(1) [of "s + 1"] Suc(2) by (simp add: nat_diff_split)
qed simp

text \<open>
  The contiguous fixture is silent. Loaded, published and decoded, the 120 transactions of
  the sample fixture are all parsed, no anomaly is announced and no reconciliation is asked for.
\<close>

theorem sample_fixture_is_silent:
  assumes "length ds = 120" and "\<forall>d \<in> set ds. std_draw d" and "0 < limit" and "ig_on_anomaly g" and "ig_tracker g = new_tracker"
    and "ig_announced g = []"
  shows "\<exists>jms vs raws ms g'. sample_from 1 ds = Inr jms \<and> load_fixture limit (fixture_text SAMPLE_HEADER jms) = Inr vs
    \<and> replay_pass of_float None vs [] = (Inr (), raws) \<and> undecodable raws = 0
    \<and> run W hook (decoded raws) g = (Inr ms, g') \<and> ig_announced g' = [] \<and> \<not> tr_needs_reconciliation (ig_tracker g')
    \<and> ig_parsed g' = ig_parsed g + 120 \<and> ig_malformed g' = ig_malformed g"
proof -
  define G where "G = [1 + 1..120 :: int]"
  have seqs: "[1..120] = 1 # G" unfolding G_def by (subst upto.simps) simp
  have c: "gaps_between ''rawtx'' 1 G = []" unfolding G_def by (rule gaps_between_contiguous)
  have s: "sorted_wrt (<) (1 # G)" "\<forall>x \<in> set (1 # G). 0 \<le> x \<and> x < UINT32" and n: "length (1 # G) = 120"
    unfolding seqs [symmetric] by (simp_all only: sorted_wrt_upto) (simp_all add: UINT32_def del: upto_rec_numeral)
  have "\<forall>d \<in> set ds. draw_ok d" using assms(2) by (simp add: std_draw_def)
  from sample_entries [OF this, of 1] have e: "sample_from 1 ds = Inr (map2 entry (1 # G) ds)"
    using seqs assms(1) by (simp del: upto_rec_numeral)
  have l: "length (1 # G) = length ds" using n assms(1) by simp
  from fixture_tracked [OF l s assms(2-5), of SAMPLE_HEADER of_float W hook, unfolded c] obtain vs raws ms g' where
    r: "load_fixture limit (fixture_text SAMPLE_HEADER (map2 entry (1 # G) ds)) = Inr vs"
      "replay_pass of_float None vs [] = (Inr (), raws)" "undecodable raws = 0" "run W hook (decoded raws) g = (Inr ms, g')"
      "ig_announced g' = []" "\<not> tr_needs_reconciliation (ig_tracker g')"
      "ig_parsed g' = ig_parsed g + 120" "ig_malformed g' = ig_malformed g"
    using assms(1,6) by auto
  with e show ?thesis by (intro exI conjI) (assumption | simp)+
qed

end
