(* ===== verification/Digest_Examples.thy ===== *)
theory Digest_Examples
  imports Sha256
begin

text \<open>
  Double digests of five short messages, computed one application of the compression function
  at a time so that no single evaluation is long. The messages are the headers of three linked
  blocks and two transactions, the second of which spends the first; they are put together in
  the example of the theory \<open>Gap_Proof\<close>.
\<close>

lemma block0_inner_step0: "sha_compress [0, 0, 0, 0, 0, 0, 0, 0, 0, 0, 0, 0, 0, 0, 0, 0, 0, 0, 0, 0, 0, 0, 0, 0, 0, 0, 0, 0, 0, 0, 0, 0, 0,
    0, 0, 0, 0, 0, 0, 0, 0, 0, 0, 0, 0, 0, 0, 0, 0, 0, 0, 0, 0, 0, 0, 0, 0, 0, 0, 0, 0, 0, 0, 0] sha_init =
    (3663108286, 398046313, 1647531929, 2006957770, 2363872401, 3235013187, 3137272298, 406301144)"
  by code_simp

lemma block0_inner_step1: "sha_compress [0, 0, 0, 0, 0, 0, 0, 0, 0, 0, 0, 0, 0, 0, 0, 0, 128, 0, 0, 0, 0, 0, 0, 0, 0, 0, 0, 0, 0, 0, 0, 0,
    0, 0, 0, 0, 0, 0, 0, 0, 0, 0, 0, 0, 0, 0, 0, 0, 0, 0, 0, 0, 0, 0, 0, 0, 0, 0, 0, 0, 0, 0, 2, 128]
    (3663108286, 398046313, 1647531929, 2006957770, 2363872401, 3235013187, 3137272298, 406301144) =
    (1534047630, 1643792217, 964066664, 2756114815, 469697216, 3851639358, 2830848486, 1364689880)"
  by code_simp

lemma block0_inner: "sha256 [0, 0, 0, 0, 0, 0, 0, 0, 0, 0, 0, 0, 0, 0, 0, 0, 0, 0, 0, 0, 0, 0, 0, 0, 0, 0, 0, 0, 0, 0, 0, 0, 0, 0, 0,
    0, 0, 0, 0, 0, 0, 0, 0, 0, 0, 0, 0, 0, 0, 0, 0, 0, 0, 0, 0, 0, 0, 0, 0, 0, 0, 0, 0, 0, 0, 0, 0, 0, 0, 0, 0,
    0, 0, 0, 0, 0, 0, 0, 0, 0] = [91, 111, 181, 142, 97, 250, 71, 89, 57, 118, 125, 104, 164, 70, 249, 127, 27,
    255, 2, 192, 229, 147, 90, 62, 168, 187, 81, 230, 81, 87, 131, 216]"
proof -
  have "chunks 64 (sha_pad [0, 0, 0, 0, 0, 0, 0, 0, 0, 0, 0, 0, 0, 0, 0, 0, 0, 0, 0, 0, 0, 0, 0, 0, 0, 0, 0, 0, 0, 0, 0,
    0, 0, 0, 0, 0, 0, 0, 0, 0, 0, 0, 0, 0, 0, 0, 0, 0, 0, 0, 0, 0, 0, 0, 0, 0, 0, 0, 0, 0, 0, 0, 0, 0, 0, 0, 0,
    0, 0, 0, 0, 0, 0, 0, 0, 0, 0, 0, 0, 0]) = [[0, 0, 0, 0, 0, 0, 0, 0, 0, 0, 0, 0, 0, 0, 0, 0, 0, 0, 0, 0, 0,
    0, 0, 0, 0, 0, 0, 0, 0, 0, 0, 0, 0, 0, 0, 0, 0, 0, 0, 0, 0, 0, 0, 0, 0, 0, 0, 0, 0, 0, 0, 0, 0, 0, 0, 0, 0,
    0, 0, 0, 0, 0, 0, 0], [0, 0, 0, 0, 0, 0, 0, 0, 0, 0, 0, 0, 0, 0, 0, 0, 128, 0, 0, 0, 0, 0, 0, 0, 0, 0, 0, 0,
    0, 0, 0, 0, 0, 0, 0, 0, 0, 0, 0, 0, 0, 0, 0, 0, 0, 0, 0, 0, 0, 0, 0, 0, 0, 0, 0, 0, 0, 0, 0, 0, 0, 0, 2,
    128]]" by code_simp
  then show ?thesis
    by (simp add: sha256_def block0_inner_step0 block0_inner_step1) code_simp
qed

lemma block0_outer_step0: "sha_compress [91, 111, 181, 142, 97, 250, 71, 89, 57, 118, 125, 104, 164, 70, 249, 127, 27, 255, 2, 192, 229,
    147, 90, 62, 168, 187, 81, 230, 81, 87, 131, 216, 128, 0, 0, 0, 0, 0, 0, 0, 0, 0, 0, 0, 0, 0, 0, 0, 0, 0, 0,
    0, 0, 0, 0, 0, 0, 0, 0, 0, 0, 0, 1, 0] sha_init = (1273452302, 2406542089, 910215238, 2188687989,
    2537924522, 729621931, 503587250, 1501843476)"
  by code_simp

lemma block0_outer: "sha256 [91, 111, 181, 142, 97, 250, 71, 89, 57, 118, 125, 104, 164, 70, 249, 127, 27, 255, 2, 192, 229, 147, 90,
    62, 168, 187, 81, 230, 81, 87, 131, 216] = [75, 231, 87, 14, 143, 112, 235, 9, 54, 64, 200, 70, 130, 116,
    186, 117, 151, 69, 167, 170, 43, 125, 37, 171, 30, 4, 33, 178, 89, 132, 80, 20]"
proof -
  have "chunks 64 (sha_pad [91, 111, 181, 142, 97, 250, 71, 89, 57, 118, 125, 104, 164, 70, 249, 127, 27, 255, 2, 192,
    229, 147, 90, 62, 168, 187, 81, 230, 81, 87, 131, 216]) = [[91, 111, 181, 142, 97, 250, 71, 89, 57, 118,
    125, 104, 164, 70, 249, 127, 27, 255, 2, 192, 229, 147, 90, 62, 168, 187, 81, 230, 81, 87, 131, 216, 128, 0,
    0, 0, 0, 0, 0, 0, 0, 0, 0, 0, 0, 0, 0, 0, 0, 0, 0, 0, 0, 0, 0, 0, 0, 0, 0, 0, 0, 0, 1, 0]]" by code_simp
  then show ?thesis
    by (simp add: sha256_def block0_outer_step0) code_simp
qed

definition block0_hash :: bytes where
  "block0_hash = [75, 231, 87, 14, 143, 112, 235, 9, 54, 64, 200, 70, 130, 116, 186, 117, 151, 69, 167, 170, 43,
    125, 37, 171, 30, 4, 33, 178, 89, 132, 80, 20]"

lemma block0_digest: "sha256 (sha256 (zeros 80)) = block0_hash"
proof -
  have "(zeros 80 :: bytes) = [0, 0, 0, 0, 0, 0, 0, 0, 0, 0, 0, 0, 0, 0, 0, 0, 0, 0, 0, 0, 0, 0, 0, 0, 0, 0, 0, 0, 0, 0,
    0, 0, 0, 0, 0, 0, 0, 0, 0, 0, 0, 0, 0, 0, 0, 0, 0, 0, 0, 0, 0, 0, 0, 0, 0, 0, 0, 0, 0, 0, 0, 0, 0, 0, 0, 0,
    0, 0, 0, 0, 0, 0, 0, 0, 0, 0, 0, 0, 0, 0]" by code_simp
  then show ?thesis by (simp only: block0_inner block0_outer block0_hash_def)
qed

lemma block1_inner_step0: "sha_compress [0, 0, 0, 0, 75, 231, 87, 14, 143, 112, 235, 9, 54, 64, 200, 70, 130, 116, 186, 117, 151, 69, 167,
    170, 43, 125, 37, 171, 30, 4, 33, 178, 89, 132, 80, 20, 0, 0, 0, 0, 0, 0, 0, 0, 0, 0, 0, 0, 0, 0, 0, 0, 0,
    0, 0, 0, 0, 0, 0, 0, 0, 0, 0, 0] sha_init = (484686440, 32578119, 2637402492, 1249204265, 506155409,
    1668224999, 876847060, 1796576354)"
  by code_simp

lemma block1_inner_step1: "sha_compress [0, 0, 0, 0, 0, 0, 0, 0, 0, 0, 0, 0, 0, 0, 0, 0, 128, 0, 0, 0, 0, 0, 0, 0, 0, 0, 0, 0, 0, 0, 0, 0,
    0, 0, 0, 0, 0, 0, 0, 0, 0, 0, 0, 0, 0, 0, 0, 0, 0, 0, 0, 0, 0, 0, 0, 0, 0, 0, 0, 0, 0, 0, 2, 128]
    (484686440, 32578119, 2637402492, 1249204265, 506155409, 1668224999, 876847060, 1796576354) = (1112085344,
    1443828862, 340874263, 4279158739, 3686245975, 1501959567, 2821613507, 1236554760)"
  by code_simp

lemma block1_inner: "sha256 [0, 0, 0, 0, 75, 231, 87, 14, 143, 112, 235, 9, 54, 64, 200, 70, 130, 116, 186, 117, 151, 69, 167, 170,
    43, 125, 37, 171, 30, 4, 33, 178, 89, 132, 80, 20, 0, 0, 0, 0, 0, 0, 0, 0, 0, 0, 0, 0, 0, 0, 0, 0, 0, 0, 0,
    0, 0, 0, 0, 0, 0, 0, 0, 0, 0, 0, 0, 0, 0, 0, 0, 0, 0, 0, 0, 0, 0, 0, 0, 0] = [66, 73, 19, 96, 86, 15, 20,
    126, 20, 81, 84, 23, 255, 14, 199, 211, 219, 183, 166, 87, 89, 134, 21, 143, 168, 46, 103, 195, 73, 180, 84,
    8]"
proof -
  have "chunks 64 (sha_pad [0, 0, 0, 0, 75, 231, 87, 14, 143, 112, 235, 9, 54, 64, 200, 70, 130, 116, 186, 117, 151, 69,
    167, 170, 43, 125, 37, 171, 30, 4, 33, 178, 89, 132, 80, 20, 0, 0, 0, 0, 0, 0, 0, 0, 0, 0, 0, 0, 0, 0, 0, 0,
    0, 0, 0, 0, 0, 0, 0, 0, 0, 0, 0, 0, 0, 0, 0, 0, 0, 0, 0, 0, 0, 0, 0, 0, 0, 0, 0, 0]) = [[0, 0, 0, 0, 75,
    231, 87, 14, 143, 112, 235, 9, 54, 64, 200, 70, 130, 116, 186, 117, 151, 69, 167, 170, 43, 125, 37, 171, 30,
    4, 33, 178, 89, 132, 80, 20, 0, 0, 0, 0, 0, 0, 0, 0, 0, 0, 0, 0, 0, 0, 0, 0, 0, 0, 0, 0, 0, 0, 0, 0, 0, 0,
    0, 0], [0, 0, 0, 0, 0, 0, 0, 0, 0, 0, 0, 0, 0, 0, 0, 0, 128, 0, 0, 0, 0, 0, 0, 0, 0, 0, 0, 0, 0, 0, 0, 0, 0,
    0, 0, 0, 0, 0, 0, 0, 0, 0, 0, 0, 0, 0, 0, 0, 0, 0, 0, 0, 0, 0, 0, 0, 0, 0, 0, 0, 0, 0, 2, 128]]" by code_simp
  then show ?thesis
    by (simp add: sha256_def block1_inner_step0 block1_inner_step1) code_simp
qed

lemma block1_outer_step0: "sha_compress [66, 73, 19, 96, 86, 15, 20, 126, 20, 81, 84, 23, 255, 14, 199, 211, 219, 183, 166, 87, 89, 134,
    21, 143, 168, 46, 103, 195, 73, 180, 84, 8, 128, 0, 0, 0, 0, 0, 0, 0, 0, 0, 0, 0, 0, 0, 0, 0, 0, 0, 0, 0, 0,
    0, 0, 0, 0, 0, 0, 0, 0, 0, 1, 0] sha_init = (385753761, 3760382478, 1452937003, 1347004940, 827912088,
    986805827, 673000292, 4035344966)"
  by code_simp

lemma block1_outer: "sha256 [66, 73, 19, 96, 86, 15, 20, 126, 20, 81, 84, 23, 255, 14, 199, 211, 219, 183, 166, 87, 89, 134, 21, 143,
    168, 46, 103, 195, 73, 180, 84, 8] = [22, 254, 34, 161, 224, 34, 226, 14, 86, 154, 15, 43, 80, 73, 170, 12,
    49, 88, 239, 152, 58, 209, 118, 67, 40, 29, 43, 100, 240, 134, 122, 70]"
proof -
  have "chunks 64 (sha_pad [66, 73, 19, 96, 86, 15, 20, 126, 20, 81, 84, 23, 255, 14, 199, 211, 219, 183, 166, 87, 89,
    134, 21, 143, 168, 46, 103, 195, 73, 180, 84, 8]) = [[66, 73, 19, 96, 86, 15, 20, 126, 20, 81, 84, 23, 255,
    14, 199, 211, 219, 183, 166, 87, 89, 134, 21, 143, 168, 46, 103, 195, 73, 180, 84, 8, 128, 0, 0, 0, 0, 0, 0,
    0, 0, 0, 0, 0, 0, 0, 0, 0, 0, 0, 0, 0, 0, 0, 0, 0, 0, 0, 0, 0, 0, 0, 1, 0]]" by code_simp
  then show ?thesis
    by (simp add: sha256_def block1_outer_step0) code_simp
qed

definition block1_hash :: bytes where
  "block1_hash = [22, 254, 34, 161, 224, 34, 226, 14, 86, 154, 15, 43, 80, 73, 170, 12, 49, 88, 239, 152, 58, 209,
    118, 67, 40, 29, 43, 100, 240, 134, 122, 70]"

lemma block1_digest: "sha256 (sha256 (zeros 4 @ block0_hash @ zeros 44)) = block1_hash"
proof -
  have "(zeros 4 @ block0_hash @ zeros 44 :: bytes) = [0, 0, 0, 0, 75, 231, 87, 14, 143, 112, 235, 9, 54, 64, 200, 70,
    130, 116, 186, 117, 151, 69, 167, 170, 43, 125, 37, 171, 30, 4, 33, 178, 89, 132, 80, 20, 0, 0, 0, 0, 0, 0,
    0, 0, 0, 0, 0, 0, 0, 0, 0, 0, 0, 0, 0, 0, 0, 0, 0, 0, 0, 0, 0, 0, 0, 0, 0, 0, 0, 0, 0, 0, 0, 0, 0, 0, 0, 0,
    0, 0]" by code_simp
  then show ?thesis by (simp only: block1_inner block1_outer block1_hash_def)
qed

lemma block2_inner_step0: "sha_compress [0, 0, 0, 0, 22, 254, 34, 161, 224, 34, 226, 14, 86, 154, 15, 43, 80, 73, 170, 12, 49, 88, 239,
    152, 58, 209, 118, 67, 40, 29, 43, 100, 240, 134, 122, 70, 0, 0, 0, 0, 0, 0, 0, 0, 0, 0, 0, 0, 0, 0, 0, 0,
    0, 0, 0, 0, 0, 0, 0, 0, 0, 0, 0, 0] sha_init = (1754514900, 2288897389, 4133028402, 1896145496, 2165038828,
    4041991713, 3659124942, 1191073254)"
  by code_simp

lemma block2_inner_step1: "sha_compress [0, 0, 0, 0, 0, 0, 0, 0, 0, 0, 0, 0, 0, 0, 0, 0, 128, 0, 0, 0, 0, 0, 0, 0, 0, 0, 0, 0, 0, 0, 0, 0,
    0, 0, 0, 0, 0, 0, 0, 0, 0, 0, 0, 0, 0, 0, 0, 0, 0, 0, 0, 0, 0, 0, 0, 0, 0, 0, 0, 0, 0, 0, 2, 128]
    (1754514900, 2288897389, 4133028402, 1896145496, 2165038828, 4041991713, 3659124942, 1191073254) =
    (660293581, 2577218756, 1090878198, 79111001, 3315112846, 475293543, 757229851, 151763393)"
  by code_simp

lemma block2_inner: "sha256 [0, 0, 0, 0, 22, 254, 34, 161, 224, 34, 226, 14, 86, 154, 15, 43, 80, 73, 170, 12, 49, 88, 239, 152, 58,
    209, 118, 67, 40, 29, 43, 100, 240, 134, 122, 70, 0, 0, 0, 0, 0, 0, 0, 0, 0, 0, 0, 0, 0, 0, 0, 0, 0, 0, 0,
    0, 0, 0, 0, 0, 0, 0, 0, 0, 0, 0, 0, 0, 0, 0, 0, 0, 0, 0, 0, 0, 0, 0, 0, 0] = [39, 91, 71, 205, 153, 157, 60,
    196, 65, 5, 122, 246, 4, 183, 35, 89, 197, 152, 155, 142, 28, 84, 103, 103, 45, 34, 105, 27, 9, 11, 185,
    193]"
proof -
  have "chunks 64 (sha_pad [0, 0, 0, 0, 22, 254, 34, 161, 224, 34, 226, 14, 86, 154, 15, 43, 80, 73, 170, 12, 49, 88,
    239, 152, 58, 209, 118, 67, 40, 29, 43, 100, 240, 134, 122, 70, 0, 0, 0, 0, 0, 0, 0, 0, 0, 0, 0, 0, 0, 0, 0,
    0, 0, 0, 0, 0, 0, 0, 0, 0, 0, 0, 0, 0, 0, 0, 0, 0, 0, 0, 0, 0, 0, 0, 0, 0, 0, 0, 0, 0]) = [[0, 0, 0, 0, 22,
    254, 34, 161, 224, 34, 226, 14, 86, 154, 15, 43, 80, 73, 170, 12, 49, 88, 239, 152, 58, 209, 118, 67, 40,
    29, 43, 100, 240, 134, 122, 70, 0, 0, 0, 0, 0, 0, 0, 0, 0, 0, 0, 0, 0, 0, 0, 0, 0, 0, 0, 0, 0, 0, 0, 0, 0,
    0, 0, 0], [0, 0, 0, 0, 0, 0, 0, 0, 0, 0, 0, 0, 0, 0, 0, 0, 128, 0, 0, 0, 0, 0, 0, 0, 0, 0, 0, 0, 0, 0, 0, 0,
    0, 0, 0, 0, 0, 0, 0, 0, 0, 0, 0, 0, 0, 0, 0, 0, 0, 0, 0, 0, 0, 0, 0, 0, 0, 0, 0, 0, 0, 0, 2, 128]]" by code_simp
  then show ?thesis
    by (simp add: sha256_def block2_inner_step0 block2_inner_step1) code_simp
qed

lemma block2_outer_step0: "sha_compress [39, 91, 71, 205, 153, 157, 60, 196, 65, 5, 122, 246, 4, 183, 35, 89, 197, 152, 155, 142, 28, 84,
    103, 103, 45, 34, 105, 27, 9, 11, 185, 193, 128, 0, 0, 0, 0, 0, 0, 0, 0, 0, 0, 0, 0, 0, 0, 0, 0, 0, 0, 0, 0,
    0, 0, 0, 0, 0, 0, 0, 0, 0, 1, 0] sha_init = (1629442666, 2209975153, 4153509751, 167704154, 2354994858,
    237366440, 232800875, 312882827)"
  by code_simp

lemma block2_outer: "sha256 [39, 91, 71, 205, 153, 157, 60, 196, 65, 5, 122, 246, 4, 183, 35, 89, 197, 152, 155, 142, 28, 84, 103,
    103, 45, 34, 105, 27, 9, 11, 185, 193] = [97, 31, 82, 106, 131, 185, 139, 113, 247, 145, 135, 119, 9, 254,
    246, 90, 140, 94, 94, 170, 14, 37, 236, 168, 13, 224, 66, 107, 18, 166, 54, 139]"
proof -
  have "chunks 64 (sha_pad [39, 91, 71, 205, 153, 157, 60, 196, 65, 5, 122, 246, 4, 183, 35, 89, 197, 152, 155, 142, 28,
    84, 103, 103, 45, 34, 105, 27, 9, 11, 185, 193]) = [[39, 91, 71, 205, 153, 157, 60, 196, 65, 5, 122, 246, 4,
    183, 35, 89, 197, 152, 155, 142, 28, 84, 103, 103, 45, 34, 105, 27, 9, 11, 185, 193, 128, 0, 0, 0, 0, 0, 0,
    0, 0, 0, 0, 0, 0, 0, 0, 0, 0, 0, 0, 0, 0, 0, 0, 0, 0, 0, 0, 0, 0, 0, 1, 0]]" by code_simp
  then show ?thesis
    by (simp add: sha256_def block2_outer_step0) code_simp
qed

definition block2_hash :: bytes where
  "block2_hash = [97, 31, 82, 106, 131, 185, 139, 113, 247, 145, 135, 119, 9, 254, 246, 90, 140, 94, 94, 170, 14,
    37, 236, 168, 13, 224, 66, 107, 18, 166, 54, 139]"

lemma block2_digest: "sha256 (sha256 (zeros 4 @ block1_hash @ zeros 44)) = block2_hash"
proof -
  have "(zeros 4 @ block1_hash @ zeros 44 :: bytes) = [0, 0, 0, 0, 22, 254, 34, 161, 224, 34, 226, 14, 86, 154, 15, 43,
    80, 73, 170, 12, 49, 88, 239, 152, 58, 209, 118, 67, 40, 29, 43, 100, 240, 134, 122, 70, 0, 0, 0, 0, 0, 0,
    0, 0, 0, 0, 0, 0, 0, 0, 0, 0, 0, 0, 0, 0, 0, 0, 0, 0, 0, 0, 0, 0, 0, 0, 0, 0, 0, 0, 0, 0, 0, 0, 0, 0, 0, 0,
    0, 0]" by code_simp
  then show ?thesis by (simp only: block2_inner block2_outer block2_hash_def)
qed

lemma deposit_inner_step0: "sha_compress [2, 0, 0, 0, 1, 7, 7, 7, 7, 7, 7, 7, 7, 7, 7, 7, 7, 7, 7, 7, 7, 7, 7, 7, 7, 7, 7, 7, 7, 7, 7, 7, 7,
    7, 7, 7, 7, 1, 0, 0, 0, 0, 255, 255, 255, 255, 1, 136, 19, 0, 0, 0, 0, 0, 0, 2, 0, 20, 1, 0, 0, 0, 128, 0]
    sha_init = (2606715015, 2554240846, 1759931126, 3697057213, 1472808358, 1930967709, 1321152916, 2321125811)"
  by code_simp

lemma deposit_inner_step1: "sha_compress [0, 0, 0, 0, 0, 0, 0, 0, 0, 0, 0, 0, 0, 0, 0, 0, 0, 0, 0, 0, 0, 0, 0, 0, 0, 0, 0, 0, 0, 0, 0, 0, 0,
    0, 0, 0, 0, 0, 0, 0, 0, 0, 0, 0, 0, 0, 0, 0, 0, 0, 0, 0, 0, 0, 0, 0, 0, 0, 0, 0, 0, 0, 1, 240] (2606715015,
    2554240846, 1759931126, 3697057213, 1472808358, 1930967709, 1321152916, 2321125811) = (462321455,
    3310328149, 2097473289, 3816139241, 208204819, 3855055006, 3784144180, 153883549)"
  by code_simp

lemma deposit_inner: "sha256 [2, 0, 0, 0, 1, 7, 7, 7, 7, 7, 7, 7, 7, 7, 7, 7, 7, 7, 7, 7, 7, 7, 7, 7, 7, 7, 7, 7, 7, 7, 7, 7, 7, 7, 7,
    7, 7, 1, 0, 0, 0, 0, 255, 255, 255, 255, 1, 136, 19, 0, 0, 0, 0, 0, 0, 2, 0, 20, 1, 0, 0, 0] = [27, 142,
    119, 47, 197, 79, 153, 85, 125, 4, 231, 9, 227, 117, 169, 233, 12, 104, 244, 19, 229, 199, 120, 158, 225,
    141, 117, 52, 9, 44, 19, 157]"
proof -
  have "chunks 64 (sha_pad [2, 0, 0, 0, 1, 7, 7, 7, 7, 7, 7, 7, 7, 7, 7, 7, 7, 7, 7, 7, 7, 7, 7, 7, 7, 7, 7, 7, 7, 7, 7,
    7, 7, 7, 7, 7, 7, 1, 0, 0, 0, 0, 255, 255, 255, 255, 1, 136, 19, 0, 0, 0, 0, 0, 0, 2, 0, 20, 1, 0, 0, 0]) =
    [[2, 0, 0, 0, 1, 7, 7, 7, 7, 7, 7, 7, 7, 7, 7, 7, 7, 7, 7, 7, 7, 7, 7, 7, 7, 7, 7, 7, 7, 7, 7, 7, 7, 7, 7,
    7, 7, 1, 0, 0, 0, 0, 255, 255, 255, 255, 1, 136, 19, 0, 0, 0, 0, 0, 0, 2, 0, 20, 1, 0, 0, 0, 128, 0], [0, 0,
    0, 0, 0, 0, 0, 0, 0, 0, 0, 0, 0, 0, 0, 0, 0, 0, 0, 0, 0, 0, 0, 0, 0, 0, 0, 0, 0, 0, 0, 0, 0, 0, 0, 0, 0, 0,
    0, 0, 0, 0, 0, 0, 0, 0, 0, 0, 0, 0, 0, 0, 0, 0, 0, 0, 0, 0, 0, 0, 0, 0, 1, 240]]" by code_simp
  then show ?thesis
    by (simp add: sha256_def deposit_inner_step0 deposit_inner_step1) code_simp
qed

lemma deposit_outer_step0: "sha_compress [27, 142, 119, 47, 197, 79, 153, 85, 125, 4, 231, 9, 227, 117, 169, 233, 12, 104, 244, 19, 229,
    199, 120, 158, 225, 141, 117, 52, 9, 44, 19, 157, 128, 0, 0, 0, 0, 0, 0, 0, 0, 0, 0, 0, 0, 0, 0, 0, 0, 0, 0,
    0, 0, 0, 0, 0, 0, 0, 0, 0, 0, 0, 1, 0] sha_init = (294573182, 2269953355, 3095521761, 1594139442,
    3688828910, 3013217484, 2011612211, 1710452615)"
  by code_simp

lemma deposit_outer: "sha256 [27, 142, 119, 47, 197, 79, 153, 85, 125, 4, 231, 9, 227, 117, 169, 233, 12, 104, 244, 19, 229, 199, 120,
    158, 225, 141, 117, 52, 9, 44, 19, 157] = [17, 142, 212, 126, 135, 76, 189, 75, 184, 129, 233, 225, 95, 4,
    163, 50, 219, 223, 15, 238, 179, 154, 12, 204, 119, 230, 196, 51, 101, 243, 111, 135]"
proof -
  have "chunks 64 (sha_pad [27, 142, 119, 47, 197, 79, 153, 85, 125, 4, 231, 9, 227, 117, 169, 233, 12, 104, 244, 19,
    229, 199, 120, 158, 225, 141, 117, 52, 9, 44, 19, 157]) = [[27, 142, 119, 47, 197, 79, 153, 85, 125, 4, 231,
    9, 227, 117, 169, 233, 12, 104, 244, 19, 229, 199, 120, 158, 225, 141, 117, 52, 9, 44, 19, 157, 128, 0, 0,
    0, 0, 0, 0, 0, 0, 0, 0, 0, 0, 0, 0, 0, 0, 0, 0, 0, 0, 0, 0, 0, 0, 0, 0, 0, 0, 0, 1, 0]]" by code_simp
  then show ?thesis
    by (simp add: sha256_def deposit_outer_step0) code_simp
qed

definition deposit_txid :: bytes where
  "deposit_txid = [17, 142, 212, 126, 135, 76, 189, 75, 184, 129, 233, 225, 95, 4, 163, 50, 219, 223, 15, 238, 179,
    154, 12, 204, 119, 230, 196, 51, 101, 243, 111, 135]"

lemma deposit_digest: "sha256 (sha256 ([2, 0, 0, 0, 1] @ replicate 32 7 @ [1, 0, 0, 0, 0, 255, 255, 255, 255, 1, 136, 19, 0, 0, 0, 0, 0, 0, 2, 0, 20, 1, 0, 0, 0])) = deposit_txid"
proof -
  have "([2, 0, 0, 0, 1] @ replicate 32 7 @ [1, 0, 0, 0, 0, 255, 255, 255, 255, 1, 136, 19, 0, 0, 0, 0, 0, 0, 2, 0, 20,
    1, 0, 0, 0] :: bytes) = [2, 0, 0, 0, 1, 7, 7, 7, 7, 7, 7, 7, 7, 7, 7, 7, 7, 7, 7, 7, 7, 7, 7, 7, 7, 7, 7, 7,
    7, 7, 7, 7, 7, 7, 7, 7, 7, 1, 0, 0, 0, 0, 255, 255, 255, 255, 1, 136, 19, 0, 0, 0, 0, 0, 0, 2, 0, 20, 1, 0,
    0, 0]" by code_simp
  then show ?thesis by (simp only: deposit_inner deposit_outer deposit_txid_def)
qed

lemma spend_inner_step0: "sha_compress [2, 0, 0, 0, 1, 17, 142, 212, 126, 135, 76, 189, 75, 184, 129, 233, 225, 95, 4, 163, 50, 219, 223,
    15, 238, 179, 154, 12, 204, 119, 230, 196, 51, 101, 243, 111, 135, 0, 0, 0, 0, 0, 255, 255, 255, 255, 1,
    160, 15, 0, 0, 0, 0, 0, 0, 2, 0, 20, 0, 0, 0, 0, 128, 0] sha_init = (2676392146, 3924442007, 2030095117,
    279022848, 1845005585, 1753078060, 26806218, 4137073235)"
  by code_simp

lemma spend_inner_step1: "sha_compress [0, 0, 0, 0, 0, 0, 0, 0, 0, 0, 0, 0, 0, 0, 0, 0, 0, 0, 0, 0, 0, 0, 0, 0, 0, 0, 0, 0, 0, 0, 0, 0, 0,
    0, 0, 0, 0, 0, 0, 0, 0, 0, 0, 0, 0, 0, 0, 0, 0, 0, 0, 0, 0, 0, 0, 0, 0, 0, 0, 0, 0, 0, 1, 240] (2676392146,
    3924442007, 2030095117, 279022848, 1845005585, 1753078060, 26806218, 4137073235) = (3574524123, 1031765595,
    912926267, 3851087999, 3082269577, 3939209171, 2435598762, 2925138658)"
  by code_simp

lemma spend_inner: "sha256 [2, 0, 0, 0, 1, 17, 142, 212, 126, 135, 76, 189, 75, 184, 129, 233, 225, 95, 4, 163, 50, 219, 223, 15,
    238, 179, 154, 12, 204, 119, 230, 196, 51, 101, 243, 111, 135, 0, 0, 0, 0, 0, 255, 255, 255, 255, 1, 160,
    15, 0, 0, 0, 0, 0, 0, 2, 0, 20, 0, 0, 0, 0] = [213, 14, 232, 219, 61, 127, 126, 91, 54, 106, 38, 59, 229,
    138, 240, 127, 183, 183, 179, 137, 234, 203, 143, 211, 145, 44, 73, 170, 174, 90, 18, 226]"
proof -
  have "chunks 64 (sha_pad [2, 0, 0, 0, 1, 17, 142, 212, 126, 135, 76, 189, 75, 184, 129, 233, 225, 95, 4, 163, 50, 219,
    223, 15, 238, 179, 154, 12, 204, 119, 230, 196, 51, 101, 243, 111, 135, 0, 0, 0, 0, 0, 255, 255, 255, 255,
    1, 160, 15, 0, 0, 0, 0, 0, 0, 2, 0, 20, 0, 0, 0, 0]) = [[2, 0, 0, 0, 1, 17, 142, 212, 126, 135, 76, 189, 75,
    184, 129, 233, 225, 95, 4, 163, 50, 219, 223, 15, 238, 179, 154, 12, 204, 119, 230, 196, 51, 101, 243, 111,
    135, 0, 0, 0, 0, 0, 255, 255, 255, 255, 1, 160, 15, 0, 0, 0, 0, 0, 0, 2, 0, 20, 0, 0, 0, 0, 128, 0], [0, 0,
    0, 0, 0, 0, 0, 0, 0, 0, 0, 0, 0, 0, 0, 0, 0, 0, 0, 0, 0, 0, 0, 0, 0, 0, 0, 0, 0, 0, 0, 0, 0, 0, 0, 0, 0, 0,
    0, 0, 0, 0, 0, 0, 0, 0, 0, 0, 0, 0, 0, 0, 0, 0, 0, 0, 0, 0, 0, 0, 0, 0, 1, 240]]" by code_simp
  then show ?thesis
    by (simp add: sha256_def spend_inner_step0 spend_inner_step1) code_simp
qed

lemma spend_outer_step0: "sha_compress [213, 14, 232, 219, 61, 127, 126, 91, 54, 106, 38, 59, 229, 138, 240, 127, 183, 183, 179, 137, 234,
    203, 143, 211, 145, 44, 73, 170, 174, 90, 18, 226, 128, 0, 0, 0, 0, 0, 0, 0, 0, 0, 0, 0, 0, 0, 0, 0, 0, 0,
    0, 0, 0, 0, 0, 0, 0, 0, 0, 0, 0, 0, 1, 0] sha_init = (1952876502, 2556984600, 3033234835, 478625942,
    2565281377, 1424293824, 3121606779, 2944954736)"
  by code_simp

lemma spend_outer: "sha256 [213, 14, 232, 219, 61, 127, 126, 91, 54, 106, 38, 59, 229, 138, 240, 127, 183, 183, 179, 137, 234, 203,
    143, 211, 145, 44, 73, 170, 174, 90, 18, 226] = [116, 102, 135, 214, 152, 104, 125, 24, 180, 203, 125, 147,
    28, 135, 64, 150, 152, 231, 22, 97, 84, 228, 255, 192, 186, 15, 240, 123, 175, 136, 113, 112]"
proof -
  have "chunks 64 (sha_pad [213, 14, 232, 219, 61, 127, 126, 91, 54, 106, 38, 59, 229, 138, 240, 127, 183, 183, 179,
    137, 234, 203, 143, 211, 145, 44, 73, 170, 174, 90, 18, 226]) = [[213, 14, 232, 219, 61, 127, 126, 91, 54,
    106, 38, 59, 229, 138, 240, 127, 183, 183, 179, 137, 234, 203, 143, 211, 145, 44, 73, 170, 174, 90, 18, 226,
    128, 0, 0, 0, 0, 0, 0, 0, 0, 0, 0, 0, 0, 0, 0, 0, 0, 0, 0, 0, 0, 0, 0, 0, 0, 0, 0, 0, 0, 0, 1, 0]]" by code_simp
  then show ?thesis
    by (simp add: sha256_def spend_outer_step0) code_simp
qed

definition spend_txid :: bytes where
  "spend_txid = [116, 102, 135, 214, 152, 104, 125, 24, 180, 203, 125, 147, 28, 135, 64, 150, 152, 231, 22, 97, 84,
    228, 255, 192, 186, 15, 240, 123, 175, 136, 113, 112]"

lemma spend_digest: "sha256 (sha256 ([2, 0, 0, 0, 1] @ deposit_txid @ [0, 0, 0, 0, 0, 255, 255, 255, 255, 1, 160, 15, 0, 0, 0, 0, 0, 0, 2, 0, 20, 0, 0, 0, 0])) = spend_txid"
proof -
  have "([2, 0, 0, 0, 1] @ deposit_txid @ [0, 0, 0, 0, 0, 255, 255, 255, 255, 1, 160, 15, 0, 0, 0, 0, 0, 0, 2, 0, 20, 0,
    0, 0, 0] :: bytes) = [2, 0, 0, 0, 1, 17, 142, 212, 126, 135, 76, 189, 75, 184, 129, 233, 225, 95, 4, 163,
    50, 219, 223, 15, 238, 179, 154, 12, 204, 119, 230, 196, 51, 101, 243, 111, 135, 0, 0, 0, 0, 0, 255, 255,
    255, 255, 1, 160, 15, 0, 0, 0, 0, 0, 0, 2, 0, 20, 0, 0, 0, 0]" by code_simp
  then show ?thesis by (simp only: spend_inner spend_outer spend_txid_def)
qed

lemma example_digests_differ:
  "block1_hash \<noteq> block0_hash" "block2_hash \<noteq> block0_hash" "block2_hash \<noteq> block1_hash" "spend_txid \<noteq> deposit_txid"
  by (simp_all add: block0_hash_def block1_hash_def block2_hash_def deposit_txid_def spend_txid_def)

lemma example_digests_length:
  "length block0_hash = 32" "length block1_hash = 32" "length deposit_txid = 32"
  by (simp_all add: block0_hash_def block1_hash_def deposit_txid_def)

end
