(* ===== verification/Gap_Proof.thy ===== *)
theory Gap_Proof
  imports Service Rpc Digest_Examples
begin

text \<open>
  \<open>tools/induced_gap_proof.py\<close>: the program that an operator runs against a node to see a gap
  closed. It surveys a window of blocks for a coin that is created in one and spent in a later
  one, sets a follower just below the first of them, delivers only the tip, and checks eight
  things about what the service made of it. Its exit status is the result here: 0 when all
  eight hold, 1 when the proof fails, 2 when the node could not be read. What is printed is
  left out. The lemmas show that the survey finds what it says, and which verdict an honest
  node gets.
\<close>

definition PROOF_KEY :: bytes where
  "PROOF_KEY = ascii ''induced-gap-proof-key-not-secret''"

section \<open>Reading the node\<close>

definition fetch_block :: "'n rpc \<Rightarrow> int \<Rightarrow> ('n, bytes \<times> block) py" where
  "fetch_block call height =
     bind (call ''getblockhash'' [JInt height]) (\<lambda>block_hash.
     bind (call ''getblock'' [block_hash, JInt 0]) (\<lambda>text.
     bind (lift_exn (case text of JStr s \<Rightarrow> fromhex s | _ \<Rightarrow> Inl TypeError)) (\<lambda>raw.
     bind (lift_exn (parse_block raw)) (\<lambda>b. ret (raw, b)))))"

text \<open>\<open>try: \<dots> except RpcError: \<dots> return 2\<close>: None where the node refused.\<close>

definition unless_refused :: "('n, 'a) py \<Rightarrow> ('n, 'a option) py" where
  "unless_refused m = (\<lambda>n. case m n of
     (Inl (RpcError code), n') \<Rightarrow> (Inr None, n')
   | (Inl e, n') \<Rightarrow> (Inl e, n')
   | (Inr x, n') \<Rightarrow> (Inr (Some x), n'))"

definition read_tip_height :: "'n rpc \<Rightarrow> ('n, int option) py" where
  "read_tip_height call = (\<lambda>n. case bind (call ''getblockcount'' []) (\<lambda>v. lift_exn (py_int v)) n of
     (Inl e, n') \<Rightarrow>
       if (\<exists>code. e = RpcError code) \<or> (\<exists>t. e = RpcTransportError t) \<or> is_value_error e \<or> e = TypeError
       then (Inr None, n') else (Inl e, n')
   | (Inr h, n') \<Rightarrow> (Inr (Some h), n'))"

fun survey :: "'n rpc \<Rightarrow> int list \<Rightarrow> block list \<Rightarrow> ('n, block list option) py" where
  "survey call [] window = ret (Some window)"
| "survey call (height # heights) window =
     bind (unless_refused (fetch_block call height)) (\<lambda>got.
     case got of None \<Rightarrow> ret None | Some (_, b) \<Rightarrow> survey call heights (window @ [b]))"

section \<open>A coin created and spent inside the window\<close>

type_synonym created = "bytes \<times> int \<rightharpoonup> bytes \<times> nat"
type_synonym found_spend = "bytes \<times> nat \<times> nat"

fun spend_among :: "nat \<Rightarrow> outpoint list \<Rightarrow> created \<Rightarrow> found_spend option" where
  "spend_among index [] created = None"
| "spend_among index (op # ops) created =
     (case created (op_txid op, op_vout op) of
        None \<Rightarrow> spend_among index ops created
      | Some (spk, created_index) \<Rightarrow>
          if created_index < index then Some (spk, created_index, index) else spend_among index ops created)"

fun record_outputs :: "nat \<Rightarrow> bytes \<Rightarrow> tx_output list \<Rightarrow> created \<Rightarrow> created" where
  "record_outputs index txid [] created = created"
| "record_outputs index txid (out # outs) created =
     record_outputs index txid outs
       (if out_spk out \<noteq> [] then created((txid, out_vout out) \<mapsto> (out_spk out, index)) else created)"

fun find_in_txs :: "nat \<Rightarrow> transaction list \<Rightarrow> created \<Rightarrow> found_spend + created" where
  "find_in_txs index [] created = Inr created"
| "find_in_txs index (tx # txs) created =
     (case spend_among index (tx_inputs tx) created of
        Some found \<Rightarrow> Inl found
      | None \<Rightarrow> find_in_txs index txs (record_outputs index (tx_txid tx) (tx_outputs tx) created))"

fun find_in_blocks :: "nat \<Rightarrow> block list \<Rightarrow> created \<Rightarrow> found_spend option" where
  "find_in_blocks index [] created = None"
| "find_in_blocks index (b # bs) created =
     (case find_in_txs index (blk_transactions b) created of
        Inl found \<Rightarrow> Some found
      | Inr created' \<Rightarrow> find_in_blocks (Suc index) bs created')"

definition find_spend_within :: "block list \<Rightarrow> found_spend option" where
  "find_spend_within blocks = find_in_blocks 0 blocks Map.empty"

section \<open>The proof itself\<close>

definition proof_matcher :: "bytes \<Rightarrow> exn + mem_index matcher" where
  "proof_matcher spk =
     rbind (derive_subkeys PROOF_KEY) (\<lambda>keys.
     rbind (new_provisional DEFAULT_PROVISIONAL_MAX) (\<lambda>prov.
     Inr \<lparr>m_k = sk_match keys, m_index = mem_new [(1, spk_hmac (sk_match keys) spk)], m_prov = prov\<rparr>))"

text \<open>The block below the deposit, from the window or, below the window, from the node.\<close>

definition block_behind :: "'n rpc \<Rightarrow> block list \<Rightarrow> int \<Rightarrow> nat \<Rightarrow> ('n, (block \<times> int) option) py" where
  "block_behind call window start created_index =
     (if created_index > 0
      then ret (Some (window ! (created_index - 1), start + int created_index - 1))
      else bind (unless_refused (fetch_block call (start - 1))) (\<lambda>got.
           ret (map_option (\<lambda>(_, b). (b, start - 1)) got)))"

definition proof_ingest :: "mem_index matcher \<Rightarrow> 'n follower \<Rightarrow> exn + (mem_index, 'n) service" where
  "proof_ingest m f = rbind (new_seen DEFAULT_SEEN_MAX) (\<lambda>seen. Inr (new_ingest m new_tracker False seen f))"

definition proof_checks :: "int \<Rightarrow> int \<Rightarrow> match list \<Rightarrow> (mem_index, 'n) service \<Rightarrow> bool list" where
  "proof_checks tip behind_height alerts g =
     (let expected_fetched = tip - behind_height - 1;
          directions = map match_direction alerts;
          follower = ig_expand g
      in [fo_fetched follower = expected_fetched,
          ig_blocks g = expected_fetched + 1,
          ig_malformed g = 0,
          INCOMING \<in> set directions,
          OUTGOING \<in> set directions,
          INCOMING \<in> set directions \<and> mem_outpoint_count (index_of g) = 0,
          (case fo_tip follower of None \<Rightarrow> False | Some t \<Rightarrow> tip_height t = tip),
          \<not> tr_needs_reconciliation (ig_tracker g)])"

text \<open>The delivery of the tip, and the verdict: a failed catch-up and a failed check are both 1.\<close>

definition deliver_tip ::
  "'n rpc \<Rightarrow> mem_index matcher \<Rightarrow> block \<Rightarrow> int \<Rightarrow> int \<Rightarrow> int \<Rightarrow> bytes \<Rightarrow> ('n, int) py" where
  "deliver_tip call m behind behind_height tip blocks_back tip_raw = (\<lambda>n.
     let follower = new_follower n (Some \<lparr>tip_hash = blk_hash behind, tip_height = behind_height\<rparr>) (blocks_back + 2)
     in case proof_ingest m follower of
       Inl e \<Rightarrow> (Inl e, n)
     | Inr g \<Rightarrow>
         let (r, g') = service_handle mem_ops call \<lparr>msg_topic = ''rawblock'', msg_body = tip_raw, msg_seq = 1\<rparr> g
         in ((case r of
               Inl (CatchUpFailed msg) \<Rightarrow> Inr 1
             | Inl (ReorgDetected msg) \<Rightarrow> Inr 1
             | Inl e \<Rightarrow> Inl e
             | Inr alerts \<Rightarrow> Inr (if list_all id (proof_checks tip behind_height alerts g') then 0 else 1)),
             fo_node (ig_expand g')))"

definition proof_run :: "'n rpc \<Rightarrow> int \<Rightarrow> ('n, int) py" where
  "proof_run call blocks_back =
     bind (read_tip_height call) (\<lambda>count. case count of None \<Rightarrow> ret 2 | Some tip \<Rightarrow>
     let start = tip - blocks_back in
     bind (survey call [start..tip] []) (\<lambda>surveyed. case surveyed of None \<Rightarrow> ret 2 | Some window \<Rightarrow>
     case find_spend_within window of None \<Rightarrow> ret 1 | Some (spk, created_index, spent_index) \<Rightarrow>
     bind (lift_exn (proof_matcher spk)) (\<lambda>m.
     bind (block_behind call window start created_index) (\<lambda>below. case below of None \<Rightarrow> ret 2
       | Some (behind, behind_height) \<Rightarrow>
     bind (unless_refused (fetch_block call tip)) (\<lambda>got. case got of None \<Rightarrow> ret 2
       | Some (tip_raw, _) \<Rightarrow>
     deliver_tip call m behind behind_height tip blocks_back tip_raw)))))"

definition proof_main ::
  "world \<Rightarrow> (http_request \<Rightarrow> 'n \<Rightarrow> reply \<times> 'n) \<Rightarrow> int \<Rightarrow> 'n \<Rightarrow> exn + int" where
  "proof_main w post blocks_back net =
     (case rpc_from_env w of
        Inl (MissingCredentials msg names) \<Rightarrow> Inr 2
      | Inl e \<Rightarrow> Inl e
      | Inr c \<Rightarrow> fst (proof_run (rpc_call_method post) blocks_back \<lparr>co_client = c, co_net = net\<rparr>))"

section \<open>The survey finds what it says\<close>

text \<open>A script that block \<open>c\<close> of a window pays, and block \<open>s\<close>, a later one, spends from.\<close>

definition creates_coin :: "transaction \<Rightarrow> bytes \<Rightarrow> outpoint \<Rightarrow> bool" where
  "creates_coin tx spk op \<longleftrightarrow> spk \<noteq> [] \<and> op_txid op = tx_txid tx
     \<and> (\<exists>out \<in> set (tx_outputs tx). out_spk out = spk \<and> out_vout out = op_vout op)"

definition spent_later :: "block list \<Rightarrow> bytes \<Rightarrow> nat \<Rightarrow> nat \<Rightarrow> bool" where
  "spent_later blocks spk c s \<longleftrightarrow> c < s \<and> s < length blocks
     \<and> (\<exists>tx \<in> set (blk_transactions (blocks ! c)). \<exists>t \<in> set (blk_transactions (blocks ! s)).
          \<exists>op \<in> set (tx_inputs t). creates_coin tx spk op)"

text \<open>What the dictionary holds is true of the transactions read, and complete if no txid repeats.\<close>

definition recorded :: "(nat \<times> transaction) set \<Rightarrow> created \<Rightarrow> bool" where
  "recorded D created \<longleftrightarrow> (\<forall>op spk c. created (op_txid op, op_vout op) = Some (spk, c) \<longrightarrow>
     (\<exists>tx. (c, tx) \<in> D \<and> creates_coin tx spk op))"

definition complete :: "(nat \<times> transaction) set \<Rightarrow> created \<Rightarrow> bool" where
  "complete D created \<longleftrightarrow> (\<forall>c tx op spk. (c, tx) \<in> D \<longrightarrow> creates_coin tx spk op \<longrightarrow>
     (\<exists>spk'. created (op_txid op, op_vout op) = Some (spk', c)))"

lemma spend_among_Some:
  "spend_among index ops created = Some (spk, c, s) \<Longrightarrow>
   s = index \<and> c < index \<and> (\<exists>op \<in> set ops. created (op_txid op, op_vout op) = Some (spk, c))"
  by (induction ops) (auto split: option.splits if_splits)

lemma spend_among_None:
  "spend_among index ops created = None \<Longrightarrow> op \<in> set ops \<Longrightarrow>
   created (op_txid op, op_vout op) = Some (spk, c) \<Longrightarrow> \<not> c < index"
  by (induction ops) (auto split: option.splits if_splits)

lemma record_outputs_other:
  "t \<noteq> txid \<Longrightarrow> record_outputs index txid outs created (t, v) = created (t, v)"
  by (induction outs arbitrary: created) auto

lemma record_outputs_sound:
  "record_outputs index txid outs created (t, v) = Some (spk, c) \<Longrightarrow> created (t, v) = Some (spk, c)
   \<or> t = txid \<and> c = index \<and> spk \<noteq> [] \<and> (\<exists>out \<in> set outs. out_spk out = spk \<and> out_vout out = v)"
  by (induction outs arbitrary: created) (fastforce split: if_splits)+

lemma record_outputs_keeps:
  "\<exists>spk. created (txid, v) = Some (spk, index) \<Longrightarrow>
   \<exists>spk. record_outputs index txid outs created (txid, v) = Some (spk, index)"
  by (induction outs arbitrary: created) auto

lemma record_outputs_complete:
  "out \<in> set outs \<Longrightarrow> out_spk out \<noteq> [] \<Longrightarrow>
   \<exists>spk. record_outputs index txid outs created (txid, out_vout out) = Some (spk, index)"
proof (induction outs arbitrary: created)
  case (Cons a outs)
  show ?case
  proof (cases "out \<in> set outs")
    case True
    with Cons show ?thesis by simp
  next
    case False
    with Cons.prems show ?thesis by (auto intro!: record_outputs_keeps)
  qed
qed simp

lemma recorded_outputs:
  "recorded D created \<Longrightarrow>
   recorded (insert (index, tx) D) (record_outputs index (tx_txid tx) (tx_outputs tx) created)"
  by (fastforce simp: recorded_def creates_coin_def dest!: record_outputs_sound)

lemma complete_outputs:
  assumes "complete D created" and "tx_txid tx \<notin> tx_txid ` snd ` D"
  shows "complete (insert (index, tx) D) (record_outputs index (tx_txid tx) (tx_outputs tx) created)"
  unfolding complete_def
proof (intro allI impI)
  fix c t op spk
  assume in_D: "(c, t) \<in> insert (index, tx) D" and coin: "creates_coin t spk op"
  show "\<exists>spk'. record_outputs index (tx_txid tx) (tx_outputs tx) created (op_txid op, op_vout op) = Some (spk', c)"
  proof (cases "(c, t) = (index, tx)")
    case True
    then obtain out where "out \<in> set (tx_outputs tx)" "out_spk out \<noteq> []" "out_vout out = op_vout op"
        "op_txid op = tx_txid tx" "c = index"
      using coin by (auto simp: creates_coin_def)
    with record_outputs_complete [OF this(1,2)] show ?thesis by metis
  next
    case False
    with in_D have D: "(c, t) \<in> D" by auto
    then have "tx_txid t \<in> tx_txid ` snd ` D" by force
    with assms(2) coin have "op_txid op \<noteq> tx_txid tx" by (metis creates_coin_def)
    moreover have "\<exists>spk'. created (op_txid op, op_vout op) = Some (spk', c)"
      using assms(1) D coin unfolding complete_def by blast
    ultimately show ?thesis by (simp add: record_outputs_other)
  qed
qed

lemma find_in_txs_sound:
  assumes "recorded D created"
  shows "case find_in_txs index txs created of
      Inl (spk, c, s) \<Rightarrow> s = index \<and> c < index \<and> (\<exists>tx. \<exists>t \<in> set txs. \<exists>op \<in> set (tx_inputs t).
        (c, tx) \<in> D \<union> Pair index ` set txs \<and> creates_coin tx spk op)
    | Inr created' \<Rightarrow> recorded (D \<union> Pair index ` set txs) created'"
  using assms
proof (induction txs arbitrary: D created)
  case (Cons tx txs)
  show ?case
  proof (cases "spend_among index (tx_inputs tx) created")
    case None
    let ?c = "record_outputs index (tx_txid tx) (tx_outputs tx) created"
    have "recorded (insert (index, tx) D) ?c" using recorded_outputs [OF Cons.prems] .
    from Cons.IH [OF this] None show ?thesis by (force split: sum.splits)
  next
    case (Some found)
    obtain spk c s where f: "found = (spk, c, s)" by (cases found)
    from spend_among_Some [OF Some [unfolded f]] obtain op where
      "s = index" "c < index" "op \<in> set (tx_inputs tx)" "created (op_txid op, op_vout op) = Some (spk, c)" by blast
    moreover from this Cons.prems obtain t where "(c, t) \<in> D" "creates_coin t spk op"
      unfolding recorded_def by blast
    ultimately show ?thesis using Some f by auto
  qed
qed simp

lemma find_in_txs_complete:
  assumes "complete D created" and "distinct (map tx_txid txs)" and "tx_txid ` set txs \<inter> tx_txid ` snd ` D = {}"
    and "find_in_txs index txs created = Inr created'"
  shows "complete (D \<union> Pair index ` set txs) created' \<and> (\<forall>t \<in> set txs. \<forall>op \<in> set (tx_inputs t). \<forall>c tx spk.
    (c, tx) \<in> D \<longrightarrow> c < index \<longrightarrow> \<not> creates_coin tx spk op)"
  using assms
proof (induction txs arbitrary: D created)
  case (Cons tx txs)
  let ?c = "record_outputs index (tx_txid tx) (tx_outputs tx) created"
  from Cons.prems(4) have none: "spend_among index (tx_inputs tx) created = None"
    and rest: "find_in_txs index txs ?c = Inr created'" by (auto split: option.splits)
  have "complete (insert (index, tx) D) ?c"
    using complete_outputs [OF Cons.prems(1)] Cons.prems(3) by auto
  moreover have "tx_txid ` set txs \<inter> tx_txid ` snd ` insert (index, tx) D = {}"
    using Cons.prems(2,3) by auto
  moreover have "distinct (map tx_txid txs)" using Cons.prems(2) by simp
  ultimately have "complete (insert (index, tx) D \<union> Pair index ` set txs) created' \<and> (\<forall>t \<in> set txs. \<forall>op \<in> set (tx_inputs t).
    \<forall>c u spk. (c, u) \<in> insert (index, tx) D \<longrightarrow> c < index \<longrightarrow> \<not> creates_coin u spk op)"
    by (intro Cons.IH [OF _ _ _ rest])
  then have ih: "complete (insert (index, tx) D \<union> Pair index ` set txs) created'"
    "\<forall>t \<in> set txs. \<forall>op \<in> set (tx_inputs t). \<forall>c u spk. (c, u) \<in> D \<longrightarrow> c < index \<longrightarrow> \<not> creates_coin u spk op"
    by blast+
  have "\<not> creates_coin t spk op" if "op \<in> set (tx_inputs tx)" "(c, t) \<in> D" "c < index" for op c t spk
    using spend_among_None [OF none that(1)] Cons.prems(1) that(2,3) unfolding complete_def by blast
  with ih(2) have "\<forall>t \<in> set (tx # txs). \<forall>op \<in> set (tx_inputs t). \<forall>c tx spk.
    (c, tx) \<in> D \<longrightarrow> c < index \<longrightarrow> \<not> creates_coin tx spk op" by (metis insertCI set_ConsD)
  with ih(1) show ?case by simp
qed simp

text \<open>The transactions of a window, with the position of their block, up to a block.\<close>

definition placed :: "block list \<Rightarrow> (nat \<times> transaction) set" where
  "placed bs = {(i, tx). i < length bs \<and> tx \<in> set (blk_transactions (bs ! i))}"

lemma placed_snoc: "placed (bs @ [b]) = placed bs \<union> Pair (length bs) ` set (blk_transactions b)"
  by (auto simp: placed_def nth_append less_Suc_eq split: if_splits)

lemma placed_iff: "(c, tx) \<in> placed bs \<longleftrightarrow> c < length bs \<and> tx \<in> set (blk_transactions (bs ! c))"
  by (auto simp: placed_def)

lemma placed_txids: "snd ` placed bs = set (concat (map blk_transactions bs))"
proof (rule set_eqI)
  fix tx
  have "tx \<in> snd ` placed bs \<longleftrightarrow> (\<exists>i < length bs. tx \<in> set (blk_transactions (bs ! i)))"
    by (force simp: placed_def)
  also have "\<dots> \<longleftrightarrow> tx \<in> set (concat (map blk_transactions bs))"
    by (auto simp: in_set_conv_nth [of _ bs]) (metis nth_mem)
  finally show "tx \<in> snd ` placed bs \<longleftrightarrow> tx \<in> set (concat (map blk_transactions bs))" .
qed

lemma find_in_blocks_sound:
  assumes "recorded (placed pre) created" and "find_in_blocks (length pre) bs created = Some (spk, c, s)"
  shows "spent_later (pre @ bs) spk c s"
  using assms
proof (induction bs arbitrary: pre created)
  case (Cons b bs)
  note step = find_in_txs_sound [OF Cons.prems(1), of "length pre" "blk_transactions b"]
  show ?case
  proof (cases "find_in_txs (length pre) (blk_transactions b) created")
    case (Inl found)
    with Cons.prems(2) have "found = (spk, c, s)" by simp
    with step Inl obtain tx t op where f: "s = length pre" "c < s" "t \<in> set (blk_transactions b)" "op \<in> set (tx_inputs t)"
      "(c, tx) \<in> placed pre" "creates_coin tx spk op" by auto
    then show ?thesis by (auto simp: spent_later_def placed_iff nth_append)
  next
    case (Inr created')
    with step have "recorded (placed (pre @ [b])) created'" by (simp add: placed_snoc)
    from Cons.IH [OF this] Cons.prems(2) Inr show ?thesis by simp
  qed
qed simp

lemma find_in_blocks_complete:
  assumes "complete (placed pre) created" and "distinct (map tx_txid (concat (map blk_transactions (pre @ bs))))"
    and "find_in_blocks (length pre) bs created = None" and "spent_later (pre @ bs) spk c s"
  shows "s < length pre"
  using assms
proof (induction bs arbitrary: pre created)
  case Nil
  then show ?case by (simp add: spent_later_def)
next
  case (Cons b bs)
  from Cons.prems(3) obtain created' where b: "find_in_txs (length pre) (blk_transactions b) created = Inr created'"
    and bs: "find_in_blocks (Suc (length pre)) bs created' = None" by (auto split: sum.splits)
  have "distinct (map tx_txid (blk_transactions b))"
    "tx_txid ` set (blk_transactions b) \<inter> tx_txid ` snd ` placed pre = {}"
    using Cons.prems(2) by (simp_all add: placed_txids) blast
  note step = find_in_txs_complete [OF Cons.prems(1) this b]
  then have "complete (placed (pre @ [b])) created'" by (simp add: placed_snoc)
  from Cons.IH [OF this] Cons.prems(2,4) bs have "s < Suc (length pre)" by simp
  moreover have "s \<noteq> length pre"
  proof
    assume s: "s = length pre"
    with Cons.prems(4) obtain tx t op where "c < length pre" "tx \<in> set (blk_transactions (pre ! c))"
      "t \<in> set (blk_transactions b)" "op \<in> set (tx_inputs t)" "creates_coin tx spk op"
      by (auto simp: spent_later_def nth_append)
    with step show False unfolding placed_iff by blast
  qed
  ultimately show ?case by simp
qed

lemma nothing_recorded: "recorded (placed []) Map.empty" "complete (placed []) Map.empty"
  by (simp_all add: recorded_def complete_def placed_def)

text \<open>
  C22: the survey is right. In a window whose transactions have distinct ids it reports a
  script that one block pays and a later one spends from, with the positions of the two, and it
  reports nothing only if there is no such script.
\<close>

theorem find_spend_correct:
  assumes "distinct (map tx_txid (concat (map blk_transactions blocks)))"
  shows "case find_spend_within blocks of
      Some (spk, c, s) \<Rightarrow> spent_later blocks spk c s
    | None \<Rightarrow> \<forall>spk c s. \<not> spent_later blocks spk c s"
  using find_in_blocks_sound [OF nothing_recorded(1), of blocks] assms
    find_in_blocks_complete [OF nothing_recorded(2), of blocks]
  by (auto simp: find_spend_within_def split: option.split)

lemma find_spend_correct_witness:
  "let deposit = \<lparr>blk_hash = [1], blk_prev_hash = [0], blk_transactions = [ex_deposit]\<rparr>;
       spend = \<lparr>blk_hash = [2], blk_prev_hash = [1], blk_transactions = [ex_spend]\<rparr>
   in find_spend_within [deposit, spend] = Some ([81], 0, 1) \<and> spent_later [deposit, spend] [81] 0 1
     \<and> find_spend_within [spend, deposit] = None \<and> (\<forall>spk c s. \<not> spent_later [spend, deposit] spk c s)"
proof -
  let ?d = "\<lparr>blk_hash = [1], blk_prev_hash = [0], blk_transactions = [ex_deposit]\<rparr>"
  let ?s = "\<lparr>blk_hash = [2], blk_prev_hash = [1], blk_transactions = [ex_spend]\<rparr>"
  have "tx_txid ex_deposit \<noteq> tx_txid ex_spend" by (simp add: ex_deposit_def ex_spend_def)
  moreover have "find_spend_within [?d, ?s] = Some ([81], 0, 1)" "find_spend_within [?s, ?d] = None"
    by (simp_all add: find_spend_within_def ex_deposit_def ex_spend_def)
  ultimately show ?thesis
    using find_spend_correct [of "[?d, ?s]"] find_spend_correct [of "[?s, ?d]"] by simp
qed

section \<open>The verdict an honest node gets\<close>

lemma fetch_block_honest:
  assumes "serves call ch" and "valid_chain ch" and "h < length ch"
  shows "\<exists>n'. fetch_block call (int h) n = (Inr (ser_block (fst (ch ! h)) (snd (ch ! h)), raw_parsed (ch ! h)), n')"
proof -
  let ?d = "JStr (hex (rev (raw_hash (ch ! h))))" and ?raw = "ser_block (fst (ch ! h)) (snd (ch ! h))"
  from assms(1,3) obtain n1 where "call ''getblockhash'' [JInt (int h)] n = (Inr ?d, n1)"
    unfolding serves_def Let_def by blast
  moreover from assms(1,3) obtain n2 where "call ''getblock'' [?d, JInt 0] n1 = (Inr (JStr (hex ?raw)), n2)"
    unfolding serves_def Let_def RAW_BLOCK_def by blast
  ultimately show ?thesis using raw_parsed_block [OF assms(2,3)]
    by (auto simp: fetch_block_def bind_def lift_exn_def ret_def)
qed

lemma unless_refused_returns: "m n = (Inr x, n') \<Longrightarrow> unless_refused m n = (Inr (Some x), n')"
  by (simp add: unless_refused_def)

lemma survey_honest:
  assumes "serves call ch" and "valid_chain ch" and "a \<le> length ch"
  shows "\<exists>n'. survey call [int a..int (length ch) - 1] window n =
    (Inr (Some (window @ map raw_parsed (drop a ch))), n')"
  using assms(3)
proof (induction "length ch - a" arbitrary: a window n)
  case 0
  then show ?case by (simp add: ret_def)
next
  case (Suc d)
  then have a: "a < length ch" by simp
  obtain n1 where n1: "fetch_block call (int a) n = (Inr (ser_block (fst (ch ! a)) (snd (ch ! a)), raw_parsed (ch ! a)), n1)"
    using fetch_block_honest [OF assms(1,2) a] by blast
  obtain n2 where n2: "survey call [int (Suc a)..int (length ch) - 1] (window @ [raw_parsed (ch ! a)]) n1 =
      (Inr (Some ((window @ [raw_parsed (ch ! a)]) @ map raw_parsed (drop (Suc a) ch))), n2)"
    using Suc.hyps(1) [of "Suc a"] Suc.hyps(2) a by fastforce
  have "[int a..int (length ch) - 1] = int a # [int (Suc a)..int (length ch) - 1]"
    using a by (subst upto.simps) (simp add: add.commute)
  moreover have "drop a ch = ch ! a # drop (Suc a) ch" using a by (simp add: Cons_nth_drop_Suc)
  ultimately show ?case using n2 unless_refused_returns [of "fetch_block call (int a)", OF n1] by (simp add: bind_def)
qed

text \<open>The key of the proof's matcher, and the one script its index watches, as item 1.\<close>

definition proof_key :: bytes where
  "proof_key = (case derive_subkeys PROOF_KEY of Inr keys \<Rightarrow> sk_match keys | Inl _ \<Rightarrow> [])"

definition proof_watch :: "bytes \<Rightarrow> bytes \<Rightarrow> int set" where
  "proof_watch spk h = (if h = spk_hmac proof_key spk then {1} else {})"

lemma proof_matcher_returns:
  "\<exists>prov. proof_matcher spk = Inr \<lparr>m_k = proof_key, m_index = mem_new [(1, spk_hmac proof_key spk)], m_prov = prov\<rparr>
    \<and> pv_by_outpoint prov = []"
proof -
  have "16 \<le> length PROOF_KEY" by (simp add: PROOF_KEY_def)
  from derive_subkeys_returns [OF this] obtain keys where "derive_subkeys PROOF_KEY = Inr keys" by blast
  then show ?thesis
    by (simp add: proof_matcher_def proof_key_def new_provisional_def DEFAULT_PROVISIONAL_MAX_def rbind_def)
qed

lemma mem_new_one:
  "watched mem_ops (mem_new [(1, h)]) g = (if g = h then {1} else {})" "holdings mem_ops (mem_new [(1, h)]) = {}"
  by (simp_all add: watched_def holdings_def mem_ops_def mem_new_def mem_items_watching_spk_def
      mem_items_owning_outpoint_def dict_get_def)

lemma mem_count_zero: "mem_ok ix \<Longrightarrow> mem_outpoint_count ix = 0 \<longleftrightarrow> holdings mem_ops ix = {}"
proof (cases "by_outpoint ix")
  case Nil
  then show ?thesis by (simp add: mem_outpoint_count_def holdings_def mem_ops_def mem_items_owning_outpoint_def dict_get_def)
next
  case (Cons e rest)
  obtain h v where e: "e = (h, v)" by fastforce
  assume "mem_ok ix"
  then have "v \<noteq> []" using Cons e by (auto simp: mem_ok_def dest: spec [of _ h])
  moreover from this Cons e have "(hd v, h) \<in> holdings mem_ops ix"
    by (simp add: holdings_def mem_ops_def mem_items_owning_outpoint_def dict_get_def)
  ultimately show ?thesis using Cons e by (auto simp: mem_outpoint_count_def)
qed

text \<open>A deposit is announced, and so is the first spend of a coin that is held.\<close>

lemma announces_deposit:
  "tx \<in> set txs \<Longrightarrow> out \<in> set (tx_outputs tx) \<Longrightarrow> i \<in> watch (spk_hmac k (out_spk out)) \<Longrightarrow>
   \<lparr>item_id = i, match_direction = INCOMING\<rparr> \<in> chain_alerts k watch txs R"
  by (induction txs arbitrary: R) auto

lemma announces_spend:
  "(i, h) \<in> R \<Longrightarrow> tx \<in> set txs \<Longrightarrow> h \<in> spent_keys k tx \<Longrightarrow>
   \<lparr>item_id = i, match_direction = OUTGOING\<rparr> \<in> chain_alerts k watch txs R"
proof (induction txs arbitrary: R)
  case (Cons t txs)
  show ?case
  proof (cases "h \<in> spent_keys k t")
    case True
    with Cons.prems(1) show ?thesis by auto
  next
    case False
    with Cons.prems have "(i, h) \<in> confirm_tx k watch t R" "tx \<in> set txs" by (auto simp: confirm_tx_def)
    with Cons.IH Cons.prems(3) show ?thesis by simp
  qed
qed simp

lemma announces_both:
  assumes "d \<in> set as" and "t \<in> set bs" and "creates_coin d spk op" and "op \<in> set (tx_inputs t)"
    and "i \<in> watch (spk_hmac k spk)"
  shows "\<lparr>item_id = i, match_direction = INCOMING\<rparr> \<in> chain_alerts k watch (as @ bs) R"
    and "\<lparr>item_id = i, match_direction = OUTGOING\<rparr> \<in> chain_alerts k watch (as @ bs) R"
proof -
  from assms(3) obtain out where out: "out \<in> set (tx_outputs d)" "out_spk out = spk" "out_vout out = op_vout op"
    "op_txid op = tx_txid d" by (auto simp: creates_coin_def)
  show "\<lparr>item_id = i, match_direction = INCOMING\<rparr> \<in> chain_alerts k watch (as @ bs) R"
    using announces_deposit [of d "as @ bs" out] assms(1,5) out by simp
  from assms(1) obtain pre post where "as = pre @ d # post" by (auto simp: in_set_conv_decomp)
  moreover have "(i, op_key_of k op) \<in> confirm_tx k watch d R'" for R'
    using out assms(5) by (auto simp: confirm_tx_def op_key_of_def)
  then have "\<lparr>item_id = i, match_direction = OUTGOING\<rparr> \<in> chain_alerts k watch (post @ bs) (confirm_tx k watch d R')" for R'
    using assms(2,4) by (intro announces_spend [of i "op_key_of k op"]) (auto simp: spent_keys_def)
  ultimately show "\<lparr>item_id = i, match_direction = OUTGOING\<rparr> \<in> chain_alerts k watch (as @ bs) R" by simp
qed

text \<open>What is left of the watched script's coins when the blocks above \<open>i\<close> up to \<open>j\<close> are applied.\<close>

definition coins_left :: "raw_block list \<Rightarrow> bytes \<Rightarrow> nat \<Rightarrow> nat \<Rightarrow> coins" where
  "coins_left ch spk i j = fold (confirm_tx proof_key (proof_watch spk)) (chain_txs ch i j) {}"

lemma deliver_honest:
  assumes chain: "valid_chain ch" "serves call ch" and "i < j" "j < length ch" "apart ch i j"
    and gap: "int (j - i - 1) \<le> blocks_back + 2" and m: "proof_matcher spk = Inr m"
    and ids: "distinct (map tx_txid (chain_txs ch i j))"
    and coin: "chain_txs ch i j = as @ bs" "d \<in> set as" "t \<in> set bs" "creates_coin d spk op" "op \<in> set (tx_inputs t)"
  shows "\<exists>n'. deliver_tip call m (raw_parsed (ch ! i)) (int i) (int j) blocks_back
      (ser_block (fst (ch ! j)) (snd (ch ! j))) n = (Inr (if coins_left ch spk i j = {} then 0 else 1), n')"
proof -
  from m proof_matcher_returns [of spk] have k: "m_k m = proof_key" "m_index m = mem_new [(1, spk_hmac proof_key spk)]"
    "pv_by_outpoint (m_prov m) = []" by auto
  let ?f = "new_follower n (Some \<lparr>tip_hash = raw_hash (ch ! i), tip_height = int i\<rparr>) (blocks_back + 2)"
  let ?g = "new_ingest m new_tracker False \<lparr>se_maxlen = DEFAULT_SEEN_MAX, se_txids = [], se_evicted = 0\<rparr> ?f"
  let ?msg = "\<lparr>msg_topic = ''rawblock'', msg_body = ser_block (fst (ch ! j)) (snd (ch ! j)), msg_seq = 1\<rparr>"
  have g: "proof_ingest m ?f = Inr ?g" by (simp add: proof_ingest_def new_seen_def DEFAULT_SEEN_MAX_def)
  have start: "key_of ?g = proof_key" "index_of ?g = mem_new [(1, spk_hmac proof_key spk)]" "ig_expand ?g = ?f"
    "ig_blocks ?g = 0" "ig_malformed ?g = 0" "unseen (chain_txs ch i j) ?g" "fo_fetched ?f = 0"
    "at_height ch i ?f" "fo_max_catch_up ?f = blocks_back + 2"
    using ids by (simp_all add: new_ingest_def k unseen_def new_follower_def at_height_def)
  have w: "watched mem_ops (mem_new [(1, spk_hmac proof_key spk)]) = proof_watch spk"
    "holdings mem_ops (mem_new [(1, spk_hmac proof_key spk)]) = {}"
    by (auto simp: mem_new_one proof_watch_def)
  have ok: "mem_ok (index_of ?g)" unfolding start(2) by (rule mem_ok_new)
  from mem.service_block [OF chain assms(3-5), of ?g ?msg, unfolded start w] gap ok start obtain ms g' where
    run: "service_handle mem_ops call ?msg ?g = (Inr ms, g')" "mem_ok (index_of g')"
      "holdings mem_ops (index_of g') = coins_left ch spk i j" "at_height ch j (ig_expand g')"
      "\<not> tr_needs_reconciliation (ig_tracker g')" "fo_fetched (ig_expand g') = int (j - Suc i)"
      "ig_blocks g' = int (j - i)" "ig_malformed g' = 0"
      "set ms = chain_alerts proof_key (proof_watch spk) (chain_txs ch i j) {}"
    by (auto simp: TOPIC_BLOCK_def seq_in_range_def UINT32_def coins_left_def)
  have "1 \<in> proof_watch spk (spk_hmac proof_key spk)" by (simp add: proof_watch_def)
  from announces_both [of d as t bs spk op 1 "proof_watch spk" proof_key "{}", OF coin(2-5) this]
  have dirs: "INCOMING \<in> match_direction ` set ms" "OUTGOING \<in> match_direction ` set ms"
    unfolding run(9) coin(1) by force+
  have "list_all id (proof_checks (int j) (int i) ms g') \<longleftrightarrow> coins_left ch spk i j = {}"
    using run assms(3) dirs mem_count_zero [OF run(2)]
    by (auto simp: proof_checks_def Let_def at_height_def of_nat_diff)
  then show ?thesis using g run(1)
    by (simp add: deliver_tip_def raw_parsed_def Let_def)
qed

text \<open>
  C9: the verdict is right. Against a node that serves a valid chain, when the window holds a
  coin that is created and later spent and the block below the deposit exists, the program
  answers 0 when no coin of the watched script is left at the tip, and 1 otherwise: the gap is
  refetched and applied, the deposit and the spend are both announced, and nothing but a coin
  that really is still there fails the proof.
\<close>

theorem gap_proof_verdict:
  assumes "valid_chain ch" and "serves call ch" and "\<forall>n. \<exists>n'. call ''getblockcount'' [] n = (Inr (JInt (int (length ch) - 1)), n')"
    and "start < length ch" and "find_spend_within (map raw_parsed (drop start ch)) = Some (spk, c, s)" and "0 < start + c"
    and "apart ch (start + c - 1) (length ch - 1)"
    and "distinct (map tx_txid (chain_txs ch (start + c - 1) (length ch - 1)))"
  shows "\<exists>n'. proof_run call (int (length ch - 1 - start)) n =
    (Inr (if coins_left ch spk (start + c - 1) (length ch - 1) = {} then 0 else 1), n')"
proof -
  let ?i = "start + c - 1" and ?j = "length ch - 1" and ?w = "map raw_parsed (drop start ch)"
  have len: "int (length ch) - 1 = int ?j" using assms(4) by simp
  have "spent_later ?w spk c s"
    using find_in_blocks_sound [OF nothing_recorded(1), of ?w] assms(5) by (simp add: find_spend_within_def)
  then obtain d t op where cs: "c < s" "start + s < length ch" and coin:
    "d \<in> set (blk_transactions (raw_parsed (ch ! (start + c))))" "t \<in> set (blk_transactions (raw_parsed (ch ! (start + s))))"
    "op \<in> set (tx_inputs t)" "creates_coin d spk op" by (auto simp: spent_later_def)
  have ij: "?i < ?j" "?j < length ch" "int (?j - ?i - 1) \<le> int (length ch - 1 - start) + 2"
    using cs assms(4,6) by auto
  have split: "chain_txs ch ?i ?j = chain_txs ch ?i (start + c) @ chain_txs ch (start + c) ?j"
    using cs assms(6) by (intro chain_txs_append [symmetric]) auto
  have d: "d \<in> set (chain_txs ch ?i (start + c))" using coin(1) assms(6) by (auto simp: chain_txs_def)
  have t: "t \<in> set (chain_txs ch (start + c) ?j)" using coin(2) cs
    by (auto simp: chain_txs_def simp del: upt_Suc intro!: bexI [of _ "start + s"])
  obtain m where m: "proof_matcher spk = Inr m" using proof_matcher_returns by blast
  obtain n1 where n1: "read_tip_height call n = (Inr (Some (int ?j)), n1)"
  proof -
    obtain n' where "call ''getblockcount'' [] n = (Inr (JInt (int ?j)), n')" using assms(3) unfolding len by blast
    then show ?thesis using that [of n'] by (simp add: read_tip_height_def bind_def lift_exn_def)
  qed
  have "int ?j - int (length ch - 1 - start) = int start" using assms(4) by simp
  moreover obtain n2 where n2: "survey call [int start..int ?j] [] n1 = (Inr (Some ?w), n2)"
    using survey_honest [OF assms(2,1), of start "[]" n1, unfolded len] assms(4) by auto
  moreover obtain n3 where n3: "block_behind call ?w (int start) c n2 = (Inr (Some (raw_parsed (ch ! ?i), int ?i)), n3)"
  proof (cases "0 < c")
    case True
    then show ?thesis using that [of n2] cs by (simp add: block_behind_def ret_def of_nat_diff)
  next
    case False
    then have "0 < start" using assms(6) by simp
    moreover obtain n' where "fetch_block call (int ?i) n2 =
        (Inr (ser_block (fst (ch ! ?i)) (snd (ch ! ?i)), raw_parsed (ch ! ?i)), n')"
      using fetch_block_honest [OF assms(2,1) less_trans [OF ij(1,2)]] by blast
    ultimately show ?thesis
      using False that [of n'] unless_refused_returns [of "fetch_block call (int start - 1)" n2 _ n']
      by (simp add: block_behind_def ret_def bind_def of_nat_diff)
  qed
  moreover obtain n4 where n4: "fetch_block call (int ?j) n3 = (Inr (ser_block (fst (ch ! ?j)) (snd (ch ! ?j)), raw_parsed (ch ! ?j)), n4)"
    using fetch_block_honest [OF assms(2,1) ij(2)] by blast
  ultimately show ?thesis
    using deliver_honest [OF assms(1,2) ij(1,2) assms(7) ij(3) m assms(8) split d t coin(4,3), of n4]
      n1 unless_refused_returns [of "fetch_block call (int ?j)", OF n4] assms(5) m
    by (simp add: proof_run_def bind_def Let_def lift_exn_def)
qed

text \<open>
  A node that serves a chain, and a chain of three blocks: the last spends the coin that the
  second creates, and pays the same script again. The proof's verdict on it is 1, although the
  gap was closed: one of the coins the script was paid is still there.
\<close>

definition honest_node :: "raw_block list \<Rightarrow> unit rpc" where
  "honest_node ch m args n = (Inr (
     if m = ''getblockcount'' then JInt (int (length ch) - 1)
     else if m = ''getblockhash''
     then (case args of [JInt h] \<Rightarrow> JStr (hex (rev (raw_hash (ch ! nat h)))) | _ \<Rightarrow> JNull)
     else (case args of
         [JStr d, v] \<Rightarrow>
           (case filter (\<lambda>h. hex (rev (raw_hash (ch ! h))) = d) [0..<length ch] of
              [] \<Rightarrow> JNull
            | h # _ \<Rightarrow> if v = JInt 0 then JStr (hex (ser_block (fst (ch ! h)) (snd (ch ! h))))
                else JObj [(''height'', JInt (int h)), (''confirmations'', JInt (int (length ch - h)))])
       | _ \<Rightarrow> JNull)), n)"

lemma filter_one: "h < n \<Longrightarrow> (\<And>i. i < n \<Longrightarrow> P i \<longleftrightarrow> i = h) \<Longrightarrow> filter P [0..<n] = [h]"
proof (induction n)
  case (Suc n)
  show ?case
  proof (cases "h = n")
    case True
    then have "filter P [0..<n] = []" using Suc.prems by (simp add: filter_empty_conv)
    then show ?thesis using Suc.prems(2) [of n] True by simp
  next
    case False
    then show ?thesis using Suc by simp
  qed
qed simp

lemma honest_node_serves:
  assumes "distinct (map raw_hash ch)"
  shows "serves (honest_node ch) ch"
proof -
  have "filter (\<lambda>i. hex (rev (raw_hash (ch ! i))) = hex (rev (raw_hash (ch ! h)))) [0..<length ch] = [h]"
    if "h < length ch" for h
    using that assms by (intro filter_one) (auto simp: distinct_conv_nth dest!: hex_inject)
  then show ?thesis by (simp add: serves_def honest_node_def RAW_BLOCK_def Let_def)
qed

definition ex_deposit_wire :: wire_tx where
  "ex_deposit_wire = ex_wire\<lparr>w_locktime := 1\<rparr>"

definition ex_spend_wire :: wire_tx where
  "ex_spend_wire = \<lparr>w_version = 2,
     w_ins = [\<lparr>wi_txid = dsha256 (ser_stripped ex_deposit_wire), wi_vout = 0, wi_script = [], wi_sequence = 4294967295\<rparr>],
     w_outs = [\<lparr>wo_value = 4000, wo_spk = [0, 20]\<rparr>], w_witness = None, w_locktime = 0\<rparr>"

definition header_on :: "bytes \<Rightarrow> bytes" where
  "header_on prev = zeros 4 @ prev @ zeros 44"

definition ex_chain :: "raw_block list" where
  "ex_chain = [(zeros 80, [ex_wire]), (header_on (dsha256 (zeros 80)), [ex_deposit_wire]),
     (header_on (dsha256 (header_on (dsha256 (zeros 80)))), [ex_spend_wire])]"

lemma ex_chain_digests:
  "dsha256 (zeros 80) = block0_hash" "dsha256 (header_on block0_hash) = block1_hash"
  "dsha256 (header_on block1_hash) = block2_hash" "dsha256 (ser_stripped ex_deposit_wire) = deposit_txid"
  "dsha256 (ser_stripped ex_spend_wire) = spend_txid"
proof -
  show "dsha256 (zeros 80) = block0_hash" by (simp add: dsha256_def block0_digest)
  show "dsha256 (header_on block0_hash) = block1_hash" by (simp add: dsha256_def header_on_def block1_digest)
  show "dsha256 (header_on block1_hash) = block2_hash" by (simp add: dsha256_def header_on_def block2_digest)
  have "ser_stripped ex_deposit_wire =
      [2, 0, 0, 0, 1] @ replicate 32 7 @ [1, 0, 0, 0, 0, 255, 255, 255, 255, 1, 136, 19, 0, 0, 0, 0, 0, 0, 2, 0, 20, 1, 0, 0, 0]"
    by code_simp
  then show d: "dsha256 (ser_stripped ex_deposit_wire) = deposit_txid" by (simp only: dsha256_def deposit_digest)
  have "ser_stripped ex_spend_wire =
      [2, 0, 0, 0, 1] @ deposit_txid @ [0, 0, 0, 0, 0, 255, 255, 255, 255, 1, 160, 15, 0, 0, 0, 0, 0, 0, 2, 0, 20, 0, 0, 0, 0]"
    unfolding ex_spend_wire_def d by code_simp
  then show "dsha256 (ser_stripped ex_spend_wire) = spend_txid" by (simp only: dsha256_def spend_digest)
qed

lemma ex_chain_hashes:
  "raw_hash (ex_chain ! 0) = block0_hash" "raw_hash (ex_chain ! Suc 0) = block1_hash"
  "raw_hash (ex_chain ! 2) = block2_hash" "map raw_hash ex_chain = [block0_hash, block1_hash, block2_hash]"
  "length ex_chain = 3"
  by (simp_all add: ex_chain_def raw_hash_def ex_chain_digests)

lemma ex_chain_valid: "valid_chain ex_chain"
proof -
  have hdr: "length (header_on p) = 80" "slice 4 36 (header_on p) = p" if "length p = 32" for p
    using that by (simp_all add: header_on_def zeros_def slice_def)
  have wires: "wf_wire ex_wire" "wf_wire ex_deposit_wire" "wf_wire ex_spend_wire"
    "length (ser_tx ex_wire) = 62" "length (ser_tx ex_deposit_wire) = 62" "length (ser_tx ex_spend_wire) = 62"
    "w_outs ex_wire \<noteq> []" "w_outs ex_deposit_wire \<noteq> []" "w_outs ex_spend_wire \<noteq> []"
    using ex_wire_wf(1) ex_wire_length example_digests_length(3)
    by (simp_all add: ex_deposit_wire_def ex_spend_wire_def ex_wire_def wf_wire_def wf_wire_input_def dsha256_def
        ser_tx_def ser_stripped_def ser_ins_def ser_outs_def ser_input_def ser_output_def ser_bytes_def ser_varint_def)
  have "slice 4 36 (fst (ex_chain ! Suc 0)) = block0_hash" "slice 4 36 (fst (ex_chain ! 2)) = block1_hash"
    using hdr(2) example_digests_length by (simp_all add: ex_chain_def ex_chain_digests)
  then have "\<forall>h < 2. slice 4 36 (fst (ex_chain ! Suc h)) = raw_hash (ex_chain ! h)"
    using ex_chain_hashes(1,2) by (auto simp: numeral_2_eq_2 less_Suc_eq)
  then show ?thesis using wires hdr(1) example_digests_length
    by (simp add: valid_chain_def ex_chain_hashes(5))
       (simp add: ex_chain_def ex_chain_digests wf_wire_block_def ser_block_def ser_varint_def)
qed

text \<open>The transactions of the two last blocks.\<close>

definition ex_deposit_tx :: transaction where
  "ex_deposit_tx = \<lparr>tx_txid = deposit_txid, tx_inputs = [\<lparr>op_txid = replicate 32 7, op_vout = 1\<rparr>],
     tx_outputs = [\<lparr>out_vout = 0, out_spk = [0, 20]\<rparr>], tx_is_coinbase = False, tx_has_witness = False\<rparr>"

definition ex_spend_tx :: transaction where
  "ex_spend_tx = \<lparr>tx_txid = spend_txid, tx_inputs = [\<lparr>op_txid = deposit_txid, op_vout = 0\<rparr>],
     tx_outputs = [\<lparr>out_vout = 0, out_spk = [0, 20]\<rparr>], tx_is_coinbase = False, tx_has_witness = False\<rparr>"

lemma ex_chain_txs:
  "tx_of_wire ex_deposit_wire = ex_deposit_tx" "tx_of_wire ex_spend_wire = ex_spend_tx"
  unfolding tx_of_wire_def ex_chain_digests
  by (simp_all add: ex_deposit_tx_def ex_spend_tx_def ex_deposit_wire_def ex_wire_def
      ex_spend_wire_def input_of_def outputs_of_def is_coinbase_inputs_def COINBASE_VOUT_def Let_def)
     (simp_all add: ex_chain_digests(4) [unfolded ex_deposit_wire_def ex_wire_def, simplified])

lemma gap_proof_verdict_witness:
  "(\<exists>n'. proof_run (honest_node ex_chain) 1 () = (Inr 1, n'))
   \<and> find_spend_within (map raw_parsed (drop 1 ex_chain)) = Some ([0, 20], 0, 1)"
proof -
  have txs: "chain_txs ex_chain 0 2 = [ex_deposit_tx, ex_spend_tx]"
    by (simp add: chain_txs_def upt_rec ex_chain_def raw_parsed_def ex_chain_txs)
  have f: "find_spend_within (map raw_parsed (drop 1 ex_chain)) = Some ([0, 20], 0, 1)"
    by (simp add: find_spend_within_def ex_chain_def raw_parsed_def ex_chain_txs ex_deposit_tx_def ex_spend_tx_def)
  have "(1, op_key proof_key spend_txid 0) \<in> coins_left ex_chain [0, 20] 0 2"
    by (simp add: coins_left_def txs confirm_tx_def ex_spend_tx_def proof_watch_def)
  then have left: "coins_left ex_chain [0, 20] 0 2 \<noteq> {}" by blast
  have "serves (honest_node ex_chain) ex_chain"
    using example_digests_differ by (intro honest_node_serves) (simp add: ex_chain_hashes not_sym)
  moreover have "\<forall>n. \<exists>n'. honest_node ex_chain ''getblockcount'' [] n = (Inr (JInt (int (length ex_chain) - 1)), n')"
    by (simp add: honest_node_def)
  moreover have "apart ex_chain 0 2" using example_digests_differ by (simp add: apart_def ex_chain_hashes)
  moreover have "distinct (map tx_txid (chain_txs ex_chain 0 2))"
    using example_digests_differ(4) by (simp add: txs ex_deposit_tx_def ex_spend_tx_def)
  ultimately show ?thesis
    using gap_proof_verdict [OF ex_chain_valid, of "honest_node ex_chain" 1 "[0, 20]" 0 1 "()"] f left
    by (simp add: ex_chain_hashes)
qed

end
