(* ===== verification/Mutation_Table.thy ===== *)
theory Mutation_Table
  imports Sweep
begin

text \<open>
  \<open>MUTATIONS\<close> of \<open>tools/mutate.py\<close>: what the sweep breaks, in its order. A text of several lines
  is the list of its lines. The lemmas show that no entry replaces a text by itself, that each
  one expected to survive says why, and that so no entry can end a sweep for changing nothing.
\<close>

fun text_of :: "string list \<Rightarrow> py_str" where
  "text_of [] = []"
| "text_of [l] = lit l"
| "text_of (l # ls) = lit l @ 10 # text_of ls"

text \<open>An entry with the defaults of the class.\<close>

definition mut :: "py_str \<Rightarrow> py_str \<Rightarrow> py_str \<Rightarrow> py_str \<Rightarrow> mutation" where
  "mut module describes old new = \<lparr>mu_module = module, mu_describes = describes, mu_old = old, mu_new = new,
     mu_survives = False, mu_why = []\<rparr>"

section \<open>The table\<close>

definition INPUTS_LOOP :: py_str where
  "INPUTS_LOOP = (text_of [''        for op in tx.inputs:  # empty for a coinbase: it spends nothing'',
       ''            op_h = outpoint_hmac(self._k, op.txid, op.vout)'',
       ''            # The record first, then the mempool-only coins. A spend of a deposit that has not'',
       ''            # confirmed yet is still a spend, and it is the case the record cannot cover.'',
       ''            for item_id in ('',
       ''                *self._index.items_owning_outpoint(op_h),'',
       ''                *self.provisional.items(op_h),'',
       ''            ):'',
       ''                if item_id not in outgoing:'',
       ''                    outgoing.append(item_id)'',
       []])"

definition OUTPUTS_LOOP :: py_str where
  "OUTPUTS_LOOP = (text_of [''        for out in tx.outputs:'',
       ''            spk_h = spk_hmac(self._k, out.spk)'',
       ''            for item_id in self._index.items_watching_spk(spk_h):'',
       ''                if item_id not in incoming:'',
       ''                    incoming.append(item_id)'',
       []])"

definition MUTATIONS_PARSING :: "mutation list" where
  "MUTATIONS_PARSING = [
    mut (lit ''match/sequence.py'')
      (lit ''a gap is one message larger than it is'')
      (lit ''            missing = delta - 1'')
      (lit ''            missing = delta''),
    mut (lit ''match/sequence.py'')
      (lit ''reconciliation is no longer needed once one clean message arrives'')
      (text_of [''        if delta == 1:'',
       ''            return None''])
      (text_of [''        if delta == 1:'',
       ''            self._needs_reconciliation = False'',
       ''            return None'']),
    mut (lit ''match/sequence.py'')
      (lit ''a counter wrap is a gap of four billion messages'')
      (lit ''        elif last >= UINT32 - WRAP_MARGIN and seq < WRAP_MARGIN:'')
      (lit ''        elif False:''),
    mut (lit ''match/sequence.py'')
      (lit ''the first message on a topic implies everything before it was lost'')
      (text_of [''        if last is None:'',
       ''            return None''])
      (text_of [''        if last is None:'',
       ''            last = 0'']),
    mut (lit ''match/sequence.py'')
      (lit ''a duplicated message counts as a lost one'')
      (text_of [''        if delta == 0:'',
       ''            state.duplicates += 1''])
      (text_of [''        if delta == 0:'',
       ''            state.missing_total += 1'',
       ''            state.duplicates += 1'']),
    mut (lit ''match/sequence.py'')
      (lit ''a publisher restart needs no reconciliation'')
      (text_of [''            state.restarts += 1'',
       ''            self._needs_reconciliation = True''])
      (lit ''            state.restarts += 1''),
    mut (lit ''match/sequence.py'')
      (lit ''every topic shares one sequence counter'')
      (lit ''        state = self._topics[topic]'')
      (lit ''        state = self._topics[\"shared\"]''),
    mut (lit ''match/tx.py'')
      (lit ''a txid is the hash of the raw bytes, witness included'')
      (text_of [''    preimage = ('',
       ''        raw[start:end]'',
       ''        if not has_witness'',
       ''        else raw[start : start + 4] + raw[start + 6 : witness_start] + raw[locktime_start:end]'',
       ''    )'',
       []])
      (text_of [''    preimage = raw[start:end]'',
       []]),
    mut (lit ''match/tx.py'')
      (lit ''a coinbase input is a spend like any other'')
      (lit ''        inputs=() if is_coinbase else tuple(inputs),'')
      (lit ''        inputs=tuple(inputs),''),
    mut (lit ''match/tx.py'')
      (lit ''every output believes it is at index zero'')
      (lit ''    for vout in range(n_out):'')
      (lit ''    for vout in [0] * n_out:''),
    mut (lit ''match/tx.py'')
      (lit ''bytes left over after the last field are fine'')
      (text_of [''    if end != len(raw):'',
       ''        raise MalformedTransaction(\"trailing bytes after transaction\")''])
      (lit ''    pass''),
    mut (lit ''match/tx.py'')
      (lit ''a transaction ends where the last one did, so a block reads the same one forever'')
      (text_of [''    locktime_start = r.pos'',
       ''    r.uint32()  # locktime'',
       ''    end = r.pos''])
      (text_of [''    locktime_start = r.pos'',
       ''    r.uint32()  # locktime'',
       ''    end = start'']),
    mut (lit ''match/block.py'')
      (lit ''a block whose transactions do not fill it is parsed anyway, partially'')
      (text_of [''    if pos != len(raw):'',
       ''        # Trailing bytes mean the count was wrong or a transaction was misparsed, and either'',
       ''        # way the transactions we just read are not trustworthy as a set.'',
       ''        raise MalformedBlock(\"trailing bytes after the last transaction\")''])
      (lit ''    pass''),
    mut (lit ''match/block.py'')
      (lit ''a block claiming zero transactions is a block'')
      (lit ''    if count == 0:'')
      (lit ''    if False:''),
    mut (lit ''match/block.py'')
      (lit ''the parent hash is read from the wrong header field'')
      (lit ''    prev_hash = header[4:36]'')
      (lit ''    prev_hash = header[36:68]''),
    mut (lit ''match/block.py'')
      (lit ''a transaction that will not parse is skipped, leaving the rest of the block'')
      (text_of [''        except MalformedTransaction as exc:'',
       ''            raise MalformedBlock(f\"transaction {len(transactions)}: {exc}\") from None''])
      (text_of [''        except MalformedTransaction:'',
       ''            break''])]"

definition MUTATIONS_MATCHING :: "mutation list" where
  "MUTATIONS_MATCHING = [
    mut (lit ''match/stream.py'')
      (lit ''the mempool writes the record, so an unconfirmed receipt looks confirmed'')
      (text_of [''        matches = self.matcher.match(tx)'',
       ''        # Arm what it pays to a watched script, in memory. Without this, a deposit spent again'',
       ''        # before it confirms would never be armed at all and the spend would alarm nobody.'',
       ''        self.matcher.note_unconfirmed(tx)''])
      (text_of [''        matches = self.matcher.match(tx)'',
       ''        self.matcher.apply(tx)'']),
    mut (lit ''match/stream.py'')
      (lit ''a deposit spent before it confirms is never armed, so the spend alarms nobody'')
      (lit ''        self.matcher.note_unconfirmed(tx)'')
      (lit ''        pass''),
    mut (lit ''match/stream.py'')
      (lit ''a block that will not parse is counted and forgotten'')
      (lit ''            self.tracker.flag_for_reconciliation()'')
      (lit ''            pass''),
    mut (lit ''match/stream.py'')
      (lit ''a confirmation re-alerts what the mempool already announced'')
      (text_of [''            if self.seen.add(tx.txid):'',
       ''                alerts.extend(matches)'',
       ''            else:'',
       ''                self.suppressed += 1''])
      (lit ''            alerts.extend(matches)''),
    mut (lit ''match/stream.py'')
      (lit ''a block is applied to the record without being matched first, tx by tx'')
      (text_of [''        for tx in block.transactions:'',
       ''            matches = self.matcher.match(tx)'',
       ''            self.matcher.apply(tx)''])
      (text_of [''        for tx in block.transactions:'',
       ''            self.matcher.apply(tx)'',
       ''            matches = self.matcher.match(tx)'']),
    mut (lit ''match/matcher.py'')
      (lit ''the record keeps a duplicate of a coin the mempool armed, after it confirms'')
      (lit ''        self.provisional.forget(tx.txid)'')
      (lit ''        pass''),
    mut (lit ''match/matcher.py'')
      (lit ''a provisional coin is forgotten by the wrong key, so nothing is ever released'')
      (lit ''        self._drop(self._by_txid.pop(txid, ()))'')
      (lit ''        self._drop(self._by_txid.get(txid, ()))''),
    mut (lit ''match/keys.py'')
      (lit ''scriptPubKeys and outpoints are hashed in the same domain'')
      (lit (''    return hmac.new(key, tag + b\"'' @ [CHR 0x5C] @ ''x00\" + payload, hashlib.sha256).digest()''))
      (lit ''    return hmac.new(key, payload, hashlib.sha256).digest()''),
    mut (lit ''match/keys.py'')
      (lit ''an outpoint uses the display byte order'')
      (lit ''    return txid + struct.pack(\"<I\", vout)'')
      (lit ''    return txid[::-1] + struct.pack(\"<I\", vout)''),
    mut (lit ''match/keys.py'')
      (lit ''a coin is identified by its txid alone, ignoring which output it is'')
      (lit ''    return _tagged(k_match, TAG_OUTPOINT, canonical_outpoint(txid, vout))'')
      (lit ''    return _tagged(k_match, TAG_OUTPOINT, txid)''),
    mut (lit ''match/keys.py'')
      (lit ''both subkeys derive from the same info string'')
      (lit ''        store=hkdf(master, INFO_STORE),'')
      (lit ''        store=hkdf(master, INFO_MATCH),''),
    mut (lit ''match/keys.py'')
      (lit ''a master secret of any length is acceptable'')
      (lit ''    if len(master) < MIN_MASTER_BYTES:'')
      (lit ''    if False:''),
    mut (lit ''match/matcher.py'')
      (lit ''a coin arriving at a watched script is not tracked'')
      (lit ''                self._index.add_outpoint(item_id, new_op)'')
      (lit ''                pass''),
    mut (lit ''match/matcher.py'')
      (lit ''a spent coin stays in the live set forever'')
      (lit ''                self._index.drop_outpoint(item_id, op_h)'')
      (lit ''                pass''),
    mut (lit ''match/matcher.py'')
      (lit ''one item is reported once per matching output rather than once'')
      (text_of [''                if item_id not in incoming:'',
       ''                    incoming.append(item_id)''])
      (lit ''                incoming.append(item_id)''),
    mut (lit ''match/matcher.py'')
      (lit ''informational matches are reported ahead of alarms'')
      (text_of [''            [Match(i, Direction.OUTGOING) for i in outgoing]'',
       ''            + [Match(i, Direction.INCOMING) for i in incoming]''])
      (text_of [''            [Match(i, Direction.INCOMING) for i in incoming]'',
       ''            + [Match(i, Direction.OUTGOING) for i in outgoing]'']),
    mut (lit ''match/stream.py'')
      (lit ''one unparseable message takes the whole loop down'')
      (text_of [''        except MalformedTransaction:'',
       ''            self.malformed += 1'',
       ''            return ()''])
      (text_of [''        except MalformedTransaction:'',
       ''            raise'']),
    mut (lit ''match/stream.py'')
      (lit ''topics we do not decode have their sequence numbers ignored'')
      (lit ''        anomaly = self.tracker.observe(message.topic, message.seq)'')
      (text_of [''        anomaly = (self.tracker.observe(message.topic, message.seq)'',
       ''                   if message.topic == TOPIC_TX else None)'']),
    mut (lit ''match/stream.py'')
      (lit ''anomalies are counted but never announced to the caller'')
      (lit ''        if anomaly is not None and self._on_anomaly is not None:'')
      (lit ''        if False:'')]"

definition MUTATIONS_NODE :: "mutation list" where
  "MUTATIONS_NODE = [
    mut (lit ''node/rpc.py'')
      (lit (''an rpc error stringifies to the node'' @ [CHR 0x27] @ ''s message, descriptor and all''))
      (text_of [''        # Deliberately not the node'' @ [CHR 0x27] @ ''s message: this string lands in logs and tracebacks.'',
       ''        return f\"rpc error {self.code}\"''])
      (lit ''        return self.message''),
    mut (lit ''node/rpc.py'')
      (lit ''repr includes the credentials'')
      (lit ''        return f\"{type(self).__name__}({self._host}:{self._port})\"'')
      (lit ''        return f\"{type(self).__name__}({self._host}:{self._port} {self._auth})\"''),
    mut (lit ''node/rpc.py'')
      (lit ''an error body is ignored, so a rejected call looks successful'')
      (lit ''        error = payload.get(\"error\")'')
      (lit ''        error = None''),
    mut (lit ''node/supervisor.py'')
      (lit ''a scan left running by a dead process is not aborted at startup'')
      (text_of [''        if self._abort_scan():'',
       ''            self.orphans_aborted += 1''])
      (text_of [''        if False:'',
       ''            self.orphans_aborted += 1'']),
    mut (lit ''node/supervisor.py'')
      (lit ''shutdown walks away from the scan in flight'')
      (lit ''        if self._scan_in_flight.is_set():'')
      (lit ''        if False:''),
    mut (lit ''node/supervisor.py'')
      (lit ''the queue is unbounded, so enrolment promises a wait nobody is told about'')
      (lit ''queue.Queue(maxsize=queue_maxsize)'')
      (lit ''queue.Queue()''),
    mut (lit ''node/supervisor.py'')
      (lit ''queued requests are abandoned rather than failed on shutdown'')
      (lit ''        self._drain_queue(ScanFailed(\"supervisor shut down\"))'')
      (lit ''        pass''),
    mut (lit ''node/supervisor.py'')
      (lit ''a batch grows past its cap'')
      (text_of [''        while len(batch) < self.batch_max:'',
       ''            try:'',
       ''                item = self._queue.get_nowait()''])
      (text_of [''        while True:'',
       ''            try:'',
       ''                item = self._queue.get_nowait()'']),
    mut (lit ''node/supervisor.py'')
      (lit ''one descriptor per request, so a shared script is scanned twice'')
      (lit ''        descriptors = [f\"raw({spk.hex()})\" for spk in by_spk]'')
      (lit ''        descriptors = [f\"raw({r.spk.hex()})\" for r in live]''),
    mut (lit ''node/supervisor.py'')
      (lit ''every request in a batch receives every coin the batch found'')
      (text_of [''        for spk, requests in by_spk.items():'',
       ''            outcome = tuple(found[spk])'',
       ''            for request in requests:'',
       ''                request.future.set_result(outcome)''])
      (text_of [''        everything = tuple(u for coins in found.values() for u in coins)'',
       ''        for requests in by_spk.values():'',
       ''            for request in requests:'',
       ''                request.future.set_result(everything)'']),
    mut (lit ''node/supervisor.py'')
      (lit ''scan results keep the display byte order the RPC hands back'')
      (lit ''                    txid=bytes.fromhex(entry[\"txid\"])[::-1],  # RPC gives display order'')
      (lit ''                    txid=bytes.fromhex(entry[\"txid\"]),''),
    mut (lit ''node/supervisor.py'')
      (lit (''a scan failure carries the node'' @ [CHR 0x27] @ ''s message, and the descriptor in it''))
      (lit ''            self._fail(live, ScanFailed(\"node rejected the scan\", exc.code))'')
      (lit ''            self._fail(live, ScanFailed(exc.message, exc.code))''),
    mut (lit ''node/supervisor.py'')
      (lit ''a malformed result entry is skipped, leaving a short baseline that looks real'')
      (text_of [''            except (KeyError, ValueError, TypeError):'',
       ''                self._fail(live, ScanFailed(\"scan result was malformed\"))'',
       ''                return''])
      (text_of [''            except (KeyError, ValueError, TypeError):'',
       ''                continue'']),
    mut (lit ''node/supervisor.py'')
      (lit ''an unsuccessful scan is read as an empty baseline'')
      (lit ''        if not isinstance(result, dict) or not result.get(\"success\"):'')
      (lit ''        if False:'')]"

definition MUTATIONS_RECONCILE :: "mutation list" where
  "MUTATIONS_RECONCILE = [
    mut (lit ''reconcile.py'')
      (lit ''the height of every block is asked of the node instead of counted locally'')
      (lit ''            yield from self._advance(block, self.tip.height + 1)'')
      (lit ''            yield from self._advance(block, self._height_of(block))''),
    mut (lit ''reconcile.py'')
      (lit (''the follower uses getblockheader, which the node'' @ [CHR 0x27] @ ''s whitelist forbids''))
      (lit ''            described = self._rpc.call(\"getblock\", block_hash[::-1].hex(), 1)'')
      (lit ''            described = self._rpc.call(\"getblockheader\", block_hash[::-1].hex())''),
    mut (lit ''reconcile.py'')
      (lit ''a block that does not follow the tip is applied anyway, gap and all'')
      (lit ''        if block.prev_hash == self.tip.hash:'')
      (lit ''        if True:''),
    mut (lit ''reconcile.py'')
      (lit ''catch-up fetches the gap but stops one block short of the tip'')
      (lit ''        for height in range(self.tip.height + 1, target):'')
      (lit ''        for height in range(self.tip.height + 1, target - 1):''),
    mut (lit ''reconcile.py'')
      (lit ''fetched blocks are applied newest first'')
      (lit ''            blocks.append(fetched)'')
      (lit ''            blocks.insert(0, fetched)''),
    mut (lit ''reconcile.py'')
      (lit ''a reorged-out tip is treated as an ordinary gap and chained through'')
      (text_of [''        if not self._on_active_chain(self.tip.hash):'',
       ''            raise ReorgDetected(\"the last applied block is no longer on the active chain\")''])
      (lit ''        pass''),
    mut (lit ''reconcile.py'')
      (lit ''fetched blocks are trusted by height without chaining them together'')
      (lit ''            if fetched.prev_hash != expected_parent:'')
      (lit ''            if False:''),
    mut (lit ''reconcile.py'')
      (lit ''a competing block one above the tip is applied as though it followed'')
      (text_of [''        parent = blocks[-1].block_hash if blocks else self.tip.hash'',
       ''        if block.prev_hash != parent:''])
      (text_of [''        parent = blocks[-1].block_hash if blocks else self.tip.hash'',
       ''        if blocks and block.prev_hash != parent:'']),
    mut (lit ''reconcile.py'')
      (lit ''a block already applied is applied a second time'')
      (lit ''        if self._already_applied(block):'')
      (lit ''        if False:''),
    (mut (lit ''reconcile.py'')
      (lit ''the tip advances to a block before it has been applied'')
      (text_of [''    def _advance(self, block: Block, height: int) -> Iterator[Block]:'',
       ''        yield block'',
       ''        self.tip = ChainTip(hash=block.block_hash, height=height)''])
      (text_of [''    def _advance(self, block: Block, height: int) -> Iterator[Block]:'',
       ''        self.tip = ChainTip(hash=block.block_hash, height=height)'',
       ''        yield block'']))
      \<lparr>mu_survives := True, mu_why := (lit ''The generator is consumed by a `for` loop that applies each block as it is yielded, so the tip assignment happens after the caller has applied the previous block either way -- the reordering only moves it within the same suspension point. It would matter if a caller collected the generator into a list before applying anything, which is exactly why blocks_to_apply is a generator and is documented as one. A test could only catch this by asserting on tip state from inside a partially-consumed iteration, which asserts on the mechanism rather than on any behaviour a caller can observe.'')\<rparr>,
    mut (lit ''match/stream.py'')
      (lit ''a failed catch-up leaves the record behind with the flag cleared'')
      (text_of [''            self.tracker.flag_for_reconciliation()'',
       ''            self.catch_up_failures += 1'',
       ''            raise''])
      (text_of [''            self.tracker.reconciled()'',
       ''            self.catch_up_failures += 1'',
       ''            raise'']),
    (mut (lit ''match/stream.py'')
      (lit ''the reconciliation flag is cleared on the attempt rather than the result'')
      (text_of [''        try:'',
       ''            for due in self._expand(block):'',
       ''                alerts.extend(self._apply_block(due))''])
      (text_of [''        try:'',
       ''            self.tracker.reconciled()'',
       ''            for due in self._expand(block):'',
       ''                alerts.extend(self._apply_block(due))'']))
      \<lparr>mu_survives := True, mu_why := (lit ''Equivalent, and worth recording because it looks like it should not be. Clearing the flag before the work still leaves every exit in the same state: the success path clears it again in the `else` branch, and the failure path re-raises it in `except`. Nothing reads the flag in between -- applying a block touches the matcher and the seen-set, never the tracker -- so no caller can observe the window. It becomes a real bug the moment anything inside the loop consults the flag, or the `except` narrows to a type that lets some failure through, which is why the ordering in the source is the safe one regardless.'')\<rparr>]"

definition MUTATIONS_CHANNELS :: "mutation list" where
  "MUTATIONS_CHANNELS = [
    mut (lit ''subscribe.py'')
      (lit ''one socket for both topics, so a 1.7 MB block queues in front of the stream'')
      (lit ''        socket.setsockopt(zmq.SUBSCRIBE, topic)'')
      (lit ''        socket.setsockopt(zmq.SUBSCRIBE, b\"\")''),
    mut (lit ''subscribe.py'')
      (lit ''the receive buffer is left at the ZMQ default the loss was measured under'')
      (lit ''        socket.setsockopt(zmq.RCVHWM, rcvhwm)'')
      (lit ''        socket.setsockopt(zmq.RCVHWM, 1000)''),
    mut (lit ''subscribe.py'')
      (lit ''transactions are drained before the blocks that arm the coins they spend'')
      (lit ''        for socket in (self._block, self._tx):'')
      (lit ''        for socket in (self._tx, self._block):''),
    mut (lit ''subscribe.py'')
      (lit ''the sequence counter is read from the payload part'')
      (lit ''        topic, body, seq = parts'')
      (lit ''        topic, seq, body = parts''),
    mut (lit ''subscribe.py'')
      (lit ''an envelope with no counter is passed on as though it could be checked'')
      (text_of [''        if len(parts) != TOPIC_PARTS:'',
       ''            self.malformed_envelopes += 1'',
       ''            return None''])
      (text_of [''        if len(parts) != TOPIC_PARTS:'',
       ''            parts = [*parts, b\"'' @ [CHR 0x5C] @ ''x00\" * 4][:3]'']),
    (mut (lit ''match/matcher.py'')
      (lit ''outputs are matched before inputs'')
      (INPUTS_LOOP @ [10] @ OUTPUTS_LOOP)
      (OUTPUTS_LOOP @ [10] @ INPUTS_LOOP))
      \<lparr>mu_survives := True, mu_why := ((lit (''The two loops touch disjoint outpoints. An input references some earlier transaction; an output is keyed by this transaction'' @ [CHR 0x27] @ ''s txid; and no transaction can spend an output it is itself creating. So the drops and the adds cannot interact and the loop order does not affect the UTXO set. The order that *is* observable is the order matches are reported, and that is fixed by the return statement '')) @ [8212] @ (lit ('' which the '' @ [CHR 0x27] @ ''informational matches ahead of alarms'' @ [CHR 0x27] @ '' mutation above does cover.'')))\<rparr>,
    mut (lit ''channels/email.py'')
      (lit ''the subject line varies with the alert, becoming a side channel'')
      (lit ''        message[\"Subject\"] = SUBJECT'')
      (lit ''        message[\"Subject\"] = SUBJECT if alert.kind is not AlertKind.MOVEMENT else f\"{SUBJECT}: {alert.kind.value}\"''),
    mut (lit ''channels/email.py'')
      (lit ''a permanent SMTP failure (5xx) is retried as though it were transient'')
      (lit ''            retriable = exc.smtp_code < 500'')
      (lit ''            retriable = True''),
    mut (lit ''channels/email.py'')
      (lit ''a malformed SMTP reply (code -1) is treated as a permanent failure'')
      (lit ''            retriable = exc.smtp_code < 500'')
      (lit ''            retriable = 400 <= exc.smtp_code < 500''),
    mut (lit ''channels/email.py'')
      (lit ''a server that refuses every AUTH mechanism is retried forever'')
      (text_of [''        except smtplib.SMTPNotSupportedError as exc:'',
       ''            # Raised by login() when the server offers none of the AUTH mechanisms it knows.'',
       ''            # That is a permanent configuration mismatch, not a subclass of'',
       ''            # SMTPResponseException, and retrying cannot make the server support AUTH.'',
       ''            return DeliveryResult(ok=False, retriable=False, detail=type(exc).__name__)'',
       []])
      [],
    mut (lit ''channels/email.py'')
      (lit ''the destination leaks into the log-facing detail on a recipient refusal'')
      (lit ''            return DeliveryResult(ok=False, retriable=False, detail=\"recipient refused\")'')
      (lit ''            return DeliveryResult(ok=False, retriable=False, detail=f\"recipient refused: {dest}\")''),
    mut (lit ''channels/email.py'')
      (lit ''validate_dest stores whatever case the user typed instead of a canonical form'')
      (lit ''        return candidate.lower()'')
      (lit ''        return candidate''),
    mut (lit ''channels/email.py'')
      (lit ''a movement with no direction renders as a reassuring deposit notice'')
      (lit ''        if alert.direction is Direction.INCOMING:'')
      (lit ''        if alert.direction is not Direction.OUTGOING:''),
    mut (lit ''channels/nostr/channel.py'')
      (lit ''a relay reply that is bytes rather than text escapes send() as an exception'')
      (text_of [''                    frame = json.loads(conn.recv())'',
       ''                except ValueError:''])
      (text_of [''                    frame = json.loads(conn.recv())'',
       ''                except json.JSONDecodeError:'']),
    mut (lit ''channels/nostr/channel.py'')
      (lit (''a relay URL that isn'' @ [CHR 0x27] @ ''t a URL is accepted at construction and throws at 3am''))
      (text_of [''                raise ValueError(f\"relay must be wss://: {relay!r}\")'',
       ''            _check_relay_url(relay)''])
      (lit ''                raise ValueError(f\"relay must be wss://: {relay!r}\")'')]"

definition MUTATIONS_CRYPTO :: "mutation list" where
  "MUTATIONS_CRYPTO = [
    mut (lit ''crypto/poly1305.py'')
      (lit ''r is used unclamped'')
      (lit ''    r = int.from_bytes(key[:16], \"little\") & _R_CLAMP'')
      (lit ''    r = int.from_bytes(key[:16], \"little\")''),
    mut (lit ''crypto/poly1305.py'')
      (lit ''the accumulator wraps at 2^130 instead of 2^130 - 5'')
      (lit ''_P = (1 << 130) - 5'')
      (lit ''_P = 1 << 130''),
    mut (lit ''crypto/poly1305.py'')
      (lit ''a short final block is padded with zeros rather than terminated with a 1 bit'')
      (lit ''        n = int.from_bytes(chunk, \"little\") | (1 << (8 * len(chunk)))'')
      (lit ''        n = int.from_bytes(chunk, \"little\") | (1 << 128)''),
    mut (lit ''crypto/aead.py'')
      (lit ''the tag does not cover the associated data'')
      (text_of [''        aad + _pad16(aad)'',
       ''        + ciphertext + _pad16(ciphertext)''])
      (lit ''        ciphertext + _pad16(ciphertext)''),
    mut (lit ''crypto/aead.py'')
      (lit ''the Poly1305 key shares keystream with the plaintext'')
      (lit ''    ciphertext = chacha20_xor(key, nonce, plaintext, counter=1)'')
      (lit ''    ciphertext = chacha20_xor(key, nonce, plaintext, counter=0)''),
    mut (lit ''crypto/aead.py'')
      (lit ''every seal uses the same nonce'')
      (lit ''    return _seal_with_nonce(key, secrets.token_bytes(NONCE_LEN), plaintext, aad)'')
      (lit ''    return _seal_with_nonce(key, bytes(NONCE_LEN), plaintext, aad)''),
    mut (lit ''crypto/aead.py'')
      (lit ''open() decrypts whatever it is handed and never checks the tag'')
      (lit ''    if not hmac.compare_digest(_tag(otk, aad, ciphertext), tag):'')
      (lit ''    if False:'')]"

definition MUTATIONS_STORE :: "mutation list" where
  "MUTATIONS_STORE = [
    mut (lit ''storage/store.py'')
      (lit ''the capability token itself is the lookup key, so the file holds it'')
      (text_of [''                \"INSERT INTO watch (token_hash, created_at) VALUES (?, ?)\",'',
       ''                (hashlib.sha256(token).digest(), self._today()),''])
      (text_of [''                \"INSERT INTO watch (token_hash, created_at) VALUES (?, ?)\",'',
       ''                (token, self._today()),'']),
    mut (lit ''storage/store.py'')
      (lit ''the script is stored in the clear'')
      (lit ''                    seal(self._keys.store, spk, _aad(_AAD_SPK, watch_id)),'')
      (lit ''                    spk,''),
    mut (lit ''storage/store.py'')
      (lit ''every ciphertext column is sealed under the same associated data'')
      (lit ''    return purpose + struct.pack(\"<Q\", watch_id)'')
      (lit ''    return b\"\"''),
    mut (lit ''storage/store.py'')
      (lit ''an item is activatable with no proven channel'')
      (lit ''            if row[0] != ItemStatus.ARMED.value or not row[1]:'')
      (lit ''            if row[0] != ItemStatus.ARMED.value:''),
    mut (lit ''storage/store.py'')
      (lit ''a second baseline silently overwrites the record blocks have been keeping'')
      (text_of [''                \"UPDATE watch_item SET status = ? WHERE id = ? AND status = ?\",'',
       ''                (ItemStatus.ARMED.value, item_id, ItemStatus.ARMING.value),''])
      (text_of [''                \"UPDATE watch_item SET status = ? WHERE id = ?\",'',
       ''                (ItemStatus.ARMED.value, item_id),'']),
    mut (lit ''storage/store.py'')
      (lit ''an arming item is already visible to the loop, so it alerts before the test-fire'')
      (lit ''_TRACKED = tuple(s.value for s in (ItemStatus.ARMED, ItemStatus.ACTIVE, ItemStatus.PAUSED))'')
      (lit ''_TRACKED = tuple(s.value for s in ItemStatus)''),
    mut (lit ''storage/store.py'')
      (lit ''a paused item drops out of the loop, so its record rots while paused'')
      (lit ''_TRACKED = tuple(s.value for s in (ItemStatus.ARMED, ItemStatus.ACTIVE, ItemStatus.PAUSED))'')
      (lit ''_TRACKED = tuple(s.value for s in (ItemStatus.ARMED, ItemStatus.ACTIVE))''),
    mut (lit ''storage/store.py'')
      (lit ''a stopped item keeps its coins, so a later spend of them still alarms'')
      (text_of [''            self._db.execute(\"DELETE FROM utxo WHERE item_id = ?\", (item_id,))'',
       []])
      [],
    mut (lit ''storage/store.py'')
      (lit ''secure_delete is off, so a purged row stays readable in a free page'')
      (lit ''        self._db.execute(\"PRAGMA secure_delete=ON\")'')
      (lit ''        self._db.execute(\"PRAGMA secure_delete=OFF\")''),
    mut (lit ''storage/store.py'')
      (lit (''a route may join an item to another tenant'' @ [CHR 0x27] @ ''s channel''))
      (text_of [''            if not owner[0]:'',
       ''                raise ValueError(\"item and channel belong to different watches\")'',
       []])
      [],
    mut (lit ''storage/store.py'')
      (lit ''a coin is recorded for an item regardless of whether it still exists or is tracked'')
      (text_of [''                \" SELECT ?, ? WHERE EXISTS (SELECT 1 FROM watch_item WHERE id = ? AND status IN \"'',
       ''                f\"({'' @ [CHR 0x27] @ '','' @ [CHR 0x27] @ ''.join('' @ [CHR 0x27] @ ''?'' @ [CHR 0x27] @ '' * len(_TRACKED))}))\",'',
       ''                (item_id, outpoint_hmac_, item_id, *_TRACKED),''])
      (text_of [''                \" VALUES (?, ?)\",'',
       ''                (item_id, outpoint_hmac_),''])]"

definition MUTATIONS_PURGE :: "mutation list" where
  "MUTATIONS_PURGE = [
    mut (lit ''storage/store.py'')
      (lit ''the scrub does not run VACUUM (what VACUUM cleans stays untested)'')
      (text_of [''            self._db.execute(\"VACUUM\")'',
       []])
      [],
    mut (lit ''storage/store.py'')
      (lit (''purge leaves the WAL as it is, so the tenant'' @ [CHR 0x27] @ ''s old pages stay in it''))
      (text_of [''            busy = self._db.execute(\"PRAGMA wal_checkpoint(TRUNCATE)\").fetchone()[0]'',
       ''        except''])
      (text_of [''            busy = 0'',
       ''        except'']),
    mut (lit ''storage/store.py'')
      (lit ''purge reports done although a reader kept the WAL from being truncated'')
      (text_of [''        if busy:'',
       ''            raise PurgeIncomplete(watch_id)''])
      (text_of [''        if False:'',
       ''            raise PurgeIncomplete(watch_id)'']),
    mut (lit ''storage/store.py'')
      (lit (''a blocked purge waits out the busy handler with the store'' @ [CHR 0x27] @ ''s lock held''))
      (text_of [''            self._db.execute(\"PRAGMA busy_timeout=0\")'',
       []])
      [],
    mut (lit ''storage/store.py'')
      (lit ''finish_purge returns without checkpointing, so a blocked purge never completes'')
      (text_of [''        with self._lock:'',
       ''            self._scrub(None)''])
      (text_of [''        with self._lock:'',
       ''            pass'']),
    mut (lit ''storage/store.py'')
      (lit ''a VACUUM that fails after the delete escapes as a raw database error'')
      (text_of [''            raise PurgeIncomplete(watch_id) from e'',
       []])
      (text_of [''            raise'',
       []]),
    mut (lit ''storage/store.py'')
      (lit ''a scrub error no retry can fix is reported as retryable PurgeIncomplete'')
      (text_of [''            if code not in (sqlite3.SQLITE_BUSY, sqlite3.SQLITE_LOCKED):'',
       ''                raise'',
       []])
      [],
    mut (lit ''storage/schema.py'')
      (lit (''a delivered outbox row'' @ [CHR 0x27] @ ''s id is reissued to the next delivery''))
      (text_of [''CREATE TABLE IF NOT EXISTS outbox ('',
       ''  id            INTEGER PRIMARY KEY AUTOINCREMENT,''])
      (text_of [''CREATE TABLE IF NOT EXISTS outbox ('',
       ''  id            INTEGER PRIMARY KEY,'']),
    mut (lit ''storage/schema.py'')
      (lit (''a purged tenant'' @ [CHR 0x27] @ ''s watch id is reused by the next tenant''))
      (text_of [''CREATE TABLE IF NOT EXISTS watch ('',
       ''  id            INTEGER PRIMARY KEY AUTOINCREMENT,''])
      (text_of [''CREATE TABLE IF NOT EXISTS watch ('',
       ''  id            INTEGER PRIMARY KEY,'']),
    mut (lit ''storage/schema.py'')
      (lit (''a purged tenant'' @ [CHR 0x27] @ ''s item id is reused by the next tenant''))
      (text_of [''CREATE TABLE IF NOT EXISTS watch_item ('',
       ''  id            INTEGER PRIMARY KEY AUTOINCREMENT,''])
      (text_of [''CREATE TABLE IF NOT EXISTS watch_item ('',
       ''  id            INTEGER PRIMARY KEY,'']),
    mut (lit ''storage/schema.py'')
      (lit (''a purged tenant'' @ [CHR 0x27] @ ''s channel id is reused by the next tenant''))
      (text_of [''CREATE TABLE IF NOT EXISTS channel ('',
       ''  id            INTEGER PRIMARY KEY AUTOINCREMENT,''])
      (text_of [''CREATE TABLE IF NOT EXISTS channel ('',
       ''  id            INTEGER PRIMARY KEY,'']),
    mut (lit ''storage/store.py'')
      (lit ''timestamps are written at second precision'')
      (lit ''    return int(time.time() // 86400)'')
      (lit ''    return int(time.time())'')]"

definition MUTATIONS :: "mutation list" where
  "MUTATIONS = MUTATIONS_PARSING @ MUTATIONS_MATCHING @ MUTATIONS_NODE @ MUTATIONS_RECONCILE @
     MUTATIONS_CHANNELS @ MUTATIONS_CRYPTO @ MUTATIONS_STORE @ MUTATIONS_PURGE"

section \<open>No entry is idle\<close>

text \<open>What every entry must satisfy: it changes its anchor, and an expected survivor has an argument.\<close>

definition entry_sound :: "mutation \<Rightarrow> bool" where
  "entry_sound mu \<longleftrightarrow> mu_old mu \<noteq> [] \<and> mu_old mu \<noteq> mu_new mu \<and> (mu_survives mu \<longrightarrow> mu_why mu \<noteq> [])"

text \<open>
  Texts of lines differ when a line does. A line with no line feed in it ends where the next begins.
\<close>

abbreviation one_line :: "string \<Rightarrow> bool" where
  "one_line l \<equiv> CHR 0x0A \<notin> set l"

lemma lit_eq [simp]: "lit s = lit t \<longleftrightarrow> s = t"
  by (auto simp: lit_def inj_map_eq_map inj_def)

lemma lit_Nil_iff [simp]: "lit s = [] \<longleftrightarrow> s = []"
  by (simp add: lit_def)

lemma text_of_Nil_iff [simp]: "text_of (l # ls) = [] \<longleftrightarrow> l = [] \<and> ls = []"
  by (cases ls) auto

lemma line_feed_in_lit: "10 \<in> set (lit l) \<longleftrightarrow> \<not> one_line l"
proof -
  have "of_char (CHR 0x0A) = (10 :: nat)" by simp
  then have "(10 :: nat) = of_char c \<longleftrightarrow> c = CHR 0x0A" for c
    using of_char_eq_iff [of c "CHR 0x0A", where 'a = nat] by auto
  then show ?thesis by (auto simp: lit_def image_iff)
qed

lemma first_line: "one_line l \<Longrightarrow> takeWhile (\<lambda>c. c \<noteq> 10) (lit l @ 10 # t) = lit l"
  using line_feed_in_lit [of l] by (subst takeWhile_append2) auto

lemma text_of_lines [simp]:
  "text_of (l # m # ls) = text_of (l # m' # ls') \<longleftrightarrow> text_of (m # ls) = text_of (m' # ls')"
  "one_line l \<Longrightarrow> lit l \<noteq> text_of (m # n # ls)"
  "one_line l \<Longrightarrow> text_of (m # n # ls) \<noteq> lit l"
  "one_line l \<Longrightarrow> one_line m \<Longrightarrow> l \<noteq> m \<Longrightarrow> text_of (l # l' # ls) \<noteq> text_of (m # m' # ms)"
proof -
  show "text_of (l # m # ls) = text_of (l # m' # ls') \<longleftrightarrow> text_of (m # ls) = text_of (m' # ls')" by simp
  have "10 \<in> set (text_of (m # n # ls))" by simp
  then show "one_line l \<Longrightarrow> lit l \<noteq> text_of (m # n # ls)" "one_line l \<Longrightarrow> text_of (m # n # ls) \<noteq> lit l"
    using line_feed_in_lit by metis+
  show "one_line l \<Longrightarrow> one_line m \<Longrightarrow> l \<noteq> m \<Longrightarrow> text_of (l # l' # ls) \<noteq> text_of (m # m' # ms)"
    using first_line [of l "text_of (l' # ls)"] first_line [of m "text_of (m' # ms)"] by (metis lit_eq text_of.simps(3))
qed

lemma swapped_loops: "INPUTS_LOOP @ 10 # OUTPUTS_LOOP \<noteq> OUTPUTS_LOOP @ 10 # INPUTS_LOOP" "INPUTS_LOOP \<noteq> []"
  by code_simp+

lemma mut_sound [simp]:
  "entry_sound (mut module describes old new) \<longleftrightarrow> old \<noteq> [] \<and> old \<noteq> new"
  "entry_sound ((mut module describes old new)\<lparr>mu_survives := True, mu_why := why\<rparr>) \<longleftrightarrow> old \<noteq> [] \<and> old \<noteq> new \<and> why \<noteq> []"
  by (simp_all add: entry_sound_def mut_def)

lemma mutations_parsing_sound: "list_all entry_sound MUTATIONS_PARSING"
  by (simp add: MUTATIONS_PARSING_def swapped_loops del: text_of.simps(3))

lemma mutations_matching_sound: "list_all entry_sound MUTATIONS_MATCHING"
  by (simp add: MUTATIONS_MATCHING_def swapped_loops del: text_of.simps(3))

lemma mutations_node_sound: "list_all entry_sound MUTATIONS_NODE"
  by (simp add: MUTATIONS_NODE_def swapped_loops del: text_of.simps(3))

lemma mutations_reconcile_sound: "list_all entry_sound MUTATIONS_RECONCILE"
  by (simp add: MUTATIONS_RECONCILE_def swapped_loops del: text_of.simps(3))

lemma mutations_channels_sound: "list_all entry_sound MUTATIONS_CHANNELS"
  by (simp add: MUTATIONS_CHANNELS_def swapped_loops del: text_of.simps(3))

lemma mutations_crypto_sound: "list_all entry_sound MUTATIONS_CRYPTO"
  by (simp add: MUTATIONS_CRYPTO_def swapped_loops del: text_of.simps(3))

lemma mutations_store_sound: "list_all entry_sound MUTATIONS_STORE"
  by (simp add: MUTATIONS_STORE_def swapped_loops del: text_of.simps(3))

lemma mutations_purge_sound: "list_all entry_sound MUTATIONS_PURGE"
  by (simp add: MUTATIONS_PURGE_def swapped_loops del: text_of.simps(3))

lemma mutations_sound: "mu \<in> set MUTATIONS \<Longrightarrow> entry_sound mu"
  using mutations_parsing_sound mutations_matching_sound mutations_node_sound mutations_reconcile_sound mutations_channels_sound mutations_crypto_sound mutations_store_sound mutations_purge_sound
  by (auto simp: MUTATIONS_def list_all_iff)

text \<open>
  Replacing an anchor that is there changes the text, so a sweep over the table never reports
  that a mutation changes nothing: an entry is stale, or not Python, or it is put to the test.
\<close>

lemma apply_mutation_changes:
  assumes "entry_sound mu"
  shows "apply_mutation mu original \<noteq> Some original"
proof
  assume "apply_mutation mu original = Some original"
  then have c: "contains_text (mu_old mu) original" and r: "replace_first (mu_old mu) (mu_new mu) original = original"
    by (auto simp: apply_mutation_def split: if_splits)
  from replace_first_exact [OF c, of "mu_new mu"] obtain a b where
    "original = a @ mu_old mu @ b" "replace_first (mu_old mu) (mu_new mu) original = a @ mu_new mu @ b" by blast
  with r assms show False by (simp add: entry_sound_def)
qed

theorem table_never_idle:
  assumes "mu \<in> set MUTATIONS" and "evaluate suite ast src mu m = (Inr r, m')"
  shows "oc_error r \<noteq> Some Changes_nothing"
proof -
  note n = apply_mutation_changes [OF mutations_sound [OF assms(1)]]
  from assms(2) obtain original m1 where
    k: "(case apply_mutation mu original of
         None \<Rightarrow> ret \<lparr>oc_mutation = mu, oc_caught = False, oc_failing = [], oc_error = Some Stale\<rparr>
       | Some mutated \<Rightarrow>
           if mutated = original then ret \<lparr>oc_mutation = mu, oc_caught = False, oc_failing = [], oc_error = Some Changes_nothing\<rparr>
           else case ast mutated of
               Some message \<Rightarrow> ret \<lparr>oc_mutation = mu, oc_caught = False, oc_failing = [], oc_error = Some (Not_python message)\<rparr>
             | None \<Rightarrow>
                 bind (write_text Journal (journal_text (source_path src mu) original)) (\<lambda>_.
                 bind (try_finally
                   (bind (write_text (Source (source_path src mu)) mutated) (\<lambda>_. run_pytest suite))
                   (bind (write_text (Source (source_path src mu)) original) (\<lambda>_. unlink_journal))) (\<lambda>(passed, failing).
                 ret \<lparr>oc_mutation = mu, oc_caught = \<not> passed, oc_failing = failing, oc_error = None\<rparr>))) m1 = (Inr r, m')"
    unfolding evaluate_def Let_def by (elim bind_returnsE) (rule that, assumption)
  then show ?thesis using n [of original]
    by (auto simp: bind_returns_iff split: option.splits if_splits)
qed

end
