(* ===== verification/Spec2Isabelle.thy ===== *)
theory Spec2Isabelle
  imports Tx_Roundtrip Store_Index Store_Properties Supervisor_Races Supervisor_Shutdown Fake_Node Subscribe Nostr_Channel Fixtures Gap_Proof Mutation_Table
begin

text \<open>
  A verification development for coldwatch, a service that watches Bitcoin scripts on behalf of
  tenants and alerts them when coins arrive or leave. All paths below are under
  \<open>src/src/coldwatch/\<close>.

  \<^bold>\<open>The program.\<close> A node publishes raw transactions and raw blocks over ZeroMQ; \<open>subscribe.py\<close>
  reads the two sockets and hands decoded messages to \<open>match/stream.py\<close>. There a tracker of the
  publisher's counters (\<open>match/sequence.py\<close>) notices losses, a transaction from the mempool is
  matched and remembered in memory, and a block is folded into the record: the matcher
  (\<open>match/matcher.py\<close>) asks a watch index which items a script or an outpoint belongs to and tells
  it which coins they gain and lose. The index sees keyed hashes only (\<open>match/keys.py\<close>); it is a
  dictionary in tests and the SQLite store (\<open>storage/store.py\<close>) in the service. Between a block
  and the record stands the follower of the chain (\<open>reconcile.py\<close>), which fetches the blocks the
  stream lost through the node's RPC (\<open>node/rpc.py\<close>). New items get a baseline from a queue of
  \<open>scantxoutset\<close> calls that a worker thread serves (\<open>node/supervisor.py\<close>). Alerts leave by email
  or as Nostr messages wrapped twice (\<open>channels/\<close>). Beside the service stand the tools its
  developers rely on (\<open>src/tools/\<close>): a node to develop against, recorded streams and their
  replay, a sweep that breaks the sources to test the tests, and a proof run against a real node
  that a gap is closed.

  \<^bold>\<open>Conventions\<close> (Prelude). A method that may raise is a function from its object's state to
  \<open>Inl\<close> an exception or \<open>Inr\<close> a value, and the state it leaves behind (type \<open>py\<close>, combinators
  \<open>bind\<close>, \<open>ret\<close>, \<open>throw\<close>, \<open>for_each\<close>); a function that may raise is a sum. \<open>exn\<close> has the program's
  exceptions and those of Python it can meet. Bytes are lists of 8-bit words, a text is a list
  of code points (\<open>py_str\<close>), a string whose content is Latin-1 or ASCII an Isabelle string,
  Python's integers are \<open>int\<close>, and the ciphers work on 32-bit words that wrap.

  \<^bold>\<open>Parts and theories.\<close>
  \<^item> Bytes, Sha256, Json, Utf8, Base64, Json_Text, Json_Reader: what the program uses of the standard
    library (\<open>bytes\<close>, \<open>hashlib\<close>, \<open>hmac\<close>, \<open>json\<close>, \<open>str.encode\<close>, \<open>base64\<close>). Json_Text writes JSON and
    shows that the text determines the value; Json_Reader is the scanner of \<open>json.loads\<close>, which
    reads back what either style of \<open>dumps\<close> wrote and refuses an object that was cut short.
    Digest_Examples has the digests of a small chain, for an example.
  \<^item> Keys: \<open>match/keys.py\<close>, sub-keys and keyed hashes; HKDF is RFC 5869's.
  \<^item> Tx, Tx_Roundtrip, Block: \<open>match/tx.py\<close> and \<open>match/block.py\<close>; every well-formed transaction and
    block is read back, every other input ends in the errors the lemmas list.
  \<^item> Sequence: \<open>match/sequence.py\<close>; the count of lost messages is exact through a wrap.
  \<^item> Watch_Index, Provisional, Matcher: the three classes of \<open>match/matcher.py\<close>. The protocol
    \<open>WatchIndex\<close> is a record of operations, its laws the locale \<open>watch_index\<close>; the lemmas of the
    matcher and of everything above it are proved inside it.
  \<^item> Ingest: \<open>match/stream.py\<close>, over any index and any \<open>expand_block\<close> hook. Reconcile: \<open>reconcile.py\<close>,
    over an RPC that may answer anything. Service: the two composed, and what a stream that
    loses messages leaves in the record.
  \<^item> Chacha20, Poly1305, Aead: \<open>crypto/\<close>; the cipher and the tag of RFC 8439 and what they seal.
  \<^item> Store, Store_Invariant, Store_Steps, Store_Index, Store_Properties: \<open>storage/store.py\<close> and
    \<open>storage/schema.py\<close>. Tables are lists of rows, a statement is a function of the database and a
    transaction restores it when a statement raises. Random tokens, nonces, the clock and what
    SQLite answers to \<open>VACUUM\<close> and the checkpoint are arguments; no other statement is taken to meet a
    lock. Store_Invariant states \<open>db_ok\<close> and shows that every
    method keeps it, Store_Steps lifts it to all reachable databases, Store_Index interprets
    \<open>watch_index\<close> on the store, so that all of the matcher's lemmas hold of the service.
  \<^item> Rpc: \<open>node/rpc.py\<close>, with the credentials of the environment; what the network answers is a
    parameter.
  \<^item> Supervisor, Supervisor_Safety, Supervisor_Properties, Supervisor_Races, Supervisor_Shutdown:
    \<open>node/supervisor.py\<close> as a step relation \<open>sup_step\<close> whose steps are what one of the threads (callers,
    worker, closer) does between two points where another can interfere: the test of the stop flag and the
    \<open>get\<close> behind it, the look at a future and its resolution are steps of their own. The invariant
    \<open>sup_ok\<close> accounts for every future, those included that a cancellation between the last two leaves behind;
    Supervisor_Races has the runs in which that and other races happen. A time limit may be over at any
    moment, and the node may answer anything. A running batch is resolved in one step, since only the
    worker touches a running future; one thread calls \<open>start\<close> at a time.
  \<^item> Fake_Node: \<open>src/tools/fake_rpc.py\<close>, the node the service is developed against, joined to the
    RPC client and the supervisor.
  \<^item> Sweep: \<open>src/tools/mutate.py\<close>. The disk is the sources and the journal; every write passes
    through its partial contents and may fail at any of them, so that a kill at any moment is a
    state the machine has been in. \<open>left_behind\<close> collects the disks that killed runs leave.
    Mutation_Table: the table of mutations itself, of which no entry is idle.
  \<^item> Fixtures: \<open>src/tools/make_fixtures.py\<close> and \<open>src/tools/replay_zmq.py\<close>, joined to the decoder of
    \<open>subscribe.py\<close> and the ingest: what is generated is written, read, published and tracked.
  \<^item> Gap_Proof: \<open>src/tools/induced_gap_proof.py\<close>, over any node, joined to the follower and the ingest.
  \<^item> Subscribe: \<open>subscribe.py\<close> from the received parts on, and its loop.
  \<^item> Channels: \<open>channels/base.py\<close> and \<open>channels/email.py\<close>, with the contract of \<open>send\<close> as the locale
    \<open>channel\<close>, interpreted on both channels.
  \<^item> Bech32, Nip44, Giftwrap, Nostr_Channel: \<open>channels/nostr/\<close>. The curve arithmetic of
    \<open>coincurve\<close> is a record of parameters; Giftwrap states the laws it documents, and a toy
    curve that satisfies them. A relay is a function from the frame it is sent to a session:
    a clock and what each \<open>recv\<close> gives.
  \<^item> Spec2Isabelle (this theory): the service over the store.

  \<^bold>\<open>What the groups of properties show.\<close> The record: over any database that method calls can
  have produced, a stream that loses messages and an honest node leave exactly the coins of the
  whole chain; only chains are applied; the mempool never writes; failures are loud. The
  parsers and encodings: round trips, exact acceptance, exact errors. The store: only tracked
  items have coins, only proven channels are alerted, stopping and purging are final and touch
  nothing else. The crypto: what is sealed opens and nothing else does. The supervisor: no
  request is answered twice, and none is forgotten but by a cancellation that kills the stopping
  worker; a baseline is exact, closing resolves everything a worker that has returned did not, unless
  a cancellation ends it, and stopping takes a bounded number of the worker's steps. The channels: no
  label changes what an alert announces, a wrapped message opens for its recipient and
  verifies, a delivery ends, its result is what the relays said, and no text of theirs is in it.
  The tools: the next sweep undoes what a killed one left and its status is 0 exactly when every
  mutation fared as its table says, the fixture with gaps shows exactly its gaps, and the gap
  proof finds a coin when there is one and judges an honest node by the coins that are left.

  \<^bold>\<open>Bounds.\<close> Loops over data are structural or have a measure, so nothing needs fuel. The one
  loop that need not end, waiting for a relay, is a \<open>partial_function\<close> to an option, and
  \<open>nostr_send_ends\<close> is the proof that it ends once the clock passes the deadline. Texts are
  bounded where the code's formats bound them: \<open>2\<^sup>20\<close> characters for a wrapped message (its two
  layers then stay below the \<open>2\<^sup>32\<close> bytes of NIP-44), 20 digits for a time stamp. The reader of JSON
  takes the depth at which Python gives up with \<open>RecursionError\<close> as an argument; a text that nests
  no deeper is read, and the journal and the fixtures nest one level.
  \<open>math.log2\<close> is the exact logarithm, which it is for lengths below \<open>2\<^sup>32\<close>.

  \<^bold>\<open>Not modelled.\<close> Opening, configuring and closing sockets and connections
  (\<open>Subscriber._socket\<close> and \<open>close\<close>, \<open>_default_connect\<close>, TLS), signal and \<open>atexit\<close> registration
  (\<open>install_signal_handlers\<close>), the parsing of URLs, the header folding of \<open>EmailMessage\<close>, what
  the tools print and their command lines: input and output or libraries. Where the service
  receives JSON from the network its decoded value or its failure is an argument; the tools'
  own files are read by Json_Reader. \<open>coincurve\<close>, \<open>websocket-client\<close> (its exceptions by
  the names of their types), \<open>smtplib\<close>, \<open>pyzmq\<close>, what SQLite answers to \<open>VACUUM\<close> and the checkpoint, pytest, \<open>ast.parse\<close>, the random generator and the conversion of text to floats are
  parameters. A database that another process keeps locked beyond the busy timeout, which makes any other
  statement raise \<open>OperationalError\<close>, is left out. The loop of \<open>subscribe.py\<close> is given its passes;
  a list without a \<open>stop\<close> is the beginning of a run. The sweep's writes are taken to reach the disk in the order they are made (it does
  not call \<open>fsync\<close>), and pytest not to write the sources.
\<close>

section \<open>The service over the SQLite store\<close>

definition ex_store_service :: "(store, unit) service" where
  "ex_store_service = new_ingest \<lparr>m_k = zeros 32, m_index = ex_store, m_prov = m_prov ex_matcher\<rparr>
     new_tracker False \<lparr>se_maxlen = 10, se_txids = [], se_evicted = 0\<rparr>
     (new_follower () (Some \<lparr>tip_hash = raw_hash ex_block, tip_height = 0\<rparr>) 144)"

text \<open>
  C1: the sockets feed an exact record. Take any database that method calls can have produced,
  with the service's tip at block \<open>i\<close>, an honest node, and whatever the two sockets give in the
  passes of the loop until \<open>stop\<close>. If the decodable messages are a stream of the chain that
  loses any blocks, up to the ceiling at a time, the loop raises nothing, the coins it leaves
  for the tracked items are those of every transaction of every block from the tip to the last
  delivered block in chain order, the database is still consistent and the undecodable
  messages have been counted.
\<close>

theorem sockets_to_record:
  assumes "open_store path keys mode empty_db = Inr s0" and "store_steps s0 (index_of (sb_ingest s))"
    and "delivers ch cap i (decoded (attended passes)) j" and "valid_chain ch" and "serves call ch"
    and "at_height ch i (ig_expand (sb_ingest s))" and "fo_max_catch_up (ig_expand (sb_ingest s)) = cap"
  shows "\<exists>s'. sub_run (handle store_ops (Some (blocks_to_apply call))) True passes s = (Inr (), s')
    \<and> db_ok (st_db (index_of (sb_ingest s')))
    \<and> holdings store_ops (index_of (sb_ingest s')) =
        fold (confirm_tx (key_of (sb_ingest s)) (watched store_ops (index_of (sb_ingest s))))
          (chain_txs ch i j) (holdings store_ops (index_of (sb_ingest s)))
    \<and> at_height ch j (ig_expand (sb_ingest s'))
    \<and> sb_malformed s' = sb_malformed s + int (undecodable (attended passes))"
proof -
  from sq.service_lossy [OF assms(3-7) steps_ok [OF assms(2) open_store_ok [OF assms(1)]]] obtain ms g where
    r: "run store_ops (Some (blocks_to_apply call)) (decoded (attended passes)) (sb_ingest (s\<lparr>sb_stopping := False\<rparr>)) = (Inr ms, g)"
    and g: "db_ok (st_db (index_of g))" "at_height ch j (ig_expand g)"
      "holdings store_ops (index_of g) = fold (confirm_tx (key_of (sb_ingest s)) (watched store_ops (index_of (sb_ingest s))))
          (chain_txs ch i j) (holdings store_ops (index_of (sb_ingest s)))"
    unfolding service_run_def by auto
  from loop_run [OF r] obtain s' where
    "sub_loop (handle store_ops (Some (blocks_to_apply call))) True passes (s\<lparr>sb_stopping := False\<rparr>) = (Inr (), s')"
    "sb_ingest s' = g" "sb_malformed s' = sb_malformed s + int (undecodable (attended passes))" by auto
  with g show ?thesis by (intro exI [of _ s']) (simp add: sub_run_def py_simps)
qed

definition ex_raw :: "bytes list" where
  "ex_raw = [ascii ''rawtx'', ser_tx ex_wire, [5, 0, 0, 0]]"

lemma sockets_to_record_witness:
  "\<exists>s'. sub_run (handle store_ops (Some (blocks_to_apply ex_node))) True [([], [ex_raw, [[1]]], True)]
      (new_subscriber ex_store_service) = (Inr (), s')
    \<and> db_ok (st_db (index_of (sb_ingest s'))) \<and> at_height [ex_block] 0 (ig_expand (sb_ingest s')) \<and> sb_malformed s' = 1"
proof -
  let ?msg = "\<lparr>msg_topic = ''rawtx'', msg_body = ser_tx ex_wire, msg_seq = 5\<rparr>"
  let ?passes = "[([], [ex_raw, [[1]]], True)] :: (bytes list list \<times> bytes list list \<times> bool) list"
  let ?s = "new_subscriber ex_store_service"
  have "decode_ascii (ascii ''rawtx'') = Inr ''rawtx''" "parse_seq_part [5, 0, 0, 0] = Inr 5" by code_simp+
  then have p: "decode_parts ex_raw = Inr ?msg" by (simp add: decode_parts_def ex_raw_def)
  have q: "decode_parts [[1]] = Inl (ValueError ''not three parts'')" by (simp add: decode_parts_def)
  have m: "decoded (attended ?passes) = [?msg]" "undecodable (attended ?passes) = 1"
    by (simp_all add: decoded_def undecodable_def p q)
  have "length (ser_tx ex_wire) < 2 ^ 32" by (simp add: ex_wire_length)
  then have d: "delivers [ex_block] 144 0 (decoded (attended ?passes)) 0"
    unfolding m(1) by (intro delivers.other delivers.nothing)
       (simp_all add: TOPIC_BLOCK_def seq_in_range_def UINT32_def small_def)
  have i: "index_of ex_store_service = ex_store" and h: "at_height [ex_block] 0 (ig_expand (sb_ingest ?s))"
    and c: "fo_max_catch_up (ig_expand (sb_ingest ?s)) = 144"
    by (simp_all add: ex_store_service_def new_ingest_def new_follower_def at_height_def new_subscriber_def)
  have "store_steps ex_store (index_of (sb_ingest ?s))" by (simp add: i new_subscriber_def)
  from sockets_to_record [OF ex_store_open this d ex_block_valid h c] show ?thesis
    unfolding m(2) by (auto simp: new_subscriber_def)
qed

end
